(* ===== verification/Prelude.thy ===== *)
theory Prelude
  imports Main "HOL-Library.State_Monad" "HOL-Library.AList" "HOL-Library.Char_ord"
    "HOL-Library.List_Lexorder" "HOL-Library.Product_Lexorder"
begin

text \<open>
  Shared vocabulary of the development: Go's clock arithmetic, association lists that stand for
  Go maps, state-passing programs with their weakest preconditions, and the interface
  \<open>invariant_system\<close> that the components interpret.

  Conventions used everywhere.
  \<^item> \<open>time.Time\<close> and \<open>time.Duration\<close> are \<open>int\<close> counts of nanoseconds; \<open>UnixMilli\<close> is the
    flooring division by one million. The zero time is \<open>0\<close>.
  \<^item> A Go map that is only looked up and updated by key is an association list. The order of the
    list stands for the iteration order the runtime happens to choose: a statement over every
    list is a statement over every order.
  \<^item> A Go string is a \<open>string\<close>, compared bytewise (the lexicographic order of
    \<open>HOL-Library.List_Lexorder\<close>).
\<close>

section \<open>Clock arithmetic\<close>

type_synonym time_ns = int
type_synonym duration = int

definition go_second :: duration where
  "go_second = 1000000000"

definition go_millisecond :: duration where
  "go_millisecond = 1000000"

definition unix_ms :: "time_ns \<Rightarrow> int" where
  "unix_ms t = t div go_millisecond"

definition from_unix_ms :: "int \<Rightarrow> time_ns" where
  "from_unix_ms m = m * go_millisecond"

definition secs :: "int \<Rightarrow> duration" where
  "secs n = n * go_second"

lemma unix_ms_from_unix_ms [simp]: "unix_ms (from_unix_ms m) = m"
  by (simp add: unix_ms_def from_unix_ms_def go_millisecond_def)

lemma unix_ms_mono: "s \<le> t \<Longrightarrow> unix_ms s \<le> unix_ms t"
  by (simp add: unix_ms_def go_millisecond_def zdiv_mono1)

lemma secs_pos_iff [simp]: "0 < secs n \<longleftrightarrow> 0 < n"
  by (simp add: secs_def go_second_def)

lemma secs_le_iff [simp]: "secs m \<le> secs n \<longleftrightarrow> m \<le> n"
  by (simp add: secs_def go_second_def)

lemma secs_nonneg_iff [simp]: "0 \<le> secs n \<longleftrightarrow> 0 \<le> n"
  by (simp add: secs_def go_second_def)

section \<open>Association lists as maps\<close>

abbreviation lookup :: "('k \<times> 'v) list \<Rightarrow> 'k \<Rightarrow> 'v option" where
  "lookup \<equiv> map_of"

definition keys :: "('k \<times> 'v) list \<Rightarrow> 'k list" where
  "keys m = map fst m"

lemma lookup_update [simp]:
  "lookup (AList.update k v m) k' = (if k' = k then Some v else lookup m k')"
  by (simp add: update_conv')

lemma lookup_delete [simp]:
  "lookup (AList.delete k m) k' = (if k' = k then None else lookup m k')"
  by (simp add: delete_conv')

lemma set_keys [simp]: "set (keys m) = dom (lookup m)"
  by (simp add: keys_def dom_map_of_conv_image_fst)

lemma keys_update_present: "k \<in> dom (lookup m) \<Longrightarrow> keys (AList.update k v m) = keys m"
  by (auto simp: keys_def update_keys dom_map_of_conv_image_fst)

lemma distinct_keys_update: "distinct (keys m) \<Longrightarrow> distinct (keys (AList.update k v m))"
  by (simp add: keys_def distinct_update)

lemma distinct_keys_delete: "distinct (keys m) \<Longrightarrow> distinct (keys (AList.delete k m))"
  by (simp add: keys_def distinct_delete)

lemma set_update_vals: "(k', v') \<in> set (AList.update k v m) \<Longrightarrow> (k' = k \<and> v' = v) \<or> (k', v') \<in> set m"
  by (induction m) (auto split: if_splits)

definition map_vals :: "('k \<Rightarrow> 'v \<Rightarrow> 'u) \<Rightarrow> ('k \<times> 'v) list \<Rightarrow> ('k \<times> 'u) list" where
  "map_vals f m = map (\<lambda>(k, v). (k, f k v)) m"

lemma keys_map_vals [simp]: "keys (map_vals f m) = keys m"
  by (simp add: keys_def map_vals_def split_def comp_def)

lemma lookup_map_vals [simp]: "lookup (map_vals f m) k = map_option (f k) (lookup m k)"
  by (induction m) (auto simp: map_vals_def)

text \<open>Filtering and deleting, and what they leave.\<close>

lemma fold_delete: "fold AList.delete ks m = filter (\<lambda>e. fst e \<notin> set ks) m"
  by (induction ks arbitrary: m) (auto simp: AList.delete_eq intro: filter_cong)

lemma lookup_filter_keys: "lookup (filter (\<lambda>e. fst e \<notin> K) m) k = (if k \<in> K then None else lookup m k)"
  by (induction m) auto

lemma lookup_filter_vals:
  "distinct (keys m) \<Longrightarrow> lookup (filter P m) k = (case lookup m k of None \<Rightarrow> None | Some v \<Rightarrow> if P (k, v) then Some v else None)"
  by (induction m) (auto simp: keys_def map_of_eq_None_iff[symmetric] split: option.splits)

lemma distinct_keys_filter: "distinct (keys m) \<Longrightarrow> distinct (keys (filter P m))"
  by (auto simp: keys_def distinct_map_filter)

lemma length_delete: "distinct (keys m) \<Longrightarrow> k \<in> set (keys m) \<Longrightarrow> length (AList.delete k m) + 1 = length m"
proof (induction m)
  case (Cons e m)
  then show ?case
  proof (cases "k = fst e")
    case True
    with Cons.prems show ?thesis by (cases e) (auto simp: keys_def delete_idem)
  next
    case False
    with Cons show ?thesis by (cases e) (auto simp: keys_def)
  qed
qed (simp add: keys_def)

lemma length_update_le: "length (AList.update k w m) \<le> length m + 1"
  by (induction m) auto

lemma length_fold_delete:
  assumes "distinct (keys m)" and "distinct ks" and "set ks \<subseteq> set (keys m)"
  shows "length (fold AList.delete ks m) + length ks = length m"
  using assms
proof (induction ks arbitrary: m)
  case (Cons k ks)
  have "length (AList.delete k m) + 1 = length m"
    using Cons.prems by (intro length_delete) auto
  then show ?case
    using Cons.IH[of "AList.delete k m"] Cons.prems by (auto simp: distinct_keys_delete dom_def subset_iff)
qed simp

section \<open>Sorted slices without adjacent duplicates\<close>

fun dedupe_adj :: "'a list \<Rightarrow> 'a list" where
  "dedupe_adj [] = []"
| "dedupe_adj [x] = [x]"
| "dedupe_adj (x # y # ys) = (if x = y then dedupe_adj (y # ys) else x # dedupe_adj (y # ys))"

lemma set_dedupe_adj [simp]: "set (dedupe_adj xs) = set xs"
  by (induction xs rule: dedupe_adj.induct) auto

lemma sorted_wrt_dedupe_adj: "sorted xs \<Longrightarrow> sorted_wrt (<) (dedupe_adj (xs :: 'a :: linorder list))"
proof (induction xs rule: dedupe_adj.induct)
  case (3 x y ys)
  show ?case
  proof (cases "x = y")
    case True
    with 3 show ?thesis by simp
  next
    case False
    with "3.prems" have "\<forall>z \<in> set (y # ys). x < z" by auto
    with False 3 show ?thesis by auto
  qed
qed auto

lemma dedupe_sort_eq: "dedupe_adj (sort xs) = sorted_list_of_set (set (xs :: 'a :: linorder list))"
proof -
  have "sorted_wrt (<) (dedupe_adj (sort xs))"
    by (rule sorted_wrt_dedupe_adj) simp
  then have "sorted (dedupe_adj (sort xs))" and "distinct (dedupe_adj (sort xs))"
    by (simp_all add: strict_sorted_iff)
  then show ?thesis
    by (intro sorted_distinct_set_unique) simp_all
qed

section \<open>State-passing programs\<close>

text \<open>
  Handlers that update several fields and call several ports are programs of the state monad of
  \<open>HOL-Library.State_Monad\<close>. \<open>wp\<close> is the weakest precondition of such a program; its rules
  follow the program text, so a property of a handler is proved by walking through it.
\<close>

definition gets :: "('s \<Rightarrow> 'a) \<Rightarrow> ('s, 'a) state" where
  "gets f = State (\<lambda>s. (f s, s))"

definition modify :: "('s \<Rightarrow> 's) \<Rightarrow> ('s, unit) state" where
  "modify f = State (\<lambda>s. ((), f s))"

abbreviation ret :: "'a \<Rightarrow> ('s, 'a) state" where
  "ret \<equiv> State_Monad.return"

abbreviation skip :: "('s, unit) state" where
  "skip \<equiv> State_Monad.return ()"

definition whenS :: "bool \<Rightarrow> ('s, unit) state \<Rightarrow> ('s, unit) state" where
  "whenS b m = (if b then m else skip)"

primrec forS :: "'a list \<Rightarrow> ('a \<Rightarrow> ('s, unit) state) \<Rightarrow> ('s, unit) state" where
  "forS [] f = skip"
| "forS (x # xs) f = do { f x; forS xs f }"

definition wp :: "('s, 'a) state \<Rightarrow> ('a \<Rightarrow> 's \<Rightarrow> bool) \<Rightarrow> 's \<Rightarrow> bool" where
  "wp m Q s = (case run_state m s of (a, s') \<Rightarrow> Q a s')"

named_theorems wp_simps \<open>weakest preconditions of the program constructors\<close>

lemma run_gets [simp]: "run_state (gets f) s = (f s, s)"
  by (simp add: gets_def)

lemma run_modify [simp]: "run_state (modify f) s = ((), f s)"
  by (simp add: modify_def)

lemma wp_return [wp_simps]: "wp (State_Monad.return a) Q s = Q a s"
  by (simp add: wp_def)

lemma wp_bind [wp_simps]: "wp (State_Monad.bind m f) Q s = wp m (\<lambda>a. wp (f a) Q) s"
  by (simp add: wp_def split: prod.split)

lemma wp_gets [wp_simps]: "wp (gets f) Q s = Q (f s) s"
  by (simp add: wp_def)

lemma wp_modify [wp_simps]: "wp (modify f) Q s = Q () (f s)"
  by (simp add: wp_def)

lemma wp_whenS [wp_simps]: "wp (whenS b m) Q s = (if b then wp m Q s else Q () s)"
  by (simp add: whenS_def wp_return)

text \<open>The first two again, as equations between predicates, for postconditions.\<close>

lemma wp_post:
  "wp (State_Monad.return a) Q = Q a"
  "wp (State_Monad.bind m f) Q = wp m (\<lambda>a. wp (f a) Q)"
  by (auto simp: fun_eq_iff wp_simps)

lemma wp_mono: "wp m Q s \<Longrightarrow> (\<And>a s'. Q a s' \<Longrightarrow> R a s') \<Longrightarrow> wp m R s"
  by (auto simp: wp_def split: prod.splits)

lemma wp_run: "wp m Q s \<longleftrightarrow> (\<forall>a s'. run_state m s = (a, s') \<longrightarrow> Q a s')"
  by (auto simp: wp_def split: prod.split)

lemma wp_forS:
  assumes "I s" and "\<And>x s. x \<in> set xs \<Longrightarrow> I s \<Longrightarrow> wp (f x) (\<lambda>_. I) s"
  shows "wp (forS xs f) (\<lambda>_. I) s"
  using assms
proof (induction xs arbitrary: s)
  case Nil
  then show ?case by (simp add: wp_simps)
next
  case (Cons x xs)
  then have "wp (f x) (\<lambda>_. I) s" by simp
  then have "wp (f x) (\<lambda>_. wp (forS xs f) (\<lambda>_. I)) s"
    by (rule wp_mono) (rule Cons.IH, auto intro: Cons.prems)
  then show ?case by (simp add: wp_simps)
qed

text \<open>Programs that keep a predicate, walked through by introduction rules.\<close>

definition keeps :: "('s \<Rightarrow> bool) \<Rightarrow> ('s, 'a) state \<Rightarrow> bool" where
  "keeps P p \<longleftrightarrow> (\<forall>s. P s \<longrightarrow> wp p (\<lambda>_. P) s)"

named_theorems keeps_intros \<open>programs that keep a predicate\<close>

lemma keepsI: "(\<And>s. P s \<Longrightarrow> wp p (\<lambda>_. P) s) \<Longrightarrow> keeps P p"
  by (simp add: keeps_def)

lemma keepsD: "keeps P p \<Longrightarrow> P s \<Longrightarrow> wp p (\<lambda>_. P) s"
  by (simp add: keeps_def)

lemma keeps_wp: "keeps P p \<Longrightarrow> P s \<Longrightarrow> (\<And>a s'. P s' \<Longrightarrow> Q a s') \<Longrightarrow> wp p Q s"
  by (rule wp_mono[OF keepsD])

lemma keeps_ret [keeps_intros]: "keeps P (State_Monad.return a)"
  by (simp add: keeps_def wp_simps)

lemma keeps_gets [keeps_intros]: "keeps P (gets f)"
  by (simp add: keeps_def wp_simps)

lemma keeps_bind [keeps_intros]: "keeps P p \<Longrightarrow> (\<And>a. keeps P (f a)) \<Longrightarrow> keeps P (State_Monad.bind p f)"
  unfolding keeps_def wp_bind by (blast intro: wp_mono)

lemma keeps_if [keeps_intros]: "(b \<Longrightarrow> keeps P p) \<Longrightarrow> (\<not> b \<Longrightarrow> keeps P q) \<Longrightarrow> keeps P (if b then p else q)"
  by simp

lemma keeps_option [keeps_intros]:
  "(x = None \<Longrightarrow> keeps P p) \<Longrightarrow> (\<And>a. x = Some a \<Longrightarrow> keeps P (q a)) \<Longrightarrow> keeps P (case x of None \<Rightarrow> p | Some a \<Rightarrow> q a)"
  by (cases x) auto

lemma keeps_prod [keeps_intros]:
  "(\<And>a b. x = (a, b) \<Longrightarrow> keeps P (q a b)) \<Longrightarrow> keeps P (case x of (a, b) \<Rightarrow> q a b)"
  by (cases x) auto

lemma keeps_sum [keeps_intros]:
  "(\<And>a. x = Inl a \<Longrightarrow> keeps P (p a)) \<Longrightarrow> (\<And>a. x = Inr a \<Longrightarrow> keeps P (q a))
     \<Longrightarrow> keeps P (case x of Inl a \<Rightarrow> p a | Inr a \<Rightarrow> q a)"
  by (cases x) auto

lemma keeps_let [keeps_intros]: "keeps P (f x) \<Longrightarrow> keeps P (let y = x in f y)"
  by simp

lemma keeps_whenS [keeps_intros]: "(b \<Longrightarrow> keeps P p) \<Longrightarrow> keeps P (whenS b p)"
  by (simp add: whenS_def keeps_ret)

lemma keeps_forS [keeps_intros]: "(\<And>x. x \<in> set xs \<Longrightarrow> keeps P (f x)) \<Longrightarrow> keeps P (forS xs f)"
  unfolding keeps_def by (blast intro: wp_forS)

lemma wp_conj: "wp p Q s \<Longrightarrow> wp p R s \<Longrightarrow> wp p (\<lambda>a s. Q a s \<and> R a s) s"
  by (simp add: wp_def split: prod.splits)

section \<open>Transition systems and their invariants\<close>

inductive reach :: "('s \<Rightarrow> bool) \<Rightarrow> ('s \<Rightarrow> 's \<Rightarrow> bool) \<Rightarrow> 's \<Rightarrow> bool" for start step where
  reach_start: "start s \<Longrightarrow> reach start step s"
| reach_step: "reach start step s \<Longrightarrow> step s t \<Longrightarrow> reach start step t"

text \<open>A component with a start predicate, a step relation and a predicate that every step keeps.\<close>

locale invariant_system =
  fixes start :: "'s \<Rightarrow> bool"
    and step :: "'s \<Rightarrow> 's \<Rightarrow> bool"
    and inv :: "'s \<Rightarrow> bool"
  assumes inv_start: "start s \<Longrightarrow> inv s"
    and inv_step: "inv s \<Longrightarrow> step s t \<Longrightarrow> inv t"
begin

lemma reach_inv: "reach start step s \<Longrightarrow> inv s"
  by (induction rule: reach.induct) (auto intro: inv_start inv_step)

lemma run_inv: "step\<^sup>*\<^sup>* s t \<Longrightarrow> inv s \<Longrightarrow> inv t"
  by (induction rule: rtranclp_induct) (auto intro: inv_step)

end

lemma reach_rtranclp: "step\<^sup>*\<^sup>* s t \<Longrightarrow> reach start step s \<Longrightarrow> reach start step t"
  by (induction rule: rtranclp_induct) (auto intro: reach.reach_step)

end
