(* ===== verification/Alarm_Types.thy ===== *)
theory Alarm_Types
  imports Prelude
begin

text \<open>
  The data of the alarm system: the wire-stable enumerations of \<open>pkg/hmenum/alarm.go\<close>, the
  configuration documents of \<open>internal/alarm/engine/config.go\<close>, the identity currency
  \<open>SecuritySourceRef\<close> of \<open>pkg/hmevent/security.go\<close> and the row types of the stores, with the
  pure functions the source defines on them.

  A Go string enumeration is a datatype with one constructor per declared token and a last
  constructor for any other text; the empty text, which the source uses as "unset", is that
  constructor applied to the empty string. A JSON column is a \<open>json_doc\<close>: empty text, text that
  does not decode, or the text of a document. Delays and trigger times are unbounded; the code
  multiplies them into 64-bit nanoseconds, which wraps for configured delays beyond 292 years.
\<close>

section \<open>Enumerations (pkg/hmenum/alarm.go)\<close>

datatype alarm_mode =
    ModeDisarmed | ModePerimeter | ModeFull | ModeNight | ModeVacation | ModeCustom
  | ModeOther string

abbreviation no_mode :: alarm_mode where
  "no_mode \<equiv> ModeOther ''''"

fun mode_valid :: "alarm_mode \<Rightarrow> bool" where
  "mode_valid (ModeOther _) = False"
| "mode_valid _ = True"

definition mode_armed :: "alarm_mode \<Rightarrow> bool" where
  "mode_armed m = (mode_valid m \<and> m \<noteq> ModeDisarmed)"

datatype zone_state =
    ZDisarmed | ZArming | ZArmed | ZPending | ZTriggered
  | ZOther string

abbreviation no_state :: zone_state where
  "no_state \<equiv> ZOther ''''"

fun state_valid :: "zone_state \<Rightarrow> bool" where
  "state_valid (ZOther _) = False"
| "state_valid _ = True"

datatype sensor_type =
    STDoor | STWindow | STMotion | STTamper | STHazard | STPanic
  | STOther string

fun sensor_type_valid :: "sensor_type \<Rightarrow> bool" where
  "sensor_type_valid (STOther _) = False"
| "sensor_type_valid _ = True"

datatype blocker_policy = PolicyBlock | PolicyWarn | PolicyIgnore | PolicyOther string

fun policy_valid :: "blocker_policy \<Rightarrow> bool" where
  "policy_valid (PolicyOther _) = False"
| "policy_valid _ = True"

datatype journal_class =
    JArm | JDisarm | JTrigger | JSilence | JBypass | JFault | JTest | JConfig | JMaintenance

datatype post_trigger_policy = PostReturnToArmed | PostDisarm | PostOther string

fun post_trigger_valid :: "post_trigger_policy \<Rightarrow> bool" where
  "post_trigger_valid (PostOther _) = False"
| "post_trigger_valid _ = True"

datatype central_loss_policy = LossAlert | LossTrigger | LossOther string

fun central_loss_valid :: "central_loss_policy \<Rightarrow> bool" where
  "central_loss_valid (LossOther _) = False"
| "central_loss_valid _ = True"

datatype security_class =
    ClassSmoke | ClassWater | ClassGas | ClassCO | ClassTamper | ClassBattery | ClassTechnical
  | ClassIntrusion | ClassPanic | ClassUnset

text \<open>The role decides the class for five of the six roles; a hazard stays unclassified.\<close>

fun security_class_for_sensor_type :: "sensor_type \<Rightarrow> security_class option" where
  "security_class_for_sensor_type STDoor = Some ClassIntrusion"
| "security_class_for_sensor_type STWindow = Some ClassIntrusion"
| "security_class_for_sensor_type STMotion = Some ClassIntrusion"
| "security_class_for_sensor_type STPanic = Some ClassPanic"
| "security_class_for_sensor_type STTamper = Some ClassTamper"
| "security_class_for_sensor_type STHazard = None"
| "security_class_for_sensor_type (STOther _) = None"

section \<open>JSON columns\<close>

datatype 'a json_doc = DocEmpty | DocBad | Doc 'a

section \<open>Configuration documents (engine/config.go)\<close>

record output_policy =
  op_silent :: bool
  op_exclude_outdoor :: bool
  op_smoke_sounders :: bool
  op_arm_disarm_chirps :: bool
  op_countdown_ticks :: bool

definition zero_output_policy :: output_policy where
  "zero_output_policy = \<lparr>op_silent = False, op_exclude_outdoor = False, op_smoke_sounders = False,
     op_arm_disarm_chirps = False, op_countdown_ticks = False\<rparr>"

record mode_config =
  mc_exit_delay_s :: int
  mc_entry_delay_s :: int
  mc_trigger_s :: int
  mc_pre_alarm_s :: int
  mc_max_retrigger :: int
  mc_outputs :: output_policy

definition zero_mode_config :: mode_config where
  "zero_mode_config = \<lparr>mc_exit_delay_s = 0, mc_entry_delay_s = 0, mc_trigger_s = 0,
     mc_pre_alarm_s = 0, mc_max_retrigger = 0, mc_outputs = zero_output_policy\<rparr>"

record blocker_policies =
  bp_open :: blocker_policy
  bp_unreachable :: blocker_policy
  bp_sabotage :: blocker_policy
  bp_low_battery :: blocker_policy

definition blockers_normalized :: "blocker_policies \<Rightarrow> blocker_policies" where
  "blockers_normalized p =
     (let def = (\<lambda>v d. if \<not> policy_valid v then d else v) in
      \<lparr>bp_open = def (bp_open p) PolicyBlock,
       bp_unreachable = def (bp_unreachable p) PolicyBlock,
       bp_sabotage = def (bp_sabotage p) PolicyBlock,
       bp_low_battery = def (bp_low_battery p) PolicyWarn\<rparr>)"

text \<open>A \<open>nil\<close> \<open>RequireDisarm\<close> pointer is \<open>None\<close>; \<open>RequireSilence\<close> is a map with default false.\<close>

record code_policy =
  cp_require_arm :: bool
  cp_require_disarm :: "bool option"
  cp_require_silence :: "(string \<times> bool) list"

datatype code_verb = VerbArm | VerbDisarm | VerbSilence | VerbOther string

fun code_policy_requires :: "code_policy \<Rightarrow> code_verb \<Rightarrow> string \<Rightarrow> bool" where
  "code_policy_requires p VerbArm source = cp_require_arm p"
| "code_policy_requires p VerbDisarm source =
     (case cp_require_disarm p of None \<Rightarrow> True | Some b \<Rightarrow> b)"
| "code_policy_requires p VerbSilence source =
     (case lookup (cp_require_silence p) source of None \<Rightarrow> False | Some b \<Rightarrow> b)"
| "code_policy_requires p (VerbOther _) source = False"

record alarm_schedule =
  as_time :: string
  as_days :: "int list"
  as_mode :: alarm_mode
  as_auto_arm :: bool

record zone_config =
  zc_modes :: "(alarm_mode \<times> mode_config) list"
  zc_post_trigger :: post_trigger_policy
  zc_auto_rearm_s :: int
  zc_central_loss :: central_loss_policy
  zc_blockers :: blocker_policies
  zc_code_policy :: code_policy
  zc_hazard_outputs :: output_policy
  zc_panic_outputs :: output_policy
  zc_schedules :: "alarm_schedule list"

text \<open>The value of an empty document \<open>{}\<close>, before normalisation.\<close>

definition zero_zone_config :: zone_config where
  "zero_zone_config = \<lparr>zc_modes = [], zc_post_trigger = PostOther '''', zc_auto_rearm_s = 0,
     zc_central_loss = LossOther '''',
     zc_blockers = \<lparr>bp_open = PolicyOther '''', bp_unreachable = PolicyOther '''',
       bp_sabotage = PolicyOther '''', bp_low_battery = PolicyOther ''''\<rparr>,
     zc_code_policy = \<lparr>cp_require_arm = False, cp_require_disarm = None, cp_require_silence = []\<rparr>,
     zc_hazard_outputs = zero_output_policy, zc_panic_outputs = zero_output_policy,
     zc_schedules = []\<rparr>"

definition normalize_zone_config :: "zone_config \<Rightarrow> zone_config" where
  "normalize_zone_config cfg = cfg\<lparr>
     zc_post_trigger := (if \<not> post_trigger_valid (zc_post_trigger cfg) then PostReturnToArmed
                         else zc_post_trigger cfg),
     zc_central_loss := (if \<not> central_loss_valid (zc_central_loss cfg) then LossAlert
                         else zc_central_loss cfg),
     zc_blockers := blockers_normalized (zc_blockers cfg)\<rparr>"

fun parse_zone_config :: "zone_config json_doc \<Rightarrow> zone_config option" where
  "parse_zone_config DocEmpty = Some (normalize_zone_config zero_zone_config)"
| "parse_zone_config DocBad = None"
| "parse_zone_config (Doc cfg) = Some (normalize_zone_config cfg)"

record sensor_config =
  sc_modes :: "alarm_mode list"
  sc_use_exit_delay :: bool
  sc_use_entry_delay :: bool
  sc_entry_delay_override :: "int option"
  sc_always_on :: bool
  sc_active_values :: "string list"
  sc_allow_open_after_arming :: bool
  sc_arm_after_closing :: bool
  sc_bypass_auto :: bool
  sc_trigger_when_unavailable :: bool
  sc_chime :: bool
  sc_hold_time_s :: int
  sc_group :: string
  sc_panic_silent :: bool

definition zero_sensor_config :: sensor_config where
  "zero_sensor_config = \<lparr>sc_modes = [], sc_use_exit_delay = False, sc_use_entry_delay = False,
     sc_entry_delay_override = None, sc_always_on = False, sc_active_values = [],
     sc_allow_open_after_arming = False, sc_arm_after_closing = False, sc_bypass_auto = False,
     sc_trigger_when_unavailable = False, sc_chime = False, sc_hold_time_s = 0, sc_group = '''',
     sc_panic_silent = False\<rparr>"

definition requires_always_on :: "sensor_type \<Rightarrow> bool" where
  "requires_always_on t = (t = STHazard)"

definition always_on_violated :: "sensor_type \<Rightarrow> sensor_config \<Rightarrow> bool" where
  "always_on_violated t cfg = (requires_always_on t \<and> \<not> sc_always_on cfg)"

definition in_mode :: "sensor_config \<Rightarrow> alarm_mode \<Rightarrow> bool" where
  "in_mode c mode = (mode \<in> set (sc_modes c))"

fun parse_sensor_config :: "sensor_config json_doc \<Rightarrow> sensor_config option" where
  "parse_sensor_config DocEmpty = Some zero_sensor_config"
| "parse_sensor_config DocBad = None"
| "parse_sensor_config (Doc cfg) = Some cfg"

definition default_trigger_s :: int where
  "default_trigger_s = 180"

definition max_trigger_s :: int where
  "max_trigger_s = 600"

definition default_restart_loop_breaker_k :: int where
  "default_restart_loop_breaker_k = 3"

definition arm_after_closing_debounce :: duration where
  "arm_after_closing_debounce = secs 5"

definition trigger_duration :: "mode_config \<Rightarrow> duration" where
  "trigger_duration m =
     (let s = mc_trigger_s m;
          s = (if s \<le> 0 then default_trigger_s else s);
          s = (if s > max_trigger_s then max_trigger_s else s)
      in secs s)"

definition entry_delay :: "mode_config \<Rightarrow> sensor_config \<Rightarrow> duration" where
  "entry_delay m sensor =
     (let s = mc_entry_delay_s m;
          s = (case sc_entry_delay_override sensor of None \<Rightarrow> s | Some d \<Rightarrow> d);
          s = (if s < 0 then 0 else s)
      in secs s)"

section \<open>Source references (pkg/hmevent/security.go)\<close>

record source_ref =
  sr_ref :: string
  sr_central :: string
  sr_interface :: string
  sr_channel :: string
  sr_device :: string
  sr_parameter :: string
  sr_sensor_id :: string
  sr_name :: string
  sr_sensor_type :: sensor_type
  sr_class :: security_class
  sr_at_ms :: int

definition empty_source_ref :: source_ref where
  "empty_source_ref = \<lparr>sr_ref = '''', sr_central = '''', sr_interface = '''', sr_channel = '''',
     sr_device = '''', sr_parameter = '''', sr_sensor_id = '''', sr_name = '''',
     sr_sensor_type = STOther '''', sr_class = ClassUnset, sr_at_ms = 0\<rparr>"

text \<open>\<open>strings.Cut(address, ":")\<close> keeps what stands before the first colon.\<close>

definition device_address :: "string \<Rightarrow> string" where
  "device_address address = takeWhile (\<lambda>c. c \<noteq> CHR '':'') address"

definition security_ref_key :: "string \<Rightarrow> string \<Rightarrow> string \<Rightarrow> string \<Rightarrow> string" where
  "security_ref_key central iface channel parameter =
     central @ ''|'' @ iface @ ''|'' @ channel @ ''|'' @ parameter"

fun split_at_bar :: "string \<Rightarrow> string list" where
  "split_at_bar [] = [[]]"
| "split_at_bar (c # cs) =
     (if c = CHR ''|'' then [] # split_at_bar cs
      else (case split_at_bar cs of [] \<Rightarrow> [[c]] | p # ps \<Rightarrow> (c # p) # ps))"

definition parse_security_ref_key ::
  "string \<Rightarrow> (string \<times> string \<times> string \<times> string) option" where
  "parse_security_ref_key ref =
     (case split_at_bar ref of [a, b, c, d] \<Rightarrow> Some (a, b, c, d) | _ \<Rightarrow> None)"

definition new_source_ref :: "string \<Rightarrow> string \<Rightarrow> string \<Rightarrow> string \<Rightarrow> source_ref" where
  "new_source_ref central iface channel parameter =
     empty_source_ref\<lparr>sr_ref := security_ref_key central iface channel parameter,
       sr_central := central, sr_interface := iface, sr_channel := channel,
       sr_device := device_address channel, sr_parameter := parameter\<rparr>"

definition source_ref_empty :: "source_ref \<Rightarrow> bool" where
  "source_ref_empty r = (sr_ref r = '''')"

section \<open>Rows and events\<close>

record sensor_row =
  row_id :: string
  row_zone_id :: string
  row_central :: string
  row_interface :: string
  row_channel :: string
  row_parameter :: string
  row_sensor_type :: sensor_type
  row_name :: string
  row_config :: "sensor_config json_doc"

record zone_row =
  zr_id :: string
  zr_name :: string
  zr_config :: "zone_config json_doc"

datatype cause_kind =
    CauseSensor | CausePendingElapsed | CauseCentralLost | CauseUnavailable | CauseDowntime
  | CauseAdopted | CauseHazard | CausePanic | CauseNone

record incident_cause =
  ca_kind :: cause_kind
  ca_sensor_id :: string
  ca_sensor_name :: string
  ca_central :: string
  ca_sensor_type :: sensor_type
  ca_interface :: string
  ca_channel :: string
  ca_parameter :: string

definition bare_cause :: "cause_kind \<Rightarrow> incident_cause" where
  "bare_cause k = \<lparr>ca_kind = k, ca_sensor_id = '''', ca_sensor_name = '''', ca_central = '''',
     ca_sensor_type = STOther '''', ca_interface = '''', ca_channel = '''', ca_parameter = ''''\<rparr>"

definition cause_from_sensor :: "cause_kind \<Rightarrow> sensor_row \<Rightarrow> incident_cause" where
  "cause_from_sensor k row =
     \<lparr>ca_kind = k, ca_sensor_id = row_id row, ca_sensor_name = row_name row,
      ca_central = row_central row, ca_sensor_type = row_sensor_type row,
      ca_interface = row_interface row, ca_channel = row_channel row,
      ca_parameter = row_parameter row\<rparr>"

definition cause_source_ref :: "incident_cause \<Rightarrow> int \<Rightarrow> source_ref" where
  "cause_source_ref c at_ms =
     (if ca_channel c = '''' then empty_source_ref
      else
        let ref = new_source_ref (ca_central c) (ca_interface c) (ca_channel c) (ca_parameter c);
            ref = ref\<lparr>sr_sensor_id := ca_sensor_id c, sr_name := ca_sensor_name c,
                      sr_sensor_type := ca_sensor_type c\<rparr>;
            ref = (case security_class_for_sensor_type (sr_sensor_type ref) of
                     None \<Rightarrow> ref | Some cl \<Rightarrow> ref\<lparr>sr_class := cl\<rparr>)
        in ref\<lparr>sr_at_ms := at_ms\<rparr>)"

datatype blocker_reason =
    ReasonBypassed | ReasonLowBattery | ReasonOpen | ReasonSabotage | ReasonUnreachable

text \<open>The wire tokens, whose order sorts the detail list.\<close>

fun reason_token :: "blocker_reason \<Rightarrow> string" where
  "reason_token ReasonOpen = ''open''"
| "reason_token ReasonUnreachable = ''unreachable''"
| "reason_token ReasonSabotage = ''sabotage''"
| "reason_token ReasonLowBattery = ''low_battery''"
| "reason_token ReasonBypassed = ''bypassed''"

record blocker_detail =
  bd_sensor_id :: string
  bd_name :: string
  bd_source :: source_ref
  bd_reason :: blocker_reason
  bd_blocking :: bool

record mode_readiness =
  rd_ready :: bool
  rd_blockers :: "string list"
  rd_warnings :: "string list"
  rd_details :: "blocker_detail list"

section \<open>Facts about the configuration\<close>

lemma blockers_normalized_valid:
  "policy_valid (bp_open (blockers_normalized p)) \<and> policy_valid (bp_unreachable (blockers_normalized p))
   \<and> policy_valid (bp_sabotage (blockers_normalized p))
   \<and> policy_valid (bp_low_battery (blockers_normalized p))"
  by (simp add: blockers_normalized_def Let_def)

lemma blockers_normalized_idem: "blockers_normalized (blockers_normalized p) = blockers_normalized p"
  by (simp add: blockers_normalized_def Let_def)

lemma normalize_zone_config_idem:
  "normalize_zone_config (normalize_zone_config c) = normalize_zone_config c"
  by (simp add: normalize_zone_config_def blockers_normalized_idem)

lemma trigger_duration_bounds: "secs 1 \<le> trigger_duration m \<and> trigger_duration m \<le> secs max_trigger_s"
  by (simp add: trigger_duration_def Let_def default_trigger_s_def max_trigger_s_def)

lemma trigger_duration_pos [simp]: "0 < trigger_duration m"
  by (simp add: trigger_duration_def Let_def default_trigger_s_def max_trigger_s_def)

lemma entry_delay_nonneg [simp]: "0 \<le> entry_delay m s"
  by (simp add: entry_delay_def Let_def)

lemma mode_armed_simps [simp]:
  "\<not> mode_armed ModeDisarmed" "mode_armed ModePerimeter" "mode_armed ModeFull"
  "mode_armed ModeNight" "mode_armed ModeVacation" "mode_armed ModeCustom"
  "\<not> mode_armed (ModeOther s)"
  by (simp_all add: mode_armed_def)

section \<open>The routing key and its inverse\<close>

lemma split_at_bar_plain: "CHR ''|'' \<notin> set s \<Longrightarrow> split_at_bar s = [s]"
  by (induction s) auto

lemma split_at_bar_join:
  "CHR ''|'' \<notin> set s \<Longrightarrow> split_at_bar (s @ CHR ''|'' # t) = s # split_at_bar t"
  by (induction s) auto

end
