(* ===== verification/Alarm_Stores.thy ===== *)
theory Alarm_Stores
  imports Alarm_Types
begin

text \<open>
  The persistence ports of the alarm engine, as the SQLite stores implement them
  (\<open>internal/store/sqlite/alarm_incidents.go\<close>, \<open>alarm_state.go\<close>, \<open>alarm_incident_sources.go\<close>,
  \<open>alarm_runtime.go\<close>). A table is the list of its rows; each statement of the source is a function
  on it. Whether a statement fails (a database error) is decided by the caller's world, not here.

  \<open>incident_store\<close> is the contract the engine relies on. Its client lemmas (a silence is never
  taken back, the first close wins, counters only grow) are proved from the contract, and the
  SQLite tables interpret it.
\<close>

section \<open>Incidents\<close>

record alarm_incident =
  ai_id :: int
  ai_zone :: string
  ai_mode :: alarm_mode
  ai_cause :: "incident_cause json_doc"
  ai_started_ms :: int
  ai_deadline_ms :: int
  ai_silenced :: bool
  ai_silenced_at_ms :: int
  ai_silenced_by :: string
  ai_cycles :: int
  ai_acoustic_ms :: int
  ai_refires :: int
  ai_closed_ms :: int
  ai_close_reason :: string

text \<open>\<open>INTEGER PRIMARY KEY AUTOINCREMENT\<close>: the next key is never one that was used before.\<close>

record incident_table =
  it_rows :: "alarm_incident list"
  it_next :: int

definition incident_create :: "alarm_incident \<Rightarrow> incident_table \<Rightarrow> int \<times> incident_table" where
  "incident_create inc t =
     (it_next t, t\<lparr>it_rows := it_rows t @ [inc\<lparr>ai_id := it_next t\<rparr>], it_next := it_next t + 1\<rparr>)"

definition incident_get :: "incident_table \<Rightarrow> int \<Rightarrow> alarm_incident option" where
  "incident_get t k = find (\<lambda>i. ai_id i = k) (it_rows t)"

definition incident_get_open_by_zone :: "incident_table \<Rightarrow> string \<Rightarrow> alarm_incident option" where
  "incident_get_open_by_zone t z =
     (case rev (sort_key ai_id (filter (\<lambda>i. ai_zone i = z \<and> ai_closed_ms i = 0) (it_rows t))) of
        [] \<Rightarrow> None | i # _ \<Rightarrow> Some i)"

definition incident_list_by_zone :: "incident_table \<Rightarrow> string \<Rightarrow> int \<Rightarrow> alarm_incident list" where
  "incident_list_by_zone t z limit =
     (let rows = rev (sort_key ai_id (filter (\<lambda>i. ai_zone i = z) (it_rows t)))
      in if limit > 0 then take (nat limit) rows else rows)"

definition update_where ::
  "(alarm_incident \<Rightarrow> bool) \<Rightarrow> (alarm_incident \<Rightarrow> alarm_incident) \<Rightarrow> incident_table \<Rightarrow> incident_table" where
  "update_where p f t = t\<lparr>it_rows := map (\<lambda>i. if p i then f i else i) (it_rows t)\<rparr>"

definition incident_mark_silenced :: "int \<Rightarrow> int \<Rightarrow> string \<Rightarrow> incident_table \<Rightarrow> incident_table" where
  "incident_mark_silenced k at_ms by =
     update_where (\<lambda>i. ai_id i = k)
       (\<lambda>i. i\<lparr>ai_silenced := True,
              ai_silenced_at_ms := (if ai_silenced i then ai_silenced_at_ms i else at_ms),
              ai_silenced_by := (if ai_silenced i then ai_silenced_by i else by)\<rparr>)"

definition incident_add_acoustic_ms :: "int \<Rightarrow> int \<Rightarrow> incident_table \<Rightarrow> incident_table" where
  "incident_add_acoustic_ms k delta =
     update_where (\<lambda>i. ai_id i = k) (\<lambda>i. i\<lparr>ai_acoustic_ms := ai_acoustic_ms i + delta\<rparr>)"

definition incident_increment_cycles :: "int \<Rightarrow> incident_table \<Rightarrow> incident_table" where
  "incident_increment_cycles k =
     update_where (\<lambda>i. ai_id i = k) (\<lambda>i. i\<lparr>ai_cycles := ai_cycles i + 1\<rparr>)"

definition incident_increment_refires :: "int \<Rightarrow> incident_table \<Rightarrow> incident_table" where
  "incident_increment_refires k =
     update_where (\<lambda>i. ai_id i = k) (\<lambda>i. i\<lparr>ai_refires := ai_refires i + 1\<rparr>)"

definition incident_set_deadline :: "int \<Rightarrow> int \<Rightarrow> incident_table \<Rightarrow> incident_table" where
  "incident_set_deadline k deadline =
     update_where (\<lambda>i. ai_id i = k) (\<lambda>i. i\<lparr>ai_deadline_ms := deadline\<rparr>)"

definition incident_close :: "int \<Rightarrow> int \<Rightarrow> string \<Rightarrow> incident_table \<Rightarrow> incident_table" where
  "incident_close k at_ms reason =
     update_where (\<lambda>i. ai_id i = k \<and> ai_closed_ms i = 0)
       (\<lambda>i. i\<lparr>ai_closed_ms := at_ms, ai_close_reason := reason\<rparr>)"

definition incident_purge_closed_before :: "int \<Rightarrow> incident_table \<Rightarrow> int \<times> incident_table" where
  "incident_purge_closed_before cutoff t =
     (let gone = (\<lambda>i. ai_closed_ms i > 0 \<and> ai_closed_ms i < cutoff)
      in (int (length (filter gone (it_rows t))), t\<lparr>it_rows := filter (\<lambda>i. \<not> gone i) (it_rows t)\<rparr>))"

definition incident_table_ok :: "incident_table \<Rightarrow> bool" where
  "incident_table_ok t =
     (distinct (map ai_id (it_rows t)) \<and> (\<forall>i \<in> set (it_rows t). 0 < ai_id i \<and> ai_id i < it_next t)
      \<and> 0 < it_next t)"

section \<open>The contract of the incident port\<close>

text \<open>
  The operations the engine calls, as one type, so that a client can speak about any sequence of
  them.
\<close>

datatype incident_op =
    OpCreate alarm_incident
  | OpSilence int int string
  | OpAcoustic int int
  | OpCycle int
  | OpRefire int
  | OpDeadline int int
  | OpClose int int string

locale incident_store =
  fixes exec :: "incident_op \<Rightarrow> 't \<Rightarrow> 't"
    and get :: "'t \<Rightarrow> int \<Rightarrow> alarm_incident option"
    and fresh :: "'t \<Rightarrow> int"
    and invar :: "'t \<Rightarrow> bool"
  assumes invar_exec: "invar t \<Longrightarrow> invar (exec op t)"
    and get_id: "invar t \<Longrightarrow> get t k = Some i \<Longrightarrow> ai_id i = k \<and> 0 < k"
    and get_fresh: "invar t \<Longrightarrow> get t (fresh t) = None"
    and get_create: "invar t \<Longrightarrow>
      get (exec (OpCreate inc) t) k = (if k = fresh t then Some (inc\<lparr>ai_id := k\<rparr>) else get t k)"
    and get_silence: "invar t \<Longrightarrow> get (exec (OpSilence j a b) t) k =
      map_option (\<lambda>i. if k = j then i\<lparr>ai_silenced := True,
          ai_silenced_at_ms := (if ai_silenced i then ai_silenced_at_ms i else a),
          ai_silenced_by := (if ai_silenced i then ai_silenced_by i else b)\<rparr> else i) (get t k)"
    and get_acoustic: "invar t \<Longrightarrow> get (exec (OpAcoustic j d) t) k =
      map_option (\<lambda>i. if k = j then i\<lparr>ai_acoustic_ms := ai_acoustic_ms i + d\<rparr> else i) (get t k)"
    and get_cycle: "invar t \<Longrightarrow> get (exec (OpCycle j) t) k =
      map_option (\<lambda>i. if k = j then i\<lparr>ai_cycles := ai_cycles i + 1\<rparr> else i) (get t k)"
    and get_refire: "invar t \<Longrightarrow> get (exec (OpRefire j) t) k =
      map_option (\<lambda>i. if k = j then i\<lparr>ai_refires := ai_refires i + 1\<rparr> else i) (get t k)"
    and get_deadline: "invar t \<Longrightarrow> get (exec (OpDeadline j d) t) k =
      map_option (\<lambda>i. if k = j then i\<lparr>ai_deadline_ms := d\<rparr> else i) (get t k)"
    and get_close: "invar t \<Longrightarrow> get (exec (OpClose j a r) t) k =
      map_option (\<lambda>i. if k = j \<and> ai_closed_ms i = 0 then i\<lparr>ai_closed_ms := a, ai_close_reason := r\<rparr>
                      else i) (get t k)"
begin

lemmas get_specs = get_create get_silence get_acoustic get_cycle get_refire get_deadline get_close

lemma exec_keeps:
  assumes "invar t" and "get t k = Some i"
  obtains i' where "get (exec op t) k = Some i'" and "ai_silenced i \<longrightarrow> ai_silenced i'"
    and "ai_cycles i \<le> ai_cycles i'" and "ai_refires i \<le> ai_refires i'"
    and "ai_closed_ms i \<noteq> 0 \<longrightarrow> ai_closed_ms i' = ai_closed_ms i \<and> ai_close_reason i' = ai_close_reason i"
    and "ai_silenced i \<longrightarrow> ai_silenced_at_ms i' = ai_silenced_at_ms i \<and> ai_silenced_by i' = ai_silenced_by i"
proof -
  have "k \<noteq> fresh t" using assms get_fresh by fastforce
  then show ?thesis using that assms by (cases op) (auto simp: get_specs split: if_splits)
qed

lemma exec_same_zone:
  assumes "invar t" and "get t k = Some i" and "get (exec op t) k = Some i'"
  shows "ai_zone i' = ai_zone i" and "ai_silenced i' \<Longrightarrow> \<not> ai_silenced i \<Longrightarrow> \<exists>a b. op = OpSilence k a b"
proof -
  have "k \<noteq> fresh t" using assms get_fresh by fastforce
  with assms have "ai_zone i' = ai_zone i \<and> (ai_silenced i' \<longrightarrow> \<not> ai_silenced i \<longrightarrow> (\<exists>a b. op = OpSilence k a b))"
    by (cases op) (auto simp: get_specs split: if_splits)
  then show "ai_zone i' = ai_zone i" and "ai_silenced i' \<Longrightarrow> \<not> ai_silenced i \<Longrightarrow> \<exists>a b. op = OpSilence k a b"
    by blast+
qed

lemma invar_fold: "invar t \<Longrightarrow> invar (fold exec ops t)"
  by (induction ops arbitrary: t) (auto intro: invar_exec)

lemma silence_one_way:
  "invar t \<Longrightarrow> get t k = Some i \<Longrightarrow> ai_silenced i \<Longrightarrow>
   \<exists>i'. get (fold exec ops t) k = Some i' \<and> ai_silenced i'
        \<and> ai_silenced_at_ms i' = ai_silenced_at_ms i \<and> ai_silenced_by i' = ai_silenced_by i"
proof (induction ops arbitrary: t i)
  case Nil
  then show ?case by simp
next
  case (Cons op ops)
  obtain j where "get (exec op t) k = Some j" and "ai_silenced j"
    and "ai_silenced_at_ms j = ai_silenced_at_ms i" and "ai_silenced_by j = ai_silenced_by i"
    using Cons.prems by (elim exec_keeps [of t k i op]) auto
  moreover have "invar (exec op t)" using Cons.prems(1) by (rule invar_exec)
  ultimately show ?case using Cons.IH by fastforce
qed

lemma first_close_wins:
  "invar t \<Longrightarrow> get t k = Some i \<Longrightarrow> ai_closed_ms i \<noteq> 0 \<Longrightarrow>
   \<exists>i'. get (fold exec ops t) k = Some i' \<and> ai_closed_ms i' = ai_closed_ms i
        \<and> ai_close_reason i' = ai_close_reason i"
proof (induction ops arbitrary: t i)
  case Nil
  then show ?case by simp
next
  case (Cons op ops)
  obtain j where "get (exec op t) k = Some j" and "ai_closed_ms j = ai_closed_ms i"
    and "ai_close_reason j = ai_close_reason i"
    using Cons.prems by (elim exec_keeps [of t k i op]) auto
  moreover have "invar (exec op t)" using Cons.prems(1) by (rule invar_exec)
  ultimately show ?case using Cons.IH Cons.prems(3) by fastforce
qed

lemma counters_grow:
  "invar t \<Longrightarrow> get t k = Some i \<Longrightarrow>
   \<exists>i'. get (fold exec ops t) k = Some i' \<and> ai_cycles i \<le> ai_cycles i' \<and> ai_refires i \<le> ai_refires i'"
proof (induction ops arbitrary: t i)
  case Nil
  then show ?case by simp
next
  case (Cons op ops)
  obtain j where "get (exec op t) k = Some j" and "ai_cycles i \<le> ai_cycles j"
    and "ai_refires i \<le> ai_refires j"
    using Cons.prems by (elim exec_keeps [of t k i op]) auto
  moreover have "invar (exec op t)" using Cons.prems(1) by (rule invar_exec)
  ultimately show ?case using Cons.IH by fastforce
qed

end

section \<open>The SQLite tables implement the contract\<close>

fun incident_exec :: "incident_op \<Rightarrow> incident_table \<Rightarrow> incident_table" where
  "incident_exec (OpCreate inc) t = snd (incident_create inc t)"
| "incident_exec (OpSilence k a b) t = incident_mark_silenced k a b t"
| "incident_exec (OpAcoustic k d) t = incident_add_acoustic_ms k d t"
| "incident_exec (OpCycle k) t = incident_increment_cycles k t"
| "incident_exec (OpRefire k) t = incident_increment_refires k t"
| "incident_exec (OpDeadline k d) t = incident_set_deadline k d t"
| "incident_exec (OpClose k a r) t = incident_close k a r t"

lemmas incident_op_defs = incident_create_def incident_mark_silenced_def
  incident_add_acoustic_ms_def incident_increment_cycles_def incident_increment_refires_def
  incident_set_deadline_def incident_close_def

lemma find_map_keep:
  "(\<And>i. ai_id (f i) = ai_id i) \<Longrightarrow>
   find (\<lambda>i. ai_id i = k) (map f xs) = map_option f (find (\<lambda>i. ai_id i = k) xs)"
  by (induction xs) auto

lemma incident_get_update_where:
  "(\<And>i. ai_id (f i) = ai_id i) \<Longrightarrow>
   incident_get (update_where p f t) k = map_option (\<lambda>i. if p i then f i else i) (incident_get t k)"
  by (simp add: incident_get_def update_where_def find_map_keep)

lemma incident_get_id: "incident_get t k = Some i \<Longrightarrow> ai_id i = k \<and> i \<in> set (it_rows t)"
  by (auto simp: incident_get_def find_Some_iff)

lemma incident_table_ok_update_where:
  "(\<And>i. ai_id (f i) = ai_id i) \<Longrightarrow> incident_table_ok t \<Longrightarrow> incident_table_ok (update_where p f t)"
proof -
  assume f: "\<And>i. ai_id (f i) = ai_id i" and ok: "incident_table_ok t"
  have "map ai_id (it_rows (update_where p f t)) = map ai_id (it_rows t)"
    using f by (simp add: update_where_def)
  moreover have "it_next (update_where p f t) = it_next t"
    by (simp add: update_where_def)
  moreover have "\<forall>i \<in> set (it_rows (update_where p f t)). \<exists>j \<in> set (it_rows t). ai_id i = ai_id j"
    using f by (auto simp: update_where_def)
  ultimately show ?thesis using ok unfolding incident_table_ok_def by metis
qed

lemma incident_table_ok_exec: "incident_table_ok t \<Longrightarrow> incident_table_ok (incident_exec op t)"
proof (cases op)
  case (OpCreate inc)
  assume "incident_table_ok t"
  then show ?thesis
    by (auto simp: OpCreate incident_create_def incident_table_ok_def)
qed (simp_all add: incident_op_defs incident_table_ok_update_where)

lemma find_append: "find p (xs @ ys) = (case find p xs of None \<Rightarrow> find p ys | Some x \<Rightarrow> Some x)"
  by (induction xs) auto

lemma incident_get_next: "incident_table_ok t \<Longrightarrow> incident_get t (it_next t) = None"
  by (auto simp: incident_get_def incident_table_ok_def find_None_iff)

lemma incident_get_mapped:
  "(\<And>i. ai_id (f i) = ai_id i) \<Longrightarrow>
   incident_get (update_where (\<lambda>i. ai_id i = j) f t) k =
     map_option (\<lambda>i. if k = j then f i else i) (incident_get t k)"
  by (cases "incident_get t k") (auto simp: incident_get_update_where dest: incident_get_id)

interpretation sqlite: incident_store incident_exec incident_get it_next incident_table_ok
proof (unfold_locales, goal_cases)
  case (1 t op)
  then show ?case by (rule incident_table_ok_exec)
next
  case (2 t k i)
  then show ?case by (auto simp: incident_table_ok_def dest: incident_get_id)
next
  case (3 t)
  then show ?case by (rule incident_get_next)
next
  case (4 t inc k)
  then show ?case
    using incident_get_next [OF 4]
    by (auto simp: incident_get_def incident_create_def find_append split: option.split)
next
  case (10 t j a r k)
  then show ?case
    by (cases "incident_get t k") (auto simp: incident_close_def incident_get_update_where dest: incident_get_id)
qed (simp_all add: incident_op_defs incident_get_mapped)

section \<open>Zone states, source ledger, boot counter\<close>

datatype timer_kind = TKExit | TKEntry | TKTrigger | TKPreAlarm | TKAutoRearm | TKOther string

abbreviation no_timer :: timer_kind where
  "no_timer \<equiv> TKOther ''''"

record persisted_timer =
  pt_kind :: timer_kind
  pt_deadline_ms :: int
  pt_remaining_ms :: int
  pt_persisted_at_ms :: int
  pt_boot_count :: int

record zone_context =
  zx_open_at_arm :: "string list"
  zx_pending_cause :: string
  zx_silenced_incident :: int
  zx_pre_trigger_state :: zone_state
  zx_pre_trigger_mode :: alarm_mode
  zx_pre_alarm :: bool
  zx_auto_rearm_mode :: alarm_mode

definition empty_context :: zone_context where
  "empty_context = \<lparr>zx_open_at_arm = [], zx_pending_cause = '''', zx_silenced_incident = 0,
     zx_pre_trigger_state = no_state, zx_pre_trigger_mode = no_mode, zx_pre_alarm = False,
     zx_auto_rearm_mode = no_mode\<rparr>"

record state_row =
  st_zone :: string
  st_state :: zone_state
  st_mode :: alarm_mode
  st_bypass :: "string list json_doc"
  st_incident :: int
  st_timers :: "persisted_timer list json_doc"
  st_context :: "zone_context json_doc"
  st_updated_ms :: int

type_synonym state_table = "(string \<times> state_row) list"

definition state_upsert :: "state_row \<Rightarrow> state_table \<Rightarrow> state_table" where
  "state_upsert row t = AList.update (st_zone row) row t"

definition state_get :: "state_table \<Rightarrow> string \<Rightarrow> state_row option" where
  "state_get t z = lookup t z"

definition state_delete :: "string \<Rightarrow> state_table \<Rightarrow> state_table" where
  "state_delete z t = AList.delete z t"

lemma state_get_upsert [simp]:
  "state_get (state_upsert row t) z = (if z = st_zone row then Some row else state_get t z)"
  by (simp add: state_get_def state_upsert_def)

lemma state_get_delete [simp]:
  "state_get (state_delete z t) z' = (if z' = z then None else state_get t z')"
  by (simp add: state_get_def state_delete_def)

record source_row =
  so_id :: int
  so_incident :: int
  so_zone :: string
  so_ref :: source_ref
  so_cause :: cause_kind

record ledger_table =
  lt_rows :: "source_row list"
  lt_next :: int

text \<open>\<open>ON CONFLICT(incident_id, ref) DO NOTHING\<close>.\<close>

definition ledger_append :: "source_row \<Rightarrow> ledger_table \<Rightarrow> ledger_table" where
  "ledger_append row t =
     (if \<exists>r \<in> set (lt_rows t). so_incident r = so_incident row \<and> sr_ref (so_ref r) = sr_ref (so_ref row)
      then t
      else t\<lparr>lt_rows := lt_rows t @ [row\<lparr>so_id := lt_next t\<rparr>], lt_next := lt_next t + 1\<rparr>)"

definition ledger_list_by_incident :: "ledger_table \<Rightarrow> int \<Rightarrow> source_row list" where
  "ledger_list_by_incident t k =
     sort_key (\<lambda>r. (sr_at_ms (so_ref r), so_id r)) (filter (\<lambda>r. so_incident r = k) (lt_rows t))"

definition ledger_purge_orphans :: "incident_table \<Rightarrow> ledger_table \<Rightarrow> int \<times> ledger_table" where
  "ledger_purge_orphans it t =
     (let gone = (\<lambda>r. so_incident r \<notin> set (map ai_id (it_rows it)))
      in (int (length (filter gone (lt_rows t))), t\<lparr>lt_rows := filter (\<lambda>r. \<not> gone r) (lt_rows t)\<rparr>))"

definition ledger_ok :: "ledger_table \<Rightarrow> bool" where
  "ledger_ok t = distinct (map (\<lambda>r. (so_incident r, sr_ref (so_ref r))) (lt_rows t))"

lemma ledger_ok_append: "ledger_ok t \<Longrightarrow> ledger_ok (ledger_append row t)"
  by (auto simp: ledger_ok_def ledger_append_def)

definition increment_boot_count :: "int \<Rightarrow> int" where
  "increment_boot_count n = n + 1"

end
