(* ===== verification/Alarm_World.thy ===== *)
theory Alarm_World
  imports Alarm_Stores
begin

text \<open>
  The runtime state of one alarm zone (\<open>engine/zone.go\<close>), the world the engine acts on through
  its ports (\<open>engine/ports.go\<close>), and the primitive port calls.

  \<^item> \<open>zone\<close> has the fields of the Go struct. A \<open>cancel func()\<close> that is \<open>nil\<close> or not is a boolean
    (\<open>ztimer_on\<close>, \<open>zdebounce_on\<close>, \<open>zauto_rearm_on\<close>, \<open>ztick_on\<close>, \<open>ss_hold_on\<close>); a set kept as
    \<open>map[string]bool\<close> is the list of its keys; the \<open>uint64\<close> sequence numbers are naturals.
  \<^item> \<open>world\<close> holds what lies behind the ports: the wall clock, the persistent stores, the
    callbacks handed to the timer scheduler, the outcomes of the port calls still to come, and
    the trace of all calls made so far, newest first. \<open>time.Now()\<close> is constant while one entry
    point holds the engine lock; it changes between entry points.
  \<^item> A port call that can fail takes its outcome from \<open>w_faults\<close> (true means "returns an error");
    an exhausted list means success. Failures of the journal, the event sink and chirps are only
    logged by the source and change nothing, so those calls have no outcome.
  \<^item> A scheduled callback is never removed from \<open>w_sched\<close> by a cancel: a callback may be in
    flight when its timer is cancelled, and the engine guards against it with sequence numbers.
\<close>

section \<open>Zone state (engine/zone.go)\<close>

record sensor_state =
  ss_row :: sensor_row
  ss_cfg :: sensor_config
  ss_active :: bool
  ss_active_known :: bool
  ss_available :: bool
  ss_sabotage :: bool
  ss_low_battery :: bool
  ss_hold_on :: bool
  ss_hold_seq :: nat

definition new_sensor :: "sensor_row \<Rightarrow> sensor_config \<Rightarrow> sensor_state" where
  "new_sensor row cfg = \<lparr>ss_row = row, ss_cfg = cfg, ss_active = False, ss_active_known = False,
     ss_available = True, ss_sabotage = False, ss_low_battery = False, ss_hold_on = False,
     ss_hold_seq = 0\<rparr>"

definition cancel_hold :: "sensor_state \<Rightarrow> sensor_state" where
  "cancel_hold s = s\<lparr>ss_hold_on := False, ss_hold_seq := ss_hold_seq s + 1\<rparr>"

record walk_session =
  ws_started_at :: time_ns
  ws_seen :: "(string \<times> time_ns) list"

record zone =
  zid :: string
  zname :: string
  zcfg :: zone_config
  zsensors :: "(string \<times> sensor_state) list"
  zstate :: zone_state
  zmode :: alarm_mode
  zbypassed :: "string list"
  zincident :: "alarm_incident option"
  zsources :: "source_ref list"
  zsource_seen :: "string list"
  zopen_at_arm :: "string list"
  zpending_cause :: string
  zsilenced_incident :: int
  ztimer_kind :: timer_kind
  ztimer_deadline :: time_ns
  ztimer_remaining :: duration
  ztimer_on :: bool
  ztimer_seq :: nat
  zpre_trigger_state :: zone_state
  zpre_trigger_mode :: alarm_mode
  zpre_alarm :: bool
  zdebounce_on :: bool
  zdebounce_seq :: nat
  zauto_rearm_on :: bool
  zauto_rearm_seq :: nat
  zauto_rearm_deadline :: time_ns
  zauto_rearm_mode :: alarm_mode
  ztick_on :: bool
  ztick_seq :: nat
  zgroup_hits :: "(string \<times> (string \<times> time_ns) list) list"
  zreadiness :: "(alarm_mode \<times> mode_readiness) list option"
  zwalk :: "walk_session option"

text \<open>The literal with which \<open>loadConfig\<close> and \<open>Reload\<close> create a zone.\<close>

definition new_zone :: "string \<Rightarrow> string \<Rightarrow> zone_config \<Rightarrow> zone" where
  "new_zone i n cfg = \<lparr>zid = i, zname = n, zcfg = cfg, zsensors = [], zstate = ZDisarmed,
     zmode = ModeDisarmed, zbypassed = [], zincident = None, zsources = [], zsource_seen = [],
     zopen_at_arm = [], zpending_cause = '''', zsilenced_incident = 0, ztimer_kind = no_timer,
     ztimer_deadline = 0, ztimer_remaining = 0, ztimer_on = False, ztimer_seq = 0,
     zpre_trigger_state = no_state, zpre_trigger_mode = no_mode, zpre_alarm = False,
     zdebounce_on = False, zdebounce_seq = 0, zauto_rearm_on = False, zauto_rearm_seq = 0,
     zauto_rearm_deadline = 0, zauto_rearm_mode = no_mode, ztick_on = False, ztick_seq = 0,
     zgroup_hits = [], zreadiness = None, zwalk = None\<rparr>"

text \<open>\<open>a.cfg.Modes[mode]\<close>: the zero configuration for a mode that is not configured.\<close>

definition mode_cfg :: "zone \<Rightarrow> alarm_mode \<Rightarrow> mode_config" where
  "mode_cfg z m = (case lookup (zc_modes (zcfg z)) m of None \<Rightarrow> zero_mode_config | Some c \<Rightarrow> c)"

definition sources_copy :: "zone \<Rightarrow> source_ref list" where
  "sources_copy z = zsources z"

definition reset_sources :: "zone \<Rightarrow> zone" where
  "reset_sources z = z\<lparr>zsources := [], zsource_seen := []\<rparr>"

definition reset_to_disarmed :: "zone \<Rightarrow> zone" where
  "reset_to_disarmed z = z\<lparr>zstate := ZDisarmed, zmode := ModeDisarmed, zbypassed := [],
     zopen_at_arm := [], zpending_cause := '''', zpre_trigger_state := no_state,
     zpre_trigger_mode := no_mode, zpre_alarm := False\<rparr>"

definition cancel_ticks :: "zone \<Rightarrow> zone" where
  "cancel_ticks z = z\<lparr>ztick_on := False, ztick_seq := ztick_seq z + 1\<rparr>"

definition cancel_debounce :: "zone \<Rightarrow> zone" where
  "cancel_debounce z = z\<lparr>zdebounce_on := False, zdebounce_seq := zdebounce_seq z + 1\<rparr>"

definition cancel_timers :: "zone \<Rightarrow> zone" where
  "cancel_timers z =
     cancel_ticks (cancel_debounce
       (z\<lparr>ztimer_on := False, ztimer_kind := no_timer, ztimer_seq := ztimer_seq z + 1\<rparr>))"

definition cancel_auto_rearm :: "zone \<Rightarrow> zone" where
  "cancel_auto_rearm z =
     z\<lparr>zauto_rearm_on := False, zauto_rearm_seq := zauto_rearm_seq z + 1, zauto_rearm_mode := no_mode\<rparr>"

definition encode_bypass :: "zone \<Rightarrow> string list json_doc" where
  "encode_bypass z = Doc (sort (zbypassed z))"

fun decode_bypass :: "string list json_doc \<Rightarrow> string list" where
  "decode_bypass DocEmpty = []"
| "decode_bypass DocBad = []"
| "decode_bypass (Doc ids) = remdups ids"

definition encode_context :: "zone \<Rightarrow> zone_context json_doc" where
  "encode_context z = Doc \<lparr>zx_open_at_arm = sort (zopen_at_arm z),
     zx_pending_cause = zpending_cause z, zx_silenced_incident = zsilenced_incident z,
     zx_pre_trigger_state = zpre_trigger_state z, zx_pre_trigger_mode = zpre_trigger_mode z,
     zx_pre_alarm = zpre_alarm z, zx_auto_rearm_mode = zauto_rearm_mode z\<rparr>"

fun decode_context :: "zone_context json_doc \<Rightarrow> zone_context" where
  "decode_context DocEmpty = empty_context"
| "decode_context DocBad = empty_context"
| "decode_context (Doc c) = c"

record zone_snapshot =
  sn_id :: string
  sn_name :: string
  sn_state :: zone_state
  sn_mode :: alarm_mode
  sn_bypassed :: "string list"
  sn_incident_id :: int
  sn_incident_silenced :: bool
  sn_readiness :: "(alarm_mode \<times> mode_readiness) list"
  sn_timer_kind :: timer_kind
  sn_timer_remaining :: duration
  sn_timer_total :: duration

definition snapshot :: "zone \<Rightarrow> time_ns \<Rightarrow> zone_snapshot" where
  "snapshot z now =
     \<lparr>sn_id = zid z, sn_name = zname z, sn_state = zstate z, sn_mode = zmode z,
      sn_bypassed = sort (zbypassed z),
      sn_incident_id = (case zincident z of None \<Rightarrow> 0 | Some i \<Rightarrow> ai_id i),
      sn_incident_silenced = (case zincident z of None \<Rightarrow> False | Some i \<Rightarrow> ai_silenced i),
      sn_readiness = (case zreadiness z of None \<Rightarrow> [] | Some r \<Rightarrow> r),
      sn_timer_kind = (if ztimer_on z then ztimer_kind z else no_timer),
      sn_timer_remaining =
        (if ztimer_on z \<and> ztimer_deadline z - now > 0 then ztimer_deadline z - now else 0),
      sn_timer_total = (if ztimer_on z then ztimer_remaining z else 0)\<rparr>"

section \<open>Ports (engine/ports.go, engine/timers.go)\<close>

fun is_countdown_timer_kind :: "timer_kind \<Rightarrow> bool" where
  "is_countdown_timer_kind TKExit = True"
| "is_countdown_timer_kind TKEntry = True"
| "is_countdown_timer_kind _ = False"

definition encode_timers :: "persisted_timer list \<Rightarrow> persisted_timer list json_doc" where
  "encode_timers ts = Doc ts"

fun decode_timers :: "persisted_timer list json_doc \<Rightarrow> persisted_timer list" where
  "decode_timers DocEmpty = []"
| "decode_timers DocBad = []"
| "decode_timers (Doc ts) = ts"

definition min_plausible_wall_ms :: int where
  "min_plausible_wall_ms = 1767225600000"

definition clock_skew_tolerance_ms :: int where
  "clock_skew_tolerance_ms = 120000"

definition clock_plausible :: "int \<Rightarrow> int \<Rightarrow> bool" where
  "clock_plausible now_ms persisted_at_ms =
     (if now_ms < min_plausible_wall_ms then False
      else if persisted_at_ms > 0 \<and> now_ms < persisted_at_ms - clock_skew_tolerance_ms then False
      else True)"

datatype jval =
    JVStr string | JVInt int | JVBool bool | JVStrs "string list" | JVError
  | JVMode alarm_mode | JVCause cause_kind

record journal_entry =
  je_zone :: string
  je_class :: journal_class
  je_event :: string
  je_actor :: string
  je_source :: string
  je_incident :: int
  je_hidden :: bool
  je_details :: "(string \<times> jval) list"

definition entry :: "journal_class \<Rightarrow> string \<Rightarrow> journal_entry" where
  "entry c e = \<lparr>je_zone = '''', je_class = c, je_event = e, je_actor = '''', je_source = '''',
     je_incident = 0, je_hidden = False, je_details = []\<rparr>"

record fire_options =
  fo_cycle :: int
  fo_degraded :: bool
  fo_restored :: bool
  fo_pre_alarm :: bool
  fo_policy :: output_policy
  fo_zone_name :: string
  fo_sources :: "source_ref list"

definition zero_fire_options :: fire_options where
  "zero_fire_options = \<lparr>fo_cycle = 0, fo_degraded = False, fo_restored = False,
     fo_pre_alarm = False, fo_policy = zero_output_policy, fo_zone_name = '''', fo_sources = []\<rparr>"

datatype chirp_kind =
    ChirpArmSquawk | ChirpDisarmSquawk | ChirpCountdownTick | ChirpEntryWarning | ChirpChime

record chirp_request =
  ch_kind :: chirp_kind
  ch_remaining :: duration
  ch_total :: duration

definition chirp_of :: "chirp_kind \<Rightarrow> chirp_request" where
  "chirp_of k = \<lparr>ch_kind = k, ch_remaining = 0, ch_total = 0\<rparr>"

text \<open>Event payloads, in the order of the Go struct's fields without the timestamp base.\<close>

datatype alarm_event =
    EvStateChanged string string zone_state zone_state alarm_mode string string int
  | EvTriggered string string int string string cause_kind alarm_mode "source_ref list"
  | EvDuress string string code_verb string string int
  | EvCountdown string timer_kind int int
  | EvReadiness string "(alarm_mode \<times> mode_readiness) list"
  | EvWalkTest string string string int int

datatype effect =
    EFire string alarm_incident fire_options
  | EStopAll string int
  | EChirp string chirp_request
  | EJournal journal_entry
  | EPublish alarm_event
  | EIncident incident_op bool
  | EStateUpsert state_row bool
  | EStateDelete string bool
  | ELedgerAppend source_row bool
  | EMotionReset sensor_row bool
  | ESpawnMotionReset string string string

datatype callback =
    CbState string nat
  | CbDebounce string nat string
  | CbTick string nat timer_kind duration
  | CbAutoRearm string nat
  | CbHold string string nat

datatype engine_error =
    ErrUnknownZone | ErrUnknownMode | ErrInvalidState | ErrNoIncident | ErrInvalidCode
  | ErrNotReady "string list" "blocker_detail list"
  | ErrWalkTestActive | ErrAlreadyStarted | ErrNotStarted
  | ErrLoadState string | ErrLoadZones | ErrLoadSensors | ErrValidatorFailed

text \<open>
  Ports that only answer: the sensor reader (\<open>(active, known)\<close>), the code validator and duress
  matcher, the writable-RESET_MOTION predicate. \<open>None\<close> is an unwired port.
\<close>

record deps =
  dp_reader :: "(sensor_row \<Rightarrow> bool \<times> bool) option"
  dp_validator :: "(string \<Rightarrow> code_verb \<Rightarrow> string \<Rightarrow> string \<Rightarrow> engine_error + (string \<times> bool)) option"
  dp_duress :: "(string \<Rightarrow> code_verb \<Rightarrow> string \<Rightarrow> string \<Rightarrow> string \<times> bool) option"
  dp_ledger :: bool
  dp_motion :: "(sensor_row \<Rightarrow> bool) option"
  dp_loop_breaker_k :: int

record world =
  w_now :: time_ns
  w_boot :: int
  w_boot_row :: int
  w_deps :: deps
  w_faults :: "bool list"
  w_zone_rows :: "zone_row list"
  w_sensor_rows :: "sensor_row list"
  w_incidents :: incident_table
  w_states :: state_table
  w_ledger :: ledger_table
  w_trace :: "effect list"
  w_sched :: "(callback \<times> time_ns) list"

section \<open>Primitive programs\<close>

text \<open>A handler runs on one zone and the world.\<close>

record ctx =
  cz :: zone
  cw :: world

type_synonym 'a prog = "(ctx, 'a) state"

definition getz :: "zone prog" where
  "getz = gets cz"

definition getw :: "world prog" where
  "getw = gets cw"

definition modz :: "(zone \<Rightarrow> zone) \<Rightarrow> unit prog" where
  "modz f = modify (\<lambda>s. s\<lparr>cz := f (cz s)\<rparr>)"

definition modw :: "(world \<Rightarrow> world) \<Rightarrow> unit prog" where
  "modw f = modify (\<lambda>s. s\<lparr>cw := f (cw s)\<rparr>)"

definition emit :: "effect \<Rightarrow> unit prog" where
  "emit e = modw (\<lambda>w. w\<lparr>w_trace := e # w_trace w\<rparr>)"

definition port_fails :: "bool prog" where
  "port_fails = do {
     w \<leftarrow> getw;
     case w_faults w of
       [] \<Rightarrow> ret False
     | b # bs \<Rightarrow> do { modw (\<lambda>w. w\<lparr>w_faults := bs\<rparr>); ret b }
   }"

definition journal_entry_append :: "journal_entry \<Rightarrow> unit prog" where
  "journal_entry_append e = do { z \<leftarrow> getz; emit (EJournal (e\<lparr>je_zone := zid z\<rparr>)) }"

definition journal_fault :: "string \<Rightarrow> bool \<Rightarrow> int \<Rightarrow> unit prog" where
  "journal_fault event has_error incident_id =
     journal_entry_append ((entry JFault event)\<lparr>je_incident := incident_id,
       je_details := (if has_error then [(''error'', JVError)] else [])\<rparr>)"

definition publish :: "alarm_event \<Rightarrow> unit prog" where
  "publish ev = emit (EPublish ev)"

text \<open>One call of the incident store: true when it succeeded.\<close>

definition incident_call :: "incident_op \<Rightarrow> bool prog" where
  "incident_call op = do {
     bad \<leftarrow> port_fails;
     emit (EIncident op (\<not> bad));
     whenS (\<not> bad) (modw (\<lambda>w. w\<lparr>w_incidents := incident_exec op (w_incidents w)\<rparr>));
     ret (\<not> bad)
   }"

text \<open>\<open>outputs.StopAll\<close> with the fault entry every caller writes on an error.\<close>

definition stop_all :: "int \<Rightarrow> unit prog" where
  "stop_all incident_id = do {
     z \<leftarrow> getz;
     bad \<leftarrow> port_fails;
     emit (EStopAll (zid z) incident_id);
     whenS bad (journal_fault ''output_stop_failed'' True incident_id)
   }"

definition chirp :: "chirp_request \<Rightarrow> unit prog" where
  "chirp req = do { z \<leftarrow> getz; emit (EChirp (zid z) req) }"

definition fire_cycle :: "alarm_incident \<Rightarrow> fire_options \<Rightarrow> unit prog" where
  "fire_cycle inc opts = do {
     z \<leftarrow> getz;
     bad \<leftarrow> port_fails;
     emit (EFire (zid z) inc (opts\<lparr>fo_zone_name := zname z, fo_sources := sources_copy z\<rparr>));
     whenS bad (journal_fault ''output_fire_failed'' True (ai_id inc))
   }"

definition incident_id_of :: "zone \<Rightarrow> int" where
  "incident_id_of z = (case zincident z of None \<Rightarrow> 0 | Some i \<Rightarrow> ai_id i)"

definition timer_tuples :: "zone \<Rightarrow> time_ns \<Rightarrow> int \<Rightarrow> persisted_timer list" where
  "timer_tuples z now boot =
     (if ztimer_on z then
        [\<lparr>pt_kind = ztimer_kind z, pt_deadline_ms = unix_ms (ztimer_deadline z),
          pt_remaining_ms = max (ztimer_deadline z - now) 0 div go_millisecond,
          pt_persisted_at_ms = unix_ms now, pt_boot_count = boot\<rparr>]
      else []) @
     (if zauto_rearm_on z then
        [\<lparr>pt_kind = TKAutoRearm, pt_deadline_ms = unix_ms (zauto_rearm_deadline z),
          pt_remaining_ms = max (zauto_rearm_deadline z - now) 0 div go_millisecond,
          pt_persisted_at_ms = unix_ms now, pt_boot_count = boot\<rparr>]
      else [])"

definition state_row_of :: "zone \<Rightarrow> time_ns \<Rightarrow> int \<Rightarrow> state_row" where
  "state_row_of z now boot =
     \<lparr>st_zone = zid z, st_state = zstate z, st_mode = zmode z, st_bypass = encode_bypass z,
      st_incident = incident_id_of z, st_timers = encode_timers (timer_tuples z now boot),
      st_context = encode_context z, st_updated_ms = unix_ms now\<rparr>"

definition persist :: "unit prog" where
  "persist = do {
     z \<leftarrow> getz;
     w \<leftarrow> getw;
     let row = state_row_of z (w_now w) (w_boot w);
     bad \<leftarrow> port_fails;
     emit (EStateUpsert row (\<not> bad));
     if bad then journal_entry_append ((entry JFault ''state_persist_failed'')\<lparr>
         je_details := [(''error'', JVError)]\<rparr>)
     else modw (\<lambda>w. w\<lparr>w_states := state_upsert row (w_states w)\<rparr>)
   }"

definition publish_state :: "zone_state \<Rightarrow> string \<Rightarrow> string \<Rightarrow> unit prog" where
  "publish_state from_state by source = do {
     z \<leftarrow> getz;
     publish (EvStateChanged (zid z) (zname z) from_state (zstate z) (zmode z) by source
       (incident_id_of z))
   }"

definition schedule :: "callback \<Rightarrow> duration \<Rightarrow> unit prog" where
  "schedule cb d = modw (\<lambda>w. w\<lparr>w_sched := (cb, w_now w + d) # w_sched w\<rparr>)"

definition schedule_state_timer :: "timer_kind \<Rightarrow> duration \<Rightarrow> unit prog" where
  "schedule_state_timer kind d = do {
     w \<leftarrow> getw;
     modz (\<lambda>z. z\<lparr>ztimer_seq := ztimer_seq z + 1, ztimer_kind := kind,
                 ztimer_deadline := w_now w + d, ztimer_remaining := d, ztimer_on := True\<rparr>);
     z \<leftarrow> getz;
     schedule (CbState (zid z) (ztimer_seq z)) d
   }"

definition schedule_arm_close_debounce :: "string \<Rightarrow> unit prog" where
  "schedule_arm_close_debounce sensor_id = do {
     modz cancel_debounce;
     modz (\<lambda>z. z\<lparr>zdebounce_seq := zdebounce_seq z + 1, zdebounce_on := True\<rparr>);
     z \<leftarrow> getz;
     schedule (CbDebounce (zid z) (zdebounce_seq z) sensor_id) arm_after_closing_debounce
   }"

definition start_ticks :: "timer_kind \<Rightarrow> unit prog" where
  "start_ticks kind = do {
     modz cancel_ticks;
     z \<leftarrow> getz;
     if ztimer_remaining z \<le> 0 then skip
     else do {
       modz (\<lambda>z. z\<lparr>ztick_seq := ztick_seq z + 1, ztick_on := True\<rparr>);
       z \<leftarrow> getz;
       schedule (CbTick (zid z) (ztick_seq z) kind (ztimer_remaining z)) go_second
     }
   }"

definition schedule_auto_rearm :: "alarm_mode \<Rightarrow> duration \<Rightarrow> unit prog" where
  "schedule_auto_rearm mode d = do {
     w \<leftarrow> getw;
     modz cancel_auto_rearm;
     modz (\<lambda>z. z\<lparr>zauto_rearm_mode := mode, zauto_rearm_seq := zauto_rearm_seq z + 1,
                 zauto_rearm_deadline := w_now w + d, zauto_rearm_on := True\<rparr>);
     z \<leftarrow> getz;
     schedule (CbAutoRearm (zid z) (zauto_rearm_seq z)) d
   }"

end
