(* ===== verification/Alarm_Engine.thy ===== *)
theory Alarm_Engine
  imports Alarm_World
begin

text \<open>
  The arm-state machine of one zone: every function of \<open>internal/alarm/engine\<close> that runs with the
  engine lock held on one zone, as a program over that zone and the world. The files are
  \<open>engine.go\<close> (verbs, triggers, timers), \<open>readiness.go\<close>, \<open>sensorgate.go\<close>, \<open>sources.go\<close>,
  \<open>walktest.go\<close>, \<open>motionreset.go\<close> and the shared parts of \<open>restore.go\<close> and \<open>reload.go\<close>. Loading,
  restoring and the multi-zone entry points are in \<open>Alarm_Restore\<close> and \<open>Alarm_System\<close>.
\<close>

section \<open>Readiness (readiness.go)\<close>

record readiness_acc =
  ra_blockers :: "string list"
  ra_warnings :: "string list"
  ra_auto :: "string list"
  ra_details :: "blocker_detail list"

definition readiness_empty :: readiness_acc where
  "readiness_empty = \<lparr>ra_blockers = [], ra_warnings = [], ra_auto = [], ra_details = []\<rparr>"

definition blocker_detail_of :: "sensor_state \<Rightarrow> string \<Rightarrow> blocker_reason \<Rightarrow> bool \<Rightarrow> blocker_detail" where
  "blocker_detail_of s i reason blocking =
     (let row = ss_row s;
          ref = (new_source_ref (row_central row) (row_interface row) (row_channel row)
                   (row_parameter row))\<lparr>sr_sensor_id := i, sr_name := row_name row,
                   sr_sensor_type := row_sensor_type row\<rparr>
      in \<lparr>bd_sensor_id = i, bd_name = row_name row, bd_source = ref, bd_reason = reason,
          bd_blocking = blocking\<rparr>)"

definition classify ::
  "sensor_state \<Rightarrow> string \<Rightarrow> blocker_policy \<Rightarrow> bool \<Rightarrow> blocker_reason \<Rightarrow> readiness_acc \<Rightarrow> readiness_acc" where
  "classify s i p auto reason acc =
     (if p = PolicyIgnore then acc
      else if p = PolicyWarn then
        acc\<lparr>ra_warnings := ra_warnings acc @ [i],
            ra_details := ra_details acc @ [blocker_detail_of s i reason False]\<rparr>
      else if auto then
        acc\<lparr>ra_warnings := ra_warnings acc @ [i], ra_auto := ra_auto acc @ [i],
            ra_details := ra_details acc @ [blocker_detail_of s i reason False]\<rparr>
      else
        acc\<lparr>ra_blockers := ra_blockers acc @ [i],
            ra_details := ra_details acc @ [blocker_detail_of s i reason True]\<rparr>)"

definition sensor_readiness :: "zone \<Rightarrow> alarm_mode \<Rightarrow> string \<times> sensor_state \<Rightarrow> readiness_acc \<Rightarrow> readiness_acc" where
  "sensor_readiness z mode e acc =
     (let i = fst e; s = snd e; pol = zc_blockers (zcfg z) in
      if sc_always_on (ss_cfg s) \<or> \<not> in_mode (ss_cfg s) mode then acc
      else if i \<in> set (zbypassed z) then
        acc\<lparr>ra_warnings := ra_warnings acc @ [i],
            ra_details := ra_details acc @ [blocker_detail_of s i ReasonBypassed False]\<rparr>
      else
        let auto = sc_bypass_auto (ss_cfg s);
            acc = (if ss_active_known s \<and> ss_active s \<and> \<not> sc_allow_open_after_arming (ss_cfg s)
                   then classify s i (bp_open pol) auto ReasonOpen acc else acc);
            acc = (if \<not> ss_available s
                   then classify s i (bp_unreachable pol) auto ReasonUnreachable acc else acc);
            acc = (if ss_sabotage s
                   then classify s i (bp_sabotage pol) auto ReasonSabotage acc else acc)
        in (if ss_low_battery s
            then classify s i (bp_low_battery pol) auto ReasonLowBattery acc else acc))"

definition readiness_detail :: "zone \<Rightarrow> alarm_mode \<Rightarrow> mode_readiness \<times> string list" where
  "readiness_detail z mode =
     (let acc = fold (sensor_readiness z mode) (zsensors z) readiness_empty in
      (\<lparr>rd_ready = (ra_blockers acc = []),
        rd_blockers = dedupe_adj (sort (ra_blockers acc)),
        rd_warnings = dedupe_adj (sort (ra_warnings acc)),
        rd_details = sort_key (\<lambda>d. (bd_sensor_id d, reason_token (bd_reason d))) (ra_details acc)\<rparr>,
       dedupe_adj (sort (ra_auto acc))))"

definition compute_readiness :: "zone \<Rightarrow> alarm_mode \<Rightarrow> mode_readiness" where
  "compute_readiness z mode = fst (readiness_detail z mode)"

text \<open>\<open>reflect.DeepEqual\<close> on the readiness maps: the nil map equals no map built by \<open>make\<close>.\<close>

definition readiness_eq ::
  "(alarm_mode \<times> mode_readiness) list option \<Rightarrow> (alarm_mode \<times> mode_readiness) list \<Rightarrow> bool" where
  "readiness_eq old next =
     (case old of None \<Rightarrow> False
      | Some m \<Rightarrow> list_all (\<lambda>k. lookup m k = lookup next k) (keys m @ keys next))"

definition refresh_readiness :: "unit prog" where
  "refresh_readiness = do {
     z \<leftarrow> getz;
     let next = map (\<lambda>(m, _). (m, compute_readiness z m)) (zc_modes (zcfg z));
     if readiness_eq (zreadiness z) next then skip
     else do {
       modz (\<lambda>z. z\<lparr>zreadiness := Some next\<rparr>);
       publish (EvReadiness (zid z) next)
     }
   }"

section \<open>Incident sources (sources.go)\<close>

definition source_row_of :: "int \<Rightarrow> string \<Rightarrow> source_ref \<Rightarrow> incident_cause \<Rightarrow> source_row" where
  "source_row_of incident_id zone_id ref cause =
     \<lparr>so_id = 0, so_incident = incident_id, so_zone = zone_id, so_ref = ref, so_cause = ca_kind cause\<rparr>"

definition record_source :: "int \<Rightarrow> incident_cause \<Rightarrow> bool prog" where
  "record_source incident_id cause = do {
     z \<leftarrow> getz;
     w \<leftarrow> getw;
     let ref = cause_source_ref cause (unix_ms (w_now w));
     if source_ref_empty ref \<or> sr_ref ref \<in> set (zsource_seen z) then ret False
     else do {
       modz (\<lambda>z. z\<lparr>zsource_seen := sr_ref ref # zsource_seen z, zsources := zsources z @ [ref]\<rparr>);
       if \<not> dp_ledger (w_deps w) \<or> incident_id = 0 then ret True
       else do {
         let row = source_row_of incident_id (zid z) ref cause;
         bad \<leftarrow> port_fails;
         emit (ELedgerAppend row (\<not> bad));
         whenS (\<not> bad) (modw (\<lambda>w. w\<lparr>w_ledger := ledger_append row (w_ledger w)\<rparr>));
         ret True
       }
     }
   }"

definition publish_sources_changed :: "int \<Rightarrow> unit prog" where
  "publish_sources_changed incident_id = do {
     z \<leftarrow> getz;
     case sources_copy z of
       [] \<Rightarrow> skip
     | first # _ \<Rightarrow>
         publish (EvTriggered (zid z) (zname z) incident_id (sr_sensor_id first) (sr_name first)
           CauseSensor (zmode z) (sources_copy z))
   }"

definition incident_sources :: "zone \<Rightarrow> source_ref list" where
  "incident_sources z = sources_copy z"

section \<open>Incidents (engine.go)\<close>

definition new_incident :: "zone \<Rightarrow> incident_cause \<Rightarrow> time_ns \<Rightarrow> duration \<Rightarrow> alarm_incident" where
  "new_incident z cause now dur =
     \<lparr>ai_id = 0, ai_zone = zid z, ai_mode = zmode z, ai_cause = Doc cause,
      ai_started_ms = unix_ms now, ai_deadline_ms = unix_ms (now + dur), ai_silenced = False,
      ai_silenced_at_ms = 0, ai_silenced_by = '''', ai_cycles = 0, ai_acoustic_ms = 0,
      ai_refires = 0, ai_closed_ms = 0, ai_close_reason = ''''\<rparr>"

definition open_incident :: "incident_cause \<Rightarrow> duration \<Rightarrow> unit prog" where
  "open_incident cause dur = do {
     z \<leftarrow> getz;
     w \<leftarrow> getw;
     let inc = new_incident z cause (w_now w) dur;
     ok \<leftarrow> incident_call (OpCreate inc);
     whenS (\<not> ok) (journal_fault ''incident_persist_failed'' True 0);
     modz (\<lambda>z. z\<lparr>zincident := Some (if ok then inc\<lparr>ai_id := it_next (w_incidents w)\<rparr> else inc)\<rparr>)
   }"

definition close_incident :: "string \<Rightarrow> unit prog" where
  "close_incident reason = do {
     z \<leftarrow> getz;
     w \<leftarrow> getw;
     case zincident z of
       None \<Rightarrow> skip
     | Some inc \<Rightarrow> do {
         whenS (ai_id inc \<noteq> 0) (do {
           ok \<leftarrow> incident_call (OpClose (ai_id inc) (unix_ms (w_now w)) reason);
           whenS (\<not> ok) (journal_fault ''incident_persist_failed'' True (ai_id inc))
         });
         modz (\<lambda>z. reset_sources (z\<lparr>zincident := None, zsilenced_incident := 0\<rparr>))
       }
   }"

definition pending_elapsed_cause :: "zone \<Rightarrow> incident_cause" where
  "pending_elapsed_cause z =
     (case lookup (zsensors z) (zpending_cause z) of
        Some s \<Rightarrow> cause_from_sensor CausePendingElapsed (ss_row s)
      | None \<Rightarrow> (bare_cause CausePendingElapsed)\<lparr>ca_sensor_id := zpending_cause z\<rparr>)"

section \<open>Arming\<close>

record arm_request =
  ar_mode :: alarm_mode
  ar_force :: bool
  ar_bypass :: "string list"
  ar_skip_delay :: bool
  ar_code :: string
  ar_by :: string
  ar_source :: string

record arm_result =
  res_state :: zone_state
  res_bypassed :: "string list"
  res_exit_delay :: duration

definition recapture_open_baseline :: "zone \<Rightarrow> zone" where
  "recapture_open_baseline z =
     z\<lparr>zopen_at_arm := map fst (filter (\<lambda>(i, s). in_mode (ss_cfg s) (zmode z)
         \<and> i \<notin> set (zbypassed z) \<and> ss_active_known s \<and> ss_active s) (zsensors z))\<rparr>"

definition complete_arm :: "zone_state \<Rightarrow> string \<Rightarrow> string \<Rightarrow> unit prog" where
  "complete_arm from_state by source = do {
     modz cancel_timers;
     modz (\<lambda>z. z\<lparr>zstate := ZArmed\<rparr>);
     modz recapture_open_baseline;
     persist;
     z \<leftarrow> getz;
     journal_entry_append ((entry JArm ''armed'')\<lparr>je_actor := by, je_source := source,
       je_details := [(''mode'', JVMode (zmode z))]\<rparr>);
     publish_state from_state by source;
     whenS (op_arm_disarm_chirps (mc_outputs (mode_cfg z (zmode z))))
       (chirp (chirp_of ChirpArmSquawk))
   }"

record walk_sensor =
  wk_sensor_id :: string
  wk_name :: string
  wk_seen_at :: "time_ns option"

record walk_status =
  wk_active :: bool
  wk_started_at :: time_ns
  wk_seen :: int
  wk_total :: int
  wk_sensors :: "walk_sensor list"

definition sorted_sensor_ids :: "zone \<Rightarrow> string list" where
  "sorted_sensor_ids z = sort (keys (zsensors z))"

definition walk_row :: "zone \<Rightarrow> walk_session \<Rightarrow> string \<Rightarrow> walk_sensor option" where
  "walk_row z ws i =
     (case lookup (zsensors z) i of
        None \<Rightarrow> None
      | Some s \<Rightarrow>
          (if sc_always_on (ss_cfg s) then None
           else Some \<lparr>wk_sensor_id = i, wk_name = row_name (ss_row s), wk_seen_at = lookup (ws_seen ws) i\<rparr>))"

definition walk_status_locked :: "zone \<Rightarrow> walk_session \<Rightarrow> walk_status" where
  "walk_status_locked z ws =
     (let rows = List.map_filter (walk_row z ws) (sorted_sensor_ids z) in
      \<lparr>wk_active = True, wk_started_at = ws_started_at ws,
       wk_seen = int (length (filter (\<lambda>r. wk_seen_at r \<noteq> None) rows)),
       wk_total = int (length rows), wk_sensors = rows\<rparr>)"

definition abort_walk_test_for_arm :: "string \<Rightarrow> string \<Rightarrow> unit prog" where
  "abort_walk_test_for_arm by source = do {
     z \<leftarrow> getz;
     case zwalk z of
       None \<Rightarrow> skip
     | Some ws \<Rightarrow> do {
         let st = walk_status_locked z ws;
         journal_entry_append ((entry JTest ''walktest_aborted_by_arm'')\<lparr>je_actor := by,
           je_source := source,
           je_details := [(''seen'', JVInt (wk_seen st)), (''total'', JVInt (wk_total st))]\<rparr>);
         modz (\<lambda>z. z\<lparr>zwalk := None\<rparr>)
       }
   }"

definition latched :: "(sensor_row \<Rightarrow> bool) \<Rightarrow> string \<times> sensor_state \<Rightarrow> bool" where
  "latched supports e =
     (ss_active_known (snd e) \<and> ss_active (snd e) \<and> supports (ss_row (snd e)))"

definition reset_triggered_motion_for_arm :: "string \<Rightarrow> string \<Rightarrow> unit prog" where
  "reset_triggered_motion_for_arm by source = do {
     z \<leftarrow> getz;
     w \<leftarrow> getw;
     case dp_motion (w_deps w) of
       None \<Rightarrow> skip
     | Some supports \<Rightarrow>
         whenS (filter (latched supports) (zsensors z) \<noteq> [])
           (emit (ESpawnMotionReset (zid z) by source))
   }"

definition refresh_sensor :: "(sensor_row \<Rightarrow> bool \<times> bool) \<Rightarrow> sensor_state \<Rightarrow> sensor_state" where
  "refresh_sensor reader s =
     (case reader (ss_row s) of (active, known) \<Rightarrow>
        if known then s\<lparr>ss_active := active, ss_active_known := True\<rparr> else s)"

definition refresh_sensor_values :: "unit prog" where
  "refresh_sensor_values = do {
     w \<leftarrow> getw;
     case dp_reader (w_deps w) of
       None \<Rightarrow> skip
     | Some reader \<Rightarrow> modz (\<lambda>z. z\<lparr>zsensors := map_vals (\<lambda>_. refresh_sensor reader) (zsensors z)\<rparr>)
   }"

text \<open>
  The bypass set an arm decides on: requested identifiers that exist, then the automatic
  exclusions; \<open>remaining\<close> are the blockers outside it.
\<close>

definition requested_bypass :: "zone \<Rightarrow> string list \<Rightarrow> string list" where
  "requested_bypass z ids = remdups (filter (\<lambda>i. lookup (zsensors z) i \<noteq> None) ids)"

text \<open>The transition \<open>beginArm\<close> makes once the bypass set is decided.\<close>

definition commit_arm :: "arm_request \<Rightarrow> mode_config \<Rightarrow> string list \<Rightarrow> arm_result prog" where
  "commit_arm req mcfg bypass = do {
     z \<leftarrow> getz;
     let from_state = zstate z;
     modz cancel_timers;
     modz (\<lambda>z. z\<lparr>zbypassed := bypass, zmode := ar_mode req, zpending_cause := '''', zopen_at_arm := []\<rparr>);
     forS bypass (\<lambda>i. journal_entry_append ((entry JBypass ''sensor_bypassed'')\<lparr>
       je_actor := ar_by req, je_source := ar_source req, je_details := [(''sensor_id'', JVStr i)]\<rparr>));
     let exit_delay = (if ar_skip_delay req then 0 else secs (mc_exit_delay_s mcfg));
     (if exit_delay > 0 then do {
        modz (\<lambda>z. z\<lparr>zstate := ZArming\<rparr>);
        schedule_state_timer TKExit exit_delay;
        start_ticks TKExit;
        persist;
        journal_entry_append ((entry JArm ''arming_started'')\<lparr>je_actor := ar_by req,
          je_source := ar_source req,
          je_details := [(''mode'', JVMode (ar_mode req)),
                         (''exit_delay_s'', JVInt (exit_delay div go_second))]\<rparr>);
        publish_state from_state (ar_by req) (ar_source req)
      } else complete_arm from_state (ar_by req) (ar_source req));
     z \<leftarrow> getz;
     ret \<lparr>res_state = zstate z, res_bypassed = sort bypass, res_exit_delay = exit_delay\<rparr>
   }"

definition begin_arm :: "arm_request \<Rightarrow> mode_config \<Rightarrow> (engine_error + arm_result) prog" where
  "begin_arm req mcfg = do {
     modz cancel_auto_rearm;
     abort_walk_test_for_arm (ar_by req) (ar_source req);
     reset_triggered_motion_for_arm (ar_by req) (ar_source req);
     refresh_sensor_values;
     z \<leftarrow> getz;
     let (rd, auto) = readiness_detail z (ar_mode req);
     let bypass = List.union auto (requested_bypass z (ar_bypass req));
     let remaining = filter (\<lambda>i. i \<notin> set bypass) (rd_blockers rd);
     if remaining \<noteq> [] \<and> \<not> ar_force req then
       ret (Inl (ErrNotReady remaining
         (filter (\<lambda>d. bd_blocking d \<and> bd_sensor_id d \<in> set remaining) (rd_details rd))))
     else do {
       res \<leftarrow> commit_arm req mcfg (List.union remaining bypass);
       ret (Inr res)
     }
   }"

section \<open>Silence and disarm\<close>

definition silence_incident :: "string \<Rightarrow> string \<Rightarrow> unit prog" where
  "silence_incident by source = do {
     z \<leftarrow> getz;
     w \<leftarrow> getw;
     case zincident z of
       None \<Rightarrow> skip
     | Some inc \<Rightarrow>
         if ai_silenced inc then stop_all (ai_id inc)
         else do {
           let now_ms = unix_ms (w_now w);
           let who = (if source \<noteq> '''' \<and> by = '''' then source else by);
           modz (\<lambda>z. z\<lparr>zincident := Some (inc\<lparr>ai_silenced := True, ai_silenced_at_ms := now_ms,
                                              ai_silenced_by := who\<rparr>),
                       zsilenced_incident := ai_id inc\<rparr>);
           whenS (ai_id inc \<noteq> 0) (do {
             ok \<leftarrow> incident_call (OpSilence (ai_id inc) now_ms who);
             whenS (\<not> ok) (journal_fault ''silence_persist_failed'' True (ai_id inc))
           });
           stop_all (ai_id inc)
         }
   }"

definition silence_locked :: "string \<Rightarrow> string \<Rightarrow> unit prog" where
  "silence_locked by source = do {
     z \<leftarrow> getz;
     case zincident z of
       Some inc \<Rightarrow> do {
         silence_incident by source;
         persist;
         journal_entry_append ((entry JSilence ''silenced'')\<lparr>je_actor := by, je_source := source,
           je_incident := ai_id inc\<rparr>)
       }
     | None \<Rightarrow> do {
         stop_all 0;
         journal_entry_append ((entry JSilence ''silence_requested'')\<lparr>je_actor := by,
           je_source := source\<rparr>)
       }
   }"

definition disarm_locked :: "string \<Rightarrow> string \<Rightarrow> unit prog" where
  "disarm_locked by source = do {
     z \<leftarrow> getz;
     let from_state = zstate z;
     modz cancel_timers;
     modz cancel_auto_rearm;
     z \<leftarrow> getz;
     whenS (zincident z \<noteq> None) (do {
       silence_incident by source;
       close_incident ''disarm''
     });
     modz reset_to_disarmed;
     persist;
     journal_entry_append ((entry JDisarm ''disarmed'')\<lparr>je_actor := by, je_source := source\<rparr>);
     publish_state from_state by source
   }"

fun duress_journal_class :: "code_verb \<Rightarrow> journal_class" where
  "duress_journal_class VerbArm = JArm"
| "duress_journal_class VerbSilence = JSilence"
| "duress_journal_class _ = JDisarm"

definition fire_duress :: "code_verb \<Rightarrow> string \<Rightarrow> string \<Rightarrow> unit prog" where
  "fire_duress verb by source = do {
     z \<leftarrow> getz;
     journal_entry_append ((entry (duress_journal_class verb) ''duress'')\<lparr>je_actor := by,
       je_source := source, je_incident := incident_id_of z, je_hidden := True\<rparr>);
     publish (EvDuress (zid z) (zname z) verb by source (incident_id_of z))
   }"

definition cancel_pending_auto_rearm :: "string \<Rightarrow> string \<Rightarrow> unit prog" where
  "cancel_pending_auto_rearm by source = do {
     z \<leftarrow> getz;
     whenS (zauto_rearm_on z) (do {
       modz cancel_auto_rearm;
       persist;
       journal_entry_append ((entry JArm ''auto_rearm_cancelled'')\<lparr>je_actor := by,
         je_source := source\<rparr>)
     })
   }"

text \<open>\<open>None\<close> is \<open>applied = false\<close>: the zone left the disarmed state, nothing was touched.\<close>

definition disarm_idle :: "string \<Rightarrow> string \<Rightarrow> string \<Rightarrow> bool \<Rightarrow> bool prog" where
  "disarm_idle by source identity duress = do {
     z \<leftarrow> getz;
     if zstate z \<noteq> ZDisarmed then ret False
     else do {
       let by = (if duress \<and> identity \<noteq> '''' \<and> by = '''' then identity else by);
       whenS duress (fire_duress VerbDisarm by source);
       cancel_pending_auto_rearm by source;
       ret True
     }
   }"

definition disarm_resolved :: "string \<Rightarrow> string \<Rightarrow> string \<Rightarrow> bool \<Rightarrow> unit prog" where
  "disarm_resolved by source identity duress = do {
     let by = (if identity \<noteq> '''' \<and> by = '''' then identity else by);
     whenS duress (fire_duress VerbDisarm by source);
     z \<leftarrow> getz;
     if zstate z = ZDisarmed then cancel_pending_auto_rearm by source
     else do {
       let prev = mc_outputs (mode_cfg z (zmode z));
       disarm_locked by source;
       refresh_readiness;
       whenS (op_arm_disarm_chirps prev) (chirp (chirp_of ChirpDisarmSquawk))
     }
   }"

definition silence_resolved :: "string \<Rightarrow> string \<Rightarrow> string \<Rightarrow> bool \<Rightarrow> unit prog" where
  "silence_resolved by source identity duress = do {
     let by = (if identity \<noteq> '''' \<and> by = '''' then identity else by);
     whenS duress (fire_duress VerbSilence by source);
     silence_locked by source
   }"

definition acknowledge :: "string \<Rightarrow> string \<Rightarrow> (engine_error + unit) prog" where
  "acknowledge by source = do {
     z \<leftarrow> getz;
     case zincident z of
       None \<Rightarrow> ret (Inl ErrNoIncident)
     | Some inc \<Rightarrow> do {
         journal_entry_append ((entry JSilence ''acknowledged'')\<lparr>je_actor := by,
           je_source := source, je_incident := ai_id inc\<rparr>);
         ret (Inr ())
       }
   }"

section \<open>Triggering\<close>

definition trigger :: "incident_cause \<Rightarrow> fire_options \<Rightarrow> unit prog" where
  "trigger cause opts = do {
     z \<leftarrow> getz;
     if zstate z = ZTriggered then skip
     else do {
       let from_state = zstate z;
       let mcfg = mode_cfg z (zmode z);
       let dur = trigger_duration mcfg;
       let fresh = (zincident z = None);
       whenS fresh (open_incident cause dur);
       let pre = (fresh \<and> \<not> fo_restored opts \<and> mc_pre_alarm_s mcfg > 0);
       modz (\<lambda>z. z\<lparr>zstate := ZTriggered, zpending_cause := '''', zpre_alarm := pre\<rparr>);
       (if pre then schedule_state_timer TKPreAlarm (secs (mc_pre_alarm_s mcfg))
        else schedule_state_timer TKTrigger dur);
       persist;
       z \<leftarrow> getz;
       record_source (incident_id_of z) cause;
       (case zincident z of
          None \<Rightarrow> skip
        | Some inc \<Rightarrow> fire_cycle inc (opts\<lparr>fo_policy := mc_outputs mcfg,
            fo_pre_alarm := (pre \<or> fo_pre_alarm opts)\<rparr>));
       journal_entry_append ((entry JTrigger (if pre then ''pre_alarm_started'' else ''triggered''))\<lparr>
         je_incident := incident_id_of z,
         je_details := [(''cause'', JVCause (ca_kind cause)), (''sensor_id'', JVStr (ca_sensor_id cause)),
                        (''mode'', JVMode (zmode z))]\<rparr>);
       z \<leftarrow> getz;
       publish (EvTriggered (zid z) (zname z) (incident_id_of z) (ca_sensor_id cause)
         (ca_sensor_name cause) (ca_kind cause) (zmode z) (sources_copy z));
       publish_state from_state '''' ''engine''
     }
   }"

definition route_activation :: "sensor_state \<Rightarrow> incident_cause \<Rightarrow> unit prog" where
  "route_activation s cause = do {
     z \<leftarrow> getz;
     let mcfg = mode_cfg z (zmode z);
     let d = entry_delay mcfg (ss_cfg s);
     if sc_use_entry_delay (ss_cfg s) \<and> d > 0 then do {
       let from_state = zstate z;
       modz (\<lambda>z. z\<lparr>zstate := ZPending, zpending_cause := ca_sensor_id cause\<rparr>);
       schedule_state_timer TKEntry d;
       start_ticks TKEntry;
       persist;
       journal_entry_append ((entry JTrigger ''pending_started'')\<lparr>
         je_details := [(''sensor_id'', JVStr (ca_sensor_id cause)),
                        (''entry_delay_s'', JVInt (d div go_second))]\<rparr>);
       publish_state from_state '''' ''engine''
     } else trigger cause zero_fire_options
   }"

text \<open>
  \<open>scheduleAutoRearmIfConfigured\<close> and the post-trigger policy. \<open>disarm_after_trigger\<close> serves the
  live path and the restore path.
\<close>

definition schedule_auto_rearm_if_configured :: "alarm_mode \<Rightarrow> string \<Rightarrow> unit prog" where
  "schedule_auto_rearm_if_configured rearm_mode actor = do {
     z \<leftarrow> getz;
     if zc_auto_rearm_s (zcfg z) \<le> 0 \<or> \<not> mode_armed rearm_mode then skip
     else if lookup (zc_modes (zcfg z)) rearm_mode = None then skip
     else do {
       schedule_auto_rearm rearm_mode (secs (zc_auto_rearm_s (zcfg z)));
       journal_entry_append ((entry JArm ''auto_rearm_scheduled'')\<lparr>je_actor := actor,
         je_details := [(''mode'', JVMode rearm_mode), (''delay_s'', JVInt (zc_auto_rearm_s (zcfg z)))]\<rparr>)
     }
   }"

definition disarm_after_trigger :: "zone_state \<Rightarrow> string \<Rightarrow> unit prog" where
  "disarm_after_trigger from_state by = do {
     z \<leftarrow> getz;
     let rearm_mode = zmode z;
     modz cancel_timers;
     modz reset_to_disarmed;
     schedule_auto_rearm_if_configured rearm_mode by;
     persist;
     journal_entry_append ((entry JDisarm ''disarmed_post_trigger'')\<lparr>je_actor := by\<rparr>);
     publish_state from_state by ''engine''
   }"

definition finish_triggered :: "string \<Rightarrow> unit prog" where
  "finish_triggered journal_event = do {
     z \<leftarrow> getz;
     let from_state = zstate z;
     let inc_id = incident_id_of z;
     stop_all inc_id;
     close_incident ''post_trigger'';
     journal_entry_append ((entry JTrigger journal_event)\<lparr>je_incident := inc_id\<rparr>);
     if zc_post_trigger (zcfg z) = PostDisarm then disarm_after_trigger from_state ''engine''
     else complete_arm from_state ''engine'' ''engine''
   }"

definition finish_always_on :: "string \<Rightarrow> string \<Rightarrow> unit prog" where
  "finish_always_on journal_event actor = do {
     z \<leftarrow> getz;
     let from_state = zstate z;
     let target = zpre_trigger_mode z;
     let inc_id = incident_id_of z;
     stop_all inc_id;
     close_incident ''post_trigger'';
     modz cancel_timers;
     modz (\<lambda>z. z\<lparr>zpre_trigger_state := no_state, zpre_trigger_mode := no_mode\<rparr>);
     journal_entry_append ((entry JTrigger journal_event)\<lparr>je_incident := inc_id\<rparr>);
     (if mode_armed target
      then modz (\<lambda>z. recapture_open_baseline (z\<lparr>zstate := ZArmed, zmode := target\<rparr>))
      else modz reset_to_disarmed);
     persist;
     publish_state from_state actor ''engine''
   }"

text \<open>\<open>SetTriggerDeadline\<close> with the fault entry its callers write.\<close>

definition extend_deadline :: "duration \<Rightarrow> unit prog" where
  "extend_deadline dur = do {
     z \<leftarrow> getz;
     w \<leftarrow> getw;
     case zincident z of
       None \<Rightarrow> skip
     | Some inc \<Rightarrow> do {
         let deadline = unix_ms (w_now w + dur);
         modz (\<lambda>z. z\<lparr>zincident := Some (inc\<lparr>ai_deadline_ms := deadline\<rparr>)\<rparr>);
         whenS (ai_id inc \<noteq> 0) (do {
           ok \<leftarrow> incident_call (OpDeadline (ai_id inc) deadline);
           whenS (\<not> ok) (journal_fault ''incident_persist_failed'' True (ai_id inc))
         })
       }
   }"

definition on_pre_alarm_elapsed :: "unit prog" where
  "on_pre_alarm_elapsed = do {
     modz (\<lambda>z. z\<lparr>zpre_alarm := False\<rparr>);
     z \<leftarrow> getz;
     if (case zincident z of None \<Rightarrow> False | Some inc \<Rightarrow> ai_silenced inc)
     then finish_triggered ''pre_alarm_silenced''
     else do {
       let mcfg = mode_cfg z (zmode z);
       let dur = trigger_duration mcfg;
       extend_deadline dur;
       schedule_state_timer TKTrigger dur;
       persist;
       z \<leftarrow> getz;
       (case zincident z of
          None \<Rightarrow> skip
        | Some inc \<Rightarrow> fire_cycle inc (zero_fire_options\<lparr>fo_policy := mc_outputs mcfg\<rparr>));
       journal_entry_append ((entry JTrigger ''pre_alarm_escalated'')\<lparr>je_incident := incident_id_of z\<rparr>)
     }
   }"

definition may_retrigger :: "zone \<Rightarrow> bool" where
  "may_retrigger z =
     (case zincident z of
        None \<Rightarrow> False
      | Some inc \<Rightarrow> \<not> ai_silenced inc \<and> ai_cycles inc < mc_max_retrigger (mode_cfg z (zmode z)))"

text \<open>
  Accounting before firing, in the store and then in memory: true when the cycle may start. The
  live re-trigger and the restore-driven re-fire share it.
\<close>

definition account_call :: "incident_op \<Rightarrow> string \<Rightarrow> alarm_incident \<Rightarrow> alarm_incident \<Rightarrow> bool prog" where
  "account_call op fault_event inc inc' = do {
     ok \<leftarrow> (if ai_id inc \<noteq> 0 then do {
             ok \<leftarrow> incident_call op;
             whenS (\<not> ok) (journal_fault fault_event True (ai_id inc));
             ret ok
           } else ret True);
     whenS ok (modz (\<lambda>z. z\<lparr>zincident := Some inc'\<rparr>));
     ret ok
   }"

definition account_cycle :: "alarm_incident \<Rightarrow> bool prog" where
  "account_cycle inc = account_call (OpCycle (ai_id inc)) ''retrigger_account_failed'' inc
     (inc\<lparr>ai_cycles := ai_cycles inc + 1\<rparr>)"

definition retrigger_cycle :: "unit prog" where
  "retrigger_cycle = do {
     z \<leftarrow> getz;
     let mcfg = mode_cfg z (zmode z);
     let dur = trigger_duration mcfg;
     extend_deadline dur;
     schedule_state_timer TKTrigger dur;
     persist;
     z \<leftarrow> getz;
     case zincident z of
       None \<Rightarrow> skip
     | Some inc \<Rightarrow> do {
         fire_cycle inc (zero_fire_options\<lparr>fo_cycle := ai_cycles inc, fo_policy := mc_outputs mcfg\<rparr>);
         journal_entry_append ((entry JTrigger ''retrigger_cycle'')\<lparr>je_incident := ai_id inc,
           je_details := [(''cycle'', JVInt (ai_cycles inc))]\<rparr>)
       }
   }"

definition on_trigger_elapsed :: "unit prog" where
  "on_trigger_elapsed = do {
     z \<leftarrow> getz;
     if zpre_trigger_state z \<noteq> no_state then finish_always_on ''always_on_elapsed'' ''engine''
     else if may_retrigger z then do {
       let inc = the (zincident z);
       ok \<leftarrow> account_cycle inc;
       if ok then retrigger_cycle else finish_triggered ''trigger_time_elapsed''
     }
     else finish_triggered ''trigger_time_elapsed''
   }"

definition always_on_fire ::
  "cause_kind \<Rightarrow> output_policy \<Rightarrow> incident_cause \<Rightarrow> string \<Rightarrow> string \<Rightarrow> unit prog" where
  "always_on_fire kind policy cause by source = do {
     z \<leftarrow> getz;
     if zstate z = ZTriggered then do {
       (case zincident z of
          None \<Rightarrow> skip
        | Some inc \<Rightarrow> whenS (\<not> ai_silenced inc)
            (fire_cycle inc (zero_fire_options\<lparr>fo_policy := policy\<rparr>)));
       journal_entry_append ((entry JTrigger ''always_on_activation'')\<lparr>je_actor := by,
         je_source := source, je_incident := incident_id_of z,
         je_details := [(''cause'', JVCause kind), (''sensor_id'', JVStr (ca_sensor_id cause))]\<rparr>);
       grown \<leftarrow> record_source (incident_id_of z) cause;
       whenS grown (publish_sources_changed (incident_id_of z))
     } else do {
       let from_state = zstate z;
       let dur = trigger_duration (mode_cfg z (zmode z));
       modz (\<lambda>z. z\<lparr>zpre_trigger_state := zstate z, zpre_trigger_mode := zmode z\<rparr>);
       whenS (zincident z = None) (open_incident cause dur);
       modz (\<lambda>z. z\<lparr>zstate := ZTriggered\<rparr>);
       schedule_state_timer TKTrigger dur;
       persist;
       z \<leftarrow> getz;
       record_source (incident_id_of z) cause;
       (case zincident z of
          None \<Rightarrow> skip
        | Some inc \<Rightarrow> fire_cycle inc (zero_fire_options\<lparr>fo_policy := policy\<rparr>));
       journal_entry_append ((entry JTrigger ''triggered'')\<lparr>je_actor := by, je_source := source,
         je_incident := incident_id_of z,
         je_details := [(''cause'', JVCause kind), (''sensor_id'', JVStr (ca_sensor_id cause)),
                        (''mode'', JVMode (zmode z))]\<rparr>);
       z \<leftarrow> getz;
       publish (EvTriggered (zid z) (zname z) (incident_id_of z) (ca_sensor_id cause)
         (ca_sensor_name cause) kind (zmode z) (sources_copy z));
       publish_state from_state by source
     }
   }"

definition always_on_from_sensor :: "sensor_state \<Rightarrow> unit prog" where
  "always_on_from_sensor s = do {
     z \<leftarrow> getz;
     let panic = (row_sensor_type (ss_row s) = STPanic);
     let kind = (if panic then CausePanic else CauseHazard);
     let policy = (if panic
                   then (if sc_panic_silent (ss_cfg s) then (zc_panic_outputs (zcfg z))\<lparr>op_silent := True\<rparr>
                         else zc_panic_outputs (zcfg z))
                   else zc_hazard_outputs (zcfg z));
     always_on_fire kind policy (cause_from_sensor kind (ss_row s)) (row_name (ss_row s)) ''engine''
   }"

definition panic_trigger :: "bool \<Rightarrow> string \<Rightarrow> string \<Rightarrow> unit prog" where
  "panic_trigger silent by source = do {
     z \<leftarrow> getz;
     let policy = (if silent then (zc_panic_outputs (zcfg z))\<lparr>op_silent := True\<rparr>
                   else zc_panic_outputs (zcfg z));
     always_on_fire CausePanic policy ((bare_cause CausePanic)\<lparr>ca_sensor_name := by\<rparr>) by source;
     refresh_readiness
   }"

definition adopt_sounding :: "string list \<Rightarrow> bool prog" where
  "adopt_sounding output_ids = do {
     z \<leftarrow> getz;
     if zstate z = ZTriggered \<and> zincident z \<noteq> None then ret False
     else do {
       let from_state = zstate z;
       let dur = trigger_duration (mode_cfg z (zmode z));
       whenS (zincident z = None) (open_incident (bare_cause CauseAdopted) dur);
       modz (\<lambda>z. z\<lparr>zstate := ZTriggered\<rparr>);
       schedule_state_timer TKTrigger dur;
       persist;
       z \<leftarrow> getz;
       journal_entry_append ((entry JTrigger ''sounding_siren_adopted'')\<lparr>
         je_incident := incident_id_of z, je_details := [(''outputs'', JVStrs output_ids)]\<rparr>);
       publish (EvTriggered (zid z) (zname z) (incident_id_of z) '''' '''' CauseAdopted (zmode z)
         (sources_copy z));
       publish_state from_state ''engine:reconcile'' ''engine'';
       ret True
     }
   }"

section \<open>Sensor activations\<close>

definition dispatch_sensor_activation :: "string \<Rightarrow> sensor_state \<Rightarrow> unit prog" where
  "dispatch_sensor_activation sensor_id s = do {
     z \<leftarrow> getz;
     let cause = cause_from_sensor CauseSensor (ss_row s);
     case zstate z of
       ZArming \<Rightarrow> whenS (\<not> sc_use_exit_delay (ss_cfg s)) (trigger cause zero_fire_options)
     | ZArmed \<Rightarrow> route_activation s cause
     | ZPending \<Rightarrow>
         if \<not> sc_use_entry_delay (ss_cfg s) then trigger cause zero_fire_options
         else journal_entry_append ((entry JTrigger ''sensor_activity_pending'')\<lparr>
                je_details := [(''sensor_id'', JVStr sensor_id)]\<rparr>)
     | ZTriggered \<Rightarrow> do {
         journal_entry_append ((entry JTrigger ''sensor_activity'')\<lparr>je_incident := incident_id_of z,
           je_details := [(''sensor_id'', JVStr sensor_id)]\<rparr>);
         grown \<leftarrow> record_source (incident_id_of z) cause;
         whenS grown (publish_sources_changed (incident_id_of z))
       }
     | _ \<Rightarrow> skip
   }"

definition cross_zone_min_sensors :: nat where
  "cross_zone_min_sensors = 2"

definition cross_zone_window :: duration where
  "cross_zone_window = secs 60"

definition gate_cross_zone :: "string \<Rightarrow> sensor_state \<Rightarrow> unit prog" where
  "gate_cross_zone sensor_id s = do {
     z \<leftarrow> getz;
     w \<leftarrow> getw;
     let group = sc_group (ss_cfg s);
     if group = '''' then dispatch_sensor_activation sensor_id s
     else do {
       let hits = (case lookup (zgroup_hits z) group of None \<Rightarrow> [] | Some h \<Rightarrow> h);
       let hits = filter (\<lambda>(_, at). \<not> (w_now w - at > cross_zone_window)) hits;
       let hits = AList.update sensor_id (w_now w) hits;
       if length hits \<ge> cross_zone_min_sensors then do {
         modz (\<lambda>z. z\<lparr>zgroup_hits := AList.delete group (zgroup_hits z)\<rparr>);
         dispatch_sensor_activation sensor_id s
       } else do {
         modz (\<lambda>z. z\<lparr>zgroup_hits := AList.update group hits (zgroup_hits z)\<rparr>);
         journal_entry_append ((entry JTrigger ''cross_zone_first_hit'')\<lparr>
           je_details := [(''sensor_id'', JVStr sensor_id), (''group'', JVStr group)]\<rparr>)
       }
     }
   }"

definition upd_sensor :: "string \<Rightarrow> (sensor_state \<Rightarrow> sensor_state) \<Rightarrow> zone \<Rightarrow> zone" where
  "upd_sensor i f z = z\<lparr>zsensors := map_vals (\<lambda>k s. if k = i then f s else s) (zsensors z)\<rparr>"

definition schedule_hold :: "string \<Rightarrow> duration \<Rightarrow> unit prog" where
  "schedule_hold sensor_id d = do {
     modz (upd_sensor sensor_id cancel_hold);
     modz (upd_sensor sensor_id (\<lambda>s. s\<lparr>ss_hold_on := True\<rparr>));
     z \<leftarrow> getz;
     case lookup (zsensors z) sensor_id of
       None \<Rightarrow> skip
     | Some s \<Rightarrow> schedule (CbHold (zid z) sensor_id (ss_hold_seq s)) d
   }"

definition gate_sensor_activation :: "string \<Rightarrow> sensor_state \<Rightarrow> unit prog" where
  "gate_sensor_activation sensor_id s =
     (let d = secs (sc_hold_time_s (ss_cfg s)) in
      if d > 0 then schedule_hold sensor_id d else gate_cross_zone sensor_id s)"

definition walk_test_observe :: "string \<Rightarrow> bool \<Rightarrow> bool prog" where
  "walk_test_observe sensor_id active = do {
     z \<leftarrow> getz;
     w \<leftarrow> getw;
     case zwalk z of
       None \<Rightarrow> ret False
     | Some ws \<Rightarrow>
         if zstate z \<noteq> ZDisarmed then ret False
         else if \<not> active then ret True
         else
           case lookup (zsensors z) sensor_id of
             None \<Rightarrow> ret False
           | Some s \<Rightarrow> do {
               whenS (lookup (ws_seen ws) sensor_id = None) (do {
                 let ws' = ws\<lparr>ws_seen := AList.update sensor_id (w_now w) (ws_seen ws)\<rparr>;
                 modz (\<lambda>z. z\<lparr>zwalk := Some ws'\<rparr>);
                 journal_entry_append ((entry JTest ''walktest_sensor_seen'')\<lparr>
                   je_details := [(''sensor_id'', JVStr sensor_id)]\<rparr>);
                 let st = walk_status_locked z ws';
                 publish (EvWalkTest (zid z) sensor_id (row_name (ss_row s)) (wk_seen st) (wk_total st))
               });
               ret True
             }
   }"

definition defer_auto_rearm :: "string \<Rightarrow> unit prog" where
  "defer_auto_rearm sensor_id = do {
     z \<leftarrow> getz;
     schedule_auto_rearm (zauto_rearm_mode z) (secs (zc_auto_rearm_s (zcfg z)));
     persist;
     journal_entry_append ((entry JArm ''auto_rearm_deferred'')\<lparr>
       je_details := [(''sensor_id'', JVStr sensor_id)]\<rparr>)
   }"

text \<open>The two halves of \<open>HandleSensorEvent\<close> after the always-on and walk-test filters.\<close>

definition sensor_cleared :: "string \<Rightarrow> sensor_state \<Rightarrow> unit prog" where
  "sensor_cleared sensor_id s = do {
     modz (upd_sensor sensor_id cancel_hold);
     z \<leftarrow> getz;
     whenS (sensor_id \<in> set (zopen_at_arm z)) (do {
       modz (\<lambda>z. z\<lparr>zopen_at_arm := removeAll sensor_id (zopen_at_arm z)\<rparr>);
       persist
     });
     whenS (zstate z = ZArming \<and> sc_arm_after_closing (ss_cfg s) \<and> in_mode (ss_cfg s) (zmode z))
       (schedule_arm_close_debounce sensor_id)
   }"

definition sensor_activated :: "string \<Rightarrow> sensor_state \<Rightarrow> unit prog" where
  "sensor_activated sensor_id s = do {
     z \<leftarrow> getz;
     whenS (zstate z = ZDisarmed) (do {
       whenS (zauto_rearm_on z \<and> in_mode (ss_cfg s) (zauto_rearm_mode z)) (defer_auto_rearm sensor_id);
       whenS (sc_chime (ss_cfg s)) (chirp (chirp_of ChirpChime))
     });
     if \<not> in_mode (ss_cfg s) (zmode z) \<or> sensor_id \<in> set (zbypassed z) then skip
     else gate_sensor_activation sensor_id s
   }"

definition handle_sensor_event :: "string \<Rightarrow> bool \<Rightarrow> unit prog" where
  "handle_sensor_event sensor_id active = do {
     z \<leftarrow> getz;
     case lookup (zsensors z) sensor_id of
       None \<Rightarrow> skip
     | Some s0 \<Rightarrow> do {
         let was_active = (ss_active_known s0 \<and> ss_active s0);
         let s = s0\<lparr>ss_active := active, ss_active_known := True\<rparr>;
         modz (upd_sensor sensor_id (\<lambda>_. s));
         whenS (row_sensor_type (ss_row s) = STTamper \<and> active \<and> zstate z = ZDisarmed)
           (journal_fault ''tamper_while_disarmed'' False 0);
         (if sc_always_on (ss_cfg s) \<and> active \<and> \<not> was_active then always_on_from_sensor s
          else do {
            consumed \<leftarrow> walk_test_observe sensor_id active;
            if consumed \<and> zstate z = ZDisarmed then skip
            else if \<not> active then sensor_cleared sensor_id s
            else if was_active then skip
            else sensor_activated sensor_id s
          });
         refresh_readiness
       }
   }"

fun is_armed_state :: "zone_state \<Rightarrow> bool" where
  "is_armed_state ZArmed = True"
| "is_armed_state ZArming = True"
| "is_armed_state ZPending = True"
| "is_armed_state _ = False"

definition set_sensor_availability :: "string \<Rightarrow> bool \<Rightarrow> unit prog" where
  "set_sensor_availability sensor_id available = do {
     z \<leftarrow> getz;
     case lookup (zsensors z) sensor_id of
       None \<Rightarrow> skip
     | Some s \<Rightarrow>
         if ss_available s = available then skip
         else do {
           modz (upd_sensor sensor_id (\<lambda>s. s\<lparr>ss_available := available\<rparr>));
           (if available \<or> \<not> is_armed_state (zstate z) \<or> \<not> in_mode (ss_cfg s) (zmode z)
               \<or> sensor_id \<in> set (zbypassed z) then skip
            else if sc_trigger_when_unavailable (ss_cfg s) \<and> zstate z = ZArmed
            then route_activation s (cause_from_sensor CauseUnavailable (ss_row s))
            else journal_fault ''sensor_unavailable_while_armed'' False 0);
           refresh_readiness
         }
   }"

definition set_sensor_health :: "string \<Rightarrow> bool \<Rightarrow> bool \<Rightarrow> unit prog" where
  "set_sensor_health sensor_id sabotage low_battery = do {
     z \<leftarrow> getz;
     case lookup (zsensors z) sensor_id of
       None \<Rightarrow> skip
     | Some s \<Rightarrow> do {
         modz (upd_sensor sensor_id (\<lambda>s. s\<lparr>ss_sabotage := sabotage, ss_low_battery := low_battery\<rparr>));
         whenS (sabotage \<and> \<not> ss_sabotage s) (journal_fault ''sensor_sabotage'' False 0);
         refresh_readiness
       }
   }"

text \<open>One zone's share of \<open>HandleCentralConnectivity\<close>.\<close>

definition central_connectivity :: "string \<Rightarrow> bool \<Rightarrow> unit prog" where
  "central_connectivity central connected = do {
     z \<leftarrow> getz;
     let mine = (\<lambda>s. row_central (ss_row s) = central);
     let affected = list_ex (\<lambda>(i, s). mine s \<and> in_mode (ss_cfg s) (zmode z)
                       \<and> row_id (ss_row s) \<notin> set (zbypassed z)) (zsensors z);
     modz (\<lambda>z. z\<lparr>zsensors := map_vals (\<lambda>_ s. if mine s then s\<lparr>ss_available := connected\<rparr> else s)
                  (zsensors z)\<rparr>);
     if \<not> affected then skip
     else do {
       refresh_readiness;
       if connected then
         journal_entry_append ((entry JFault ''central_restored'')\<lparr>
           je_details := [(''central'', JVStr central)]\<rparr>)
       else if \<not> is_armed_state (zstate z) then skip
       else if zc_central_loss (zcfg z) = LossTrigger then
         trigger ((bare_cause CauseCentralLost)\<lparr>ca_central := central\<rparr>) zero_fire_options
       else journal_fault ''central_lost_while_armed'' False 0
     }
   }"

section \<open>Timer callbacks\<close>

definition on_state_timer_fired :: "nat \<Rightarrow> unit prog" where
  "on_state_timer_fired seq = do {
     z \<leftarrow> getz;
     if ztimer_seq z \<noteq> seq then skip
     else do {
       modz (\<lambda>z. z\<lparr>ztimer_on := False, ztimer_kind := no_timer\<rparr>);
       case ztimer_kind z of
         TKExit \<Rightarrow> whenS (zstate z = ZArming) (complete_arm (zstate z) ''engine'' ''engine'')
       | TKEntry \<Rightarrow> whenS (zstate z = ZPending) (trigger (pending_elapsed_cause z) zero_fire_options)
       | TKPreAlarm \<Rightarrow> whenS (zstate z = ZTriggered \<and> zpre_alarm z) on_pre_alarm_elapsed
       | TKTrigger \<Rightarrow> whenS (zstate z = ZTriggered) on_trigger_elapsed
       | _ \<Rightarrow> skip
     }
   }"

definition on_debounce_fired :: "nat \<Rightarrow> string \<Rightarrow> unit prog" where
  "on_debounce_fired seq sensor_id = do {
     z \<leftarrow> getz;
     if zdebounce_seq z \<noteq> seq \<or> zstate z \<noteq> ZArming then skip
     else
       case lookup (zsensors z) sensor_id of
         None \<Rightarrow> skip
       | Some s \<Rightarrow>
           if ss_active_known s \<and> ss_active s then skip
           else do {
             modz (\<lambda>z. z\<lparr>zdebounce_on := False\<rparr>);
             journal_entry_append ((entry JArm ''armed_after_closing'')\<lparr>
               je_details := [(''sensor_id'', JVStr sensor_id)]\<rparr>);
             complete_arm (zstate z) ''engine'' ''engine''
           }
   }"

definition on_tick_fired :: "nat \<Rightarrow> timer_kind \<Rightarrow> duration \<Rightarrow> unit prog" where
  "on_tick_fired seq kind tot = do {
     z \<leftarrow> getz;
     w \<leftarrow> getw;
     if ztick_seq z \<noteq> seq \<or> ztimer_kind z \<noteq> kind \<or> \<not> ztimer_on z then skip
     else do {
       let remaining = ztimer_deadline z - w_now w;
       if remaining \<le> 0 then skip
       else do {
         publish (EvCountdown (zid z) kind (remaining div go_millisecond) (tot div go_millisecond));
         whenS (op_countdown_ticks (mc_outputs (mode_cfg z (zmode z))))
           (chirp \<lparr>ch_kind = (if kind = TKEntry then ChirpEntryWarning else ChirpCountdownTick),
                   ch_remaining = remaining, ch_total = tot\<rparr>);
         modz (\<lambda>z. z\<lparr>ztick_on := True\<rparr>);
         schedule (CbTick (zid z) seq kind tot) go_second
       }
     }
   }"

definition on_auto_rearm_elapsed :: "unit prog" where
  "on_auto_rearm_elapsed = do {
     z \<leftarrow> getz;
     let mode = zauto_rearm_mode z;
     modz (\<lambda>z. z\<lparr>zauto_rearm_mode := no_mode\<rparr>);
     if zstate z \<noteq> ZDisarmed \<or> \<not> mode_armed mode then persist
     else
       case lookup (zc_modes (zcfg z)) mode of
         None \<Rightarrow> do { journal_fault ''auto_rearm_mode_unavailable'' False 0; persist }
       | Some mcfg \<Rightarrow> do {
           r \<leftarrow> begin_arm \<lparr>ar_mode = mode, ar_force = False, ar_bypass = [], ar_skip_delay = False,
                           ar_code = '''', ar_by = ''engine'', ar_source = ''engine:auto_rearm''\<rparr> mcfg;
           case r of
             Inl err \<Rightarrow> do {
               (case err of
                  ErrNotReady blockers _ \<Rightarrow>
                    journal_entry_append ((entry JFault ''failed_to_arm'')\<lparr>je_actor := ''engine'',
                      je_source := ''engine:auto_rearm'',
                      je_details := [(''mode'', JVMode mode), (''blockers'', JVStrs blockers)]\<rparr>)
                | _ \<Rightarrow> journal_fault ''auto_rearm_failed'' True 0);
               persist
             }
           | Inr _ \<Rightarrow>
               journal_entry_append ((entry JArm ''auto_rearmed'')\<lparr>je_actor := ''engine'',
                 je_source := ''engine:auto_rearm'', je_details := [(''mode'', JVMode mode)]\<rparr>)
         }
   }"

definition on_auto_rearm_fired :: "nat \<Rightarrow> unit prog" where
  "on_auto_rearm_fired seq = do {
     z \<leftarrow> getz;
     if zauto_rearm_seq z \<noteq> seq \<or> \<not> zauto_rearm_on z then skip
     else do {
       modz (\<lambda>z. z\<lparr>zauto_rearm_on := False\<rparr>);
       on_auto_rearm_elapsed
     }
   }"

definition on_hold_fired :: "string \<Rightarrow> nat \<Rightarrow> unit prog" where
  "on_hold_fired sensor_id seq = do {
     z \<leftarrow> getz;
     case lookup (zsensors z) sensor_id of
       None \<Rightarrow> skip
     | Some s \<Rightarrow>
         if ss_hold_seq s \<noteq> seq then skip
         else do {
           modz (upd_sensor sensor_id (\<lambda>s. s\<lparr>ss_hold_on := False\<rparr>));
           if \<not> ss_active s \<or> \<not> in_mode (ss_cfg s) (zmode z) \<or> sensor_id \<in> set (zbypassed z) then skip
           else gate_cross_zone sensor_id (s\<lparr>ss_hold_on := False\<rparr>)
         }
   }"

section \<open>Walk test (walktest.go)\<close>

definition walk_test_start :: "string \<Rightarrow> string \<Rightarrow> (engine_error + unit) prog" where
  "walk_test_start by source = do {
     z \<leftarrow> getz;
     w \<leftarrow> getw;
     if zstate z \<noteq> ZDisarmed then ret (Inl ErrInvalidState)
     else if zwalk z \<noteq> None then ret (Inl ErrWalkTestActive)
     else do {
       modz (\<lambda>z. z\<lparr>zwalk := Some \<lparr>ws_started_at = w_now w, ws_seen = []\<rparr>\<rparr>);
       journal_entry_append ((entry JTest ''walktest_started'')\<lparr>je_actor := by, je_source := source\<rparr>);
       ret (Inr ())
     }
   }"

definition walk_test_stop :: "string \<Rightarrow> string \<Rightarrow> (engine_error + walk_status) prog" where
  "walk_test_stop by source = do {
     z \<leftarrow> getz;
     case zwalk z of
       None \<Rightarrow> ret (Inl ErrInvalidState)
     | Some ws \<Rightarrow> do {
         let st = walk_status_locked z ws;
         let missing = map wk_sensor_id (filter (\<lambda>r. wk_seen_at r = None) (wk_sensors st));
         journal_entry_append ((entry JTest ''walktest_finished'')\<lparr>je_actor := by, je_source := source,
           je_details := [(''seen'', JVInt (wk_seen st)), (''total'', JVInt (wk_total st)),
                          (''missing'', JVStrs missing)]\<rparr>);
         modz (\<lambda>z. z\<lparr>zwalk := None\<rparr>);
         ret (Inr (st\<lparr>wk_active := False\<rparr>))
       }
   }"

definition walk_test_status :: "zone \<Rightarrow> walk_status" where
  "walk_test_status z =
     (case zwalk z of
        None \<Rightarrow> \<lparr>wk_active = False, wk_started_at = 0, wk_seen = 0, wk_total = 0, wk_sensors = []\<rparr>
      | Some ws \<Rightarrow> walk_status_locked z ws)"

end
