(* ===== verification/Alarm_Restore.thy ===== *)
theory Alarm_Restore
  imports Alarm_Engine
begin

text \<open>
  Restart behaviour of one zone (\<open>engine/restore.go\<close>) and the per-zone half of a configuration
  reload (\<open>engine/reload.go\<close>): what a fresh zone becomes from the persisted row, the incident
  table and the source ledger, under a plausible or an implausible wall clock.
\<close>

section \<open>Timer tuples and sources\<close>

definition resumed_timer_floor :: duration where
  "resumed_timer_floor = go_second"

definition floored_remaining :: "duration \<Rightarrow> duration" where
  "floored_remaining d = (if d \<le> 0 then resumed_timer_floor else d)"

definition find_timer :: "persisted_timer list \<Rightarrow> timer_kind \<Rightarrow> persisted_timer option" where
  "find_timer ts kind = find (\<lambda>t. pt_kind t = kind) ts"

definition deadline_in :: "persisted_timer \<Rightarrow> time_ns \<Rightarrow> duration" where
  "deadline_in t now = from_unix_ms (pt_deadline_ms t) - now"

text \<open>The accumulator rebuilt from the ledger rows, first occurrence of a reference wins.\<close>

fun rebuild_sources :: "source_row list \<Rightarrow> string list \<Rightarrow> source_ref list \<Rightarrow> string list \<times> source_ref list" where
  "rebuild_sources [] seen srcs = (seen, srcs)"
| "rebuild_sources (r # rs) seen srcs =
     (if sr_ref (so_ref r) \<in> set seen then rebuild_sources rs seen srcs
      else rebuild_sources rs (sr_ref (so_ref r) # seen) (srcs @ [so_ref r]))"

definition restore_sources :: "unit prog" where
  "restore_sources = do {
     modz reset_sources;
     z \<leftarrow> getz;
     w \<leftarrow> getw;
     if \<not> dp_ledger (w_deps w) \<or> incident_id_of z = 0 then skip
     else do {
       bad \<leftarrow> port_fails;
       if bad then skip
       else do {
         let rows = ledger_list_by_incident (w_ledger w) (incident_id_of z);
         let (seen, srcs) = rebuild_sources rows [] [];
         modz (\<lambda>z. z\<lparr>zsource_seen := seen, zsources := srcs\<rparr>)
       }
     }
   }"

section \<open>Leaving triggered, auto-rearm and re-evaluation\<close>

definition stop_silenced_incident_on_restore :: "alarm_incident \<Rightarrow> unit prog" where
  "stop_silenced_incident_on_restore inc = do {
     stop_all (ai_id inc);
     journal_entry_append ((entry JSilence ''silenced_incident_restored'')\<lparr>je_incident := ai_id inc\<rparr>)
   }"

fun always_on_policy_for_incident :: "zone \<Rightarrow> incident_cause json_doc \<Rightarrow> output_policy" where
  "always_on_policy_for_incident z (Doc c) =
     (if ca_kind c = CausePanic then zc_panic_outputs (zcfg z) else zc_hazard_outputs (zcfg z))"
| "always_on_policy_for_incident z _ = zc_hazard_outputs (zcfg z)"

definition re_evaluate_sensor :: "(sensor_row \<Rightarrow> bool \<times> bool) \<Rightarrow> string \<Rightarrow> unit prog" where
  "re_evaluate_sensor reader i = do {
     z \<leftarrow> getz;
     case lookup (zsensors z) i of
       None \<Rightarrow> skip
     | Some s \<Rightarrow>
         if \<not> snd (reader (ss_row s)) then skip
         else do {
           let active = fst (reader (ss_row s));
           let s' = s\<lparr>ss_active := active, ss_active_known := True\<rparr>;
           modz (upd_sensor i (\<lambda>_. s'));
           if \<not> active then
             whenS (i \<in> set (zopen_at_arm z)) (do {
               modz (\<lambda>z. z\<lparr>zopen_at_arm := removeAll i (zopen_at_arm z)\<rparr>);
               persist
             })
           else if \<not> in_mode (ss_cfg s) (zmode z) \<or> i \<in> set (zbypassed z)
                   \<or> i \<in> set (zopen_at_arm z) then skip
           else if zstate z \<noteq> ZArmed then skip
           else do {
             journal_entry_append ((entry JTrigger ''activation_during_downtime'')\<lparr>
               je_details := [(''sensor_id'', JVStr i)]\<rparr>);
             route_activation s' (cause_from_sensor CauseDowntime (ss_row s))
           }
         }
   }"

definition re_evaluate_after_restore :: "unit prog" where
  "re_evaluate_after_restore = do {
     z \<leftarrow> getz;
     w \<leftarrow> getw;
     case dp_reader (w_deps w) of
       None \<Rightarrow> skip
     | Some reader \<Rightarrow>
         if zstate z \<noteq> ZArmed then skip
         else forS (sorted_sensor_ids z) (re_evaluate_sensor reader)
   }"

definition finish_triggered_on_restore :: "string \<Rightarrow> unit prog" where
  "finish_triggered_on_restore close_reason = do {
     z \<leftarrow> getz;
     let from_state = zstate z;
     stop_all (incident_id_of z);
     close_incident close_reason;
     modz (\<lambda>z. z\<lparr>zpre_trigger_state := no_state, zpre_trigger_mode := no_mode\<rparr>);
     if zc_post_trigger (zcfg z) = PostDisarm then disarm_after_trigger from_state ''engine:restore''
     else do {
       complete_arm from_state ''engine:restore'' ''engine'';
       re_evaluate_after_restore
     }
   }"

definition resume_auto_rearm :: "duration \<Rightarrow> bool \<Rightarrow> unit prog" where
  "resume_auto_rearm remaining plausible = do {
     z \<leftarrow> getz;
     let remaining = floored_remaining remaining;
     schedule_auto_rearm (zauto_rearm_mode z) remaining;
     journal_entry_append ((entry JArm ''auto_rearm_resumed'')\<lparr>
       je_details := [(''remaining_ms'', JVInt (remaining div go_millisecond)),
                      (''clock_plausible'', JVBool plausible)]\<rparr>)
   }"

definition restore_auto_rearm :: "persisted_timer list \<Rightarrow> bool \<Rightarrow> time_ns \<Rightarrow> unit prog" where
  "restore_auto_rearm timers plausible now = do {
     z \<leftarrow> getz;
     if \<not> mode_armed (zauto_rearm_mode z) \<or> lookup (zc_modes (zcfg z)) (zauto_rearm_mode z) = None
     then modz (\<lambda>z. z\<lparr>zauto_rearm_mode := no_mode\<rparr>)
     else
       case find_timer timers TKAutoRearm of
         None \<Rightarrow> resume_auto_rearm (secs (zc_auto_rearm_s (zcfg z))) plausible
       | Some t \<Rightarrow>
           if \<not> plausible then resume_auto_rearm (pt_remaining_ms t * go_millisecond) plausible
           else if deadline_in t now > 0 then resume_auto_rearm (deadline_in t now) plausible
           else on_auto_rearm_elapsed
   }"

section \<open>The restore table (restoreZone)\<close>

text \<open>
  \<open>complete_interrupted_arm\<close> is the branch of \<open>restoreArming\<close> whose exit delay elapsed while the
  daemon was down; \<open>resume_arming\<close> reschedules the countdown.
\<close>

definition complete_interrupted_arm :: "unit prog" where
  "complete_interrupted_arm = do {
     refresh_sensor_values;
     z \<leftarrow> getz;
     let (rd, auto) = readiness_detail z (zmode z);
     let fresh = filter (\<lambda>i. i \<notin> set (zbypassed z)) auto;
     modz (\<lambda>z. z\<lparr>zbypassed := List.union fresh (zbypassed z)\<rparr>);
     forS fresh (\<lambda>i. journal_entry_append ((entry JBypass ''sensor_bypassed'')\<lparr>
       je_actor := ''engine:restore'', je_details := [(''sensor_id'', JVStr i)]\<rparr>));
     let blocking = filter (\<lambda>i. i \<notin> set (zbypassed z) \<and> i \<notin> set fresh) (rd_blockers rd);
     if blocking = [] then do {
       complete_arm ZArming ''engine:restore'' ''engine'';
       re_evaluate_after_restore
     } else do {
       modz cancel_timers;
       modz (\<lambda>z. z\<lparr>zstate := ZDisarmed, zmode := ModeDisarmed, zbypassed := []\<rparr>);
       persist;
       journal_entry_append ((entry JFault ''arm_failed_on_restore'')\<lparr>
         je_details := [(''blockers'', JVStrs blocking)]\<rparr>);
       publish_state (zstate z) ''engine:restore'' ''engine''
     }
   }"

definition resume_arming :: "duration \<Rightarrow> bool \<Rightarrow> unit prog" where
  "resume_arming remaining plausible = do {
     let remaining = floored_remaining remaining;
     schedule_state_timer TKExit remaining;
     start_ticks TKExit;
     persist;
     journal_entry_append ((entry JArm ''arming_resumed'')\<lparr>
       je_details := [(''remaining_ms'', JVInt (remaining div go_millisecond)),
                      (''clock_plausible'', JVBool plausible)]\<rparr>)
   }"

definition restore_arming :: "persisted_timer list \<Rightarrow> bool \<Rightarrow> time_ns \<Rightarrow> unit prog" where
  "restore_arming timers plausible now = do {
     modz (\<lambda>z. z\<lparr>zstate := ZArming\<rparr>);
     z \<leftarrow> getz;
     case find_timer timers TKExit of
       None \<Rightarrow> resume_arming (secs (mc_exit_delay_s (mode_cfg z (zmode z)))) plausible
     | Some t \<Rightarrow>
         if \<not> plausible then resume_arming (pt_remaining_ms t * go_millisecond) plausible
         else if deadline_in t now > 0 then resume_arming (deadline_in t now) plausible
         else complete_interrupted_arm
   }"

definition restore_pending :: "persisted_timer list \<Rightarrow> bool \<Rightarrow> time_ns \<Rightarrow> unit prog" where
  "restore_pending timers plausible now =
     (if \<not> plausible then do {
        modz (\<lambda>z. z\<lparr>zstate := ZArmed, zpending_cause := ''''\<rparr>);
        persist;
        journal_entry_append (entry JFault ''pending_demoted_implausible_clock'');
        re_evaluate_after_restore
      } else
        case find_timer timers TKEntry of
          Some t \<Rightarrow>
            if deadline_in t now > 0 then do {
              modz (\<lambda>z. z\<lparr>zstate := ZPending\<rparr>);
              schedule_state_timer TKEntry (deadline_in t now);
              start_ticks TKEntry;
              persist;
              journal_entry_append (entry JTrigger ''pending_resumed'')
            } else do {
              z \<leftarrow> getz;
              modz (\<lambda>z. z\<lparr>zstate := ZArmed\<rparr>);
              journal_entry_append (entry JTrigger ''pending_elapsed_while_down'');
              trigger (pending_elapsed_cause z) (zero_fire_options\<lparr>fo_restored := True\<rparr>)
            }
        | None \<Rightarrow> do {
            z \<leftarrow> getz;
            modz (\<lambda>z. z\<lparr>zstate := ZArmed\<rparr>);
            journal_entry_append (entry JTrigger ''pending_elapsed_while_down'');
            trigger (pending_elapsed_cause z) (zero_fire_options\<lparr>fo_restored := True\<rparr>)
          })"

text \<open>The deadline \<open>restoreTriggered\<close> reads for an incident that survived.\<close>

definition restored_deadline ::
  "zone \<Rightarrow> alarm_incident \<Rightarrow> persisted_timer list \<Rightarrow> bool \<Rightarrow> time_ns \<Rightarrow> time_ns" where
  "restored_deadline z inc timers was_pre_alarm now =
     (if was_pre_alarm then now + trigger_duration (mode_cfg z (zmode z))
      else case find_timer timers TKTrigger of
             Some t \<Rightarrow> if ai_deadline_ms inc = 0 then from_unix_ms (pt_deadline_ms t)
                       else from_unix_ms (ai_deadline_ms inc)
           | None \<Rightarrow> from_unix_ms (ai_deadline_ms inc))"

definition implausible_remaining :: "zone \<Rightarrow> persisted_timer list \<Rightarrow> duration" where
  "implausible_remaining z timers =
     (case find_timer timers TKTrigger of
        Some t \<Rightarrow> if pt_remaining_ms t > 0 then pt_remaining_ms t * go_millisecond
                  else trigger_duration (mode_cfg z (zmode z))
      | None \<Rightarrow> trigger_duration (mode_cfg z (zmode z)))"

text \<open>The restore-driven re-fire: accounted first, degraded once the loop breaker is reached.\<close>

definition account_refire :: "alarm_incident \<Rightarrow> bool prog" where
  "account_refire inc = account_call (OpRefire (ai_id inc)) ''refire_account_failed'' inc
     (inc\<lparr>ai_refires := ai_refires inc + 1\<rparr>)"

definition refire_on_restore :: "alarm_incident \<Rightarrow> output_policy \<Rightarrow> unit prog" where
  "refire_on_restore inc policy = do {
     w \<leftarrow> getw;
     let degraded = (ai_refires inc \<ge> dp_loop_breaker_k (w_deps w));
     ok \<leftarrow> account_refire inc;
     whenS ok (do {
       let inc' = inc\<lparr>ai_refires := ai_refires inc + 1\<rparr>;
       whenS degraded (journal_fault ''restart_loop_breaker_degraded'' False (ai_id inc));
       fire_cycle inc' (zero_fire_options\<lparr>fo_cycle := ai_cycles inc', fo_degraded := degraded,
         fo_restored := True, fo_policy := policy\<rparr>);
       journal_entry_append ((entry JTrigger ''triggered_restored'')\<lparr>je_incident := ai_id inc,
         je_details := [(''refire'', JVInt (ai_refires inc')), (''degraded'', JVBool degraded)]\<rparr>)
     })
   }"

definition restore_triggered :: "persisted_timer list \<Rightarrow> bool \<Rightarrow> time_ns \<Rightarrow> unit prog" where
  "restore_triggered timers plausible now = do {
     modz (\<lambda>z. z\<lparr>zstate := ZTriggered\<rparr>);
     z \<leftarrow> getz;
     case zincident z of
       None \<Rightarrow> do {
         journal_fault ''incident_lost_on_restore'' False 0;
         finish_triggered_on_restore ''incident_lost''
       }
     | Some inc \<Rightarrow> do {
         let always_on = (zpre_trigger_state z \<noteq> no_state);
         let policy = (if always_on then always_on_policy_for_incident z (ai_cause inc)
                       else mc_outputs (mode_cfg z (zmode z)));
         whenS (zpre_alarm z) (do {
           modz (\<lambda>z. z\<lparr>zpre_alarm := False\<rparr>);
           journal_entry_append ((entry JTrigger ''pre_alarm_restored_as_full'')\<lparr>je_incident := ai_id inc\<rparr>)
         });
         let deadline = restored_deadline z inc timers (zpre_alarm z) now;
         if \<not> plausible then do {
           schedule_state_timer TKTrigger (implausible_remaining z timers);
           persist;
           journal_entry_append ((entry JFault ''triggered_restored_implausible_clock'')\<lparr>
             je_incident := ai_id inc\<rparr>);
           whenS (ai_silenced inc) (stop_silenced_incident_on_restore inc)
         }
         else if deadline - now \<le> 0 then do {
           journal_entry_append ((entry JTrigger ''trigger_window_elapsed_while_down'')\<lparr>
             je_incident := ai_id inc\<rparr>);
           if always_on then finish_always_on ''always_on_elapsed'' ''engine:restore''
           else finish_triggered_on_restore ''post_trigger''
         }
         else do {
           schedule_state_timer TKTrigger (deadline - now);
           persist;
           if ai_silenced inc then stop_silenced_incident_on_restore inc
           else refire_on_restore inc policy
         }
       }
   }"

text \<open>
  The parts of \<open>restoreZone\<close> in the order of the source: the fields copied from the row, the
  incident lookup with the orphan rule, the two records of a silence, the dispatch on the state.
\<close>

definition restore_fields :: "state_row \<Rightarrow> zone \<Rightarrow> zone" where
  "restore_fields row z =
     (let c = decode_context (st_context row) in
      z\<lparr>zmode := st_mode row, zbypassed := decode_bypass (st_bypass row),
        zopen_at_arm := remdups (zx_open_at_arm c), zpending_cause := zx_pending_cause c,
        zsilenced_incident := zx_silenced_incident c, zpre_trigger_state := zx_pre_trigger_state c,
        zpre_trigger_mode := zx_pre_trigger_mode c, zpre_alarm := zx_pre_alarm c,
        zauto_rearm_mode := zx_auto_rearm_mode c\<rparr>)"

definition load_referenced_incident :: "int \<Rightarrow> unit prog" where
  "load_referenced_incident k =
     whenS (k \<noteq> 0) (do {
       bad \<leftarrow> port_fails;
       w \<leftarrow> getw;
       if bad then journal_fault ''incident_load_failed'' True k
       else case incident_get (w_incidents w) k of
              Some inc \<Rightarrow> whenS (ai_closed_ms inc = 0) (modz (\<lambda>z. z\<lparr>zincident := Some inc\<rparr>))
            | None \<Rightarrow> skip
     })"

definition settle_orphan_incident :: "zone_state \<Rightarrow> unit prog" where
  "settle_orphan_incident row_state = do {
     z \<leftarrow> getz;
     whenS (zincident z = None) (do {
       bad \<leftarrow> port_fails;
       w \<leftarrow> getw;
       if bad then journal_fault ''incident_load_failed'' True 0
       else case incident_get_open_by_zone (w_incidents w) (zid z) of
              None \<Rightarrow> skip
            | Some orphan \<Rightarrow>
                if row_state = ZTriggered then do {
                  modz (\<lambda>z. z\<lparr>zincident := Some orphan\<rparr>);
                  journal_entry_append ((entry JFault ''orphan_incident_adopted'')\<lparr>
                    je_incident := ai_id orphan\<rparr>)
                } else do {
                  ok \<leftarrow> incident_call (OpClose (ai_id orphan) (unix_ms (w_now w)) ''incident_lost'');
                  whenS (\<not> ok) (journal_fault ''incident_persist_failed'' True (ai_id orphan));
                  journal_entry_append ((entry JFault ''orphan_incident_closed'')\<lparr>
                    je_incident := ai_id orphan\<rparr>)
                }
     })
   }"

definition heal_silence :: "unit prog" where
  "heal_silence = do {
     z \<leftarrow> getz;
     w \<leftarrow> getw;
     case zincident z of
       None \<Rightarrow> modz (\<lambda>z. z\<lparr>zsilenced_incident := 0\<rparr>)
     | Some inc \<Rightarrow> do {
         whenS (\<not> ai_silenced inc \<and> zsilenced_incident z = ai_id inc) (do {
           modz (\<lambda>z. z\<lparr>zincident := Some (inc\<lparr>ai_silenced := True\<rparr>)\<rparr>);
           ok \<leftarrow> incident_call (OpSilence (ai_id inc) (unix_ms (w_now w)) ''engine:restore'');
           whenS (\<not> ok) (journal_fault ''silence_persist_failed'' True (ai_id inc))
         });
         whenS (zsilenced_incident z \<noteq> ai_id inc) (modz (\<lambda>z. z\<lparr>zsilenced_incident := 0\<rparr>))
       }
   }"

definition restore_dispatch :: "state_row \<Rightarrow> bool \<Rightarrow> time_ns \<Rightarrow> unit prog" where
  "restore_dispatch row plausible now =
     (let timers = decode_timers (st_timers row) in
      case st_state row of
        ZArmed \<Rightarrow> do {
          modz (\<lambda>z. z\<lparr>zstate := ZArmed\<rparr>);
          persist;
          re_evaluate_after_restore
        }
      | ZArming \<Rightarrow> restore_arming timers plausible now
      | ZPending \<Rightarrow> restore_pending timers plausible now
      | ZTriggered \<Rightarrow> restore_triggered timers plausible now
      | _ \<Rightarrow>
          if st_state row = ZDisarmed \<or> st_state row = no_state then do {
            modz (\<lambda>z. z\<lparr>zstate := ZDisarmed, zmode := ModeDisarmed, zpre_trigger_state := no_state,
                        zpre_trigger_mode := no_mode, zpre_alarm := False\<rparr>);
            restore_auto_rearm timers plausible now;
            persist
          } else do {
            journal_fault ''unknown_persisted_state'' False 0;
            modz (\<lambda>z. z\<lparr>zstate := ZDisarmed, zmode := ModeDisarmed\<rparr>);
            persist
          })"

definition restore_zone :: "state_row \<Rightarrow> unit prog" where
  "restore_zone row = do {
     w \<leftarrow> getw;
     let now = w_now w;
     let plausible = clock_plausible (unix_ms now) (st_updated_ms row);
     whenS (\<not> plausible) (journal_entry_append ((entry JFault ''implausible_clock_on_restore'')\<lparr>
       je_details := [(''persisted_at_ms'', JVInt (st_updated_ms row)), (''now_ms'', JVInt (unix_ms now))]\<rparr>));
     modz (restore_fields row);
     load_referenced_incident (st_incident row);
     settle_orphan_incident (st_state row);
     heal_silence;
     restore_sources;
     restore_dispatch row plausible now
   }"

section \<open>Reload of one zone (reload.go)\<close>

text \<open>A zone that left the configuration: disarmed first, then its timers and its row go.\<close>

definition drop_zone :: "unit prog" where
  "drop_zone = do {
     z \<leftarrow> getz;
     whenS (zstate z \<noteq> ZDisarmed) (do {
       journal_entry_append (entry JFault ''zone_removed_while_armed'');
       disarm_locked ''engine:reload'' ''engine''
     });
     modz cancel_timers;
     modz cancel_auto_rearm;
     bad \<leftarrow> port_fails;
     emit (EStateDelete (zid z) (\<not> bad));
     whenS (\<not> bad) (modw (\<lambda>w. w\<lparr>w_states := state_delete (zid z) (w_states w)\<rparr>))
   }"

definition update_zone_config :: "string \<Rightarrow> zone_config \<Rightarrow> unit prog" where
  "update_zone_config name cfg = do {
     modz (\<lambda>z. z\<lparr>zname := name, zcfg := cfg\<rparr>);
     z \<leftarrow> getz;
     whenS (mode_armed (zmode z) \<and> lookup (zc_modes cfg) (zmode z) = None) (do {
       journal_entry_append ((entry JFault ''mode_removed_while_armed'')\<lparr>
         je_details := [(''mode'', JVMode (zmode z))]\<rparr>);
       disarm_locked ''engine:reload'' ''engine''
     })
   }"

definition prune_references :: "(string \<times> sensor_state) list \<Rightarrow> zone \<Rightarrow> zone" where
  "prune_references sensors z =
     (let known = (\<lambda>i. lookup sensors i \<noteq> None) in
      z\<lparr>zsensors := sensors, zbypassed := filter known (zbypassed z),
        zopen_at_arm := filter known (zopen_at_arm z),
        zpending_cause := (if known (zpending_cause z) then zpending_cause z else '''')\<rparr>)"

definition replace_sensors :: "(string \<times> sensor_state) list \<Rightarrow> unit prog" where
  "replace_sensors sensors = do {
     modz (prune_references sensors);
     refresh_sensor_values;
     persist;
     refresh_readiness
   }"

end
