(* ===== verification/Alarm_System.thy ===== *)
theory Alarm_System
  imports Alarm_Restore
begin

text \<open>
  The engine: one arm-state machine per zone behind one mutex (\<open>engine/engine.go\<close>), with loading,
  starting, stopping and reloading (\<open>engine/restore.go\<close>, \<open>engine/reload.go\<close>) and every public
  entry point. Each definition is the body of one entry point between taking and releasing the
  lock; the verbs that verify a code without the lock are split where the source releases it
  (\<open>arm_resolved\<close>, \<open>disarm_idle\<close>, \<open>disarm_resolved\<close>, \<open>silence_resolved\<close>). The relation \<open>estep\<close>
  interleaves all of them with timer callbacks, crashes and a changing environment.
\<close>

section \<open>Engine state and lifting\<close>

record engine =
  e_started :: bool
  e_zones :: "(string \<times> zone) list"
  e_index :: "(string \<times> string) list"
  e_world :: world

type_synonym 'a eprog = "(engine, 'a) state"

definition gete :: "engine eprog" where
  "gete = gets (\<lambda>e. e)"

definition mode_e :: "(engine \<Rightarrow> engine) \<Rightarrow> unit eprog" where
  "mode_e f = modify f"

text \<open>Run a zone program on the zone \<open>id\<close>; the first argument is the answer for an unknown zone.\<close>

definition on_zone :: "'a \<Rightarrow> string \<Rightarrow> 'a prog \<Rightarrow> 'a eprog" where
  "on_zone unknown i m = State (\<lambda>e.
     case lookup (e_zones e) i of
       None \<Rightarrow> (unknown, e)
     | Some z \<Rightarrow>
         (case run_state m \<lparr>cz = z, cw = e_world e\<rparr> of
            (a, s) \<Rightarrow> (a, e\<lparr>e_zones := AList.update i (cz s) (e_zones e), e_world := cw s\<rparr>)))"

definition e_port_fails :: "bool eprog" where
  "e_port_fails = do {
     e \<leftarrow> gete;
     case w_faults (e_world e) of
       [] \<Rightarrow> ret False
     | b # bs \<Rightarrow> do { mode_e (\<lambda>e. e\<lparr>e_world := (e_world e)\<lparr>w_faults := bs\<rparr>\<rparr>); ret b }
   }"

definition e_emit :: "effect \<Rightarrow> unit eprog" where
  "e_emit x = mode_e (\<lambda>e. e\<lparr>e_world := (e_world e)\<lparr>w_trace := x # w_trace (e_world e)\<rparr>\<rparr>)"

definition sorted_zone_ids :: "engine \<Rightarrow> string list" where
  "sorted_zone_ids e = sort (keys (e_zones e))"

definition lookup_sensor :: "engine \<Rightarrow> string \<Rightarrow> string option" where
  "lookup_sensor e sensor_id =
     (case lookup (e_index e) sensor_id of
        None \<Rightarrow> None
      | Some zone_id \<Rightarrow>
          (case lookup (e_zones e) zone_id of
             None \<Rightarrow> None
           | Some z \<Rightarrow> (if lookup (zsensors z) sensor_id = None then None else Some zone_id)))"

section \<open>Start, stop, reload\<close>

definition config_fault :: "string \<Rightarrow> string \<Rightarrow> (string \<times> jval) list \<Rightarrow> unit eprog" where
  "config_fault zone_id event details =
     e_emit (EJournal ((entry JFault event)\<lparr>je_zone := zone_id, je_details := details @ [(''error'', JVError)]\<rparr>))"

definition load_zone_row :: "zone_row \<Rightarrow> unit eprog" where
  "load_zone_row row =
     (case parse_zone_config (zr_config row) of
        None \<Rightarrow> config_fault (zr_id row) ''zone_config_unparseable'' []
      | Some cfg \<Rightarrow>
          mode_e (\<lambda>e. e\<lparr>e_zones := AList.update (zr_id row) (new_zone (zr_id row) (zr_name row) cfg)
                                     (e_zones e)\<rparr>))"

definition add_sensor :: "sensor_row \<Rightarrow> sensor_config \<Rightarrow> zone \<Rightarrow> zone" where
  "add_sensor row cfg z = z\<lparr>zsensors := AList.update (row_id row) (new_sensor row cfg) (zsensors z)\<rparr>"

definition load_sensor_row :: "sensor_row \<Rightarrow> unit eprog" where
  "load_sensor_row row = do {
     e \<leftarrow> gete;
     case lookup (e_zones e) (row_zone_id row) of
       None \<Rightarrow> skip
     | Some z \<Rightarrow>
         (case parse_sensor_config (row_config row) of
            None \<Rightarrow> config_fault (row_zone_id row) ''sensor_config_unparseable''
                      [(''sensor_id'', JVStr (row_id row))]
          | Some cfg \<Rightarrow>
              mode_e (\<lambda>e. e\<lparr>e_zones := AList.update (row_zone_id row) (add_sensor row cfg z) (e_zones e),
                            e_index := AList.update (row_id row) (row_zone_id row) (e_index e)\<rparr>))
   }"

definition load_rows :: "(engine_error option) eprog" where
  "load_rows = do {
     e \<leftarrow> gete;
     mode_e (\<lambda>e. e\<lparr>e_zones := [], e_index := []\<rparr>);
     forS (w_zone_rows (e_world e)) load_zone_row;
     forS (w_sensor_rows (e_world e)) load_sensor_row;
     ret None
   }"

definition load_config :: "(engine_error option) eprog" where
  "load_config = do {
     bad_zones \<leftarrow> e_port_fails;
     if bad_zones then ret (Some ErrLoadZones)
     else do {
       bad_sensors \<leftarrow> e_port_fails;
       if bad_sensors then ret (Some ErrLoadSensors) else load_rows
     }
   }"

definition teardown :: "unit eprog" where
  "teardown = mode_e (\<lambda>e. e\<lparr>e_zones := [], e_index := []\<rparr>)"

text \<open>One turn of the restore loop of \<open>Start\<close>; an unreadable state row aborts the start.\<close>

definition start_zone :: "string \<Rightarrow> (engine_error option) eprog" where
  "start_zone i = do {
     on_zone () i refresh_sensor_values;
     bad \<leftarrow> e_port_fails;
     if bad then do { teardown; ret (Some (ErrLoadState i)) }
     else do {
       e \<leftarrow> gete;
       (case state_get (w_states (e_world e)) i of
          Some row \<Rightarrow> on_zone () i (restore_zone row)
        | None \<Rightarrow> on_zone () i persist);
       on_zone () i refresh_readiness;
       ret None
     }
   }"

primrec start_zones :: "string list \<Rightarrow> (engine_error option) eprog" where
  "start_zones [] = ret None"
| "start_zones (i # is) = do {
     r \<leftarrow> start_zone i;
     case r of None \<Rightarrow> start_zones is | Some err \<Rightarrow> ret (Some err)
   }"

definition bump_boot_count :: "unit eprog" where
  "bump_boot_count = do {
     bad \<leftarrow> e_port_fails;
     mode_e (\<lambda>e. let w = e_world e; n = increment_boot_count (w_boot_row w) in
       e\<lparr>e_world := (if bad then w\<lparr>w_boot := 0\<rparr> else w\<lparr>w_boot := n, w_boot_row := n\<rparr>)\<rparr>)
   }"

definition restore_all :: "(engine_error option) eprog" where
  "restore_all = do {
     e \<leftarrow> gete;
     r \<leftarrow> start_zones (sorted_zone_ids e);
     case r of
       Some err \<Rightarrow> ret (Some err)
     | None \<Rightarrow> do { mode_e (\<lambda>e. e\<lparr>e_started := True\<rparr>); ret None }
   }"

definition start :: "(engine_error option) eprog" where
  "start = do {
     e \<leftarrow> gete;
     if e_started e then ret (Some ErrAlreadyStarted)
     else do {
       bump_boot_count;
       r \<leftarrow> load_config;
       case r of Some err \<Rightarrow> ret (Some err) | None \<Rightarrow> restore_all
     }
   }"

definition stop_zone :: "unit prog" where
  "stop_zone = do { persist; modz cancel_timers; modz cancel_auto_rearm }"

definition stop :: "unit eprog" where
  "stop = do {
     e \<leftarrow> gete;
     whenS (e_started e) (do {
       mode_e (\<lambda>e. e\<lparr>e_started := False\<rparr>);
       forS (keys (e_zones e)) (\<lambda>i. on_zone () i stop_zone)
     })
   }"

text \<open>The zones a reload wants: a row that does not parse keeps the loaded configuration.\<close>

definition desired_row ::
  "zone_row \<Rightarrow> (string \<times> string \<times> zone_config) list \<Rightarrow> ((string \<times> string \<times> zone_config) list) eprog" where
  "desired_row row desired =
     (case parse_zone_config (zr_config row) of
        Some cfg \<Rightarrow> ret (AList.update (zr_id row) (zr_name row, cfg) desired)
      | None \<Rightarrow> do {
          config_fault (zr_id row) ''zone_config_unparseable'' [];
          e \<leftarrow> gete;
          ret (case lookup (e_zones e) (zr_id row) of
                 Some prev \<Rightarrow> AList.update (zr_id row) (zname prev, zcfg prev) desired
               | None \<Rightarrow> desired)
        })"

primrec desired_zones ::
  "zone_row list \<Rightarrow> (string \<times> string \<times> zone_config) list \<Rightarrow> ((string \<times> string \<times> zone_config) list) eprog" where
  "desired_zones [] desired = ret desired"
| "desired_zones (r # rs) desired = do { d \<leftarrow> desired_row r desired; desired_zones rs d }"

definition drop_removed_zone :: "(string \<times> string \<times> zone_config) list \<Rightarrow> string \<Rightarrow> unit eprog" where
  "drop_removed_zone desired i =
     whenS (lookup desired i = None) (do {
       on_zone () i drop_zone;
       mode_e (\<lambda>e. e\<lparr>e_zones := AList.delete i (e_zones e)\<rparr>)
     })"

definition apply_desired_zone :: "string \<times> string \<times> zone_config \<Rightarrow> unit eprog" where
  "apply_desired_zone d = do {
     let (i, name, cfg) = d;
     e \<leftarrow> gete;
     case lookup (e_zones e) i of
       None \<Rightarrow> do {
         mode_e (\<lambda>e. e\<lparr>e_zones := AList.update i (new_zone i name cfg) (e_zones e)\<rparr>);
         on_zone () i persist
       }
     | Some _ \<Rightarrow> on_zone () i (update_zone_config name cfg)
   }"

text \<open>\<open>reloadSensorsLocked\<close>: the new sensor sets by zone, keeping the runtime state of survivors.\<close>

type_synonym sensor_sets = "(string \<times> (string \<times> sensor_state) list) list"

definition sensors_of :: "sensor_sets \<Rightarrow> string \<Rightarrow> (string \<times> sensor_state) list" where
  "sensors_of sets zone_id = (case lookup sets zone_id of None \<Rightarrow> [] | Some s \<Rightarrow> s)"

definition reload_sensor_row ::
  "sensor_row \<Rightarrow> sensor_sets \<times> (string \<times> string) list \<Rightarrow> (sensor_sets \<times> (string \<times> string) list) eprog" where
  "reload_sensor_row row acc = do {
     e \<leftarrow> gete;
     case lookup (e_zones e) (row_zone_id row) of
       None \<Rightarrow> ret acc
     | Some z \<Rightarrow>
         (case parse_sensor_config (row_config row) of
            None \<Rightarrow> do {
              config_fault (row_zone_id row) ''sensor_config_unparseable'' [(''sensor_id'', JVStr (row_id row))];
              ret acc
            }
          | Some cfg \<Rightarrow>
              (let s = (case lookup (zsensors z) (row_id row) of
                          Some old \<Rightarrow> old\<lparr>ss_row := row, ss_cfg := cfg\<rparr>
                        | None \<Rightarrow> new_sensor row cfg);
                   sets = AList.update (row_zone_id row)
                            (AList.update (row_id row) s (sensors_of (fst acc) (row_zone_id row))) (fst acc)
               in ret (sets, AList.update (row_id row) (row_zone_id row) (snd acc))))
   }"

primrec reload_sensor_rows ::
  "sensor_row list \<Rightarrow> sensor_sets \<times> (string \<times> string) list \<Rightarrow> (sensor_sets \<times> (string \<times> string) list) eprog" where
  "reload_sensor_rows [] acc = ret acc"
| "reload_sensor_rows (r # rs) acc = do { a \<leftarrow> reload_sensor_row r acc; reload_sensor_rows rs a }"

definition reload_sensors :: "sensor_row list \<Rightarrow> unit eprog" where
  "reload_sensors rows = do {
     (sets, index) \<leftarrow> reload_sensor_rows rows ([], []);
     e \<leftarrow> gete;
     forS (keys (e_zones e)) (\<lambda>i. on_zone () i (replace_sensors (sensors_of sets i)));
     mode_e (\<lambda>e. e\<lparr>e_index := index\<rparr>)
   }"

definition reload :: "(engine_error option) eprog" where
  "reload = do {
     e \<leftarrow> gete;
     if \<not> e_started e then ret (Some ErrNotStarted)
     else do {
       bad_zones \<leftarrow> e_port_fails;
       if bad_zones then ret (Some ErrLoadZones)
       else do {
         bad_sensors \<leftarrow> e_port_fails;
         if bad_sensors then ret (Some ErrLoadSensors)
         else do {
           desired \<leftarrow> desired_zones (w_zone_rows (e_world e)) [];
           forS (keys (e_zones e)) (drop_removed_zone desired);
           forS desired apply_desired_zone;
           reload_sensors (w_sensor_rows (e_world e));
           ret None
         }
       }
     }
   }"

section \<open>Codes\<close>

definition code_source_rest_operator :: string where
  "code_source_rest_operator = ''rest-operator''"

definition code_source_ws_operator :: string where
  "code_source_ws_operator = ''ws-operator''"

definition code_source_hmcli :: string where
  "code_source_hmcli = ''hmcli''"

definition code_source_keypad :: string where
  "code_source_keypad = ''keypad''"

definition code_source_remote :: string where
  "code_source_remote = ''remote''"

definition is_operator_source :: "string \<Rightarrow> bool" where
  "is_operator_source source \<longleftrightarrow>
     source \<in> {code_source_rest_operator, code_source_ws_operator, code_source_hmcli}"

definition is_pre_authenticated_source :: "string \<Rightarrow> bool" where
  "is_pre_authenticated_source source \<longleftrightarrow>
     is_operator_source source \<or> source = code_source_keypad \<or> source = code_source_remote"

definition resolve_code ::
  "deps \<Rightarrow> string \<Rightarrow> code_policy \<Rightarrow> code_verb \<Rightarrow> string \<Rightarrow> string \<Rightarrow> engine_error + (string \<times> bool)" where
  "resolve_code d zone_id policy verb code source =
     (case dp_validator d of
        None \<Rightarrow> Inr ('''', False)
      | Some validate \<Rightarrow>
          let required = code_policy_requires policy verb source \<and> \<not> is_pre_authenticated_source source in
          if \<not> required \<and> code = '''' then Inr ('''', False)
          else case validate zone_id verb code source of
                 Inr ok \<Rightarrow> Inr ok
               | Inl err \<Rightarrow> if is_operator_source source then Inr ('''', False) else Inl err)"

definition probe_duress :: "deps \<Rightarrow> string \<Rightarrow> code_verb \<Rightarrow> string \<Rightarrow> string \<Rightarrow> string \<times> bool" where
  "probe_duress d zone_id verb code source =
     (if code = '''' then ('''', False)
      else case dp_duress d of
             None \<Rightarrow> ('''', False)
           | Some match \<Rightarrow> match zone_id verb code source)"

section \<open>Verbs\<close>

definition arm_preconditions :: "engine \<Rightarrow> string \<Rightarrow> alarm_mode \<Rightarrow> engine_error + (zone \<times> mode_config)" where
  "arm_preconditions e zone_id mode =
     (if \<not> e_started e then Inl ErrInvalidState
      else case lookup (e_zones e) zone_id of
             None \<Rightarrow> Inl ErrUnknownZone
           | Some z \<Rightarrow>
               if \<not> mode_armed mode then Inl ErrUnknownMode
               else case lookup (zc_modes (zcfg z)) mode of
                      None \<Rightarrow> Inl ErrUnknownMode
                    | Some mcfg \<Rightarrow>
                        if zstate z = ZPending \<or> zstate z = ZTriggered then Inl ErrInvalidState
                        else Inr (z, mcfg))"

definition arm_resolved :: "string \<Rightarrow> arm_request \<Rightarrow> string \<Rightarrow> bool \<Rightarrow> (engine_error + arm_result) eprog" where
  "arm_resolved zone_id req identity duress = do {
     e \<leftarrow> gete;
     case arm_preconditions e zone_id (ar_mode req) of
       Inl err \<Rightarrow> ret (Inl err)
     | Inr (_, mcfg) \<Rightarrow> do {
         let req = (if identity \<noteq> '''' \<and> ar_by req = '''' then req\<lparr>ar_by := identity\<rparr> else req);
         on_zone (Inl ErrUnknownZone) zone_id (do {
           whenS duress (fire_duress VerbArm (ar_by req) (ar_source req));
           begin_arm req mcfg
         })
       }
   }"

definition arm :: "string \<Rightarrow> arm_request \<Rightarrow> (engine_error + arm_result) eprog" where
  "arm zone_id req = do {
     e \<leftarrow> gete;
     case arm_preconditions e zone_id (ar_mode req) of
       Inl err \<Rightarrow> ret (Inl err)
     | Inr (z, _) \<Rightarrow>
         (case resolve_code (w_deps (e_world e)) zone_id (zc_code_policy (zcfg z)) VerbArm
                 (ar_code req) (ar_source req) of
            Inl err \<Rightarrow> ret (Inl err)
          | Inr (identity, duress) \<Rightarrow> arm_resolved zone_id req identity duress)
   }"

text \<open>\<open>zoneCodeContext\<close>.\<close>

definition zone_code_context :: "engine \<Rightarrow> string \<Rightarrow> (code_policy \<times> zone_state) option" where
  "zone_code_context e zone_id =
     (case lookup (e_zones e) zone_id of
        None \<Rightarrow> None
      | Some z \<Rightarrow> Some (zc_code_policy (zcfg z), zstate z))"

text \<open>\<open>None\<close> is the outcome \<open>applied = false\<close> of \<open>disarmIdle\<close>.\<close>

definition e_disarm_idle ::
  "string \<Rightarrow> string \<Rightarrow> string \<Rightarrow> string \<Rightarrow> bool \<Rightarrow> ((engine_error + unit) option) eprog" where
  "e_disarm_idle zone_id by source identity duress =
     on_zone (Some (Inl ErrUnknownZone)) zone_id (do {
       applied \<leftarrow> disarm_idle by source identity duress;
       ret (if applied then Some (Inr ()) else None)
     })"

definition e_disarm_resolved ::
  "string \<Rightarrow> string \<Rightarrow> string \<Rightarrow> string \<Rightarrow> bool \<Rightarrow> (engine_error + unit) eprog" where
  "e_disarm_resolved zone_id by source identity duress =
     on_zone (Inl ErrUnknownZone) zone_id (do { disarm_resolved by source identity duress; ret (Inr ()) })"

definition disarm_checked :: "string \<Rightarrow> string \<Rightarrow> string \<Rightarrow> string \<Rightarrow> (engine_error + unit) eprog" where
  "disarm_checked zone_id by source code = do {
     e \<leftarrow> gete;
     case zone_code_context e zone_id of
       None \<Rightarrow> ret (Inl ErrUnknownZone)
     | Some (policy, _) \<Rightarrow>
         (case resolve_code (w_deps (e_world e)) zone_id policy VerbDisarm code source of
            Inl err \<Rightarrow> ret (Inl err)
          | Inr (identity, duress) \<Rightarrow> e_disarm_resolved zone_id by source identity duress)
   }"

definition disarm_with_code :: "string \<Rightarrow> string \<Rightarrow> string \<Rightarrow> string \<Rightarrow> (engine_error + unit) eprog" where
  "disarm_with_code zone_id by source code = do {
     e \<leftarrow> gete;
     case zone_code_context e zone_id of
       None \<Rightarrow> ret (Inl ErrUnknownZone)
     | Some (_, st) \<Rightarrow>
         if st = ZDisarmed then do {
           let (identity, duress) = probe_duress (w_deps (e_world e)) zone_id VerbDisarm code source;
           r \<leftarrow> e_disarm_idle zone_id by source identity duress;
           case r of Some outcome \<Rightarrow> ret outcome | None \<Rightarrow> disarm_checked zone_id by source code
         } else disarm_checked zone_id by source code
   }"

definition disarm :: "string \<Rightarrow> string \<Rightarrow> string \<Rightarrow> (engine_error + unit) eprog" where
  "disarm zone_id by source = disarm_with_code zone_id by source ''''"

definition e_silence_resolved ::
  "string \<Rightarrow> string \<Rightarrow> string \<Rightarrow> string \<Rightarrow> bool \<Rightarrow> (engine_error + unit) eprog" where
  "e_silence_resolved zone_id by source identity duress =
     on_zone (Inl ErrUnknownZone) zone_id (do { silence_resolved by source identity duress; ret (Inr ()) })"

definition silence_with_code :: "string \<Rightarrow> string \<Rightarrow> string \<Rightarrow> string \<Rightarrow> (engine_error + unit) eprog" where
  "silence_with_code zone_id by source code = do {
     e \<leftarrow> gete;
     case zone_code_context e zone_id of
       None \<Rightarrow> ret (Inl ErrUnknownZone)
     | Some (policy, _) \<Rightarrow>
         (case resolve_code (w_deps (e_world e)) zone_id policy VerbSilence code source of
            Inl err \<Rightarrow> ret (Inl err)
          | Inr (identity, duress) \<Rightarrow> e_silence_resolved zone_id by source identity duress)
   }"

definition silence :: "string \<Rightarrow> string \<Rightarrow> string \<Rightarrow> (engine_error + unit) eprog" where
  "silence zone_id by source = silence_with_code zone_id by source ''''"

definition silence_all :: "string \<Rightarrow> string \<Rightarrow> unit eprog" where
  "silence_all by source = do {
     e \<leftarrow> gete;
     forS (sorted_zone_ids e) (\<lambda>i. on_zone () i (silence_locked by source))
   }"

definition e_acknowledge :: "string \<Rightarrow> string \<Rightarrow> string \<Rightarrow> (engine_error + unit) eprog" where
  "e_acknowledge zone_id by source = on_zone (Inl ErrUnknownZone) zone_id (acknowledge by source)"

section \<open>Sensor and environment events\<close>

text \<open>The prologue of the sensor entry points: started, then \<open>lookupSensor\<close>.\<close>

definition on_sensor_zone :: "string \<Rightarrow> unit prog \<Rightarrow> unit eprog" where
  "on_sensor_zone sensor_id m = do {
     e \<leftarrow> gete;
     if \<not> e_started e then skip
     else case lookup_sensor e sensor_id of
            None \<Rightarrow> skip
          | Some zone_id \<Rightarrow> on_zone () zone_id m
   }"

definition e_handle_sensor_event :: "string \<Rightarrow> bool \<Rightarrow> unit eprog" where
  "e_handle_sensor_event sensor_id active = on_sensor_zone sensor_id (handle_sensor_event sensor_id active)"

definition e_set_sensor_availability :: "string \<Rightarrow> bool \<Rightarrow> unit eprog" where
  "e_set_sensor_availability sensor_id available =
     on_sensor_zone sensor_id (set_sensor_availability sensor_id available)"

definition e_set_sensor_health :: "string \<Rightarrow> bool \<Rightarrow> bool \<Rightarrow> unit eprog" where
  "e_set_sensor_health sensor_id sabotage low_battery =
     on_sensor_zone sensor_id (set_sensor_health sensor_id sabotage low_battery)"

definition handle_central_connectivity :: "string \<Rightarrow> bool \<Rightarrow> unit eprog" where
  "handle_central_connectivity central connected = do {
     e \<leftarrow> gete;
     whenS (e_started e)
       (forS (sorted_zone_ids e) (\<lambda>i. on_zone () i (central_connectivity central connected)))
   }"

definition e_adopt_sounding :: "string \<Rightarrow> string list \<Rightarrow> (engine_error + bool) eprog" where
  "e_adopt_sounding zone_id output_ids =
     on_zone (Inl ErrUnknownZone) zone_id (do { a \<leftarrow> adopt_sounding output_ids; ret (Inr a) })"

definition reevaluate_zone :: "unit prog" where
  "reevaluate_zone = do {
     z \<leftarrow> getz;
     whenS (zstate z = ZArmed) (do { re_evaluate_after_restore; refresh_readiness })
   }"

definition reevaluate_sensors :: "unit eprog" where
  "reevaluate_sensors = do {
     e \<leftarrow> gete;
     whenS (e_started e) (forS (sorted_zone_ids e) (\<lambda>i. on_zone () i reevaluate_zone))
   }"

definition e_panic_trigger :: "string \<Rightarrow> bool \<Rightarrow> string \<Rightarrow> string \<Rightarrow> (engine_error + unit) eprog" where
  "e_panic_trigger zone_id silent by source = do {
     e \<leftarrow> gete;
     if \<not> e_started e then ret (Inl ErrInvalidState)
     else on_zone (Inl ErrUnknownZone) zone_id (do { panic_trigger silent by source; ret (Inr ()) })
   }"

definition e_walk_test_start :: "string \<Rightarrow> string \<Rightarrow> string \<Rightarrow> (engine_error + unit) eprog" where
  "e_walk_test_start zone_id by source = do {
     e \<leftarrow> gete;
     if \<not> e_started e then ret (Inl ErrInvalidState)
     else on_zone (Inl ErrUnknownZone) zone_id (walk_test_start by source)
   }"

definition e_walk_test_stop :: "string \<Rightarrow> string \<Rightarrow> string \<Rightarrow> (engine_error + walk_status) eprog" where
  "e_walk_test_stop zone_id by source = on_zone (Inl ErrUnknownZone) zone_id (walk_test_stop by source)"

section \<open>Queries and the motion reset\<close>

definition zones_loaded :: "engine \<Rightarrow> bool" where
  "zones_loaded e = e_started e"

definition zones :: "engine \<Rightarrow> zone_snapshot list" where
  "zones e = sort_key sn_id (map (\<lambda>(_, z). snapshot z (w_now (e_world e))) (e_zones e))"

definition zone_by_id :: "engine \<Rightarrow> string \<Rightarrow> zone_snapshot option" where
  "zone_by_id e i = map_option (\<lambda>z. snapshot z (w_now (e_world e))) (lookup (e_zones e) i)"

definition e_incident_sources :: "engine \<Rightarrow> string \<Rightarrow> source_ref list" where
  "e_incident_sources e i = (case lookup (e_zones e) i of None \<Rightarrow> [] | Some z \<Rightarrow> sources_copy z)"

definition e_walk_test_status :: "engine \<Rightarrow> string \<Rightarrow> engine_error + walk_status" where
  "e_walk_test_status e i =
     (case lookup (e_zones e) i of None \<Rightarrow> Inl ErrUnknownZone | Some z \<Rightarrow> Inr (walk_test_status z))"

record triggered_motion_sensor =
  tm_sensor_id :: string
  tm_zone_id :: string
  tm_row :: sensor_row

record motion_reset_result =
  mr_reset :: int
  mr_failed :: int
  mr_sensors :: "triggered_motion_sensor list"

definition zone_motion :: "(sensor_row \<Rightarrow> bool) \<Rightarrow> string \<times> zone \<Rightarrow> triggered_motion_sensor list" where
  "zone_motion supports e =
     map (\<lambda>(i, s). \<lparr>tm_sensor_id = i, tm_zone_id = fst e, tm_row = ss_row s\<rparr>)
       (filter (latched supports) (zsensors (snd e)))"

definition triggered_motion :: "engine \<Rightarrow> string \<Rightarrow> triggered_motion_sensor list" where
  "triggered_motion e zone_id =
     (case dp_motion (w_deps (e_world e)) of
        None \<Rightarrow> []
      | Some supports \<Rightarrow>
          sort_key tm_sensor_id (concat (map (zone_motion supports)
            (filter (\<lambda>(i, _). zone_id = '''' \<or> i = zone_id) (e_zones e)))))"

text \<open>The device writes, in the order of the targets: which of them succeeded.\<close>

primrec motion_writes :: "triggered_motion_sensor list \<Rightarrow> ((triggered_motion_sensor \<times> bool) list) eprog" where
  "motion_writes [] = ret []"
| "motion_writes (t # ts) = do {
     bad \<leftarrow> e_port_fails;
     e_emit (EMotionReset (tm_row t) (\<not> bad));
     rest \<leftarrow> motion_writes ts;
     ret ((t, \<not> bad) # rest)
   }"

definition motion_journal :: "(triggered_motion_sensor \<times> bool) list \<Rightarrow> string \<Rightarrow> string \<Rightarrow> string \<Rightarrow> unit eprog" where
  "motion_journal outcome by source i =
     (let mine = filter (\<lambda>(t, _). tm_zone_id t = i) outcome in
      on_zone () i (journal_entry_append ((entry JMaintenance ''motion_reset'')\<lparr>je_actor := by,
        je_source := source,
        je_details := [(''sensors'', JVStrs (map (tm_sensor_id \<circ> fst) mine)),
                       (''reset'', JVInt (int (length (filter snd mine)))),
                       (''failed'', JVInt (int (length (filter (Not \<circ> snd) mine))))]\<rparr>)))"

definition reset_triggered_motion :: "string \<Rightarrow> string \<Rightarrow> string \<Rightarrow> motion_reset_result eprog" where
  "reset_triggered_motion zone_id by source = do {
     e \<leftarrow> gete;
     if \<not> e_started e \<or> (zone_id \<noteq> '''' \<and> lookup (e_zones e) zone_id = None)
     then ret \<lparr>mr_reset = 0, mr_failed = 0, mr_sensors = []\<rparr>
     else do {
       let targets = triggered_motion e zone_id;
       outcome \<leftarrow> motion_writes targets;
       forS (remdups (map tm_zone_id targets)) (motion_journal outcome by source);
       ret \<lparr>mr_reset = int (length (filter snd outcome)),
            mr_failed = int (length (filter (Not \<circ> snd) outcome)), mr_sensors = targets\<rparr>
     }
   }"

section \<open>Timer callbacks\<close>

fun run_callback :: "callback \<Rightarrow> unit eprog" where
  "run_callback (CbState i seq) = on_zone () i (on_state_timer_fired seq)"
| "run_callback (CbDebounce i seq sensor_id) = on_zone () i (on_debounce_fired seq sensor_id)"
| "run_callback (CbTick i seq kind tot) = on_zone () i (on_tick_fired seq kind tot)"
| "run_callback (CbAutoRearm i seq) = do {
     e \<leftarrow> gete;
     if e_started e then on_zone () i (on_auto_rearm_fired seq) else skip
   }"
| "run_callback (CbHold i sensor_id seq) = on_zone () i (on_hold_fired sensor_id seq)"

section \<open>Interleaving\<close>

text \<open>
  One critical section of the engine, chosen by the scheduler. The resolved verbs take any
  identity and duress flag, which covers every answer of the code validator and every change of
  the zone between the two critical sections of a coded verb.
\<close>

datatype action =
    ActStart | ActStop | ActReload
  | ActArm string arm_request string bool
  | ActDisarmIdle string string string string bool
  | ActDisarm string string string string bool
  | ActSilence string string string string bool
  | ActSilenceAll string string
  | ActAcknowledge string string string
  | ActSensor string bool
  | ActAvailability string bool
  | ActHealth string bool bool
  | ActCentral string bool
  | ActAdopt string "string list"
  | ActReevaluate
  | ActPanic string bool string string
  | ActWalkStart string string string
  | ActWalkStop string string string
  | ActMotionReset string string string

fun act :: "action \<Rightarrow> engine \<Rightarrow> engine" where
  "act ActStart e = snd (run_state start e)"
| "act ActStop e = snd (run_state stop e)"
| "act ActReload e = snd (run_state reload e)"
| "act (ActArm i req identity duress) e = snd (run_state (arm_resolved i req identity duress) e)"
| "act (ActDisarmIdle i by src identity duress) e = snd (run_state (e_disarm_idle i by src identity duress) e)"
| "act (ActDisarm i by src identity duress) e = snd (run_state (e_disarm_resolved i by src identity duress) e)"
| "act (ActSilence i by src identity duress) e = snd (run_state (e_silence_resolved i by src identity duress) e)"
| "act (ActSilenceAll by src) e = snd (run_state (silence_all by src) e)"
| "act (ActAcknowledge i by src) e = snd (run_state (e_acknowledge i by src) e)"
| "act (ActSensor i active) e = snd (run_state (e_handle_sensor_event i active) e)"
| "act (ActAvailability i ok) e = snd (run_state (e_set_sensor_availability i ok) e)"
| "act (ActHealth i sab low) e = snd (run_state (e_set_sensor_health i sab low) e)"
| "act (ActCentral c ok) e = snd (run_state (handle_central_connectivity c ok) e)"
| "act (ActAdopt i outs) e = snd (run_state (e_adopt_sounding i outs) e)"
| "act ActReevaluate e = snd (run_state reevaluate_sensors e)"
| "act (ActPanic i silent by src) e = snd (run_state (e_panic_trigger i silent by src) e)"
| "act (ActWalkStart i by src) e = snd (run_state (e_walk_test_start i by src) e)"
| "act (ActWalkStop i by src) e = snd (run_state (e_walk_test_stop i by src) e)"
| "act (ActMotionReset i by src) e = snd (run_state (reset_triggered_motion i by src) e)"

text \<open>A process that died: the stores and the past survive, everything in memory is gone.\<close>

definition crashed :: "world \<Rightarrow> engine" where
  "crashed w = \<lparr>e_started = False, e_zones = [], e_index = [], e_world = w\<lparr>w_sched := [], w_boot := 0\<rparr>\<rparr>"

text \<open>
  The environment between two critical sections: the clock (in either direction), the answers of
  the ports, the outcomes of the coming calls and the configuration rows. The stores the engine
  writes and the past are left alone.
\<close>

definition same_stores :: "world \<Rightarrow> world \<Rightarrow> bool" where
  "same_stores w w' \<longleftrightarrow> w_incidents w' = w_incidents w \<and> w_states w' = w_states w
     \<and> w_ledger w' = w_ledger w \<and> w_trace w' = w_trace w \<and> w_sched w' = w_sched w
     \<and> w_boot w' = w_boot w \<and> w_boot_row w' = w_boot_row w"

inductive estep :: "engine \<Rightarrow> engine \<Rightarrow> bool" where
  step_act: "estep e (act a e)"
| step_fire: "(cb, t) \<in> set (w_sched (e_world e)) \<Longrightarrow> t \<le> w_now (e_world e)
    \<Longrightarrow> estep e (snd (run_state (run_callback cb) e))"
| step_env: "same_stores (e_world e) w' \<Longrightarrow> estep e (e\<lparr>e_world := w'\<rparr>)"
| step_crash: "estep e (crashed (e_world e))"

inductive_cases estep_cases: "estep e e'"

text \<open>A fresh installation: empty stores, nothing done yet.\<close>

definition fresh :: "engine \<Rightarrow> bool" where
  "fresh e \<longleftrightarrow> \<not> e_started e \<and> e_zones e = [] \<and> e_index e = []
     \<and> it_rows (w_incidents (e_world e)) = [] \<and> it_next (w_incidents (e_world e)) = 1
     \<and> w_states (e_world e) = [] \<and> w_trace (e_world e) = [] \<and> w_sched (e_world e) = []"

end
