(* ===== verification/Alarm_Logic.thy ===== *)
theory Alarm_Logic
  imports Alarm_System
begin

text \<open>
  The invariants of the alarm engine and the program logic that carries them through the handlers.

  \<^item> \<open>zinv\<close>: what holds of a zone whenever the lock is free. \<open>timer_ok\<close>: the countdown that belongs
    to its state runs.
  \<^item> \<open>winv\<close>: what holds of the world: the persisted rows are those of zones satisfying \<open>zinv\<close>, no
    output cycle was ever started for a silenced incident, every cycle was accounted for first.
  \<^item> \<open>linked\<close>: what ties a zone to the world: its incident is backed by the incident table, its
    countdown by a scheduled callback.
  \<^item> \<open>zwp\<close>: the precondition under which a program ends in a zone satisfying \<open>Q\<close>, whatever the
    ports answer, with \<open>winv\<close> and \<open>linked\<close> kept. Its rules are collected in \<open>zwp_intros\<close>.
\<close>

section \<open>Zone invariant\<close>

definition zinv :: "zone \<Rightarrow> bool" where
  "zinv z \<longleftrightarrow>
     state_valid (zstate z)
     \<and> (zincident z = None \<longleftrightarrow> zstate z \<noteq> ZTriggered)
     \<and> (zpre_trigger_state z \<noteq> no_state \<longrightarrow> zstate z = ZTriggered)
     \<and> (zstate z = ZDisarmed \<longrightarrow> zmode z = ModeDisarmed \<and> zbypassed z = [])
     \<and> (zstate z = ZDisarmed \<or> zstate z = ZArming \<longrightarrow> zopen_at_arm z = [] \<and> zpending_cause z = '''')
     \<and> (zsilenced_incident z \<noteq> 0 \<longrightarrow>
          (\<exists>inc. zincident z = Some inc \<and> ai_silenced inc \<and> ai_id inc = zsilenced_incident z))
     \<and> (ztimer_kind z = TKPreAlarm \<longrightarrow> zpre_trigger_state z = no_state)"

definition timer_ok :: "zone \<Rightarrow> bool" where
  "timer_ok z \<longleftrightarrow>
     (if zstate z = ZArming then ztimer_on z \<and> ztimer_kind z = TKExit
      else if zstate z = ZPending then ztimer_on z \<and> ztimer_kind z = TKEntry
      else if zstate z = ZTriggered
      then ztimer_on z \<and> (ztimer_kind z = TKTrigger \<or> ztimer_kind z = TKPreAlarm \<and> zpre_alarm z)
      else \<not> ztimer_on z \<and> ztimer_kind z = no_timer)"

text \<open>The same facts, read off a persisted row.\<close>

definition row_ok :: "state_row \<Rightarrow> bool" where
  "row_ok row \<longleftrightarrow>
     state_valid (st_state row)
     \<and> (st_incident row \<noteq> 0 \<longrightarrow> st_state row = ZTriggered)
     \<and> (st_state row = ZDisarmed \<longrightarrow> st_mode row = ModeDisarmed \<and> st_bypass row = Doc [])
     \<and> (case st_context row of
          Doc c \<Rightarrow>
            (zx_pre_trigger_state c \<noteq> no_state \<longrightarrow> st_state row = ZTriggered)
            \<and> (st_state row = ZDisarmed \<or> st_state row = ZArming \<longrightarrow>
                 zx_open_at_arm c = [] \<and> zx_pending_cause c = '''')
        | _ \<Rightarrow> False)"

lemma row_ok_of_zinv: "zinv z \<Longrightarrow> row_ok (state_row_of z now boot)"
  by (auto simp: zinv_def row_ok_def state_row_of_def encode_bypass_def encode_context_def
      incident_id_of_def split: option.splits)

lemma zinv_new_zone [simp]: "zinv (new_zone i n cfg)"
  by (simp add: zinv_def new_zone_def)

lemma timer_ok_new_zone [simp]: "timer_ok (new_zone i n cfg)"
  by (simp add: timer_ok_def new_zone_def)

text \<open>Fields outside the invariants.\<close>

lemma zinv_frame [simp]:
  "zinv (z\<lparr>zsensors := ss\<rparr>) = zinv z" "zinv (z\<lparr>zreadiness := r\<rparr>) = zinv z"
  "zinv (z\<lparr>zwalk := wt\<rparr>) = zinv z" "zinv (z\<lparr>zgroup_hits := h\<rparr>) = zinv z"
  "zinv (z\<lparr>zname := n\<rparr>) = zinv z" "zinv (z\<lparr>zcfg := cfg\<rparr>) = zinv z"
  "zinv (z\<lparr>zsources := sl\<rparr>) = zinv z" "zinv (z\<lparr>zsource_seen := sn\<rparr>) = zinv z"
  "zinv (z\<lparr>zauto_rearm_mode := m\<rparr>) = zinv z" "zinv (z\<lparr>zauto_rearm_on := b\<rparr>) = zinv z"
  "zinv (z\<lparr>zauto_rearm_seq := n1\<rparr>) = zinv z" "zinv (z\<lparr>zauto_rearm_deadline := d1\<rparr>) = zinv z"
  "zinv (z\<lparr>zdebounce_on := b\<rparr>) = zinv z" "zinv (z\<lparr>zdebounce_seq := n1\<rparr>) = zinv z"
  "zinv (z\<lparr>ztick_on := b\<rparr>) = zinv z" "zinv (z\<lparr>ztick_seq := n1\<rparr>) = zinv z"
  "zinv (z\<lparr>zpre_alarm := b\<rparr>) = zinv z" "zinv (z\<lparr>zpre_trigger_mode := pm\<rparr>) = zinv z"
  "zinv (z\<lparr>ztimer_seq := n1\<rparr>) = zinv z" "zinv (z\<lparr>ztimer_deadline := d1\<rparr>) = zinv z"
  "zinv (z\<lparr>ztimer_remaining := d1\<rparr>) = zinv z" "zinv (z\<lparr>ztimer_on := b\<rparr>) = zinv z"
  by (simp_all add: zinv_def)

lemma zinv_timer_kind: "zinv z \<Longrightarrow> kind \<noteq> TKPreAlarm \<Longrightarrow> zinv (z\<lparr>ztimer_kind := kind\<rparr>)"
  by (simp add: zinv_def)

lemma zinv_incident:
  "zinv z \<Longrightarrow> zincident z = Some inc \<Longrightarrow> ai_id inc' = ai_id inc \<Longrightarrow> ai_silenced inc' = ai_silenced inc \<Longrightarrow>
   zinv (z\<lparr>zincident := Some inc'\<rparr>)"
  by (auto simp: zinv_def)

lemma timer_ok_frame [simp]:
  "timer_ok (z\<lparr>zsensors := ss\<rparr>) = timer_ok z" "timer_ok (z\<lparr>zreadiness := r\<rparr>) = timer_ok z"
  "timer_ok (z\<lparr>zwalk := wt\<rparr>) = timer_ok z" "timer_ok (z\<lparr>zgroup_hits := h\<rparr>) = timer_ok z"
  "timer_ok (z\<lparr>zname := n\<rparr>) = timer_ok z" "timer_ok (z\<lparr>zcfg := cfg\<rparr>) = timer_ok z"
  "timer_ok (z\<lparr>zsources := sl\<rparr>) = timer_ok z" "timer_ok (z\<lparr>zsource_seen := sn\<rparr>) = timer_ok z"
  "timer_ok (z\<lparr>zauto_rearm_mode := m\<rparr>) = timer_ok z" "timer_ok (z\<lparr>zauto_rearm_on := b\<rparr>) = timer_ok z"
  "timer_ok (z\<lparr>zauto_rearm_seq := n1\<rparr>) = timer_ok z"
  "timer_ok (z\<lparr>zauto_rearm_deadline := d1\<rparr>) = timer_ok z"
  "timer_ok (z\<lparr>zdebounce_on := b\<rparr>) = timer_ok z" "timer_ok (z\<lparr>zdebounce_seq := n1\<rparr>) = timer_ok z"
  "timer_ok (z\<lparr>ztick_on := b\<rparr>) = timer_ok z" "timer_ok (z\<lparr>ztick_seq := n1\<rparr>) = timer_ok z"
  "timer_ok (z\<lparr>zmode := m\<rparr>) = timer_ok z" "timer_ok (z\<lparr>zbypassed := bl\<rparr>) = timer_ok z"
  "timer_ok (z\<lparr>zopen_at_arm := ol\<rparr>) = timer_ok z" "timer_ok (z\<lparr>zpending_cause := pc\<rparr>) = timer_ok z"
  "timer_ok (z\<lparr>zincident := inc\<rparr>) = timer_ok z" "timer_ok (z\<lparr>zsilenced_incident := k\<rparr>) = timer_ok z"
  "timer_ok (z\<lparr>zpre_trigger_state := ps\<rparr>) = timer_ok z"
  "timer_ok (z\<lparr>zpre_trigger_mode := pm\<rparr>) = timer_ok z"
  by (simp_all add: timer_ok_def)

section \<open>World invariant\<close>

text \<open>Whether a successful silence of incident \<open>k\<close> is in a trace, and what each effect promises.\<close>

fun is_silence_of :: "int \<Rightarrow> effect \<Rightarrow> bool" where
  "is_silence_of k (EIncident (OpSilence j _ _) ok) = (j = k \<and> ok)"
| "is_silence_of k _ = False"

definition silenced_in :: "int \<Rightarrow> effect list \<Rightarrow> bool" where
  "silenced_in k tr = list_ex (is_silence_of k) tr"

fun effect_ok :: "effect \<Rightarrow> effect list \<Rightarrow> bool" where
  "effect_ok (EFire i inc opts) older =
     (\<not> ai_silenced inc \<and> \<not> (ai_id inc \<noteq> 0 \<and> silenced_in (ai_id inc) older)
      \<and> (fo_cycle opts = 0 \<or> fo_cycle opts = ai_cycles inc))"
| "effect_ok (EStateUpsert row _) _ = row_ok row"
| "effect_ok _ _ = True"

primrec trace_ok :: "effect list \<Rightarrow> bool" where
  "trace_ok [] = True"
| "trace_ok (x # older) = (effect_ok x older \<and> trace_ok older)"

fun accounted :: "incident_table \<Rightarrow> effect \<Rightarrow> bool" where
  "accounted t (EFire i inc opts) =
     (ai_id inc \<noteq> 0 \<longrightarrow>
       (case incident_get t (ai_id inc) of
          None \<Rightarrow> False
        | Some row \<Rightarrow> ai_cycles inc \<le> ai_cycles row \<and> ai_refires inc \<le> ai_refires row))"
| "accounted t _ = True"

definition rows_ok :: "incident_table \<Rightarrow> state_table \<Rightarrow> bool" where
  "rows_ok t states \<longleftrightarrow>
     (\<forall>i row. state_get states i = Some row \<longrightarrow> row_ok row
        \<and> (st_incident row \<noteq> 0 \<longrightarrow> (\<exists>inc. incident_get t (st_incident row) = Some inc \<and> ai_zone inc = i)))"

definition winv :: "world \<Rightarrow> bool" where
  "winv w \<longleftrightarrow>
     incident_table_ok (w_incidents w) \<and> trace_ok (w_trace w)
     \<and> rows_ok (w_incidents w) (w_states w)
     \<and> (\<forall>x \<in> set (w_trace w). accounted (w_incidents w) x)
     \<and> (\<forall>k. silenced_in k (w_trace w) \<longrightarrow>
          (\<exists>row. incident_get (w_incidents w) k = Some row \<and> ai_silenced row))"

text \<open>
  A frame fixes the zone a program runs on, the zones it must leave alone, the incidents that are
  to stay quiet, the incidents known to belong to the zone, and the trace at its start.
\<close>

record frame =
  f_id :: string
  f_others :: "zone set"
  f_muted :: "int set"
  f_refs :: "int set"
  f_base :: "effect list"

definition backed :: "int set \<Rightarrow> world \<Rightarrow> string \<Rightarrow> alarm_incident \<Rightarrow> bool" where
  "backed M w i inc \<longleftrightarrow>
     (ai_id inc \<in> M \<longrightarrow> ai_silenced inc)
     \<and> (ai_id inc \<noteq> 0 \<longrightarrow>
         (\<exists>row. incident_get (w_incidents w) (ai_id inc) = Some row \<and> ai_zone row = i
            \<and> (ai_silenced row \<longrightarrow> ai_silenced inc)
            \<and> ai_cycles inc \<le> ai_cycles row \<and> ai_refires inc \<le> ai_refires row))"

definition scheduled :: "world \<Rightarrow> zone \<Rightarrow> bool" where
  "scheduled w z \<longleftrightarrow>
     (ztimer_on z \<longrightarrow> (CbState (zid z) (ztimer_seq z), ztimer_deadline z) \<in> set (w_sched w))"

definition linked :: "int set \<Rightarrow> world \<Rightarrow> zone \<Rightarrow> bool" where
  "linked M w z \<longleftrightarrow> (\<forall>inc. zincident z = Some inc \<longrightarrow> backed M w (zid z) inc) \<and> scheduled w z"

fun quiet :: "int set \<Rightarrow> effect \<Rightarrow> bool" where
  "quiet M (EFire i inc opts) = (ai_id inc \<notin> M)"
| "quiet M _ = True"

definition cinv :: "frame \<Rightarrow> zone \<Rightarrow> world \<Rightarrow> bool" where
  "cinv F z w \<longleftrightarrow>
     winv w \<and> zid z = f_id F \<and> linked (f_muted F) w z
     \<and> (\<forall>z' \<in> f_others F. zid z' \<noteq> f_id F \<and> linked (f_muted F) w z')
     \<and> (\<forall>k \<in> f_muted F. 0 < k \<and> k < it_next (w_incidents w))
     \<and> (\<forall>k \<in> f_refs F. \<exists>inc. incident_get (w_incidents w) k = Some inc \<and> ai_zone inc = f_id F)
     \<and> (\<exists>new. w_trace w = new @ f_base F \<and> (\<forall>x \<in> set new. quiet (f_muted F) x))"

definition zwp :: "frame \<Rightarrow> 'a prog \<Rightarrow> ('a \<Rightarrow> zone \<Rightarrow> bool) \<Rightarrow> zone \<Rightarrow> bool" where
  "zwp F m Q z \<longleftrightarrow>
     (\<forall>w. cinv F z w \<longrightarrow> wp m (\<lambda>a s. cinv F (cz s) (cw s) \<and> Q a (cz s)) \<lparr>cz = z, cw = w\<rparr>)"

named_theorems zwp_intros \<open>rules that walk a program under zwp\<close>

section \<open>Rules of the program constructors\<close>

lemma zwpI:
  assumes "\<And>w. cinv F z w \<Longrightarrow> wp m (\<lambda>a s. cinv F (cz s) (cw s) \<and> Q a (cz s)) \<lparr>cz = z, cw = w\<rparr>"
  shows "zwp F m Q z"
  using assms by (simp add: zwp_def)

lemma zwp_ret [zwp_intros]: "Q a z \<Longrightarrow> zwp F (State_Monad.return a) Q z"
  by (simp add: zwp_def wp_simps)

lemma zwp_mono: "zwp F m Q z \<Longrightarrow> (\<And>a z'. Q a z' \<Longrightarrow> R a z') \<Longrightarrow> zwp F m R z"
  unfolding zwp_def by (blast intro: wp_mono)

lemma zwp_bind [zwp_intros]:
  assumes "zwp F m (\<lambda>a. zwp F (f a) Q) z"
  shows "zwp F (State_Monad.bind m f) Q z"
proof (rule zwpI)
  fix w assume "cinv F z w"
  with assms have "wp m (\<lambda>a s. cinv F (cz s) (cw s) \<and> zwp F (f a) Q (cz s)) \<lparr>cz = z, cw = w\<rparr>"
    by (simp add: zwp_def)
  then have "wp m (\<lambda>a. wp (f a) (\<lambda>a s. cinv F (cz s) (cw s) \<and> Q a (cz s))) \<lparr>cz = z, cw = w\<rparr>"
  proof (rule wp_mono)
    fix a and s :: ctx assume "cinv F (cz s) (cw s) \<and> zwp F (f a) Q (cz s)"
    then have "wp (f a) (\<lambda>a s. cinv F (cz s) (cw s) \<and> Q a (cz s)) \<lparr>cz = cz s, cw = cw s\<rparr>"
      unfolding zwp_def by blast
    then show "wp (f a) (\<lambda>a s. cinv F (cz s) (cw s) \<and> Q a (cz s)) s" by (cases s) simp
  qed
  then show "wp (State_Monad.bind m f) (\<lambda>a s. cinv F (cz s) (cw s) \<and> Q a (cz s)) \<lparr>cz = z, cw = w\<rparr>"
    by (simp add: wp_simps)
qed

lemma zwp_getz [zwp_intros]: "Q z z \<Longrightarrow> zwp F getz Q z"
  by (simp add: zwp_def getz_def wp_simps)

lemma zwp_getw [zwp_intros]: "(\<And>w. Q w z) \<Longrightarrow> zwp F getw Q z"
  by (simp add: zwp_def getw_def wp_simps)

lemma zwp_whenS [zwp_intros]:
  "(b \<Longrightarrow> zwp F m Q z) \<Longrightarrow> (\<not> b \<Longrightarrow> Q () z) \<Longrightarrow> zwp F (whenS b m) Q z"
  by (simp add: whenS_def zwp_ret)

lemma zwp_if [zwp_intros]:
  "(b \<Longrightarrow> zwp F m Q z) \<Longrightarrow> (\<not> b \<Longrightarrow> zwp F m' Q z) \<Longrightarrow> zwp F (if b then m else m') Q z"
  by simp

lemma zwp_case_option [zwp_intros]:
  "(x = None \<Longrightarrow> zwp F m Q z) \<Longrightarrow> (\<And>a. x = Some a \<Longrightarrow> zwp F (f a) Q z) \<Longrightarrow>
   zwp F (case x of None \<Rightarrow> m | Some a \<Rightarrow> f a) Q z"
  by (cases x) auto

lemma zwp_case_list [zwp_intros]:
  "(x = [] \<Longrightarrow> zwp F m Q z) \<Longrightarrow> (\<And>a as. x = a # as \<Longrightarrow> zwp F (f a as) Q z) \<Longrightarrow>
   zwp F (case x of [] \<Rightarrow> m | a # as \<Rightarrow> f a as) Q z"
  by (cases x) auto

lemma zwp_case_prod [zwp_intros]:
  "(\<And>a b. x = (a, b) \<Longrightarrow> zwp F (f a b) Q z) \<Longrightarrow> zwp F (case x of (a, b) \<Rightarrow> f a b) Q z"
  by (cases x) auto

lemma zwp_case_sum [zwp_intros]:
  "(\<And>a. x = Inl a \<Longrightarrow> zwp F (f a) Q z) \<Longrightarrow> (\<And>b. x = Inr b \<Longrightarrow> zwp F (g b) Q z) \<Longrightarrow>
   zwp F (case x of Inl a \<Rightarrow> f a | Inr b \<Rightarrow> g b) Q z"
  by (cases x) auto

lemma zwp_let [zwp_intros]: "zwp F (f e) Q z \<Longrightarrow> zwp F (let x = e in f x) Q z"
  by simp

lemma zwp_forS:
  assumes "I z" and "\<And>x z. x \<in> set xs \<Longrightarrow> I z \<Longrightarrow> zwp F (f x) (\<lambda>_. I) z"
    and "\<And>z'. I z' \<Longrightarrow> Q () z'"
  shows "zwp F (forS xs f) Q z"
  using assms(1,2)
proof (induction xs arbitrary: z)
  case Nil
  then show ?case by (simp add: zwp_ret assms(3))
next
  case (Cons x xs)
  then have "zwp F (f x) (\<lambda>_. I) z" by simp
  then have "zwp F (f x) (\<lambda>_. zwp F (forS xs f) Q) z"
    by (rule zwp_mono) (rule Cons.IH, auto intro: Cons.prems)
  then show ?case by (simp add: zwp_bind)
qed

section \<open>Rules of the primitive programs\<close>

lemma linked_modz:
  assumes "linked M w z" and "zid z' = zid z" and "zincident z' = zincident z"
    and "ztimer_on z' \<longrightarrow> ztimer_on z \<and> ztimer_seq z' = ztimer_seq z \<and> ztimer_deadline z' = ztimer_deadline z"
  shows "linked M w z'"
  using assms by (auto simp: linked_def scheduled_def)

lemma zwp_modz:
  assumes "zid (f z) = zid z" and "zincident (f z) = zincident z"
    and "ztimer_on (f z) \<longrightarrow>
      ztimer_on z \<and> ztimer_seq (f z) = ztimer_seq z \<and> ztimer_deadline (f z) = ztimer_deadline z"
    and "Q () (f z)"
  shows "zwp F (modz f) Q z"
  using assms linked_modz [of _ _ z "f z"] by (auto simp: zwp_def modz_def wp_simps cinv_def)

text \<open>Worlds that differ only in what the invariants do not read.\<close>

lemma linked_cong:
  "w_incidents w' = w_incidents w \<Longrightarrow> set (w_sched w) \<subseteq> set (w_sched w') \<Longrightarrow> linked M w z \<Longrightarrow> linked M w' z"
  by (auto simp: linked_def scheduled_def backed_def)

lemma cinv_same:
  assumes "cinv F z w" and "w_incidents w' = w_incidents w" and "w_states w' = w_states w"
    and "w_trace w' = w_trace w" and "set (w_sched w) \<subseteq> set (w_sched w')"
  shows "cinv F z w'"
proof -
  have "winv w'" using assms by (simp add: cinv_def winv_def)
  moreover have "\<And>z. linked (f_muted F) w z \<Longrightarrow> linked (f_muted F) w' z"
    using linked_cong assms by blast
  ultimately show ?thesis using assms by (auto simp: cinv_def)
qed

fun harmless :: "effect \<Rightarrow> bool" where
  "harmless (EFire _ _ _) = False"
| "harmless (EStateUpsert _ _) = False"
| "harmless (EIncident _ _) = False"
| "harmless _ = True"

lemma harmless_ok:
  "harmless x \<Longrightarrow> effect_ok x tr" "harmless x \<Longrightarrow> accounted t x" "harmless x \<Longrightarrow> quiet M x"
  "harmless x \<Longrightarrow> is_silence_of k x = False"
  by (cases x; simp)+

lemma silenced_in_Cons: "silenced_in k (x # tr) \<longleftrightarrow> is_silence_of k x \<or> silenced_in k tr"
  by (simp add: silenced_in_def)

lemma cinv_emit:
  assumes "cinv F z w" and "effect_ok x (w_trace w)" and "accounted (w_incidents w) x"
    and "quiet (f_muted F) x" and "\<And>k. is_silence_of k x = False"
  shows "cinv F z (w\<lparr>w_trace := x # w_trace w\<rparr>)"
proof -
  let ?w = "w\<lparr>w_trace := x # w_trace w\<rparr>"
  have "winv ?w" using assms by (auto simp: cinv_def winv_def silenced_in_Cons)
  moreover have "\<And>z. linked (f_muted F) w z \<Longrightarrow> linked (f_muted F) ?w z"
    by (rule linked_cong [of ?w w]) simp_all
  moreover obtain new where "w_trace w = new @ f_base F" "\<forall>x \<in> set new. quiet (f_muted F) x"
    using assms(1) by (auto simp: cinv_def)
  then have "w_trace ?w = (x # new) @ f_base F" "\<forall>y \<in> set (x # new). quiet (f_muted F) y"
    using assms(4) by simp_all
  ultimately show ?thesis using assms(1) unfolding cinv_def by auto
qed

lemma zwp_emit [zwp_intros]: "harmless x \<Longrightarrow> Q () z \<Longrightarrow> zwp F (emit x) Q z"
  by (auto simp: zwp_def emit_def modw_def wp_simps intro!: cinv_emit dest: harmless_ok)

lemma cinv_faults [simp]: "cinv F z (w\<lparr>w_faults := bs\<rparr>) \<longleftrightarrow> cinv F z w"
  using cinv_same [of F z w "w\<lparr>w_faults := bs\<rparr>"] cinv_same [of F z "w\<lparr>w_faults := bs\<rparr>" w] by auto

lemma zwp_port_fails [zwp_intros]: "(\<And>b. Q b z) \<Longrightarrow> zwp F port_fails Q z"
  by (auto simp: zwp_def port_fails_def getw_def modw_def wp_simps split: list.split)

lemma zwp_journal [zwp_intros]: "Q () z \<Longrightarrow> zwp F (journal_entry_append e) Q z"
  unfolding journal_entry_append_def by (intro zwp_intros) simp_all

lemma zwp_journal_fault [zwp_intros]: "Q () z \<Longrightarrow> zwp F (journal_fault ev b k) Q z"
  unfolding journal_fault_def by (intro zwp_intros)

lemma zwp_publish [zwp_intros]: "Q () z \<Longrightarrow> zwp F (publish ev) Q z"
  unfolding publish_def by (intro zwp_intros) simp_all

lemma zwp_publish_state [zwp_intros]: "Q () z \<Longrightarrow> zwp F (publish_state st by src) Q z"
  unfolding publish_state_def by (intro zwp_intros)

lemma zwp_chirp [zwp_intros]: "Q () z \<Longrightarrow> zwp F (chirp req) Q z"
  unfolding chirp_def by (intro zwp_intros) simp_all

lemma zwp_stop_all [zwp_intros]: "Q () z \<Longrightarrow> zwp F (stop_all k) Q z"
  unfolding stop_all_def by (intro zwp_intros) simp_all

lemma zwp_schedule [zwp_intros]: "Q () z \<Longrightarrow> zwp F (schedule cb d) Q z"
  by (auto simp: zwp_def schedule_def modw_def wp_simps intro: cinv_same)

lemma zwp_ledger_modw [zwp_intros]: "Q () z \<Longrightarrow> zwp F (modw (\<lambda>w. w\<lparr>w_ledger := f w\<rparr>)) Q z"
  by (auto simp: zwp_def modw_def wp_simps intro: cinv_same)

lemma zwp_state_delete [zwp_intros]:
  "Q () z \<Longrightarrow> zwp F (modw (\<lambda>w. w\<lparr>w_states := state_delete i (w_states w)\<rparr>)) Q z"
proof (rule zwpI)
  fix w assume c: "cinv F z w" and "Q () z"
  let ?w = "w\<lparr>w_states := state_delete i (w_states w)\<rparr>"
  have "winv ?w" using c by (auto simp: cinv_def winv_def rows_ok_def)
  moreover have "\<And>z. linked (f_muted F) w z \<Longrightarrow> linked (f_muted F) ?w z"
    by (rule linked_cong [of ?w w]) simp_all
  ultimately have "cinv F z ?w" using c by (auto simp: cinv_def)
  with \<open>Q () z\<close> show "wp (modw (\<lambda>w. w\<lparr>w_states := state_delete i (w_states w)\<rparr>))
      (\<lambda>a s. cinv F (cz s) (cw s) \<and> Q a (cz s)) \<lparr>cz = z, cw = w\<rparr>"
    by (simp add: modw_def wp_simps)
qed

section \<open>Calls of the incident store\<close>

text \<open>A silence may only be written for an incident the zone of the frame owns.\<close>

fun op_owned :: "frame \<Rightarrow> world \<Rightarrow> incident_op \<Rightarrow> bool" where
  "op_owned F w (OpSilence k _ _) =
     (\<exists>row. incident_get (w_incidents w) k = Some row \<and> ai_zone row = f_id F)"
| "op_owned F w _ = True"

definition exec_world :: "incident_op \<Rightarrow> world \<Rightarrow> world" where
  "exec_world op w =
     w\<lparr>w_trace := EIncident op True # w_trace w, w_incidents := incident_exec op (w_incidents w)\<rparr>"

lemma get_exec_mono:
  assumes "winv w" and "incident_get (w_incidents w) k = Some row"
  obtains row' where "incident_get (w_incidents (exec_world op w)) k = Some row'"
    and "ai_zone row' = ai_zone row" and "ai_silenced row \<longrightarrow> ai_silenced row'"
    and "ai_cycles row \<le> ai_cycles row'" and "ai_refires row \<le> ai_refires row'"
    and "ai_silenced row' \<longrightarrow> \<not> ai_silenced row \<longrightarrow> (\<exists>a b. op = OpSilence k a b)"
proof -
  have ok: "incident_table_ok (w_incidents w)" using assms(1) by (simp add: winv_def)
  obtain row' where row': "incident_get (incident_exec op (w_incidents w)) k = Some row'"
    and "ai_silenced row \<longrightarrow> ai_silenced row'" "ai_cycles row \<le> ai_cycles row'"
    "ai_refires row \<le> ai_refires row'"
    using sqlite.exec_keeps [OF ok assms(2)] by metis
  with sqlite.exec_same_zone [OF ok assms(2) row'] show ?thesis
    by (intro that [of row']) (auto simp: exec_world_def)
qed

lemma silence_sets:
  assumes "winv w" and "incident_get (w_incidents w) k = Some row"
  shows "\<exists>row'. incident_get (w_incidents (exec_world (OpSilence k a b) w)) k = Some row' \<and> ai_silenced row'"
  using assms sqlite.get_silence [of "w_incidents w" k a b k] by (simp add: exec_world_def winv_def)

lemma accounted_exec:
  assumes "winv w" and "accounted (w_incidents w) x"
  shows "accounted (w_incidents (exec_world op w)) x"
proof (cases x)
  case (EFire i inc opts)
  show ?thesis
  proof (cases "ai_id inc = 0")
    case False
    with assms(2) EFire obtain row where row: "incident_get (w_incidents w) (ai_id inc) = Some row"
      and le: "ai_cycles inc \<le> ai_cycles row" "ai_refires inc \<le> ai_refires row"
      by (auto split: option.splits)
    from get_exec_mono [OF assms(1) row, of op] obtain row' where
      "incident_get (w_incidents (exec_world op w)) (ai_id inc) = Some row'"
      "ai_cycles row \<le> ai_cycles row'" "ai_refires row \<le> ai_refires row'" by metis
    with le EFire show ?thesis by simp
  qed (simp add: EFire)
qed simp_all

lemma winv_exec:
  assumes w: "winv w" and own: "op_owned F w op"
  shows "winv (exec_world op w)"
proof -
  let ?w = "exec_world op w"
  have "incident_table_ok (w_incidents ?w)"
    using w by (simp add: winv_def exec_world_def sqlite.invar_exec)
  moreover have "trace_ok (w_trace ?w)" using w by (simp add: winv_def exec_world_def)
  moreover have "rows_ok (w_incidents ?w) (w_states ?w)"
    unfolding rows_ok_def
  proof (intro allI impI conjI)
    fix i row assume "state_get (w_states ?w) i = Some row"
    then have g: "state_get (w_states w) i = Some row" by (simp add: exec_world_def)
    with w show "row_ok row" by (auto simp: winv_def rows_ok_def)
    assume "st_incident row \<noteq> 0"
    with g w obtain inc where "incident_get (w_incidents w) (st_incident row) = Some inc" "ai_zone inc = i"
      by (auto simp: winv_def rows_ok_def)
    then show "\<exists>inc. incident_get (w_incidents ?w) (st_incident row) = Some inc \<and> ai_zone inc = i"
      using get_exec_mono [OF w, of "st_incident row" inc op] by metis
  qed
  moreover have "\<forall>x \<in> set (w_trace ?w). accounted (w_incidents ?w) x"
    using w accounted_exec [OF w] by (simp add: winv_def exec_world_def)
  moreover have "\<forall>k. silenced_in k (w_trace ?w) \<longrightarrow>
      (\<exists>row. incident_get (w_incidents ?w) k = Some row \<and> ai_silenced row)"
  proof (intro allI impI)
    fix k assume "silenced_in k (w_trace ?w)"
    then consider (new) a b where "op = OpSilence k a b" | (old) "silenced_in k (w_trace w)"
      by (cases op) (auto simp: silenced_in_Cons exec_world_def)
    then show "\<exists>row. incident_get (w_incidents ?w) k = Some row \<and> ai_silenced row"
    proof cases
      case new
      with own obtain row where "incident_get (w_incidents w) k = Some row" by auto
      from silence_sets [OF w this] show ?thesis unfolding new by simp
    next
      case old
      with w obtain row where "incident_get (w_incidents w) k = Some row" "ai_silenced row"
        by (auto simp: winv_def)
      then show ?thesis using get_exec_mono [OF w, of k row op] by metis
    qed
  qed
  ultimately show ?thesis by (simp add: winv_def)
qed

lemma backed_exec:
  assumes w: "winv w" and b: "backed M w i inc"
    and quiet: "\<And>a b. op = OpSilence (ai_id inc) a b \<Longrightarrow> ai_id inc \<noteq> 0 \<Longrightarrow> ai_silenced inc"
  shows "backed M (exec_world op w) i inc"
proof (cases "ai_id inc = 0")
  case True
  with b show ?thesis by (simp add: backed_def)
next
  case False
  with b obtain row where row: "incident_get (w_incidents w) (ai_id inc) = Some row" and "ai_zone row = i"
    "ai_silenced row \<longrightarrow> ai_silenced inc" "ai_cycles inc \<le> ai_cycles row" "ai_refires inc \<le> ai_refires row"
    by (auto simp: backed_def)
  with get_exec_mono [OF w row, of op] obtain row' where
    "incident_get (w_incidents (exec_world op w)) (ai_id inc) = Some row'" "ai_zone row' = i"
    "ai_cycles inc \<le> ai_cycles row'" "ai_refires inc \<le> ai_refires row'"
    "ai_silenced row' \<longrightarrow> \<not> ai_silenced row \<longrightarrow> (\<exists>a b. op = OpSilence (ai_id inc) a b)"
    by (metis order_trans)
  with quiet False \<open>ai_silenced row \<longrightarrow> ai_silenced inc\<close> b show ?thesis
    unfolding backed_def by metis
qed

lemma linked_exec_other:
  assumes "winv w" and "linked M w z'" and "zid z' \<noteq> f_id F" and "op_owned F w op"
  shows "linked M (exec_world op w) z'"
proof -
  have "backed M (exec_world op w) (zid z') inc" if inc: "zincident z' = Some inc" for inc
  proof (rule backed_exec [OF assms(1)])
    show b: "backed M w (zid z') inc" using assms(2) inc by (simp add: linked_def)
    fix a c assume "op = OpSilence (ai_id inc) a c" and "ai_id inc \<noteq> 0"
    with assms(3,4) b show "ai_silenced inc" by (auto simp: backed_def)
  qed
  with assms(2) show ?thesis by (simp add: linked_def scheduled_def exec_world_def)
qed

text \<open>The general step: after the call the zone's own link has to be shown, the rest is kept.\<close>

lemma cinv_exec:
  assumes c: "cinv F z w" and own: "op_owned F w op" and z': "zid z' = zid z"
    and "linked (f_muted F) (exec_world op w) z'"
  shows "cinv F z' (exec_world op w)"
proof -
  have w: "winv w" using c by (simp add: cinv_def)
  have "it_next (w_incidents w) \<le> it_next (w_incidents (exec_world op w))"
    by (cases op) (simp_all add: exec_world_def incident_op_defs update_where_def)
  then have "\<forall>k \<in> f_muted F. 0 < k \<and> k < it_next (w_incidents (exec_world op w))"
    using c by (force simp: cinv_def)
  moreover obtain new where "w_trace w = new @ f_base F" "\<forall>x \<in> set new. quiet (f_muted F) x"
    using c by (auto simp: cinv_def)
  then have "w_trace (exec_world op w) = (EIncident op True # new) @ f_base F"
    "\<forall>x \<in> set (EIncident op True # new). quiet (f_muted F) x"
    by (simp_all add: exec_world_def)
  moreover have "\<forall>z' \<in> f_others F. zid z' \<noteq> f_id F \<and> linked (f_muted F) (exec_world op w) z'"
    using c w own linked_exec_other by (auto simp: cinv_def)
  moreover have "\<exists>inc. incident_get (w_incidents (exec_world op w)) k = Some inc \<and> ai_zone inc = f_id F"
    if "k \<in> f_refs F" for k
    using c that get_exec_mono [OF w, of k _ op] by (fastforce simp: cinv_def)
  ultimately show ?thesis using assms winv_exec [OF w own] unfolding cinv_def by auto
qed

text \<open>\<open>incident_call\<close> either fails, leaving only a trace entry, or executes the statement.\<close>

lemma wp_incident_call:
  "wp (incident_call op) Q \<lparr>cz = z, cw = w\<rparr> \<longleftrightarrow>
     (case w_faults w of
        [] \<Rightarrow> Q True \<lparr>cz = z, cw = exec_world op w\<rparr>
      | b # bs \<Rightarrow>
          (if b then Q False \<lparr>cz = z, cw = w\<lparr>w_faults := bs, w_trace := EIncident op False # w_trace w\<rparr>\<rparr>
           else Q True \<lparr>cz = z, cw = exec_world op (w\<lparr>w_faults := bs\<rparr>)\<rparr>))"
  by (auto simp: incident_call_def port_fails_def getw_def modw_def emit_def exec_world_def wp_simps
      split: list.split)

lemma wp_incident_callI:
  assumes c: "cinv F z w"
    and fail: "\<And>w'. cinv F z w' \<Longrightarrow> Q False \<lparr>cz = z, cw = w'\<rparr>"
    and ok: "\<And>w'. cinv F z w' \<Longrightarrow> w_incidents w' = w_incidents w \<Longrightarrow> Q True \<lparr>cz = z, cw = exec_world op w'\<rparr>"
  shows "wp (incident_call op) Q \<lparr>cz = z, cw = w\<rparr>"
proof -
  have "cinv F z (w\<lparr>w_faults := bs, w_trace := EIncident op False # w_trace w\<rparr>)" for bs
    using cinv_emit [of F z "w\<lparr>w_faults := bs\<rparr>" "EIncident op False"] c by (cases op) auto
  then show ?thesis using assms by (auto simp: wp_incident_call split: list.split)
qed

lemma zwp_incident_call:
  assumes op: "\<And>k a b. op = OpSilence k a b \<Longrightarrow>
      k \<noteq> 0 \<and> (\<exists>inc. zincident z = Some inc \<and> ai_id inc = k \<and> ai_silenced inc)"
    and Q: "\<And>ok. Q ok z"
  shows "zwp F (incident_call op) Q z"
proof (rule zwpI)
  fix w assume "cinv F z w"
  then show "wp (incident_call op) (\<lambda>a s. cinv F (cz s) (cw s) \<and> Q a (cz s)) \<lparr>cz = z, cw = w\<rparr>"
  proof (rule wp_incident_callI)
    fix w' assume c: "cinv F z w'"
    then have l: "linked (f_muted F) w' z" and w: "winv w'" and i: "zid z = f_id F"
      by (simp_all add: cinv_def)
    have "op_owned F w' op"
      using op l i by (cases op) (fastforce simp: linked_def backed_def)+
    moreover have "linked (f_muted F) (exec_world op w') z"
      using l op backed_exec [OF w, of "f_muted F" "zid z" _ op]
      by (fastforce simp: linked_def scheduled_def exec_world_def [of op w'])
    ultimately show "cinv F (cz \<lparr>cz = z, cw = exec_world op w'\<rparr>) (cw \<lparr>cz = z, cw = exec_world op w'\<rparr>)
        \<and> Q True (cz \<lparr>cz = z, cw = exec_world op w'\<rparr>)"
      using cinv_exec [OF c] Q by simp
  qed (use Q in simp)
qed

section \<open>Rules of the shared handlers\<close>

text \<open>An in-memory incident may move towards silence and towards smaller counters.\<close>

definition inc_le :: "alarm_incident \<Rightarrow> alarm_incident \<Rightarrow> bool" where
  "inc_le inc' inc \<longleftrightarrow> ai_id inc' = ai_id inc \<and> (ai_silenced inc \<longrightarrow> ai_silenced inc')
     \<and> ai_cycles inc' \<le> ai_cycles inc \<and> ai_refires inc' \<le> ai_refires inc"

lemma backed_inc_le: "backed M w i inc \<Longrightarrow> inc_le inc' inc \<Longrightarrow> backed M w i inc'"
  by (fastforce simp: backed_def inc_le_def)

lemma zwp_modz_inc:
  assumes "zid (f z) = zid z"
    and "\<And>inc'. zincident (f z) = Some inc' \<Longrightarrow> \<exists>inc. zincident z = Some inc \<and> inc_le inc' inc"
    and "ztimer_on (f z) \<longrightarrow>
      ztimer_on z \<and> ztimer_seq (f z) = ztimer_seq z \<and> ztimer_deadline (f z) = ztimer_deadline z"
    and "Q () (f z)"
  shows "zwp F (modz f) Q z"
proof (rule zwpI)
  fix w assume c: "cinv F z w"
  then have "linked (f_muted F) w (f z)"
    using assms(1-3) backed_inc_le by (fastforce simp: cinv_def linked_def scheduled_def)
  with c assms(1,4) show "wp (modz f) (\<lambda>a s. cinv F (cz s) (cw s) \<and> Q a (cz s)) \<lparr>cz = z, cw = w\<rparr>"
    by (simp add: modz_def wp_simps cinv_def)
qed

lemma zwp_fire_cycle:
  assumes inc: "zincident z = Some inc" "\<not> ai_silenced inc" and "fo_cycle opts = 0 \<or> fo_cycle opts = ai_cycles inc"
    and Q: "Q () z"
  shows "zwp F (fire_cycle inc opts) Q z"
proof -
  let ?x = "EFire (zid z) inc (opts\<lparr>fo_zone_name := zname z, fo_sources := sources_copy z\<rparr>)"
  have emit: "zwp F (emit ?x) R z" if "R () z" for R
  proof (rule zwpI)
    fix w assume c: "cinv F z w"
    then have b: "backed (f_muted F) w (zid z) inc" and w: "winv w"
      using inc by (auto simp: cinv_def linked_def)
    have "\<not> (ai_id inc \<noteq> 0 \<and> silenced_in (ai_id inc) (w_trace w))"
      using b w inc by (fastforce simp: backed_def winv_def)
    then have "effect_ok ?x (w_trace w)" using assms by simp
    moreover have "accounted (w_incidents w) ?x" using b by (auto simp: backed_def)
    moreover have "quiet (f_muted F) ?x" using b inc by (auto simp: backed_def)
    ultimately have "cinv F z (w\<lparr>w_trace := ?x # w_trace w\<rparr>)" by (intro cinv_emit [OF c]) simp_all
    with that show "wp (emit ?x) (\<lambda>a s. cinv F (cz s) (cw s) \<and> R a (cz s)) \<lparr>cz = z, cw = w\<rparr>"
      by (simp add: emit_def modw_def wp_simps)
  qed
  show ?thesis unfolding fire_cycle_def
    by (intro zwp_bind zwp_getz zwp_port_fails, rule emit, intro zwp_whenS zwp_journal_fault Q)
qed

lemma cinv_zone: "cinv F z w \<Longrightarrow> zid z' = zid z \<Longrightarrow> linked (f_muted F) w z' \<Longrightarrow> cinv F z' w"
  by (simp add: cinv_def)

lemma zwp_emit_upsert:
  assumes "row_ok row" and Q: "Q () z"
  shows "zwp F (emit (EStateUpsert row ok)) Q z"
proof (rule zwpI)
  fix w assume c: "cinv F z w"
  have "cinv F z (w\<lparr>w_trace := EStateUpsert row ok # w_trace w\<rparr>)"
    using assms(1) by (intro cinv_emit [OF c]) simp_all
  with Q show "wp (emit (EStateUpsert row ok)) (\<lambda>a s. cinv F (cz s) (cw s) \<and> Q a (cz s)) \<lparr>cz = z, cw = w\<rparr>"
    by (simp add: emit_def modw_def wp_simps)
qed

lemma zwp_store_row:
  assumes z: "zinv z" and Q: "Q () z"
  shows "zwp F (modw (\<lambda>w. w\<lparr>w_states := state_upsert (state_row_of z now boot) (w_states w)\<rparr>)) Q z"
proof (rule zwpI)
  fix w assume c: "cinv F z w"
  let ?row = "state_row_of z now boot"
  let ?w = "w\<lparr>w_states := state_upsert ?row (w_states w)\<rparr>"
  have "st_incident ?row \<noteq> 0 \<Longrightarrow>
      \<exists>inc. incident_get (w_incidents w) (st_incident ?row) = Some inc \<and> ai_zone inc = zid z"
    using c by (auto simp: state_row_of_def incident_id_of_def cinv_def linked_def backed_def
        split: option.splits)
  moreover have "st_zone ?row = zid z" by (simp add: state_row_of_def)
  ultimately have "winv ?w"
    using c row_ok_of_zinv [OF z] by (auto simp: cinv_def winv_def rows_ok_def)
  moreover have "\<And>y. linked (f_muted F) w y \<Longrightarrow> linked (f_muted F) ?w y"
    by (rule linked_cong [of _ w]) simp_all
  ultimately have "cinv F z ?w" using c by (auto simp: cinv_def)
  with Q show "wp (modw (\<lambda>w. w\<lparr>w_states := state_upsert ?row (w_states w)\<rparr>))
      (\<lambda>a s. cinv F (cz s) (cw s) \<and> Q a (cz s)) \<lparr>cz = z, cw = w\<rparr>"
    by (simp add: modw_def wp_simps)
qed

lemma zwp_persist:
  assumes z: "zinv z" and Q: "Q () z"
  shows "zwp F persist Q z"
  unfolding persist_def
  by (intro zwp_bind zwp_getz zwp_getw zwp_let zwp_port_fails zwp_emit_upsert zwp_if zwp_journal
      zwp_store_row row_ok_of_zinv z Q)

lemma zwp_schedule_state_timer:
  assumes "\<And>n dl. Q () (z\<lparr>ztimer_seq := n, ztimer_kind := kind, ztimer_deadline := dl,
                          ztimer_remaining := d, ztimer_on := True\<rparr>)"
  shows "zwp F (schedule_state_timer kind d) Q z"
proof (rule zwpI)
  fix w assume c: "cinv F z w"
  let ?z = "z\<lparr>ztimer_seq := ztimer_seq z + 1, ztimer_kind := kind, ztimer_deadline := w_now w + d,
              ztimer_remaining := d, ztimer_on := True\<rparr>"
  let ?w = "w\<lparr>w_sched := (CbState (zid z) (ztimer_seq z + 1), w_now w + d) # w_sched w\<rparr>"
  have w: "cinv F z ?w" using c by (rule cinv_same) auto
  then have "linked (f_muted F) ?w ?z"
    by (auto simp: cinv_def linked_def scheduled_def)
  then have "cinv F ?z ?w" by (intro cinv_zone [OF w]) simp_all
  with assms show "wp (schedule_state_timer kind d) (\<lambda>a s. cinv F (cz s) (cw s) \<and> Q a (cz s)) \<lparr>cz = z, cw = w\<rparr>"
    by (simp add: schedule_state_timer_def schedule_def getz_def getw_def modz_def modw_def wp_simps)
qed

lemma zwp_open_incident:
  assumes none: "zincident z = None"
    and Q: "\<And>inc. \<not> ai_silenced inc \<Longrightarrow> ai_cycles inc = 0 \<Longrightarrow> ai_refires inc = 0 \<Longrightarrow>
              Q () (z\<lparr>zincident := Some inc\<rparr>)"
  shows "zwp F (open_incident cause dur) Q z"
proof (rule zwpI)
  fix w assume c: "cinv F z w"
  define inc where "inc = new_incident z cause (w_now w) dur"
  have inc: "ai_id inc = 0" "ai_zone inc = zid z" "\<not> ai_silenced inc" "ai_cycles inc = 0" "ai_refires inc = 0"
    by (simp_all add: inc_def new_incident_def)
  have bare: "cinv F (z\<lparr>zincident := Some inc\<rparr>) v" if "cinv F z v" for v
    using that inc by (auto simp: linked_def backed_def scheduled_def cinv_def
        intro!: cinv_zone [OF that])
  show "wp (open_incident cause dur) (\<lambda>a s. cinv F (cz s) (cw s) \<and> Q a (cz s)) \<lparr>cz = z, cw = w\<rparr>"
    unfolding open_incident_def getz_def getw_def Let_def
  proof (simp add: wp_bind wp_gets inc_def [symmetric], rule wp_incident_callI [OF c], goal_cases)
    case (1 v)
    then have "cinv F z (v\<lparr>w_trace := EJournal e # w_trace v\<rparr>)" for e by (rule cinv_emit) simp_all
    with Q inc show ?case
      by (auto simp: wp_simps journal_fault_def journal_entry_append_def emit_def modw_def modz_def
          getz_def inc_def [symmetric] intro!: bare)
  next
    case (2 v)
    let ?k = "it_next (w_incidents w)" and ?v = "exec_world (OpCreate inc) v"
    let ?z = "z\<lparr>zincident := Some (inc\<lparr>ai_id := ?k\<rparr>)\<rparr>"
    have ok: "incident_table_ok (w_incidents w)" using c by (simp add: cinv_def winv_def)
    then have "incident_get (w_incidents ?v) ?k = Some (inc\<lparr>ai_id := ?k\<rparr>)"
      using sqlite.get_create [OF ok, of inc ?k] 2 by (simp add: exec_world_def)
    moreover have "?k \<notin> f_muted F" using 2 by (auto simp: cinv_def)
    ultimately have "linked (f_muted F) ?v ?z"
      using 2 inc by (auto simp: cinv_def linked_def backed_def scheduled_def exec_world_def)
    then have "cinv F ?z ?v" by (intro cinv_exec [OF 2(1)]) simp_all
    with Q inc show ?case by (simp add: wp_simps modz_def inc_def [symmetric])
  qed
qed

end
