(* ===== verification/Alarm_Safety.thy ===== *)
theory Alarm_Safety
  imports Alarm_Logic
begin

text \<open>
  Every handler of the alarm engine under \<open>zwp\<close>: what it does to the zone on every branch, and
  that it keeps the invariants whatever the ports answer. The last section lifts the result to the
  whole engine and its interleavings, where it interprets \<open>invariant_system\<close>.
\<close>

section \<open>Bookkeeping\<close>

lemma zwp_record_source [zwp_intros]:
  assumes "\<And>b sn sl. Q b (z\<lparr>zsource_seen := sn, zsources := sl\<rparr>)"
  shows "zwp F (record_source k cause) Q z"
proof -
  have "Q False z" using assms [where b = False and sn = "zsource_seen z" and sl = "zsources z"] by simp
  with assms show ?thesis
    unfolding record_source_def by (intro zwp_intros zwp_modz) simp_all
qed

lemma zwp_publish_sources_changed [zwp_intros]: "Q () z \<Longrightarrow> zwp F (publish_sources_changed k) Q z"
  unfolding publish_sources_changed_def by (intro zwp_intros)

lemma zwp_refresh_readiness [zwp_intros]:
  assumes "\<And>r. Q () (z\<lparr>zreadiness := r\<rparr>)"
  shows "zwp F refresh_readiness Q z"
proof -
  have "Q () z" using assms [of "zreadiness z"] by simp
  with assms show ?thesis unfolding refresh_readiness_def by (intro zwp_intros zwp_modz) simp_all
qed

lemma zwp_refresh_sensor_values [zwp_intros]:
  assumes "\<And>ss. Q () (z\<lparr>zsensors := ss\<rparr>)"
  shows "zwp F refresh_sensor_values Q z"
proof -
  have "Q () z" using assms [of "zsensors z"] by simp
  with assms show ?thesis unfolding refresh_sensor_values_def by (intro zwp_intros zwp_modz) simp_all
qed

lemma zwp_start_ticks [zwp_intros]:
  assumes "\<And>n. Q () (z\<lparr>ztick_on := False, ztick_seq := n\<rparr>)"
    and "\<And>n. Q () (z\<lparr>ztick_seq := n, ztick_on := True\<rparr>)"
  shows "zwp F (start_ticks kind) Q z"
  using assms unfolding start_ticks_def
  by (intro zwp_intros zwp_modz) (simp_all add: cancel_ticks_def)

lemma zwp_schedule_auto_rearm [zwp_intros]:
  assumes "\<And>n dl. Q () (z\<lparr>zauto_rearm_mode := mode, zauto_rearm_seq := n,
                          zauto_rearm_deadline := dl, zauto_rearm_on := True\<rparr>)"
  shows "zwp F (schedule_auto_rearm mode d) Q z"
  using assms unfolding schedule_auto_rearm_def
  by (intro zwp_intros zwp_modz) (simp_all add: cancel_auto_rearm_def)

lemma zwp_schedule_arm_close_debounce [zwp_intros]:
  assumes "\<And>n. Q () (z\<lparr>zdebounce_seq := n, zdebounce_on := True\<rparr>)"
  shows "zwp F (schedule_arm_close_debounce i) Q z"
  using assms unfolding schedule_arm_close_debounce_def
  by (intro zwp_intros zwp_modz) (simp_all add: cancel_debounce_def)

lemma zwp_abort_walk_test [zwp_intros]:
  assumes "Q () (z\<lparr>zwalk := None\<rparr>)"
  shows "zwp F (abort_walk_test_for_arm by src) Q z"
proof -
  have "zwalk z = None \<Longrightarrow> Q () z" using assms by (cases z) simp
  with assms show ?thesis unfolding abort_walk_test_for_arm_def by (intro zwp_intros zwp_modz) simp_all
qed

lemma zwp_reset_motion [zwp_intros]: "Q () z \<Longrightarrow> zwp F (reset_triggered_motion_for_arm by src) Q z"
  unfolding reset_triggered_motion_for_arm_def by (intro zwp_intros) simp_all

lemma zwp_fire_duress [zwp_intros]: "Q () z \<Longrightarrow> zwp F (fire_duress v by src) Q z"
  unfolding fire_duress_def by (intro zwp_intros)

lemma zwp_journal_all [zwp_intros]:
  "Q () z \<Longrightarrow> zwp F (forS xs (\<lambda>i. journal_entry_append (e i))) Q z"
  by (rule zwp_forS [where I = "\<lambda>z'. z' = z"]) (auto intro: zwp_intros)

section \<open>Arming, silence, disarm\<close>

text \<open>The zone \<open>completeArm\<close> leaves, the zone \<open>closeIncident\<close> leaves, the zone \<open>disarmLocked\<close> leaves.\<close>

definition armed_zone :: "zone \<Rightarrow> zone" where
  "armed_zone z = recapture_open_baseline ((cancel_timers z)\<lparr>zstate := ZArmed\<rparr>)"

definition closed_zone :: "zone \<Rightarrow> zone" where
  "closed_zone z =
     (if zincident z = None then z else reset_sources (z\<lparr>zincident := None, zsilenced_incident := 0\<rparr>))"

definition disarmed_zone :: "zone \<Rightarrow> zone" where
  "disarmed_zone z = reset_to_disarmed (closed_zone (cancel_auto_rearm (cancel_timers z)))"

lemmas cancel_defs = cancel_timers_def cancel_ticks_def cancel_debounce_def cancel_auto_rearm_def

lemmas zone_defs = armed_zone_def closed_zone_def disarmed_zone_def recapture_open_baseline_def
  reset_to_disarmed_def reset_sources_def cancel_defs

lemma zinv_armed_zone:
  "zincident z = None \<Longrightarrow> zpre_trigger_state z = no_state \<Longrightarrow> zsilenced_incident z = 0 \<Longrightarrow> zinv (armed_zone z)"
  by (simp add: zinv_def zone_defs)

lemma timer_ok_armed_zone [simp]: "timer_ok (armed_zone z)"
  by (simp add: timer_ok_def zone_defs)

lemma zinv_silenced_none: "zinv z \<Longrightarrow> zincident z = None \<Longrightarrow> zsilenced_incident z = 0"
  by (auto simp: zinv_def)

lemma zinv_reset_to_disarmed:
  "zincident z = None \<Longrightarrow> zsilenced_incident z = 0 \<Longrightarrow> ztimer_kind z = no_timer \<Longrightarrow>
   zinv (reset_to_disarmed z)"
  by (simp add: zinv_def reset_to_disarmed_def)

lemma timer_ok_reset_to_disarmed:
  "\<not> ztimer_on z \<Longrightarrow> ztimer_kind z = no_timer \<Longrightarrow> timer_ok (reset_to_disarmed z)"
  by (simp add: timer_ok_def reset_to_disarmed_def)

lemma closed_zone_sel [simp]:
  "zincident (closed_zone z) = None" "zid (closed_zone z) = zid z" "zstate (closed_zone z) = zstate z"
  "ztimer_on (closed_zone z) = ztimer_on z" "ztimer_kind (closed_zone z) = ztimer_kind z"
  "ztimer_seq (closed_zone z) = ztimer_seq z" "ztimer_deadline (closed_zone z) = ztimer_deadline z"
  "zpre_trigger_state (closed_zone z) = zpre_trigger_state z" "zcfg (closed_zone z) = zcfg z"
  "zpre_trigger_mode (closed_zone z) = zpre_trigger_mode z" "zmode (closed_zone z) = zmode z"
  by (simp_all add: closed_zone_def reset_sources_def)

lemma closed_zone_silenced: "zinv z \<Longrightarrow> zsilenced_incident (closed_zone z) = 0"
  by (simp add: closed_zone_def reset_sources_def zinv_silenced_none)

lemma cancel_timers_sel [simp]:
  "zid (cancel_timers z) = zid z" "zincident (cancel_timers z) = zincident z"
  "zstate (cancel_timers z) = zstate z" "ztimer_kind (cancel_timers z) = no_timer"
  "\<not> ztimer_on (cancel_timers z)" "zsilenced_incident (cancel_timers z) = zsilenced_incident z"
  "zpre_trigger_state (cancel_timers z) = zpre_trigger_state z" "zmode (cancel_timers z) = zmode z"
  "zcfg (cancel_timers z) = zcfg z" "zauto_rearm_on (cancel_timers z) = zauto_rearm_on z"
  by (simp_all add: cancel_defs)

lemma cancel_auto_rearm_sel [simp]:
  "zid (cancel_auto_rearm z) = zid z" "zincident (cancel_auto_rearm z) = zincident z"
  "zstate (cancel_auto_rearm z) = zstate z" "ztimer_kind (cancel_auto_rearm z) = ztimer_kind z"
  "ztimer_on (cancel_auto_rearm z) = ztimer_on z" "ztimer_seq (cancel_auto_rearm z) = ztimer_seq z"
  "ztimer_deadline (cancel_auto_rearm z) = ztimer_deadline z"
  "zsilenced_incident (cancel_auto_rearm z) = zsilenced_incident z"
  "zpre_trigger_state (cancel_auto_rearm z) = zpre_trigger_state z"
  "\<not> zauto_rearm_on (cancel_auto_rearm z)"
  by (simp_all add: cancel_defs)

lemma zinv_cancel_auto_rearm [simp]: "zinv (cancel_auto_rearm z) = zinv z"
  by (simp add: cancel_auto_rearm_def)

lemma timer_ok_cancel_auto_rearm [simp]: "timer_ok (cancel_auto_rearm z) = timer_ok z"
  by (simp add: cancel_auto_rearm_def)

lemma zinv_cancel_timers: "zinv z \<Longrightarrow> zinv (cancel_timers z)"
  by (simp add: zinv_def cancel_defs)

lemma zinv_idle:
  "zinv z \<Longrightarrow> zstate z \<noteq> ZTriggered \<Longrightarrow>
   zincident z = None \<and> zpre_trigger_state z = no_state \<and> zsilenced_incident z = 0"
  by (auto simp: zinv_def)

lemma armed_zone_sel [simp]:
  "zstate (armed_zone z) = ZArmed" "zmode (armed_zone z) = zmode z" "zid (armed_zone z) = zid z"
  "zincident (armed_zone z) = zincident z" "\<not> ztimer_on (armed_zone z)"
  "ztimer_kind (armed_zone z) = no_timer"
  by (simp_all add: zone_defs)

lemma zinv_disarmed_zone: "zinv z \<Longrightarrow> zinv (disarmed_zone z)"
  unfolding disarmed_zone_def
  by (intro zinv_reset_to_disarmed closed_zone_silenced) (simp_all add: zinv_cancel_timers)

lemma timer_ok_disarmed_zone [simp]: "timer_ok (disarmed_zone z)"
  unfolding disarmed_zone_def by (rule timer_ok_reset_to_disarmed) simp_all

lemma zwp_complete_arm:
  assumes "zinv (armed_zone z)" and "Q () (armed_zone z)"
  shows "zwp F (complete_arm st by src) Q z"
  using assms unfolding complete_arm_def armed_zone_def
  by (intro zwp_intros zwp_modz zwp_persist) (simp_all add: zone_defs)

lemma zwp_close_incident:
  assumes "Q () (closed_zone z)"
  shows "zwp F (close_incident reason) Q z"
  using assms unfolding close_incident_def closed_zone_def
  by (intro zwp_intros zwp_modz_inc zwp_incident_call) (auto simp: reset_sources_def)

definition silenced_zone :: "int \<Rightarrow> string \<Rightarrow> zone \<Rightarrow> zone" where
  "silenced_zone t by z =
     (case zincident z of
        None \<Rightarrow> z
      | Some inc \<Rightarrow>
          if ai_silenced inc then z
          else z\<lparr>zincident := Some (inc\<lparr>ai_silenced := True, ai_silenced_at_ms := t, ai_silenced_by := by\<rparr>),
                 zsilenced_incident := ai_id inc\<rparr>)"

lemma zwp_silence_incident:
  assumes "\<And>t b. Q () (silenced_zone t b z)"
  shows "zwp F (silence_incident by src) Q z"
  using assms unfolding silence_incident_def silenced_zone_def
  by (intro zwp_intros zwp_modz_inc zwp_incident_call) (auto simp: inc_le_def)

lemma zinv_silenced_zone: "zinv z \<Longrightarrow> zinv (silenced_zone t b z)"
  by (auto simp: zinv_def silenced_zone_def split: option.split)

lemma timer_ok_silenced_zone [simp]: "timer_ok (silenced_zone t b z) = timer_ok z"
  by (simp add: silenced_zone_def split: option.split)

lemma closed_zone_none [simp]: "zincident z = None \<Longrightarrow> closed_zone z = z"
  by (simp add: closed_zone_def)

lemma closed_silenced_zone [simp]: "closed_zone (silenced_zone t b z) = closed_zone z"
  by (auto simp: closed_zone_def silenced_zone_def reset_sources_def split: option.split)

lemma zwp_disarm_locked:
  assumes "zinv z" and "Q () (disarmed_zone z)"
  shows "zwp F (disarm_locked by src) Q z"
  using assms zinv_disarmed_zone [OF assms(1)] unfolding disarm_locked_def disarmed_zone_def
  by (intro zwp_intros zwp_modz zwp_persist zwp_silence_incident zwp_close_incident)
    (simp_all add: reset_to_disarmed_def)

definition steady :: "zone \<Rightarrow> zone \<Rightarrow> bool" where
  "steady z z' \<longleftrightarrow> zinv z' \<and> (timer_ok z \<longrightarrow> timer_ok z')"

lemma steady_refl: "zinv z \<Longrightarrow> steady z z"
  by (simp add: steady_def)

lemma steady_trans: "steady z z' \<Longrightarrow> steady z' z'' \<Longrightarrow> steady z z''"
  by (simp add: steady_def)

lemma zwp_silence_locked:
  assumes "zinv z" and "\<And>t b. Q () (silenced_zone t b z)"
  shows "zwp F (silence_locked by src) Q z"
proof -
  have "zincident z = None \<Longrightarrow> silenced_zone 0 by z = z" by (simp add: silenced_zone_def)
  with assms(2) [of 0 "by"] have "zincident z = None \<Longrightarrow> Q () z" by simp
  with assms zinv_silenced_zone [OF assms(1)] show ?thesis
    unfolding silence_locked_def
    by (intro zwp_intros zwp_silence_incident zwp_persist) simp_all
qed

lemma zwp_cancel_pending_auto_rearm:
  assumes "zinv z" and "Q () z" and "Q () (cancel_auto_rearm z)"
  shows "zwp F (cancel_pending_auto_rearm by src) Q z"
  using assms unfolding cancel_pending_auto_rearm_def
  by (intro zwp_intros zwp_modz zwp_persist) simp_all

lemma zwp_disarm_resolved:
  assumes "zinv z" and "\<And>z'. zinv z' \<Longrightarrow> timer_ok z \<longrightarrow> timer_ok z' \<Longrightarrow> zstate z' = ZDisarmed \<Longrightarrow> \<not> zauto_rearm_on z' \<Longrightarrow> Q () z'"
  shows "zwp F (disarm_resolved by src identity duress) Q z"
proof -
  have d: "zstate (disarmed_zone z) = ZDisarmed" "\<not> zauto_rearm_on (disarmed_zone z)"
    by (simp_all add: zone_defs)
  show ?thesis
    using assms zinv_disarmed_zone [OF assms(1)] d unfolding disarm_resolved_def cancel_pending_auto_rearm_def
    by (intro zwp_intros zwp_modz zwp_persist zwp_disarm_locked) simp_all
qed


lemma zwp_commit_arm:
  assumes z: "zincident z = None" "zpre_trigger_state z = no_state" "zsilenced_incident z = 0"
    and Q: "\<And>res z'. zinv z' \<Longrightarrow> timer_ok z' \<Longrightarrow> zstate z' = res_state res \<Longrightarrow>
      zstate z' = ZArming \<or> zstate z' = ZArmed \<Longrightarrow> zmode z' = ar_mode req \<Longrightarrow>
      zbypassed z' = bypass \<Longrightarrow> res_bypassed res = sort bypass \<Longrightarrow> Q res z'"
  shows "zwp F (commit_arm req mcfg bypass) Q z"
  unfolding commit_arm_def
  by (intro zwp_intros zwp_modz zwp_persist zwp_schedule_state_timer zwp_complete_arm zinv_armed_zone Q)
    (simp_all add: z zinv_def timer_ok_def zone_defs)

lemma zwp_begin_arm:
  assumes z: "zinv z" and st: "zstate z \<noteq> ZPending" "zstate z \<noteq> ZTriggered"
    and bad: "\<And>err z'. zinv z' \<Longrightarrow> timer_ok z' = timer_ok z \<Longrightarrow> zstate z' = zstate z \<Longrightarrow> Q (Inl err) z'"
    and good: "\<And>res z'. zinv z' \<Longrightarrow> timer_ok z' \<Longrightarrow> zstate z' = res_state res \<Longrightarrow>
      zstate z' = ZArming \<or> zstate z' = ZArmed \<Longrightarrow> zmode z' = ar_mode req \<Longrightarrow> Q (Inr res) z'"
  shows "zwp F (begin_arm req mcfg) Q z"
proof -
  have n: "zincident z = None" "zpre_trigger_state z = no_state" "zsilenced_incident z = 0"
    using z st by (auto simp: zinv_def)
  show ?thesis
    unfolding begin_arm_def using z st n
    by (intro zwp_intros zwp_modz zwp_commit_arm bad good) simp_all
qed

lemma zwp_trigger:
  assumes z: "zinv z" and cyc: "fo_cycle opts = 0"
    and skip: "zstate z = ZTriggered \<Longrightarrow> Q () z"
    and Q: "\<And>z'. zinv z' \<Longrightarrow> timer_ok z' \<Longrightarrow> zstate z' = ZTriggered \<Longrightarrow> zmode z' = zmode z \<Longrightarrow> Q () z'"
  shows "zwp F (trigger cause opts) Q z"
proof -
  have n: "zstate z \<noteq> ZTriggered \<Longrightarrow> zincident z = None"
    "zstate z \<noteq> ZTriggered \<Longrightarrow> zpre_trigger_state z = no_state"
    "zstate z \<noteq> ZTriggered \<Longrightarrow> zsilenced_incident z = 0"
    using z by (auto simp: zinv_def)
  show ?thesis
    unfolding trigger_def
    by (intro zwp_intros zwp_modz zwp_open_incident zwp_schedule_state_timer zwp_persist zwp_fire_cycle skip Q)
      (use n cyc in \<open>simp_all add: zinv_def timer_ok_def\<close>)
qed

section \<open>Triggering\<close>

text \<open>
  The rules below end in \<open>steady z z'\<close>: the zone satisfies the invariant again, and the countdown
  of its state runs if it did before.
\<close>

lemma zwp_route_activation:
  assumes z: "zinv z" "zstate z = ZArmed"
    and Q: "\<And>z'. steady z z' \<Longrightarrow> zstate z' = ZPending \<or> zstate z' = ZTriggered \<Longrightarrow> Q () z'"
  shows "zwp F (route_activation s cause) Q z"
  unfolding route_activation_def
  by (intro zwp_intros zwp_modz zwp_persist zwp_schedule_state_timer zwp_trigger z Q)
    (use z zinv_idle [OF z(1)] in \<open>simp_all add: steady_def zinv_def timer_ok_def zero_fire_options_def\<close>)

lemma zwp_schedule_auto_rearm_if_configured:
  assumes "Q () z" and "\<And>n dl. Q () (z\<lparr>zauto_rearm_mode := mode, zauto_rearm_seq := n,
                          zauto_rearm_deadline := dl, zauto_rearm_on := True\<rparr>)"
  shows "zwp F (schedule_auto_rearm_if_configured mode actor) Q z"
  unfolding schedule_auto_rearm_if_configured_def using assms by (intro zwp_intros) simp_all

lemma zwp_disarm_after_trigger:
  assumes z: "zincident z = None" "zsilenced_incident z = 0"
    and Q: "\<And>z'. zinv z' \<Longrightarrow> timer_ok z' \<Longrightarrow> zstate z' = ZDisarmed \<Longrightarrow> Q () z'"
  shows "zwp F (disarm_after_trigger st by) Q z"
proof -
  have "zinv (reset_to_disarmed (cancel_timers z))" "timer_ok (reset_to_disarmed (cancel_timers z))"
    by (rule zinv_reset_to_disarmed timer_ok_reset_to_disarmed; simp add: z)+
  moreover have "zstate (reset_to_disarmed (cancel_timers z)) = ZDisarmed"
    by (simp add: reset_to_disarmed_def)
  ultimately show ?thesis
    unfolding disarm_after_trigger_def
    by (intro zwp_intros zwp_modz zwp_schedule_auto_rearm_if_configured zwp_persist Q)
      (simp_all add: reset_to_disarmed_def [of "cancel_timers z"] zinv_frame timer_ok_frame)
qed

lemma zwp_finish_triggered:
  assumes z: "zinv z" "zpre_trigger_state z = no_state"
    and Q: "\<And>z'. zinv z' \<Longrightarrow> timer_ok z' \<Longrightarrow> zstate z' = ZDisarmed \<or> zstate z' = ZArmed \<Longrightarrow> Q () z'"
  shows "zwp F (finish_triggered ev) Q z"
  unfolding finish_triggered_def
  by (intro zwp_intros zwp_close_incident zwp_disarm_after_trigger zwp_complete_arm zinv_armed_zone Q)
    (simp_all add: z closed_zone_silenced)

lemma zwp_finish_always_on:
  assumes z: "zinv z"
    and Q: "\<And>z'. zinv z' \<Longrightarrow> timer_ok z' \<Longrightarrow> zstate z' = (if mode_armed (zpre_trigger_mode z) then ZArmed else ZDisarmed) \<Longrightarrow>
      (mode_armed (zpre_trigger_mode z) \<longrightarrow> zmode z' = zpre_trigger_mode z) \<Longrightarrow> Q () z'"
  shows "zwp F (finish_always_on ev actor) Q z"
proof -
  let ?z = "(cancel_timers (closed_zone z))\<lparr>zpre_trigger_state := no_state, zpre_trigger_mode := no_mode\<rparr>"
  let ?a = "recapture_open_baseline (?z\<lparr>zstate := ZArmed, zmode := zpre_trigger_mode z\<rparr>)"
  have "zinv ?a" "timer_ok ?a"
    using closed_zone_silenced [OF z]
    by (simp_all add: zinv_def timer_ok_def recapture_open_baseline_def)
  moreover have "zinv (reset_to_disarmed ?z)" "timer_ok (reset_to_disarmed ?z)"
    using closed_zone_silenced [OF z]
    by (simp_all add: zinv_reset_to_disarmed timer_ok_reset_to_disarmed)
  moreover have "zstate ?a = ZArmed" "zmode ?a = zpre_trigger_mode z" "zstate (reset_to_disarmed ?z) = ZDisarmed"
    by (simp_all add: recapture_open_baseline_def reset_to_disarmed_def)
  ultimately show ?thesis
    unfolding finish_always_on_def
    by (intro zwp_intros zwp_close_incident zwp_modz zwp_persist Q)
      (simp_all add: recapture_open_baseline_def [of "_\<lparr>zmode := _\<rparr>"] reset_to_disarmed_def [of ?z])
qed

lemma zwp_extend_deadline:
  assumes "zincident z = None \<Longrightarrow> Q () z"
    and "\<And>inc d. zincident z = Some inc \<Longrightarrow> Q () (z\<lparr>zincident := Some (inc\<lparr>ai_deadline_ms := d\<rparr>)\<rparr>)"
  shows "zwp F (extend_deadline dur) Q z"
  unfolding extend_deadline_def using assms
  by (intro zwp_intros zwp_modz_inc zwp_incident_call) (auto simp: inc_le_def)


lemma zinv_triggered: "zinv z \<Longrightarrow> zstate z = ZTriggered \<Longrightarrow> \<exists>inc. zincident z = Some inc"
  by (auto simp: zinv_def)


lemma timer_ok_running:
  "zstate z = ZTriggered \<Longrightarrow> ztimer_on z \<Longrightarrow> ztimer_kind z = TKTrigger \<Longrightarrow> timer_ok z"
  by (simp add: timer_ok_def)

lemmas trigger_simps = zinv_timer_kind zinv_incident timer_ok_running

lemma zwp_on_pre_alarm_elapsed:
  assumes z: "zinv z" "zstate z = ZTriggered" "zpre_trigger_state z = no_state"
    and Q: "\<And>z'. zinv z' \<Longrightarrow> timer_ok z' \<Longrightarrow> Q () z'"
  shows "zwp F on_pre_alarm_elapsed Q z"
proof -
  obtain inc where inc: "zincident z = Some inc" using zinv_triggered [OF z(1,2)] by blast
  show ?thesis
    unfolding on_pre_alarm_elapsed_def
    by (intro zwp_intros zwp_modz zwp_finish_triggered zwp_extend_deadline zwp_schedule_state_timer
        zwp_persist zwp_fire_cycle Q)
      (use z inc in \<open>auto simp: trigger_simps zero_fire_options_def\<close>)
qed

lemma zwp_account_call:
  assumes z: "zincident z = Some inc"
    and inc': "ai_id inc' = ai_id inc" "ai_silenced inc' = ai_silenced inc"
    and op: "\<And>k a b. op \<noteq> OpSilence k a b"
    and count: "\<And>t row. incident_table_ok t \<Longrightarrow> incident_get t (ai_id inc) = Some row \<Longrightarrow>
      ai_cycles inc \<le> ai_cycles row \<Longrightarrow> ai_refires inc \<le> ai_refires row \<Longrightarrow>
      \<exists>row'. incident_get (incident_exec op t) (ai_id inc) = Some row' \<and> ai_zone row' = ai_zone row
        \<and> ai_silenced row' = ai_silenced row
        \<and> ai_cycles inc' \<le> ai_cycles row' \<and> ai_refires inc' \<le> ai_refires row'"
    and Q: "Q False z" "Q True (z\<lparr>zincident := Some inc'\<rparr>)"
  shows "zwp F (account_call op ev inc inc') Q z"
proof (rule zwpI)
  fix w assume c: "cinv F z w"
  let ?z = "z\<lparr>zincident := Some inc'\<rparr>"
  have own: "op_owned F v op" for v using op by (cases op) auto
  have kept: "cinv F ?z (exec_world op v)" if v: "cinv F z v" and id: "ai_id inc \<noteq> 0" for v
  proof -
    have b: "backed (f_muted F) v (zid z) inc" and s: "scheduled v z" and ok: "incident_table_ok (w_incidents v)"
      using v z by (auto simp: cinv_def linked_def winv_def)
    then obtain row where row: "incident_get (w_incidents v) (ai_id inc) = Some row" "ai_zone row = zid z"
      "ai_silenced row \<longrightarrow> ai_silenced inc" "ai_cycles inc \<le> ai_cycles row" "ai_refires inc \<le> ai_refires row"
      using id by (auto simp: backed_def)
    from count [OF ok row(1,4,5)] obtain row' where
      "incident_get (incident_exec op (w_incidents v)) (ai_id inc) = Some row'" "ai_zone row' = ai_zone row"
      "ai_silenced row' = ai_silenced row" "ai_cycles inc' \<le> ai_cycles row'" "ai_refires inc' \<le> ai_refires row'"
      by blast
    with b row inc' have "backed (f_muted F) (exec_world op v) (zid z) inc'"
      by (simp add: backed_def exec_world_def)
    with s have "linked (f_muted F) (exec_world op v) ?z"
      by (simp add: linked_def scheduled_def exec_world_def)
    then show ?thesis by (intro cinv_exec [OF v own]) simp_all
  qed
  show "wp (account_call op ev inc inc') (\<lambda>a s. cinv F (cz s) (cw s) \<and> Q a (cz s)) \<lparr>cz = z, cw = w\<rparr>"
  proof (cases "ai_id inc = 0")
    case True
    with c z inc' have "linked (f_muted F) w ?z"
      by (auto simp: cinv_def linked_def backed_def scheduled_def)
    then have "cinv F ?z w" by (intro cinv_zone [OF c]) simp_all
    with True Q show ?thesis by (simp add: account_call_def modz_def wp_simps)
  next
    case False
    then show ?thesis
      unfolding account_call_def
    proof (simp add: wp_bind, intro wp_incident_callI [OF c], goal_cases)
      case (1 v)
      then have "cinv F z (v\<lparr>w_trace := EJournal e # w_trace v\<rparr>)" for e by (intro cinv_emit) simp_all
      with Q show ?case
        by (simp add: wp_simps journal_fault_def journal_entry_append_def emit_def modw_def getz_def)
    next
      case (2 v)
      with kept Q show ?case by (simp add: wp_simps modz_def)
    qed
  qed
qed

lemma zwp_account_cycle:
  assumes "zincident z = Some inc"
    and "Q False z" and "Q True (z\<lparr>zincident := Some (inc\<lparr>ai_cycles := ai_cycles inc + 1\<rparr>)\<rparr>)"
  shows "zwp F (account_cycle inc) Q z"
  unfolding account_cycle_def
  using assms sqlite.get_cycle [of _ "ai_id inc" "ai_id inc"] by (intro zwp_account_call) auto

lemma zwp_account_refire:
  assumes "zincident z = Some inc"
    and "Q False z" and "Q True (z\<lparr>zincident := Some (inc\<lparr>ai_refires := ai_refires inc + 1\<rparr>)\<rparr>)"
  shows "zwp F (account_refire inc) Q z"
  unfolding account_refire_def
  using assms sqlite.get_refire [of _ "ai_id inc" "ai_id inc"] by (intro zwp_account_call) auto

lemma zwp_retrigger_cycle:
  assumes z: "zinv z" "zstate z = ZTriggered" and inc: "zincident z = Some inc" "\<not> ai_silenced inc"
    and Q: "\<And>z'. zinv z' \<Longrightarrow> timer_ok z' \<Longrightarrow> Q () z'"
  shows "zwp F retrigger_cycle Q z"
  unfolding retrigger_cycle_def
  by (intro zwp_intros zwp_extend_deadline zwp_schedule_state_timer zwp_persist zwp_fire_cycle Q)
    (use z inc in \<open>auto simp: trigger_simps\<close>)

lemma zwp_on_trigger_elapsed:
  assumes z: "zinv z" "zstate z = ZTriggered" and Q: "\<And>z'. zinv z' \<Longrightarrow> timer_ok z' \<Longrightarrow> Q () z'"
  shows "zwp F on_trigger_elapsed Q z"
proof -
  obtain inc where inc: "zincident z = Some inc" using zinv_triggered [OF z] by blast
  show ?thesis
    unfolding on_trigger_elapsed_def
    by (intro zwp_intros zwp_finish_always_on zwp_finish_triggered zwp_account_cycle zwp_retrigger_cycle Q)
      (use z inc in \<open>auto simp: may_retrigger_def trigger_simps\<close>)
qed

lemma zwp_always_on_fire:
  assumes z: "zinv z" and Q: "\<And>z'. steady z z' \<Longrightarrow> zstate z' = ZTriggered \<Longrightarrow> Q () z'"
  shows "zwp F (always_on_fire kind policy cause by src) Q z"
proof (cases "zstate z = ZTriggered")
  case True
  then show ?thesis
    unfolding always_on_fire_def
    by (intro zwp_intros zwp_fire_cycle Q) (use z in \<open>auto simp: steady_def zero_fire_options_def\<close>)
next
  case False
  note idle = zinv_idle [OF z False]
  show ?thesis
    unfolding always_on_fire_def
    by (intro zwp_intros zwp_modz zwp_open_incident zwp_schedule_state_timer zwp_persist zwp_fire_cycle Q)
      (use False idle in \<open>simp_all add: steady_def zinv_def timer_ok_def zero_fire_options_def\<close>)
qed

lemma zwp_always_on_from_sensor:
  assumes "zinv z" and "\<And>z'. steady z z' \<Longrightarrow> zstate z' = ZTriggered \<Longrightarrow> Q () z'"
  shows "zwp F (always_on_from_sensor s) Q z"
  unfolding always_on_from_sensor_def using assms by (intro zwp_intros zwp_always_on_fire) auto

lemma zwp_panic_trigger:
  assumes "zinv z" and Q: "\<And>z'. steady z z' \<Longrightarrow> zstate z' = ZTriggered \<Longrightarrow> Q () z'"
  shows "zwp F (panic_trigger silent by src) Q z"
  unfolding panic_trigger_def
  by (intro zwp_intros zwp_always_on_fire Q) (simp_all add: assms(1) steady_def)

lemma zwp_adopt_sounding:
  assumes z: "zinv z" and Q: "\<And>b z'. steady z z' \<Longrightarrow> zstate z' = ZTriggered \<Longrightarrow> Q b z'"
  shows "zwp F (adopt_sounding outs) Q z"
proof (cases "zstate z = ZTriggered")
  case True
  then show ?thesis
    unfolding adopt_sounding_def using zinv_triggered [OF z True]
    by (intro zwp_intros Q) (use z in \<open>auto simp: steady_def\<close>)
next
  case False
  note idle = zinv_idle [OF z False]
  show ?thesis
    unfolding adopt_sounding_def
    by (intro zwp_intros zwp_modz zwp_open_incident zwp_schedule_state_timer zwp_persist Q)
      (use False idle in \<open>simp_all add: steady_def zinv_def timer_ok_def\<close>)
qed

section \<open>Sensors\<close>

lemma upd_sensor_frame [simp]:
  "zinv (upd_sensor i f z) = zinv z" "timer_ok (upd_sensor i f z) = timer_ok z"
  "zstate (upd_sensor i f z) = zstate z" "zid (upd_sensor i f z) = zid z"
  "zincident (upd_sensor i f z) = zincident z" "ztimer_on (upd_sensor i f z) = ztimer_on z"
  "ztimer_seq (upd_sensor i f z) = ztimer_seq z" "ztimer_deadline (upd_sensor i f z) = ztimer_deadline z"
  "zmode (upd_sensor i f z) = zmode z" "zopen_at_arm (upd_sensor i f z) = zopen_at_arm z"
  by (simp_all add: upd_sensor_def)

lemma zwp_dispatch_sensor_activation:
  assumes z: "zinv z" and Q: "\<And>z'. steady z z' \<Longrightarrow> Q () z'"
  shows "zwp F (dispatch_sensor_activation i s) Q z"
proof -
  have [simp]: "steady z z" using z by (rule steady_refl)
  show ?thesis
  proof (cases "zstate z")
    case ZArming
    then show ?thesis
      unfolding dispatch_sensor_activation_def
      by (intro zwp_intros) (simp, intro zwp_intros zwp_trigger Q z,
        simp_all add: zero_fire_options_def steady_def z)
  next
    case ZArmed
    then show ?thesis
      unfolding dispatch_sensor_activation_def
      by (intro zwp_intros) (simp, intro zwp_route_activation Q z, simp_all)
  next
    case ZPending
    then show ?thesis
      unfolding dispatch_sensor_activation_def
      by (intro zwp_intros) (simp, intro zwp_intros zwp_trigger Q z conjI impI,
        simp_all add: zero_fire_options_def steady_def z)
  next
    case ZTriggered
    then show ?thesis
      unfolding dispatch_sensor_activation_def
      by (intro zwp_intros) (simp, intro zwp_intros Q, simp_all add: steady_def z)
  qed (auto simp: dispatch_sensor_activation_def intro!: zwp_intros Q)
qed

lemma zwp_gate_cross_zone:
  assumes z: "zinv z" and Q: "\<And>z'. steady z z' \<Longrightarrow> Q () z'"
  shows "zwp F (gate_cross_zone i s) Q z"
  unfolding gate_cross_zone_def
  by (intro zwp_intros zwp_modz zwp_dispatch_sensor_activation Q) (use z in \<open>auto simp: steady_def\<close>)

lemma zwp_schedule_hold:
  assumes "\<And>ss. Q () (z\<lparr>zsensors := ss\<rparr>)"
  shows "zwp F (schedule_hold i d) Q z"
  unfolding schedule_hold_def using assms
  by (intro zwp_intros zwp_modz) (simp_all add: upd_sensor_def)

lemma zwp_gate_sensor_activation:
  assumes z: "zinv z" and Q: "\<And>z'. steady z z' \<Longrightarrow> Q () z'"
  shows "zwp F (gate_sensor_activation i s) Q z"
  unfolding gate_sensor_activation_def
  by (intro zwp_intros zwp_schedule_hold zwp_gate_cross_zone Q) (use z in \<open>auto simp: steady_def\<close>)

lemma zwp_walk_test_observe:
  assumes "\<And>b wt. Q b (z\<lparr>zwalk := wt\<rparr>)"
  shows "zwp F (walk_test_observe i active) Q z"
proof -
  have "Q b z" for b using assms [of b "zwalk z"] by simp
  with assms show ?thesis
    unfolding walk_test_observe_def by (intro zwp_intros zwp_modz) simp_all
qed

lemma zwp_defer_auto_rearm:
  assumes z: "zinv z" and Q: "\<And>z'. zinv z' \<Longrightarrow> timer_ok z' = timer_ok z \<Longrightarrow> zstate z' = zstate z \<Longrightarrow> Q () z'"
  shows "zwp F (defer_auto_rearm i) Q z"
  unfolding defer_auto_rearm_def by (intro zwp_intros zwp_persist Q) (simp_all add: z)

lemma zinv_drop_open: "zinv z \<Longrightarrow> zinv (z\<lparr>zopen_at_arm := removeAll i (zopen_at_arm z)\<rparr>)"
  by (simp add: zinv_def)

lemma zwp_sensor_cleared:
  assumes z: "zinv z" and Q: "\<And>z'. steady z z' \<Longrightarrow> Q () z'"
  shows "zwp F (sensor_cleared i s) Q z"
proof -
  have "zinv (upd_sensor i cancel_hold z\<lparr>zopen_at_arm := removeAll i (zopen_at_arm z)\<rparr>)"
    using zinv_drop_open [of "upd_sensor i cancel_hold z" i] z by simp
  then show ?thesis
    unfolding sensor_cleared_def
    by (intro zwp_intros zwp_modz zwp_persist Q) (simp_all add: z steady_def)
qed

lemma zwp_sensor_activated:
  assumes z: "zinv z" and Q: "\<And>z'. steady z z' \<Longrightarrow> Q () z'"
  shows "zwp F (sensor_activated i s) Q z"
  unfolding sensor_activated_def
  by (intro zwp_intros zwp_defer_auto_rearm zwp_gate_sensor_activation Q) (use z in \<open>auto simp: steady_def\<close>)

lemma zwp_handle_sensor_event:
  assumes z: "zinv z" and Q: "\<And>z'. steady z z' \<Longrightarrow> Q () z'"
  shows "zwp F (handle_sensor_event i active) Q z"
  unfolding handle_sensor_event_def
  by (intro zwp_intros zwp_modz zwp_always_on_from_sensor zwp_walk_test_observe zwp_sensor_cleared
      zwp_sensor_activated Q)
    (use z in \<open>auto simp: steady_def\<close>)

lemma zwp_set_sensor_availability:
  assumes z: "zinv z" and Q: "\<And>z'. steady z z' \<Longrightarrow> Q () z'"
  shows "zwp F (set_sensor_availability i ok) Q z"
  unfolding set_sensor_availability_def
  by (intro zwp_intros zwp_modz zwp_route_activation Q) (use z in \<open>auto simp: steady_def\<close>)

lemma zwp_set_sensor_health:
  assumes z: "zinv z" and Q: "\<And>z'. steady z z' \<Longrightarrow> Q () z'"
  shows "zwp F (set_sensor_health i sab low) Q z"
  unfolding set_sensor_health_def
  by (intro zwp_intros zwp_modz Q) (use z in \<open>auto simp: steady_def\<close>)

lemma zwp_central_connectivity:
  assumes z: "zinv z" and Q: "\<And>z'. steady z z' \<Longrightarrow> Q () z'"
  shows "zwp F (central_connectivity c ok) Q z"
  unfolding central_connectivity_def
  by (intro zwp_intros zwp_modz zwp_trigger Q) (use z in \<open>auto simp: steady_def zero_fire_options_def\<close>)


section \<open>Timer callbacks and the remaining verbs\<close>

lemma zwp_on_state_timer_fired:
  assumes z: "zinv z" and Q: "\<And>z'. steady z z' \<Longrightarrow> Q () z'"
  shows "zwp F (on_state_timer_fired seq) Q z"
proof (cases "ztimer_seq z = seq")
  case False
  then show ?thesis
    unfolding on_state_timer_fired_def
    by (intro zwp_intros Q) (simp_all add: z steady_def)
next
  case True
  let ?z = "z\<lparr>ztimer_on := False, ztimer_kind := no_timer\<rparr>"
  have z': "zinv ?z" using z by (simp add: zinv_timer_kind)
  have idle: "zstate z \<noteq> ZTriggered \<Longrightarrow> zinv (armed_zone ?z)"
    using zinv_idle [OF z] by (intro zinv_armed_zone) simp_all
  have pre: "ztimer_kind z = TKPreAlarm \<Longrightarrow> zpre_trigger_state z = no_state"
    using z by (simp add: zinv_def)
  have stale: "steady z ?z" if "\<not> timer_ok z" using that z' by (simp add: steady_def)
  have run: "zwp F
      (case ztimer_kind z of
         TKExit \<Rightarrow> whenS (zstate z = ZArming) (complete_arm (zstate z) ''engine'' ''engine'')
       | TKEntry \<Rightarrow> whenS (zstate z = ZPending) (trigger (pending_elapsed_cause z) zero_fire_options)
       | TKPreAlarm \<Rightarrow> whenS (zstate z = ZTriggered \<and> zpre_alarm z) on_pre_alarm_elapsed
       | TKTrigger \<Rightarrow> whenS (zstate z = ZTriggered) on_trigger_elapsed
       | _ \<Rightarrow> skip) Q ?z"
  proof (cases "ztimer_kind z")
    case TKExit
    then show ?thesis using idle stale
      by simp (intro zwp_whenS zwp_complete_arm Q; auto simp: steady_def timer_ok_def)
  next
    case TKEntry
    then show ?thesis using z' stale
      by simp (intro zwp_whenS zwp_trigger Q; auto simp: steady_def timer_ok_def zero_fire_options_def)
  next
    case TKTrigger
    then show ?thesis using z' stale
      by simp (intro zwp_whenS zwp_on_trigger_elapsed Q; auto simp: steady_def timer_ok_def)
  next
    case TKPreAlarm
    then show ?thesis using z' pre stale
      by simp (intro zwp_whenS zwp_on_pre_alarm_elapsed Q; auto simp: steady_def timer_ok_def)
  next
    case TKAutoRearm
    then show ?thesis using stale by simp (intro zwp_ret Q; auto simp: timer_ok_def split: if_splits)
  next
    case (TKOther x)
    have "steady z ?z" using z' by (auto simp: steady_def timer_ok_def TKOther split: if_splits)
    with TKOther show ?thesis by simp (intro zwp_ret Q)
  qed
  from True show ?thesis
    unfolding on_state_timer_fired_def
    by (intro zwp_intros) (simp_all, intro zwp_modz run, simp_all)
qed

lemma zwp_on_debounce_fired:
  assumes z: "zinv z" and Q: "\<And>z'. steady z z' \<Longrightarrow> Q () z'"
  shows "zwp F (on_debounce_fired seq i) Q z"
  unfolding on_debounce_fired_def
  by (intro zwp_intros zwp_modz zwp_complete_arm zinv_armed_zone Q)
    (use z zinv_idle [OF z] in \<open>auto simp: steady_def intro!: zinv_armed_zone\<close>)

lemma zwp_on_tick_fired:
  assumes z: "zinv z" and Q: "\<And>z'. steady z z' \<Longrightarrow> Q () z'"
  shows "zwp F (on_tick_fired seq kind tot) Q z"
  unfolding on_tick_fired_def
  by (intro zwp_intros zwp_modz Q) (use z in \<open>auto simp: steady_def\<close>)

lemma zwp_on_auto_rearm_elapsed:
  assumes z: "zinv z" and Q: "\<And>z'. steady z z' \<Longrightarrow> Q () z'"
  shows "zwp F on_auto_rearm_elapsed Q z"
proof -
  have j: "zwp F (case err of ErrNotReady bs ds \<Rightarrow> journal_entry_append (e bs)
      | _ \<Rightarrow> journal_fault ev True 0) R z1" if "R () z1" for err e ev R z1
    using that by (cases err) (auto intro: zwp_intros)
  show ?thesis
    unfolding on_auto_rearm_elapsed_def
    by (intro zwp_intros zwp_modz zwp_persist zwp_begin_arm j Q) (use z in \<open>auto simp: steady_def\<close>)
qed

lemma zwp_on_auto_rearm_fired:
  assumes z: "zinv z" and Q: "\<And>z'. steady z z' \<Longrightarrow> Q () z'"
  shows "zwp F (on_auto_rearm_fired seq) Q z"
  unfolding on_auto_rearm_fired_def
  by (intro zwp_intros zwp_modz zwp_on_auto_rearm_elapsed Q) (use z in \<open>auto simp: steady_def\<close>)

lemma zwp_on_hold_fired:
  assumes z: "zinv z" and Q: "\<And>z'. steady z z' \<Longrightarrow> Q () z'"
  shows "zwp F (on_hold_fired i seq) Q z"
  unfolding on_hold_fired_def
  by (intro zwp_intros zwp_modz zwp_gate_cross_zone Q) (use z in \<open>auto simp: steady_def\<close>)

lemma zwp_disarm_idle:
  assumes z: "zinv z" and Q: "\<And>b z'. steady z z' \<Longrightarrow> Q b z'"
  shows "zwp F (disarm_idle by src identity duress) Q z"
  unfolding disarm_idle_def
  by (intro zwp_intros zwp_cancel_pending_auto_rearm Q) (use z in \<open>auto simp: steady_def\<close>)

lemma zwp_acknowledge: "(\<And>r. Q r z) \<Longrightarrow> zwp F (acknowledge by src) Q z"
  unfolding acknowledge_def by (intro zwp_intros) auto

lemma zwp_walk_test_start:
  assumes z: "zinv z" and Q: "\<And>r z'. steady z z' \<Longrightarrow> Q r z'"
  shows "zwp F (walk_test_start by src) Q z"
  unfolding walk_test_start_def by (intro zwp_intros zwp_modz Q) (use z in \<open>auto simp: steady_def\<close>)

lemma zwp_walk_test_stop:
  assumes z: "zinv z" and Q: "\<And>r z'. steady z z' \<Longrightarrow> Q r z'"
  shows "zwp F (walk_test_stop by src) Q z"
  unfolding walk_test_stop_def by (intro zwp_intros zwp_modz Q) (use z in \<open>auto simp: steady_def\<close>)

end
