(* ===== verification/Alarm_Restart.thy ===== *)
theory Alarm_Restart
  imports Alarm_Safety
begin

text \<open>
  Restart and reload under \<open>zwp\<close>: a zone restored from a persisted row satisfies the invariants and
  has its countdown running, on every branch of the restore table.
\<close>

section \<open>Rebuilding the zone\<close>

lemma zwp_restore_sources:
  assumes "\<And>sl sn. Q () (z\<lparr>zsources := sl, zsource_seen := sn\<rparr>)"
    and "\<And>sl sn. Q () (z\<lparr>zsource_seen := sn, zsources := sl\<rparr>)"
  shows "zwp F restore_sources Q z"
  unfolding restore_sources_def using assms
  by (intro zwp_intros zwp_modz) (simp_all add: reset_sources_def)

lemma get_open_by_zone:
  assumes "incident_table_ok t" and "incident_get_open_by_zone t i = Some inc"
  shows "incident_get t (ai_id inc) = Some inc" and "ai_zone inc = i" and "ai_id inc \<noteq> 0"
proof -
  from assms(2) have "inc \<in> set (filter (\<lambda>x. ai_zone x = i \<and> ai_closed_ms x = 0) (it_rows t))"
    by (auto simp: incident_get_open_by_zone_def split: list.splits
        dest: arg_cong [where f = set] simp del: set_filter)
  then have m: "inc \<in> set (it_rows t)" and "ai_zone inc = i" by auto
  then show "ai_zone inc = i" "ai_id inc \<noteq> 0" using assms(1) by (auto simp: incident_table_ok_def)
  from m assms(1) show "incident_get t (ai_id inc) = Some inc"
    unfolding incident_get_def incident_table_ok_def
    by (auto simp: find_Some_iff in_set_conv_nth distinct_conv_nth)
qed

lemma cinv_attach:
  assumes c: "cinv F z w" and M: "f_muted F = {}"
    and inc: "incident_get (w_incidents w) (ai_id inc) = Some inc" "ai_zone inc = f_id F"
  shows "cinv F (z\<lparr>zincident := Some inc\<rparr>) w"
proof (rule cinv_zone [OF c])
  have "backed {} w (zid z) inc" using inc c by (auto simp: backed_def cinv_def)
  then show "linked (f_muted F) w (z\<lparr>zincident := Some inc\<rparr>)"
    using c by (auto simp: M cinv_def linked_def scheduled_def)
qed simp

lemma zwpD: "zwp F m Q z \<Longrightarrow> cinv F z w \<Longrightarrow> wp m (\<lambda>a s. cinv F (cz s) (cw s) \<and> Q a (cz s)) \<lparr>cz = z, cw = w\<rparr>"
  by (simp add: zwp_def)

lemma zwp_getw_cinv:
  "(\<And>w. cinv F z w \<Longrightarrow> wp (f w) (\<lambda>a s. cinv F (cz s) (cw s) \<and> Q a (cz s)) \<lparr>cz = z, cw = w\<rparr>) \<Longrightarrow>
   zwp F (getw \<bind> f) Q z"
  by (simp add: zwp_def getw_def wp_simps)

lemma wp_attach:
  assumes c: "cinv F z w" and M: "f_muted F = {}"
    and inc: "incident_get (w_incidents w) (ai_id inc) = Some inc" "ai_zone inc = f_id F"
    and m: "zwp F m Q (z\<lparr>zincident := Some inc\<rparr>)"
  shows "wp (modz (\<lambda>z. z\<lparr>zincident := Some inc\<rparr>) \<bind> (\<lambda>_. m))
    (\<lambda>a s. cinv F (cz s) (cw s) \<and> Q a (cz s)) \<lparr>cz = z, cw = w\<rparr>"
  using zwpD [OF m cinv_attach [OF c M inc]] by (simp add: modz_def wp_simps)

lemma zwp_load_referenced_incident:
  assumes k: "k \<noteq> 0 \<Longrightarrow> k \<in> f_refs F" and M: "f_muted F = {}"
    and Q: "Q () z" "\<And>inc. k \<noteq> 0 \<Longrightarrow> ai_id inc \<noteq> 0 \<Longrightarrow> Q () (z\<lparr>zincident := Some inc\<rparr>)"
  shows "zwp F (load_referenced_incident k) Q z"
  unfolding load_referenced_incident_def
proof (intro zwp_whenS zwp_bind [of F port_fails] zwp_port_fails zwp_getw_cinv Q(1), goal_cases)
  case (1 b w)
  then have ok: "incident_table_ok (w_incidents w)" by (simp add: cinv_def winv_def)
  have zone: "ai_zone inc = f_id F" if "incident_get (w_incidents w) k = Some inc" for inc
    using that k 1 by (auto simp: cinv_def)
  have att: "cinv F (z\<lparr>zincident := Some inc\<rparr>) w" "ai_id inc \<noteq> 0"
    if g: "incident_get (w_incidents w) k = Some inc" for inc
    using sqlite.get_id [OF ok g] zone [OF g] g by (auto intro!: cinv_attach [OF 1(2) M])
  show ?case
    using 1 Q att zwpD [OF zwp_journal_fault]
    by (auto simp: wp_simps modz_def split: option.split)
qed

lemma zwp_settle_orphan_incident:
  assumes M: "f_muted F = {}"
    and Q: "Q () z" "\<And>inc. st = ZTriggered \<Longrightarrow> ai_id inc \<noteq> 0 \<Longrightarrow> Q () (z\<lparr>zincident := Some inc\<rparr>)"
  shows "zwp F (settle_orphan_incident st) Q z"
  unfolding settle_orphan_incident_def
proof (intro zwp_bind [of F getz] zwp_getz zwp_whenS zwp_bind [of F port_fails] zwp_port_fails
    zwp_getw_cinv Q(1), goal_cases)
  case (1 b w)
  then have ok: "incident_table_ok (w_incidents w)" and i: "zid z = f_id F" by (simp_all add: cinv_def winv_def)
  show ?case
  proof (cases "b \<or> st \<noteq> ZTriggered \<or> incident_get_open_by_zone (w_incidents w) (zid z) = None")
    case True
    then have "zwp F (if b then journal_fault ''incident_load_failed'' True 0
       else case incident_get_open_by_zone (w_incidents w) (zid z) of
              None \<Rightarrow> skip
            | Some orphan \<Rightarrow>
                if st = ZTriggered then do {
                  modz (\<lambda>z. z\<lparr>zincident := Some orphan\<rparr>);
                  journal_entry_append ((entry JFault ''orphan_incident_adopted'')\<lparr>
                    je_incident := ai_id orphan\<rparr>)
                } else do {
                  ok \<leftarrow> incident_call (OpClose (ai_id orphan) (unix_ms (w_now w)) ''incident_lost'');
                  whenS (\<not> ok) (journal_fault ''incident_persist_failed'' True (ai_id orphan));
                  journal_entry_append ((entry JFault ''orphan_incident_closed'')\<lparr>
                    je_incident := ai_id orphan\<rparr>)
                }) Q z"
      using Q(1) by (intro zwp_intros zwp_incident_call) auto
    then show ?thesis using 1(2) by (rule zwpD)
  next
    case False
    then obtain inc where b: "\<not> b" "st = ZTriggered"
      and inc: "incident_get_open_by_zone (w_incidents w) (zid z) = Some inc" by auto
    note g = get_open_by_zone [OF ok inc]
    show ?thesis
      using b inc g i Q(2)
      by simp (intro wp_attach [OF 1(2) M] zwp_journal; simp)
  qed
qed


text \<open>The two records of a silence agree after \<open>heal_silence\<close>.\<close>

definition marker_ok :: "zone \<Rightarrow> bool" where
  "marker_ok z \<longleftrightarrow>
     (zsilenced_incident z \<noteq> 0 \<longrightarrow>
        (\<exists>inc. zincident z = Some inc \<and> ai_silenced inc \<and> ai_id inc = zsilenced_incident z))"

definition healed_zone :: "zone \<Rightarrow> zone" where
  "healed_zone z =
     (case zincident z of
        None \<Rightarrow> z\<lparr>zsilenced_incident := 0\<rparr>
      | Some inc \<Rightarrow>
          if zsilenced_incident z \<noteq> ai_id inc then z\<lparr>zsilenced_incident := 0\<rparr>
          else z\<lparr>zincident := Some (inc\<lparr>ai_silenced := True\<rparr>)\<rparr>)"

lemma marker_ok_healed_zone: "marker_ok (healed_zone z)"
  by (auto simp: marker_ok_def healed_zone_def split: option.split)

lemma heal_nothing: "zincident z = Some inc \<Longrightarrow> ai_silenced inc \<Longrightarrow> z\<lparr>zincident := Some (inc\<lparr>ai_silenced := True\<rparr>)\<rparr> = z"
  by (cases z; cases inc) simp

lemma zwp_heal_silence:
  assumes id: "\<And>inc. zincident z = Some inc \<Longrightarrow> ai_id inc \<noteq> 0" and Q: "Q () (healed_zone z)"
  shows "zwp F heal_silence Q z"
proof (cases "zincident z")
  case None
  with Q show ?thesis
    unfolding heal_silence_def healed_zone_def by (intro zwp_intros zwp_modz) simp_all
next
  case (Some inc)
  note [simp] = heal_nothing [OF Some]
  show ?thesis
    using Q Some id [OF Some] unfolding heal_silence_def healed_zone_def
    by (intro zwp_intros zwp_modz_inc zwp_incident_call) (auto simp: inc_le_def split: if_splits)
qed

section \<open>The restore table\<close>

lemma zwp_re_evaluate_sensor:
  assumes z: "zinv z" and Q: "\<And>z'. steady z z' \<Longrightarrow> Q () z'"
  shows "zwp F (re_evaluate_sensor reader i) Q z"
proof -
  have "zinv (upd_sensor i f z\<lparr>zopen_at_arm := removeAll i (zopen_at_arm z)\<rparr>)" for f
    using zinv_drop_open [of "upd_sensor i f z" i] z by simp
  then show ?thesis
    unfolding re_evaluate_sensor_def
    by (intro zwp_intros zwp_modz zwp_persist zwp_route_activation Q) (use z in \<open>simp_all add: steady_def\<close>)
qed

lemma zwp_re_evaluate_after_restore:
  assumes z: "zinv z" and Q: "\<And>z'. steady z z' \<Longrightarrow> Q () z'"
  shows "zwp F re_evaluate_after_restore Q z"
  unfolding re_evaluate_after_restore_def
proof (intro zwp_intros Q)
  fix reader
  show "zwp F (forS (sorted_sensor_ids z) (re_evaluate_sensor reader)) Q z"
  proof (rule zwp_forS [where I = "steady z"])
    fix i y assume "steady z y"
    then show "zwp F (re_evaluate_sensor reader i) (\<lambda>_. steady z) y"
      by (intro zwp_re_evaluate_sensor) (auto simp: steady_def)
  qed (use z Q in \<open>auto simp: steady_refl\<close>)
qed (use z in \<open>auto simp: steady_refl\<close>)

lemma zwp_finish_triggered_on_restore:
  assumes z: "marker_ok z" and Q: "\<And>z'. zinv z' \<Longrightarrow> timer_ok z' \<Longrightarrow> Q () z'"
  shows "zwp F (finish_triggered_on_restore reason) Q z"
proof -
  have "zsilenced_incident (closed_zone z) = 0"
    using z by (auto simp: closed_zone_def marker_ok_def reset_sources_def)
  then show ?thesis
    unfolding finish_triggered_on_restore_def
    by (intro zwp_intros zwp_close_incident zwp_modz zwp_disarm_after_trigger zwp_complete_arm
        zinv_armed_zone zwp_re_evaluate_after_restore Q)
      (simp_all add: steady_def zinv_armed_zone)
qed

lemma zwp_resume_auto_rearm:
  assumes z: "zinv z" "timer_ok z" and Q: "\<And>z'. zinv z' \<Longrightarrow> timer_ok z' \<Longrightarrow> Q () z'"
  shows "zwp F (resume_auto_rearm d plausible) Q z"
  unfolding resume_auto_rearm_def by (intro zwp_intros Q) (simp_all add: z)

lemma zwp_restore_auto_rearm:
  assumes z: "zinv z" "timer_ok z" and Q: "\<And>z'. zinv z' \<Longrightarrow> timer_ok z' \<Longrightarrow> Q () z'"
  shows "zwp F (restore_auto_rearm timers plausible now) Q z"
  unfolding restore_auto_rearm_def
  by (intro zwp_intros zwp_modz zwp_resume_auto_rearm zwp_on_auto_rearm_elapsed Q)
    (use z in \<open>auto simp: steady_def\<close>)

text \<open>What the dispatch on the persisted state may assume of the rebuilt zone.\<close>

definition restorable :: "zone_state \<Rightarrow> zone \<Rightarrow> bool" where
  "restorable st z \<longleftrightarrow>
     state_valid st \<and> (zincident z \<noteq> None \<longrightarrow> st = ZTriggered) \<and> marker_ok z
     \<and> ztimer_kind z = no_timer \<and> \<not> ztimer_on z
     \<and> (st \<noteq> ZTriggered \<longrightarrow> zpre_trigger_state z = no_state)
     \<and> (st = ZDisarmed \<longrightarrow> zbypassed z = [])
     \<and> (st = ZDisarmed \<or> st = ZArming \<longrightarrow> zopen_at_arm z = [] \<and> zpending_cause z = '''')"

lemma restorable_idle:
  "restorable st z \<Longrightarrow> st \<noteq> ZTriggered \<Longrightarrow>
   zincident z = None \<and> zsilenced_incident z = 0 \<and> zpre_trigger_state z = no_state"
  by (auto simp: restorable_def marker_ok_def)

lemma zwp_resume_arming:
  assumes z: "zinv z" "zstate z = ZArming" and Q: "\<And>z'. zinv z' \<Longrightarrow> timer_ok z' \<Longrightarrow> Q () z'"
  shows "zwp F (resume_arming d plausible) Q z"
  unfolding resume_arming_def
  by (intro zwp_intros zwp_schedule_state_timer zwp_persist Q)
    (use z in \<open>simp_all add: zinv_timer_kind timer_ok_def\<close>)

lemma zwp_complete_interrupted_arm:
  assumes z: "zinv z" "zstate z = ZArming" and Q: "\<And>z'. zinv z' \<Longrightarrow> timer_ok z' \<Longrightarrow> Q () z'"
  shows "zwp F complete_interrupted_arm Q z"
proof -
  have idle: "zincident z = None" "zpre_trigger_state z = no_state" "zsilenced_incident z = 0"
    "zopen_at_arm z = []" "zpending_cause z = ''''"
    using z by (auto simp: zinv_def)
  have open': "zopen_at_arm (cancel_timers y) = zopen_at_arm y"
    "zpending_cause (cancel_timers y) = zpending_cause y" for y
    by (simp_all add: cancel_defs)
  show ?thesis
    unfolding complete_interrupted_arm_def
    by (intro zwp_intros zwp_modz zwp_persist zwp_complete_arm zinv_armed_zone
        zwp_re_evaluate_after_restore Q)
      (simp_all add: idle open' steady_def zinv_armed_zone zinv_def [of "_\<lparr>zbypassed := []\<rparr>"]
        timer_ok_def [of "_\<lparr>zstate := ZDisarmed\<rparr>"])
qed

lemma zwp_restore_arming:
  assumes z: "restorable ZArming z" and Q: "\<And>z'. zinv z' \<Longrightarrow> timer_ok z' \<Longrightarrow> Q () z'"
  shows "zwp F (restore_arming timers plausible now) Q z"
proof -
  have "zinv (z\<lparr>zstate := ZArming\<rparr>)"
    using z restorable_idle [OF z] by (simp add: restorable_def zinv_def)
  then show ?thesis
    unfolding restore_arming_def
    by (intro zwp_intros zwp_modz zwp_resume_arming zwp_complete_interrupted_arm Q) simp_all
qed

lemma zwp_restore_pending:
  assumes z: "restorable ZPending z" and Q: "\<And>z'. zinv z' \<Longrightarrow> timer_ok z' \<Longrightarrow> Q () z'"
  shows "zwp F (restore_pending timers plausible now) Q z"
proof -
  have i: "zinv (z\<lparr>zstate := ZArmed\<rparr>)" "zinv (z\<lparr>zstate := ZArmed, zpending_cause := ''''\<rparr>)"
    "zinv (z\<lparr>zstate := ZPending\<rparr>)" "timer_ok (z\<lparr>zstate := ZArmed\<rparr>)"
    "timer_ok (z\<lparr>zstate := ZArmed, zpending_cause := ''''\<rparr>)"
    using z restorable_idle [OF z] by (simp_all add: restorable_def zinv_def timer_ok_def)
  show ?thesis
    unfolding restore_pending_def
    by (intro zwp_intros zwp_modz zwp_persist zwp_schedule_state_timer zwp_re_evaluate_after_restore
        zwp_trigger Q)
      (use i in \<open>simp_all add: steady_def zero_fire_options_def zinv_timer_kind timer_ok_def\<close>)
qed

lemma zwp_refire_on_restore:
  assumes z: "zinv z" "timer_ok z" "zincident z = Some inc" "\<not> ai_silenced inc"
    and Q: "\<And>z'. zinv z' \<Longrightarrow> timer_ok z' \<Longrightarrow> Q () z'"
  shows "zwp F (refire_on_restore inc policy) Q z"
proof -
  have "zinv (z\<lparr>zincident := Some (inc\<lparr>ai_refires := ai_refires inc + 1\<rparr>)\<rparr>)"
    using z by (simp add: zinv_incident)
  with z show ?thesis
    unfolding refire_on_restore_def
    by (intro zwp_intros zwp_account_refire zwp_fire_cycle Q) simp_all
qed

lemma zwp_restore_triggered:
  assumes z: "restorable ZTriggered z" and Q: "\<And>z'. zinv z' \<Longrightarrow> timer_ok z' \<Longrightarrow> Q () z'"
  shows "zwp F (restore_triggered timers plausible now) Q z"
proof (cases "zincident z")
  case None
  have "marker_ok (z\<lparr>zstate := ZTriggered\<rparr>)" using z by (simp add: restorable_def marker_ok_def)
  with None show ?thesis
    unfolding restore_triggered_def
    by (intro zwp_intros zwp_modz zwp_finish_triggered_on_restore Q) simp_all
next
  case (Some inc)
  have i: "zinv (z\<lparr>zstate := ZTriggered\<rparr>)" "marker_ok (z\<lparr>zstate := ZTriggered\<rparr>)"
    using z Some by (auto simp: restorable_def zinv_def marker_ok_def)
  have m: "marker_ok (z\<lparr>zstate := ZTriggered, zpre_alarm := False\<rparr>)"
    using i(2) by (simp add: marker_ok_def)
  show ?thesis
    unfolding restore_triggered_def stop_silenced_incident_on_restore_def
    by (intro zwp_intros zwp_modz zwp_schedule_state_timer zwp_persist zwp_finish_always_on
        zwp_finish_triggered_on_restore zwp_refire_on_restore Q)
      (use Some i m in \<open>simp_all add: trigger_simps\<close>)
qed

lemma zwp_restore_dispatch:
  assumes z: "restorable (st_state row) z" and Q: "\<And>z'. zinv z' \<Longrightarrow> timer_ok z' \<Longrightarrow> Q () z'"
  shows "zwp F (restore_dispatch row plausible now) Q z"
proof (cases "st_state row")
  case ZDisarmed
  let ?z = "z\<lparr>zstate := ZDisarmed, zmode := ModeDisarmed, zpre_trigger_state := no_state,
              zpre_trigger_mode := no_mode, zpre_alarm := False\<rparr>"
  have "zinv ?z" "timer_ok ?z"
    using z ZDisarmed restorable_idle [OF z] by (simp_all add: restorable_def zinv_def timer_ok_def)
  with ZDisarmed show ?thesis
    unfolding restore_dispatch_def Let_def
    by simp (intro zwp_intros zwp_modz zwp_restore_auto_rearm zwp_persist Q; simp)
next
  case ZArmed
  have "zinv (z\<lparr>zstate := ZArmed\<rparr>)" "timer_ok (z\<lparr>zstate := ZArmed\<rparr>)"
    using z ZArmed restorable_idle [OF z] by (simp_all add: restorable_def zinv_def timer_ok_def)
  with ZArmed show ?thesis
    unfolding restore_dispatch_def Let_def
    by simp (intro zwp_intros zwp_modz zwp_persist zwp_re_evaluate_after_restore Q; simp add: steady_def)
next
  case ZArming
  with z show ?thesis unfolding restore_dispatch_def Let_def by (simp add: zwp_restore_arming Q)
next
  case ZPending
  with z show ?thesis unfolding restore_dispatch_def Let_def by (simp add: zwp_restore_pending Q)
next
  case ZTriggered
  with z show ?thesis unfolding restore_dispatch_def Let_def by (simp add: zwp_restore_triggered Q)
next
  case (ZOther x)
  with z show ?thesis by (simp add: restorable_def)
qed

lemma restorable_rebuilt:
  assumes row: "row_ok row"
    and z: "ztimer_kind z = no_timer" "\<not> ztimer_on z" "inc \<noteq> None \<longrightarrow> st_state row = ZTriggered"
  shows "restorable (st_state row) (healed_zone (restore_fields row z\<lparr>zincident := inc\<rparr>))"
proof -
  let ?h = "healed_zone (restore_fields row z\<lparr>zincident := inc\<rparr>)"
  obtain c where c: "st_context row = Doc c" using row by (auto simp: row_ok_def split: json_doc.splits)
  have "zincident ?h \<noteq> None \<longrightarrow> st_state row = ZTriggered" "ztimer_kind ?h = no_timer" "\<not> ztimer_on ?h"
    "zpre_trigger_state ?h = zx_pre_trigger_state c" "zbypassed ?h = decode_bypass (st_bypass row)"
    "zopen_at_arm ?h = remdups (zx_open_at_arm c)" "zpending_cause ?h = zx_pending_cause c"
    using z by (auto simp: healed_zone_def restore_fields_def c split: option.split)
  with row c marker_ok_healed_zone show ?thesis by (auto simp: restorable_def row_ok_def)
qed

text \<open>\<open>restoreZone\<close> up to the dispatch on the persisted state, and what the dispatch may assume.\<close>

definition restore_prelude :: "state_row \<Rightarrow> bool \<Rightarrow> time_ns \<Rightarrow> unit prog" where
  "restore_prelude row plausible now = do {
     whenS (\<not> plausible) (journal_entry_append ((entry JFault ''implausible_clock_on_restore'')\<lparr>
       je_details := [(''persisted_at_ms'', JVInt (st_updated_ms row)), (''now_ms'', JVInt (unix_ms now))]\<rparr>));
     modz (restore_fields row);
     load_referenced_incident (st_incident row);
     settle_orphan_incident (st_state row);
     heal_silence;
     restore_sources
   }"

lemma restore_zone_split:
  "restore_zone row = do {
     w \<leftarrow> getw;
     let plausible = clock_plausible (unix_ms (w_now w)) (st_updated_ms row);
     restore_prelude row plausible (w_now w);
     restore_dispatch row plausible (w_now w)
   }"
  by (simp add: restore_zone_def restore_prelude_def Let_def)

definition spared :: "int \<Rightarrow> zone \<Rightarrow> bool" where
  "spared k z \<longleftrightarrow> (\<forall>inc. zincident z = Some inc \<longrightarrow> ai_id inc = k \<longrightarrow> ai_silenced inc)"

definition rebuilt :: "state_row \<Rightarrow> zone \<Rightarrow> bool" where
  "rebuilt row z \<longleftrightarrow> restorable (st_state row) z
     \<and> spared (zx_silenced_incident (decode_context (st_context row))) z"

lemma rebuilt_sources:
  "rebuilt row (z\<lparr>zsources := sl, zsource_seen := sn\<rparr>) = rebuilt row z"
  "rebuilt row (z\<lparr>zsource_seen := sn, zsources := sl\<rparr>) = rebuilt row z"
  by (simp_all add: rebuilt_def spared_def restorable_def marker_ok_def)

lemma rebuilt_healed:
  assumes "row_ok row" and "ztimer_kind z = no_timer" "\<not> ztimer_on z" "inc \<noteq> None \<longrightarrow> st_state row = ZTriggered"
  shows "rebuilt row (healed_zone (restore_fields row z\<lparr>zincident := inc\<rparr>))"
  using restorable_rebuilt [OF assms]
  by (auto simp: rebuilt_def spared_def healed_zone_def restore_fields_def Let_def split: option.splits if_splits)

lemma zwp_restore_prelude:
  assumes row: "row_ok row" and k: "st_incident row \<noteq> 0 \<Longrightarrow> st_incident row \<in> f_refs F"
    and M: "f_muted F = {}"
    and z: "zincident z = None" "ztimer_kind z = no_timer" "\<not> ztimer_on z"
    and Q: "\<And>z'. rebuilt row z' \<Longrightarrow> Q () z'"
  shows "zwp F (restore_prelude row plausible now) Q z"
proof -
  let ?z = "restore_fields row z"
  have trig: "st_incident row \<noteq> 0 \<Longrightarrow> st_state row = ZTriggered" using row by (simp add: row_ok_def)
  have f: "zid ?z = zid z" "zincident ?z = None" "ztimer_on ?z = ztimer_on z"
    using z by (simp_all add: restore_fields_def Let_def)
  have "?z\<lparr>zincident := None\<rparr> = ?z" using z by (cases z) (simp add: restore_fields_def Let_def)
  then have r: "rebuilt row (healed_zone ?z)"
    using rebuilt_healed [OF row z(2,3), of None] by simp
  have r': "rebuilt row (healed_zone (?z\<lparr>zincident := Some inc\<rparr>))" if "st_state row = ZTriggered" for inc
    using rebuilt_healed [OF row z(2,3), of "Some inc"] that by simp
  show ?thesis
    unfolding restore_prelude_def
    by (intro zwp_intros zwp_modz zwp_load_referenced_incident zwp_settle_orphan_incident
        zwp_heal_silence zwp_restore_sources k M Q)
      (use z r r' trig f in \<open>simp_all add: rebuilt_sources\<close>)
qed

lemma zwp_restore_zone:
  assumes row: "row_ok row" and k: "st_incident row \<noteq> 0 \<Longrightarrow> st_incident row \<in> f_refs F"
    and M: "f_muted F = {}"
    and z: "zincident z = None" "ztimer_kind z = no_timer" "\<not> ztimer_on z"
    and Q: "\<And>z'. zinv z' \<Longrightarrow> timer_ok z' \<Longrightarrow> Q () z'"
  shows "zwp F (restore_zone row) Q z"
  unfolding restore_zone_split
  by (intro zwp_intros zwp_restore_prelude [OF row _ M z] zwp_restore_dispatch Q)
    (use k in \<open>simp_all add: rebuilt_def\<close>)

section \<open>Reload and stop\<close>

lemma zwp_drop_zone:
  assumes z: "zinv z" and Q: "\<And>z'. steady z z' \<Longrightarrow> Q () z'"
  shows "zwp F drop_zone Q z"
proof -
  have s: "zstate (disarmed_zone z) = ZDisarmed" by (simp add: zone_defs)
  have t: "zstate y = ZDisarmed \<Longrightarrow> timer_ok (cancel_timers y)" for y by (simp add: timer_ok_def)
  show ?thesis
    unfolding drop_zone_def
    by (intro zwp_intros zwp_disarm_locked zwp_modz Q)
      (use z zinv_disarmed_zone [OF z] s t in \<open>auto simp: steady_def zinv_cancel_timers\<close>)
qed

lemma zwp_update_zone_config:
  assumes z: "zinv z" and Q: "\<And>z'. steady z z' \<Longrightarrow> Q () z'"
  shows "zwp F (update_zone_config name cfg) Q z"
  unfolding update_zone_config_def
  by (intro zwp_intros zwp_modz zwp_disarm_locked Q)
    (use z in \<open>auto simp: steady_def intro!: zinv_disarmed_zone\<close>)

lemma zinv_prune: "zinv z \<Longrightarrow> zinv (prune_references sensors z)"
  by (simp add: zinv_def prune_references_def Let_def)

lemma prune_references_sel [simp]:
  "zid (prune_references ss z) = zid z" "zincident (prune_references ss z) = zincident z"
  "ztimer_on (prune_references ss z) = ztimer_on z" "ztimer_seq (prune_references ss z) = ztimer_seq z"
  "ztimer_deadline (prune_references ss z) = ztimer_deadline z"
  "timer_ok (prune_references ss z) = timer_ok z"
  by (simp_all add: prune_references_def Let_def)

lemma zwp_replace_sensors:
  assumes z: "zinv z" and Q: "\<And>z'. steady z z' \<Longrightarrow> Q () z'"
  shows "zwp F (replace_sensors sensors) Q z"
  unfolding replace_sensors_def
  by (intro zwp_intros zwp_modz zwp_persist Q) (use zinv_prune [OF z] in \<open>simp_all add: steady_def\<close>)

lemma zwp_stop_zone:
  assumes z: "zinv z" and Q: "\<And>z'. zinv z' \<Longrightarrow> Q () z'"
  shows "zwp F stop_zone Q z"
  unfolding stop_zone_def
  by (intro zwp_intros zwp_modz zwp_persist Q) (use z in \<open>auto intro: zinv_cancel_timers\<close>)

lemma zwp_reevaluate_zone:
  assumes z: "zinv z" and Q: "\<And>z'. steady z z' \<Longrightarrow> Q () z'"
  shows "zwp F reevaluate_zone Q z"
  unfolding reevaluate_zone_def
  by (intro zwp_intros zwp_re_evaluate_after_restore Q) (use z in \<open>auto simp: steady_def\<close>)

end
