(* ===== verification/Alarm_Reach.thy ===== *)
theory Alarm_Reach
  imports Alarm_Restart
begin

text \<open>
  The invariant of the whole engine: every zone satisfies \<open>zinv\<close> and is \<open>linked\<close> to the world, the
  world satisfies \<open>winv\<close>, and while the engine is started every zone's countdown runs. Each critical
  section keeps it, so every reachable state has it: the engine with its \<open>estep\<close> relation
  interprets \<open>invariant_system\<close>.
\<close>

section \<open>Engine invariant\<close>

definition eok :: "bool \<Rightarrow> engine \<Rightarrow> bool" where
  "eok b e \<longleftrightarrow>
     winv (e_world e) \<and> distinct (keys (e_zones e))
     \<and> (\<forall>i z. lookup (e_zones e) i = Some z \<longrightarrow>
          zid z = i \<and> zinv z \<and> linked {} (e_world e) z \<and> (b \<longrightarrow> timer_ok z))"

definition einv :: "engine \<Rightarrow> bool" where
  "einv e \<longleftrightarrow> eok (e_started e) e"

text \<open>The frame in which a program runs on zone \<open>i\<close> of an engine.\<close>

definition zone_frame :: "engine \<Rightarrow> string \<Rightarrow> int set \<Rightarrow> int set \<Rightarrow> frame" where
  "zone_frame e i M R =
     \<lparr>f_id = i, f_others = {z. \<exists>j. j \<noteq> i \<and> lookup (e_zones e) j = Some z}, f_muted = M, f_refs = R,
      f_base = w_trace (e_world e)\<rparr>"

lemma zone_frame_sel [simp]:
  "f_id (zone_frame e i M R) = i" "f_muted (zone_frame e i M R) = M" "f_refs (zone_frame e i M R) = R"
  "f_base (zone_frame e i M R) = w_trace (e_world e)"
  by (simp_all add: zone_frame_def)

lemma cinv_zone_frame:
  assumes "eok b e" and "lookup (e_zones e) i = Some z"
    and "\<forall>k \<in> R. \<exists>inc. incident_get (w_incidents (e_world e)) k = Some inc \<and> ai_zone inc = i"
  shows "cinv (zone_frame e i {} R) z (e_world e)"
  using assms by (auto simp: cinv_def zone_frame_def eok_def)

lemma run_on_zone:
  assumes "lookup (e_zones e) i = Some z" and "run_state m \<lparr>cz = z, cw = e_world e\<rparr> = (a, s)"
  shows "run_state (on_zone u i m) e =
    (a, e\<lparr>e_zones := AList.update i (cz s) (e_zones e), e_world := cw s\<rparr>)"
  using assms by (simp add: on_zone_def)

lemma run_on_unknown_zone: "lookup (e_zones e) i = None \<Longrightarrow> run_state (on_zone u i m) e = (u, e)"
  by (simp add: on_zone_def)

text \<open>Running a zone program on one zone of the engine, whatever the program is known to do.\<close>

lemma wp_on_zone:
  assumes e: "eok b e"
    and R: "\<forall>k \<in> R. \<exists>inc. incident_get (w_incidents (e_world e)) k = Some inc \<and> ai_zone inc = i"
    and unknown: "lookup (e_zones e) i = None \<Longrightarrow> Q u e"
    and m: "\<And>z. lookup (e_zones e) i = Some z \<Longrightarrow> zid z = i \<Longrightarrow> zinv z \<Longrightarrow> b \<longrightarrow> timer_ok z \<Longrightarrow>
      zwp (zone_frame e i {} R) m (\<lambda>a z'. zinv z' \<and> (b \<longrightarrow> timer_ok z') \<and> P a z') z"
    and Q: "\<And>z a e'. lookup (e_zones e) i = Some z \<Longrightarrow> eok b e' \<Longrightarrow> e_started e' = e_started e \<Longrightarrow>
      e_index e' = e_index e \<Longrightarrow> keys (e_zones e') = keys (e_zones e) \<Longrightarrow>
      (\<And>j. j \<noteq> i \<Longrightarrow> lookup (e_zones e') j = lookup (e_zones e) j) \<Longrightarrow>
      (\<exists>z'. lookup (e_zones e') i = Some z' \<and> P a z') \<Longrightarrow> Q a e'"
  shows "wp (on_zone u i m) Q e"
proof (cases "lookup (e_zones e) i")
  case None
  then show ?thesis using unknown by (simp add: wp_def run_on_unknown_zone)
next
  case (Some z)
  obtain a s where run: "run_state m \<lparr>cz = z, cw = e_world e\<rparr> = (a, s)" by (metis surj_pair)
  let ?e = "e\<lparr>e_zones := AList.update i (cz s) (e_zones e), e_world := cw s\<rparr>"
  have z: "zid z = i" "zinv z" "b \<longrightarrow> timer_ok z" using e Some by (auto simp: eok_def)
  have "cinv (zone_frame e i {} R) (cz s) (cw s) \<and> zinv (cz s) \<and> (b \<longrightarrow> timer_ok (cz s)) \<and> P a (cz s)"
    using zwpD [OF m [OF Some z] cinv_zone_frame [OF e Some R]] run by (simp add: wp_def)
  then have c: "winv (cw s)" "zid (cz s) = i" "linked {} (cw s) (cz s)" "zinv (cz s)"
    "b \<longrightarrow> timer_ok (cz s)" "P a (cz s)"
    "\<And>j y. j \<noteq> i \<Longrightarrow> lookup (e_zones e) j = Some y \<Longrightarrow> linked {} (cw s) y"
    by (auto simp: cinv_def zone_frame_def)
  have k: "keys (AList.update i (cz s) (e_zones e)) = keys (e_zones e)"
    using Some by (intro keys_update_present) auto
  have "eok b ?e" using c e k by (auto simp: eok_def)
  then have "Q a ?e" using Q [OF Some] c k by simp
  then show ?thesis by (simp add: wp_def run_on_zone [OF Some run])
qed

section \<open>Programs that keep the invariant\<close>

definition ekeeps :: "'a eprog \<Rightarrow> bool" where
  "ekeeps m \<longleftrightarrow> (\<forall>b s e. eok b e \<and> e_started e = s \<longrightarrow> wp m (\<lambda>_ e'. eok b e' \<and> e_started e' = s) e)"

named_theorems ekeeps_intros \<open>programs that keep the engine invariant\<close>

lemma ekeepsI: "(\<And>b e. eok b e \<Longrightarrow> wp m (\<lambda>_ e'. eok b e' \<and> e_started e' = e_started e) e) \<Longrightarrow> ekeeps m"
  by (simp add: ekeeps_def)

lemma ekeepsD: "ekeeps m \<Longrightarrow> eok b e \<Longrightarrow> wp m (\<lambda>_ e'. eok b e' \<and> e_started e' = e_started e) e"
  by (simp add: ekeeps_def)

lemma ekeeps_ret [ekeeps_intros]: "ekeeps (State_Monad.return a)"
  by (simp add: ekeeps_def wp_simps)

lemma ekeeps_bind [ekeeps_intros]:
  assumes "ekeeps m" and "\<And>a. ekeeps (f a)"
  shows "ekeeps (State_Monad.bind m f)"
proof (rule ekeepsI)
  fix b e assume "eok b e"
  from ekeepsD [OF assms(1) this]
  show "wp (State_Monad.bind m f) (\<lambda>_ e'. eok b e' \<and> e_started e' = e_started e) e"
    unfolding wp_bind
  proof (rule wp_mono)
    fix a e' assume e': "eok b e' \<and> e_started e' = e_started e"
    then have "wp (f a) (\<lambda>_ e''. eok b e'' \<and> e_started e'' = e_started e') e'"
      using ekeepsD [OF assms(2)] by blast
    with e' show "wp (f a) (\<lambda>_ e'. eok b e' \<and> e_started e' = e_started e) e'" by simp
  qed
qed

lemma ekeeps_gete [ekeeps_intros]: "ekeeps gete"
  by (simp add: ekeeps_def gete_def wp_simps)

lemma ekeeps_whenS [ekeeps_intros]: "(c \<Longrightarrow> ekeeps m) \<Longrightarrow> ekeeps (whenS c m)"
  by (simp add: whenS_def ekeeps_ret)

lemma ekeeps_if [ekeeps_intros]: "(c \<Longrightarrow> ekeeps m) \<Longrightarrow> (\<not> c \<Longrightarrow> ekeeps m') \<Longrightarrow> ekeeps (if c then m else m')"
  by simp

lemma ekeeps_case_option [ekeeps_intros]:
  "(x = None \<Longrightarrow> ekeeps m) \<Longrightarrow> (\<And>a. x = Some a \<Longrightarrow> ekeeps (f a)) \<Longrightarrow>
   ekeeps (case x of None \<Rightarrow> m | Some a \<Rightarrow> f a)"
  by (cases x) auto

lemma ekeeps_case_prod [ekeeps_intros]: "(\<And>a b. ekeeps (f a b)) \<Longrightarrow> ekeeps (case x of (a, b) \<Rightarrow> f a b)"
  by (cases x) auto

lemma ekeeps_let [ekeeps_intros]: "ekeeps (f e) \<Longrightarrow> ekeeps (let x = e in f x)"
  by simp

lemma ekeeps_forS [ekeeps_intros]: "(\<And>x. ekeeps (f x)) \<Longrightarrow> ekeeps (forS xs f)"
  by (induction xs) (auto intro: ekeeps_intros)

lemma eok_same_stores:
  assumes "eok b e" and "w_incidents w = w_incidents (e_world e)" and "w_states w = w_states (e_world e)"
    and "w_trace w = w_trace (e_world e)" and "w_sched w = w_sched (e_world e)"
  shows "eok b (e\<lparr>e_world := w\<rparr>)"
  using assms linked_cong [of w "e_world e"] by (auto simp: eok_def winv_def)

lemma ekeeps_e_port_fails [ekeeps_intros]: "ekeeps e_port_fails"
proof (rule ekeepsI)
  fix b e assume "eok b e"
  then have "eok b (e\<lparr>e_world := (e_world e)\<lparr>w_faults := bs\<rparr>\<rparr>)" for bs by (rule eok_same_stores) simp_all
  with \<open>eok b e\<close> show "wp e_port_fails (\<lambda>_ e'. eok b e' \<and> e_started e' = e_started e) e"
    by (auto simp: e_port_fails_def gete_def mode_e_def wp_simps split: list.split)
qed

lemma ekeeps_e_emit [ekeeps_intros]:
  assumes "harmless x"
  shows "ekeeps (e_emit x)"
proof (rule ekeepsI)
  fix b e assume e: "eok b e"
  let ?w = "(e_world e)\<lparr>w_trace := x # w_trace (e_world e)\<rparr>"
  have "winv ?w" using e assms by (auto simp: eok_def winv_def silenced_in_Cons harmless_ok)
  moreover have "\<And>z. linked {} (e_world e) z \<Longrightarrow> linked {} ?w z" by (rule linked_cong) simp_all
  ultimately have "eok b (e\<lparr>e_world := ?w\<rparr>)" using e by (auto simp: eok_def)
  then show "wp (e_emit x) (\<lambda>_ e'. eok b e' \<and> e_started e' = e_started e) e"
    by (simp add: e_emit_def mode_e_def wp_simps)
qed

lemma ekeeps_on_zone:
  assumes "\<And>F z R. zinv z \<Longrightarrow> (\<And>a z'. steady z z' \<Longrightarrow> R a z') \<Longrightarrow> zwp F m R z"
  shows "ekeeps (on_zone u i m)"
proof (rule ekeepsI)
  fix b e assume "eok b e"
  then show "wp (on_zone u i m) (\<lambda>_ e'. eok b e' \<and> e_started e' = e_started e) e"
    by (rule wp_on_zone [where R = "{}" and P = "\<lambda>_ _. True"])
      (use \<open>eok b e\<close> in \<open>auto simp: steady_def intro: assms\<close>)
qed

section \<open>Verbs and events\<close>

lemma ekeeps_persist: "ekeeps (on_zone () i persist)"
  by (rule ekeeps_on_zone) (auto intro: zwp_persist steady_refl)

lemma ekeeps_refresh_readiness: "ekeeps (on_zone () i refresh_readiness)"
  by (rule ekeeps_on_zone) (auto intro!: zwp_refresh_readiness simp: steady_def)

lemma ekeeps_arm_resolved: "ekeeps (arm_resolved i req identity duress)"
proof (rule ekeepsI)
  fix b e assume e: "eok b e"
  show "wp (arm_resolved i req identity duress) (\<lambda>_ e'. eok b e' \<and> e_started e' = e_started e) e"
  proof (cases "arm_preconditions e i (ar_mode req)")
    case (Inl err)
    with e show ?thesis by (simp add: arm_resolved_def gete_def wp_simps)
  next
    case (Inr zm)
    then obtain z0 mcfg where zm: "arm_preconditions e i (ar_mode req) = Inr (z0, mcfg)" by (cases zm) simp
    then have st: "lookup (e_zones e) i = Some z0" "zstate z0 \<noteq> ZPending" "zstate z0 \<noteq> ZTriggered"
      by (auto simp: arm_preconditions_def split: if_splits option.splits)
    have "wp (on_zone (Inl ErrUnknownZone) i (do {
           whenS duress (fire_duress VerbArm (ar_by r) (ar_source r));
           begin_arm r mcfg
         })) (\<lambda>_ e'. eok b e' \<and> e_started e' = e_started e) e" for r
      by (rule wp_on_zone [OF e, where R = "{}" and P = "\<lambda>_ _. True"])
        (use e st in \<open>auto intro!: zwp_intros zwp_begin_arm\<close>)
    with zm show ?thesis by (simp add: arm_resolved_def gete_def wp_simps Let_def)
  qed
qed

lemma ekeeps_disarm_idle: "ekeeps (e_disarm_idle i by src identity duress)"
  unfolding e_disarm_idle_def
  by (rule ekeeps_on_zone) (auto intro!: zwp_intros zwp_disarm_idle)

lemma ekeeps_disarm_resolved: "ekeeps (e_disarm_resolved i by src identity duress)"
  unfolding e_disarm_resolved_def
  by (rule ekeeps_on_zone) (auto intro!: zwp_intros zwp_disarm_resolved simp: steady_def)

lemma ekeeps_silence_locked: "ekeeps (on_zone () i (silence_locked by src))"
  by (rule ekeeps_on_zone) (auto intro!: zwp_silence_locked simp: steady_def zinv_silenced_zone)

lemma ekeeps_silence_all: "ekeeps (silence_all by src)"
  unfolding silence_all_def by (intro ekeeps_intros ekeeps_silence_locked)

lemma ekeeps_silence_resolved: "ekeeps (e_silence_resolved i by src identity duress)"
  unfolding e_silence_resolved_def silence_resolved_def
  by (rule ekeeps_on_zone)
    (auto intro!: zwp_intros zwp_silence_locked simp: steady_def zinv_silenced_zone)

lemma ekeeps_acknowledge: "ekeeps (e_acknowledge i by src)"
  unfolding e_acknowledge_def by (rule ekeeps_on_zone) (auto intro!: zwp_acknowledge simp: steady_def)

lemma ekeeps_on_sensor_zone:
  assumes "\<And>F z R. zinv z \<Longrightarrow> (\<And>z'. steady z z' \<Longrightarrow> R () z') \<Longrightarrow> zwp F m R z"
  shows "ekeeps (on_sensor_zone i m)"
  unfolding on_sensor_zone_def by (intro ekeeps_intros ekeeps_on_zone) (auto intro: assms)

lemma ekeeps_central_connectivity: "ekeeps (handle_central_connectivity c ok)"
  unfolding handle_central_connectivity_def
  by (intro ekeeps_intros ekeeps_on_zone) (auto intro: zwp_central_connectivity)

lemma ekeeps_adopt_sounding: "ekeeps (e_adopt_sounding i outs)"
  unfolding e_adopt_sounding_def by (rule ekeeps_on_zone) (auto intro!: zwp_intros zwp_adopt_sounding)

lemma ekeeps_reevaluate_sensors: "ekeeps reevaluate_sensors"
  unfolding reevaluate_sensors_def
  by (intro ekeeps_intros ekeeps_on_zone) (auto intro: zwp_reevaluate_zone)

lemma ekeeps_panic_trigger: "ekeeps (e_panic_trigger i silent by src)"
  unfolding e_panic_trigger_def
  by (intro ekeeps_intros ekeeps_on_zone) (auto intro!: zwp_intros zwp_panic_trigger)

lemma ekeeps_walk_test_start: "ekeeps (e_walk_test_start i by src)"
  unfolding e_walk_test_start_def
  by (intro ekeeps_intros ekeeps_on_zone) (auto intro: zwp_walk_test_start)

lemma ekeeps_walk_test_stop: "ekeeps (e_walk_test_stop i by src)"
  unfolding e_walk_test_stop_def by (rule ekeeps_on_zone) (auto intro: zwp_walk_test_stop)

lemma ekeeps_motion_writes: "ekeeps (motion_writes ts)"
  by (induction ts) (auto intro!: ekeeps_intros)

lemma ekeeps_reset_triggered_motion: "ekeeps (reset_triggered_motion i by src)"
  unfolding reset_triggered_motion_def motion_journal_def
  by (intro ekeeps_intros ekeeps_on_zone ekeeps_motion_writes) (auto intro!: zwp_intros simp: steady_def)

lemma ekeeps_run_callback: "ekeeps (run_callback cb)"
  by (cases cb)
    (auto intro!: ekeeps_intros ekeeps_on_zone zwp_on_state_timer_fired zwp_on_debounce_fired
      zwp_on_tick_fired zwp_on_auto_rearm_fired zwp_on_hold_fired)

section \<open>Reload, stop, start\<close>

lemma ekeeps_config_fault [ekeeps_intros]: "ekeeps (config_fault i ev ds)"
  unfolding config_fault_def by (intro ekeeps_intros) simp

lemma ekeeps_desired_zones: "ekeeps (desired_zones rows desired)"
proof (induction rows arbitrary: desired)
  case (Cons row rows)
  then show ?case
    unfolding desired_zones.simps desired_row_def
    by (intro ekeeps_intros) (auto intro: ekeeps_intros split: option.split)
qed (simp add: ekeeps_ret)

lemma zid_new_zone [simp]: "zid (new_zone i n cfg) = i"
  by (simp add: new_zone_def)

lemma linked_new_zone [simp]: "linked {} w (new_zone i n cfg)"
  by (simp add: linked_def scheduled_def new_zone_def)

lemma eok_update:
  assumes "eok b e" and "zid z = i" "zinv z" "linked {} (e_world e) z" "b \<longrightarrow> timer_ok z"
  shows "eok b (e\<lparr>e_zones := AList.update i z (e_zones e)\<rparr>)"
  using assms by (auto simp: eok_def distinct_keys_update)

lemma ekeeps_delete_zone: "ekeeps (mode_e (\<lambda>e. e\<lparr>e_zones := AList.delete i (e_zones e)\<rparr>))"
  by (auto simp: ekeeps_def mode_e_def wp_simps eok_def distinct_keys_delete split: if_splits)

lemma ekeeps_new_zone: "ekeeps (mode_e (\<lambda>e. e\<lparr>e_zones := AList.update i (new_zone i n cfg) (e_zones e)\<rparr>))"
proof (rule ekeepsI)
  fix b e assume "eok b e"
  then have "eok b (e\<lparr>e_zones := AList.update i (new_zone i n cfg) (e_zones e)\<rparr>)"
    by (rule eok_update) simp_all
  then show "wp (mode_e (\<lambda>e. e\<lparr>e_zones := AList.update i (new_zone i n cfg) (e_zones e)\<rparr>))
      (\<lambda>_ e'. eok b e' \<and> e_started e' = e_started e) e"
    by (simp add: mode_e_def wp_simps)
qed

lemma ekeeps_drop_removed_zone: "ekeeps (drop_removed_zone desired i)"
  unfolding drop_removed_zone_def
  by (intro ekeeps_intros ekeeps_on_zone ekeeps_delete_zone) (auto intro: zwp_drop_zone)

lemma ekeeps_apply_desired_zone: "ekeeps (apply_desired_zone d)"
  unfolding apply_desired_zone_def
  by (intro ekeeps_intros ekeeps_on_zone ekeeps_new_zone)
    (auto intro: zwp_update_zone_config zwp_persist steady_refl)

lemma ekeeps_reload_sensor_rows: "ekeeps (reload_sensor_rows rows acc)"
proof (induction rows arbitrary: acc)
  case (Cons row rows)
  then show ?case
    unfolding reload_sensor_rows.simps reload_sensor_row_def
    by (intro ekeeps_intros) (auto intro!: ekeeps_intros split: option.split simp: Let_def)
qed (simp add: ekeeps_ret)

lemma ekeeps_reindex: "ekeeps (mode_e (\<lambda>e. e\<lparr>e_index := ix\<rparr>))"
  by (auto simp: ekeeps_def mode_e_def wp_simps eok_def)

lemma ekeeps_reload: "ekeeps reload"
  unfolding reload_def reload_sensors_def
  by (intro ekeeps_intros ekeeps_desired_zones ekeeps_drop_removed_zone ekeeps_apply_desired_zone
      ekeeps_reload_sensor_rows ekeeps_reindex ekeeps_on_zone)
    (auto intro: zwp_replace_sensors)

lemma eok_False: "eok b e \<Longrightarrow> eok False e"
  by (simp add: eok_def)

lemma einv_stop:
  assumes "einv e"
  shows "einv (snd (run_state stop e))"
proof -
  have "wp stop (\<lambda>_ e'. einv e') e"
  proof (cases "e_started e")
    case False
    with assms show ?thesis by (simp add: stop_def gete_def wp_simps)
  next
    case True
    let ?e = "e\<lparr>e_started := False\<rparr>"
    have e: "eok False ?e" using assms eok_False by (simp add: einv_def eok_def)
    have "wp (forS (keys (e_zones e)) (\<lambda>i. on_zone () i stop_zone))
        (\<lambda>_ e'. eok False e' \<and> \<not> e_started e') ?e"
    proof (rule wp_forS)
      fix i and d :: engine assume d: "eok False d \<and> \<not> e_started d"
      show "wp (on_zone () i stop_zone) (\<lambda>_ e'. eok False e' \<and> \<not> e_started e') d"
        by (rule wp_on_zone [of False d "{}", where P = "\<lambda>_ _. True"])
          (use d in \<open>auto intro: zwp_stop_zone\<close>)
    qed (use e in simp)
    then have "wp (forS (keys (e_zones e)) (\<lambda>i. on_zone () i stop_zone)) (\<lambda>_ e'. einv e') ?e"
      by (rule wp_mono) (simp add: einv_def)
    with True show ?thesis by (simp add: stop_def gete_def mode_e_def wp_simps)
  qed
  then show ?thesis by (simp add: wp_def split: prod.splits)
qed

definition fresh_zone :: "zone \<Rightarrow> bool" where
  "fresh_zone z \<longleftrightarrow> zincident z = None \<and> ztimer_kind z = no_timer \<and> \<not> ztimer_on z"

definition all_fresh :: "engine \<Rightarrow> string set \<Rightarrow> bool" where
  "all_fresh e I \<longleftrightarrow> (\<forall>i \<in> I. \<forall>z. lookup (e_zones e) i = Some z \<longrightarrow> fresh_zone z)"

lemma fresh_new_zone [simp]: "fresh_zone (new_zone i n cfg)"
  by (simp add: fresh_zone_def new_zone_def)

lemma linked_fresh: "fresh_zone z \<Longrightarrow> linked {} w z"
  by (simp add: fresh_zone_def linked_def scheduled_def)

text \<open>What holds while \<open>loadConfig\<close> builds the zones.\<close>

definition loading :: "engine \<Rightarrow> bool" where
  "loading e \<longleftrightarrow> eok True e \<and> \<not> e_started e \<and> all_fresh e UNIV"

lemma loading_update:
  assumes e: "loading e" and z: "zid z = i" "zinv z" "timer_ok z" "fresh_zone z"
  shows "loading (e\<lparr>e_zones := AList.update i z (e_zones e)\<rparr>)"
proof -
  have "eok True (e\<lparr>e_zones := AList.update i z (e_zones e)\<rparr>)"
    using e z linked_fresh [OF z(4)] by (intro eok_update) (simp_all add: loading_def)
  with e z(4) show ?thesis by (simp add: loading_def all_fresh_def)
qed

lemma loading_index [simp]: "loading (e\<lparr>e_index := ix\<rparr>) = loading e"
  by (simp add: loading_def all_fresh_def eok_def)

lemma wp_config_fault_loading: "loading e \<Longrightarrow> wp (config_fault i ev ds) (\<lambda>_. loading) e"
  using ekeepsD [OF ekeeps_config_fault, of True e i ev ds]
  by (simp add: loading_def all_fresh_def config_fault_def e_emit_def mode_e_def wp_simps)

lemma wp_load_zone_row:
  assumes e: "loading e"
  shows "wp (load_zone_row row) (\<lambda>_. loading) e"
proof -
  have "loading (e\<lparr>e_zones := AList.update i (new_zone i n cfg) (e_zones e)\<rparr>)" for i n cfg
    by (intro loading_update [OF e]) simp_all
  with wp_config_fault_loading [OF e] show ?thesis
    by (simp add: load_zone_row_def mode_e_def wp_simps split: option.split)
qed

lemma wp_load_sensor_row:
  assumes e: "loading e"
  shows "wp (load_sensor_row row) (\<lambda>_. loading) e"
proof -
  have "loading (e\<lparr>e_zones := AList.update i (add_sensor r cfg z) (e_zones e)\<rparr>)"
    if "lookup (e_zones e) i = Some z" for i r cfg z
    using that e
    by (intro loading_update [OF e])
      (auto simp: loading_def all_fresh_def eok_def add_sensor_def fresh_zone_def)
  with e wp_config_fault_loading [OF e] show ?thesis
    by (simp add: load_sensor_row_def gete_def mode_e_def wp_simps split: option.split)
qed

text \<open>A step of \<open>Start\<close> that may refuse: on success \<open>A\<close> holds, otherwise the engine stays stopped.\<close>

definition outcome :: "(engine \<Rightarrow> bool) \<Rightarrow> engine_error option \<Rightarrow> engine \<Rightarrow> bool" where
  "outcome A r e \<longleftrightarrow> (if r = None then A e else eok False e \<and> \<not> e_started e)"

lemma outcome_simps [simp]:
  "outcome A None = A" "outcome A (Some err) = (\<lambda>e. eok False e \<and> \<not> e_started e)"
  by (auto simp: outcome_def)

lemma wp_e_port_fails:
  assumes "\<And>b. Q b e" and "\<And>b bs. Q b (e\<lparr>e_world := (e_world e)\<lparr>w_faults := bs\<rparr>\<rparr>)"
  shows "wp e_port_fails Q e"
  using assms by (auto simp: e_port_fails_def gete_def mode_e_def wp_simps split: list.split)

lemma eok_faults: "eok b e \<Longrightarrow> eok b (e\<lparr>e_world := (e_world e)\<lparr>w_faults := bs\<rparr>\<rparr>)"
  by (rule eok_same_stores) simp_all

lemma wp_load_rows:
  assumes d: "eok False d" "\<not> e_started d"
  shows "wp load_rows (outcome loading) d"
proof -
  have "loading (d\<lparr>e_zones := [], e_index := []\<rparr>)"
    using d by (simp add: loading_def eok_def all_fresh_def keys_def)
  then have "wp (forS rows load_zone_row) (\<lambda>_. loading) (d\<lparr>e_zones := [], e_index := []\<rparr>)" for rows
    by (rule wp_forS) (rule wp_load_zone_row)
  then have "wp (forS rows load_zone_row) (\<lambda>_. wp (forS rows' load_sensor_row) (\<lambda>_. loading))
      (d\<lparr>e_zones := [], e_index := []\<rparr>)" for rows rows'
    by (rule wp_mono) (auto intro: wp_forS wp_load_sensor_row)
  then show ?thesis unfolding load_rows_def gete_def mode_e_def wp_simps by simp
qed

lemma wp_load_config:
  assumes e: "eok False e" "\<not> e_started e"
  shows "wp load_config (outcome loading) e"
  unfolding load_config_def wp_bind
  by (intro wp_e_port_fails)
    (use e in \<open>auto simp: wp_return wp_bind eok_faults intro!: wp_e_port_fails wp_load_rows\<close>)

lemma wp_teardown: "eok b e \<Longrightarrow> \<not> e_started e \<Longrightarrow> wp teardown (\<lambda>_ e'. eok c e' \<and> \<not> e_started e') e"
  by (simp add: teardown_def mode_e_def wp_simps eok_def keys_def)

definition starting :: "string set \<Rightarrow> engine \<Rightarrow> bool" where
  "starting I e \<longleftrightarrow> eok True e \<and> \<not> e_started e \<and> all_fresh e I"

lemma wp_start_on_zone:
  assumes e: "starting (if q then insert i I else I) e" and i: "i \<notin> I"
    and R: "\<forall>k \<in> R. \<exists>inc. incident_get (w_incidents (e_world e)) k = Some inc \<and> ai_zone inc = i"
    and m: "\<And>z. zid z = i \<Longrightarrow> zinv z \<Longrightarrow> timer_ok z \<Longrightarrow> q \<longrightarrow> fresh_zone z \<Longrightarrow>
      zwp (zone_frame e i {} R) m (\<lambda>a z'. zinv z' \<and> timer_ok z' \<and> (p \<longrightarrow> fresh_zone z')) z"
    and pq: "p \<longrightarrow> q"
  shows "wp (on_zone u i m) (\<lambda>_ e'. starting (if p then insert i I else I) e') e"
proof (rule wp_on_zone [OF _ R, where b = True and P = "\<lambda>_ z'. p \<longrightarrow> fresh_zone z'"], goal_cases)
  case 1
  then show ?case using e by (simp add: starting_def)
next
  case 2
  then show ?case using e pq by (auto simp: starting_def all_fresh_def split: if_splits)
next
  case (3 z)
  then have "q \<longrightarrow> fresh_zone z" using e by (auto simp: starting_def all_fresh_def)
  with 3 m show ?case by simp
next
  case (4 z a e')
  have "fresh_zone y" if "j \<in> I" "lookup (e_zones e') j = Some y" for j y
  proof -
    have "j \<noteq> i" using that i by auto
    with 4(6) that have "lookup (e_zones e) j = Some y" by simp
    with e that show ?thesis by (auto simp: starting_def all_fresh_def split: if_splits)
  qed
  with 4 e show ?case by (auto simp: starting_def all_fresh_def split: if_splits)
qed

lemmas wp_start_fresh = wp_start_on_zone [where q = True, simplified]

lemma fresh_zone_sensors [simp]: "fresh_zone (z\<lparr>zsensors := ss\<rparr>) = fresh_zone z"
  by (simp add: fresh_zone_def)

lemma wp_start_restore:
  assumes d: "starting (insert i I) d" and i: "i \<notin> I"
  shows "wp (case state_get (w_states (e_world d)) i of
        Some row \<Rightarrow> on_zone () i (restore_zone row) | None \<Rightarrow> on_zone () i persist) (\<lambda>_. starting I) d"
proof (cases "state_get (w_states (e_world d)) i")
  case None
  have "wp (on_zone () i persist) (\<lambda>_. starting I) d"
    by (rule wp_start_fresh [where p = False, simplified, OF d i, of "{}"]) (auto intro!: zwp_persist)
  with None show ?thesis by simp
next
  case (Some row)
  have rows: "rows_ok (w_incidents (e_world d)) (w_states (e_world d))"
    using d by (simp add: starting_def eok_def winv_def)
  with Some have row: "row_ok row" by (auto simp: rows_ok_def)
  have refs: "\<forall>k \<in> {k. k = st_incident row \<and> k \<noteq> 0}.
      \<exists>inc. incident_get (w_incidents (e_world d)) k = Some inc \<and> ai_zone inc = i"
    using rows Some by (auto simp: rows_ok_def)
  have "wp (on_zone () i (restore_zone row)) (\<lambda>_. starting I) d"
    by (rule wp_start_fresh [where p = False, simplified, OF d i refs])
      (use row in \<open>auto intro!: zwp_restore_zone simp: fresh_zone_def\<close>)
  with Some show ?thesis by simp
qed

lemma wp_start_zone:
  assumes e: "starting (insert i I) e" and i: "i \<notin> I"
  shows "wp (start_zone i) (outcome (starting I)) e"
proof -
  have seed: "wp (on_zone () i refresh_sensor_values) (\<lambda>_. starting (insert i I)) e"
    by (rule wp_start_fresh [where p = True, simplified, OF e i, of "{}"])
      (auto intro!: zwp_refresh_sensor_values)
  have ready: "wp (on_zone () i refresh_readiness) (\<lambda>_. starting I) d" if d: "starting I d" for d
    by (rule wp_start_on_zone [where p = False and q = False, simplified, OF d i, of "{}"])
      (auto intro!: zwp_refresh_readiness)
  have go: "wp (case state_get st i of
      Some row \<Rightarrow> on_zone () i (restore_zone row) | None \<Rightarrow> on_zone () i persist)
      (\<lambda>_. wp (on_zone () i refresh_readiness) (\<lambda>_. starting I)) d"
    if d: "starting (insert i I) d" "st = w_states (e_world d)" for d st
    unfolding d(2) using wp_start_restore [OF d(1) i] by (rule wp_mono) (simp add: ready)
  have stop: "wp teardown (\<lambda>_. outcome (starting I) (Some err)) d" if d: "starting (insert i I) d" for d err
    using d wp_teardown [of True d False] by (simp add: starting_def)
  have faults: "starting (insert i I) (d\<lparr>e_world := (e_world d)\<lparr>w_faults := bs\<rparr>\<rparr>)"
    if d: "starting (insert i I) d" for d bs
    using d eok_faults [of True d bs] by (simp add: starting_def all_fresh_def)
  show ?thesis
    unfolding start_zone_def wp_bind
    using seed
    by (rule wp_mono)
      (use stop faults in \<open>auto simp: wp_post gete_def wp_gets intro!: wp_e_port_fails go\<close>)
qed

lemma wp_start_zones:
  "distinct is \<Longrightarrow> starting (set is) e \<Longrightarrow> wp (start_zones is) (outcome (starting {})) e"
proof (induction "is" arbitrary: e)
  case Nil
  then show ?case by (simp add: wp_simps)
next
  case (Cons i "is")
  then have "wp (start_zone i) (outcome (starting (set is))) e"
    by (intro wp_start_zone) simp_all
  then show ?case
    unfolding start_zones.simps wp_bind
  proof (rule wp_mono)
    fix r e' assume "outcome (starting (set is)) r e'"
    then show "wp (case r of None \<Rightarrow> start_zones is | Some err \<Rightarrow> ret (Some err)) (outcome (starting {})) e'"
      using Cons by (cases r) (auto simp: wp_return)
  qed
qed

lemma wp_restore_all:
  assumes d: "loading d"
  shows "wp restore_all (\<lambda>_. einv) d"
proof -
  have "starting (set (sorted_zone_ids d)) d" "distinct (sorted_zone_ids d)"
    using d by (auto simp: loading_def starting_def all_fresh_def sorted_zone_ids_def eok_def)
  then have "wp (start_zones (sorted_zone_ids d)) (outcome (starting {})) d" by (rule wp_start_zones [rotated])
  then show ?thesis
    unfolding restore_all_def gete_def wp_bind wp_gets
    by (rule wp_mono)
      (auto simp: outcome_def einv_def starting_def wp_bind wp_return mode_e_def wp_modify eok_def
        split: option.split if_splits)
qed

lemma einv_start:
  assumes e: "einv e"
  shows "einv (snd (run_state start e))"
proof -
  have "wp start (\<lambda>_. einv) e"
  proof (cases "e_started e")
    case True
    with e show ?thesis by (simp add: start_def gete_def wp_simps)
  next
    case False
    then have e': "eok False e" using e by (simp add: einv_def)
    have "wp bump_boot_count (\<lambda>_ d. eok False d \<and> \<not> e_started d) e"
      unfolding bump_boot_count_def wp_bind
      by (intro wp_e_port_fails)
        (use e' False in \<open>auto simp: mode_e_def wp_modify Let_def intro!: eok_same_stores\<close>)
    moreover have "wp load_config
        (\<lambda>r. wp (case r of Some err \<Rightarrow> ret (Some err) | None \<Rightarrow> restore_all) (\<lambda>_. einv)) d"
      if "eok False d \<and> \<not> e_started d" for d
      using wp_load_config [of d] that
      by (auto elim!: wp_mono simp: outcome_def einv_def wp_return wp_restore_all
          split: option.split if_splits)
    ultimately have "wp bump_boot_count (\<lambda>_. wp load_config
        (\<lambda>r. wp (case r of Some err \<Rightarrow> ret (Some err) | None \<Rightarrow> restore_all) (\<lambda>_. einv))) e"
      by (rule wp_mono)
    with False show ?thesis unfolding start_def gete_def wp_bind wp_gets by (simp add: wp_post)
  qed
  then show ?thesis by (simp add: wp_def split: prod.splits)
qed

section \<open>Every step, every reachable state\<close>

lemma einv_ekeeps: "ekeeps m \<Longrightarrow> einv e \<Longrightarrow> einv (snd (run_state m e))"
  using ekeepsD [of m "e_started e" e] by (simp add: einv_def wp_def split: prod.splits)

lemma einv_act: "einv e \<Longrightarrow> einv (act a e)"
  by (cases a)
    (simp_all add: einv_start einv_stop einv_ekeeps ekeeps_reload ekeeps_arm_resolved ekeeps_disarm_idle
      ekeeps_disarm_resolved ekeeps_silence_resolved ekeeps_acknowledge ekeeps_central_connectivity
      ekeeps_adopt_sounding ekeeps_reevaluate_sensors ekeeps_panic_trigger ekeeps_walk_test_start
      ekeeps_walk_test_stop ekeeps_reset_triggered_motion ekeeps_silence_all e_handle_sensor_event_def e_set_sensor_availability_def
      e_set_sensor_health_def ekeeps_on_sensor_zone zwp_handle_sensor_event
      zwp_set_sensor_availability zwp_set_sensor_health)

lemma einv_step: "einv e \<Longrightarrow> estep e e' \<Longrightarrow> einv e'"
proof (elim estep_cases)
  fix w' assume "einv e" "e' = e\<lparr>e_world := w'\<rparr>" "same_stores (e_world e) w'"
  then show ?thesis
    using eok_same_stores [of "e_started e" e w'] by (simp add: einv_def same_stores_def)
next
  assume "einv e" "e' = crashed (e_world e)"
  then show ?thesis by (simp add: einv_def eok_def crashed_def winv_def keys_def)
qed (auto intro: einv_act einv_ekeeps ekeeps_run_callback)

lemma einv_fresh: "fresh e \<Longrightarrow> einv e"
  by (simp add: fresh_def einv_def eok_def winv_def keys_def rows_ok_def incident_table_ok_def
      state_get_def silenced_in_def)

interpretation alarm: invariant_system fresh estep einv
  by unfold_locales (auto intro: einv_fresh einv_step)

text \<open>What the invariant says of a reachable engine, in the form the properties use.\<close>

lemma reach_trace_ok: "reach fresh estep e \<Longrightarrow> trace_ok (w_trace (e_world e))"
  using alarm.reach_inv [of e] by (simp add: einv_def eok_def winv_def)

lemma reach_zone:
  "reach fresh estep e \<Longrightarrow> lookup (e_zones e) i = Some z \<Longrightarrow>
   zid z = i \<and> zinv z \<and> linked {} (e_world e) z \<and> (e_started e \<longrightarrow> timer_ok z)"
  using alarm.reach_inv [of e] by (simp add: einv_def eok_def)

lemma trace_ok_append: "trace_ok (new @ x # older) \<Longrightarrow> effect_ok x older"
  by (induction new) simp_all

end
