(* ===== verification/Alarm_Demo.thy ===== *)
theory Alarm_Demo
  imports Alarm_Reach
begin

text \<open>
  Evaluation of the programs by rewriting, and a small installation that the theorems with
  hypotheses are applied to: one zone with one armed mode, started, set off by a panic button,
  disarmed and set off again.

  \<open>run_defs\<close> unfolds a program only where it is run, so that the rewriting follows the order of
  execution and leaves the continuation of a bind alone until its argument is a value.
\<close>

section \<open>Evaluation\<close>

lemmas prog_defs =
  getz_def getw_def modz_def modw_def emit_def port_fails_def journal_entry_append_def
  journal_fault_def publish_def incident_call_def stop_all_def chirp_def fire_cycle_def persist_def
  publish_state_def schedule_def schedule_state_timer_def schedule_arm_close_debounce_def
  start_ticks_def schedule_auto_rearm_def refresh_readiness_def record_source_def
  publish_sources_changed_def open_incident_def close_incident_def complete_arm_def
  abort_walk_test_for_arm_def reset_triggered_motion_for_arm_def refresh_sensor_values_def
  commit_arm_def begin_arm_def silence_incident_def silence_locked_def disarm_locked_def
  fire_duress_def cancel_pending_auto_rearm_def disarm_idle_def disarm_resolved_def
  silence_resolved_def acknowledge_def trigger_def route_activation_def
  schedule_auto_rearm_if_configured_def disarm_after_trigger_def finish_triggered_def
  finish_always_on_def extend_deadline_def on_pre_alarm_elapsed_def account_call_def
  account_cycle_def retrigger_cycle_def on_trigger_elapsed_def always_on_fire_def
  always_on_from_sensor_def panic_trigger_def adopt_sounding_def dispatch_sensor_activation_def
  gate_cross_zone_def schedule_hold_def gate_sensor_activation_def walk_test_observe_def
  defer_auto_rearm_def sensor_cleared_def sensor_activated_def handle_sensor_event_def
  set_sensor_availability_def set_sensor_health_def central_connectivity_def
  on_state_timer_fired_def on_debounce_fired_def on_tick_fired_def on_auto_rearm_elapsed_def
  on_auto_rearm_fired_def on_hold_fired_def walk_test_start_def walk_test_stop_def
  restore_sources_def stop_silenced_incident_on_restore_def re_evaluate_sensor_def
  re_evaluate_after_restore_def finish_triggered_on_restore_def resume_auto_rearm_def
  restore_auto_rearm_def complete_interrupted_arm_def resume_arming_def restore_arming_def
  restore_pending_def account_refire_def refire_on_restore_def restore_triggered_def
  load_referenced_incident_def settle_orphan_incident_def heal_silence_def restore_dispatch_def
  restore_zone_def drop_zone_def update_zone_config_def replace_sensors_def gete_def mode_e_def
  on_zone_def e_port_fails_def e_emit_def config_fault_def load_zone_row_def load_sensor_row_def
  load_rows_def load_config_def teardown_def start_zone_def bump_boot_count_def restore_all_def
  start_def stop_zone_def stop_def desired_row_def drop_removed_zone_def apply_desired_zone_def
  reload_sensor_row_def reload_sensors_def reload_def arm_resolved_def arm_def e_disarm_idle_def
  e_disarm_resolved_def disarm_checked_def disarm_with_code_def disarm_def e_silence_resolved_def
  silence_with_code_def silence_def silence_all_def e_acknowledge_def on_sensor_zone_def
  e_handle_sensor_event_def e_set_sensor_availability_def e_set_sensor_health_def
  handle_central_connectivity_def e_adopt_sounding_def reevaluate_zone_def reevaluate_sensors_def
  e_panic_trigger_def e_walk_test_start_def e_walk_test_stop_def motion_journal_def
  reset_triggered_motion_def

lemmas run_defs = prog_defs [THEN arg_cong [where f = run_state]]

lemma run_whenS [simp]: "run_state (whenS b m) s = (if b then run_state m s else ((), s))"
  by (simp add: whenS_def)

lemma run_let [simp]: "run_state (let x = v in f x) = run_state (f v)"
  by simp

lemmas value_defs = zero_mode_config_def
  zero_sensor_config_def zero_output_policy_def new_zone_def new_sensor_def
  add_sensor_def sorted_zone_ids_def keys_def state_get_def compute_readiness_def readiness_detail_def
  sensor_readiness_def in_mode_def readiness_empty_def readiness_eq_def increment_boot_count_def
  state_row_of_def encode_bypass_def encode_context_def encode_timers_def timer_tuples_def
  incident_id_of_def state_upsert_def unix_ms_def go_millisecond_def go_second_def from_unix_ms_def
  sources_copy_def secs_def new_incident_def bare_cause_def incident_create_def trigger_duration_def
  mode_cfg_def default_trigger_s_def max_trigger_s_def cause_source_ref_def empty_source_ref_def
  source_ref_empty_def entry_def zero_fire_options_def update_where_def incident_mark_silenced_def
  incident_close_def cancel_timers_def cancel_ticks_def cancel_debounce_def cancel_auto_rearm_def
  reset_sources_def reset_to_disarmed_def

section \<open>A small installation\<close>

definition demo_mode :: mode_config where
  "demo_mode = zero_mode_config\<lparr>mc_exit_delay_s := 30, mc_entry_delay_s := 20, mc_trigger_s := 60,
     mc_max_retrigger := 1\<rparr>"

definition demo_config :: zone_config where
  "demo_config = normalize_zone_config (zero_zone_config\<lparr>zc_modes := [(ModeFull, demo_mode)]\<rparr>)"

definition demo_deps :: deps where
  "demo_deps = \<lparr>dp_reader = None, dp_validator = None, dp_duress = None, dp_ledger = False,
     dp_motion = None, dp_loop_breaker_k = 3\<rparr>"

definition demo_world :: world where
  "demo_world = \<lparr>w_now = 1000000000, w_boot = 0, w_boot_row = 0, w_deps = demo_deps, w_faults = [],
     w_zone_rows = [\<lparr>zr_id = ''h'', zr_name = ''h'', zr_config = Doc demo_config\<rparr>],
     w_sensor_rows = [], w_incidents = \<lparr>it_rows = [], it_next = 1\<rparr>, w_states = [],
     w_ledger = \<lparr>lt_rows = [], lt_next = 1\<rparr>, w_trace = [], w_sched = []\<rparr>"

definition demo_engine :: engine where
  "demo_engine = \<lparr>e_started = False, e_zones = [], e_index = [], e_world = demo_world\<rparr>"

text \<open>The configuration stays folded during an evaluation; only the fields that are read appear.\<close>

lemma demo_config_sel [simp]:
  "normalize_zone_config demo_config = demo_config" "zc_modes demo_config = [(ModeFull, demo_mode)]"
  "zc_post_trigger demo_config = PostReturnToArmed" "zc_auto_rearm_s demo_config = 0"
  "zc_panic_outputs demo_config = zero_output_policy" "zc_blockers demo_config =
     \<lparr>bp_open = PolicyBlock, bp_unreachable = PolicyBlock, bp_sabotage = PolicyBlock, bp_low_battery = PolicyWarn\<rparr>"
  by (simp_all add: demo_config_def normalize_zone_config_def zero_zone_config_def blockers_normalized_def)

lemma demo_mode_sel [simp]:
  "mc_exit_delay_s demo_mode = 30" "mc_entry_delay_s demo_mode = 20" "mc_trigger_s demo_mode = 60"
  "mc_max_retrigger demo_mode = 1" "mc_pre_alarm_s demo_mode = 0" "mc_outputs demo_mode = zero_output_policy"
  by (simp_all add: demo_mode_def zero_mode_config_def)

lemma demo_deps_sel [simp]:
  "dp_reader demo_deps = None" "dp_validator demo_deps = None" "dp_duress demo_deps = None"
  "\<not> dp_ledger demo_deps" "dp_motion demo_deps = None" "dp_loop_breaker_k demo_deps = 3"
  by (simp_all add: demo_deps_def)

section \<open>Runs\<close>

fun acts :: "action list \<Rightarrow> engine \<Rightarrow> engine" where
  "acts [] e = e"
| "acts (a # as) e = acts as (act a e)"

lemma reach_acts: "reach fresh estep e \<Longrightarrow> reach fresh estep (acts as e)"
  by (induction "as" arbitrary: e) (auto intro: reach.reach_step step_act)

lemma reach_demo: "reach fresh estep (acts as demo_engine)"
  by (rule reach_acts, rule reach.reach_start) (simp add: fresh_def demo_engine_def demo_world_def)

lemmas demo_run_simps = run_defs value_defs demo_engine_def demo_world_def

definition demo_panic :: action where
  "demo_panic = ActPanic ''h'' False ''u'' ''r''"

definition demo_alarm :: engine where
  "demo_alarm = acts [ActStart, demo_panic] demo_engine"

definition demo_again :: engine where
  "demo_again = acts [ActStart, demo_panic, ActDisarm ''h'' ''u'' ''r'' '''' False, demo_panic] demo_engine"

lemma reach_demo_runs: "reach fresh estep demo_alarm" "reach fresh estep demo_again"
  by (simp_all only: demo_alarm_def demo_again_def reach_demo)

lemma demo_alarm_zone:
  "e_started demo_alarm \<and> (\<exists>z inc. lookup (e_zones demo_alarm) ''h'' = Some z \<and> zstate z = ZTriggered
     \<and> zincident z = Some inc \<and> ai_id inc = 1)"
  by (simp add: demo_alarm_def demo_panic_def demo_run_simps)

lemma demo_alarm_fire:
  "\<exists>inc opts. EFire ''h'' inc opts \<in> set (w_trace (e_world demo_alarm)) \<and> ai_id inc = 1"
  by (simp add: demo_alarm_def demo_panic_def demo_run_simps)

fun is_fire_on :: "string \<Rightarrow> effect \<Rightarrow> bool" where
  "is_fire_on i (EFire j _ _) = (j = i)"
| "is_fire_on i _ = False"

lemma is_fire_onD: "is_fire_on i x \<Longrightarrow> \<exists>inc opts. x = EFire i inc opts"
  by (cases x) auto

lemma demo_again_trace:
  "\<exists>newer older inc opts.
     w_trace (e_world demo_again) = newer @ EIncident (OpSilence 1 1000 ''u'') True # older
     \<and> EFire ''h'' inc opts \<in> set newer"
proof -
  have "\<exists>tr. w_trace (e_world demo_again) = tr \<and>
      takeWhile (\<lambda>x. \<not> is_silence_of 1 x) tr @ EIncident (OpSilence 1 1000 ''u'') True #
        tl (dropWhile (\<lambda>x. \<not> is_silence_of 1 x) tr) = tr \<and>
      list_ex (is_fire_on ''h'') (takeWhile (\<lambda>x. \<not> is_silence_of 1 x) tr)"
    by (simp add: demo_again_def demo_panic_def demo_run_simps)
  then show ?thesis
    unfolding list_ex_iff by (metis is_fire_onD)
qed

end
