(* ===== verification/Alarm_Effects.thy ===== *)
theory Alarm_Effects
  imports Alarm_Demo
begin

text \<open>
  A second program logic, for what one handler does rather than for what it keeps: \<open>evp\<close> is the
  precondition under which a program, started on any world with the given clock, ports and trace,
  ends in a zone and a trace satisfying the postcondition, whatever the ports answer. No invariant
  is assumed, so its conclusions hold of every zone.
\<close>

section \<open>The logic\<close>

type_synonym env = "time_ns \<times> deps"

definition evp ::
  "env \<Rightarrow> 'a prog \<Rightarrow> ('a \<Rightarrow> zone \<Rightarrow> effect list \<Rightarrow> bool) \<Rightarrow> zone \<Rightarrow> effect list \<Rightarrow> bool" where
  "evp E m Q z tr \<longleftrightarrow>
     (\<forall>w. w_now w = fst E \<and> w_deps w = snd E \<and> w_trace w = tr \<longrightarrow>
        wp m (\<lambda>a s. w_now (cw s) = fst E \<and> w_deps (cw s) = snd E \<and> Q a (cz s) (w_trace (cw s)))
          \<lparr>cz = z, cw = w\<rparr>)"

named_theorems evp_intros \<open>rules that walk a program under evp\<close>

lemma evpD:
  fixes w :: world
  assumes "evp (w_now w, w_deps w) m Q z (w_trace w)" and "run_state m \<lparr>cz = z, cw = w\<rparr> = (a, s)"
  shows "Q a (cz s) (w_trace (cw s))"
  using assms by (auto simp: evp_def wp_def)

lemma evp_mono:
  "evp E m Q z tr \<Longrightarrow> (\<And>a z' tr'. Q a z' tr' \<Longrightarrow> R a z' tr') \<Longrightarrow> evp E m R z tr"
  unfolding evp_def by (blast intro: wp_mono)

lemma evp_ret [evp_intros]: "Q a z tr \<Longrightarrow> evp E (State_Monad.return a) Q z tr"
  by (simp add: evp_def wp_simps)

lemma evp_bind [evp_intros]:
  assumes "evp E m (\<lambda>a z tr. evp E (f a) Q z tr) z tr"
  shows "evp E (State_Monad.bind m f) Q z tr"
  unfolding evp_def wp_bind
proof (intro allI impI)
  fix w :: world assume "w_now w = fst E \<and> w_deps w = snd E \<and> w_trace w = tr"
  with assms have "wp m (\<lambda>a s. w_now (cw s) = fst E \<and> w_deps (cw s) = snd E
      \<and> evp E (f a) Q (cz s) (w_trace (cw s))) \<lparr>cz = z, cw = w\<rparr>"
    by (simp add: evp_def)
  then show "wp m (\<lambda>a. wp (f a) (\<lambda>a s. w_now (cw s) = fst E \<and> w_deps (cw s) = snd E
      \<and> Q a (cz s) (w_trace (cw s)))) \<lparr>cz = z, cw = w\<rparr>"
  proof (rule wp_mono)
    fix a and s :: ctx
    assume "w_now (cw s) = fst E \<and> w_deps (cw s) = snd E \<and> evp E (f a) Q (cz s) (w_trace (cw s))"
    then have "wp (f a) (\<lambda>a s. w_now (cw s) = fst E \<and> w_deps (cw s) = snd E
        \<and> Q a (cz s) (w_trace (cw s))) \<lparr>cz = cz s, cw = cw s\<rparr>"
      by (simp add: evp_def)
    then show "wp (f a) (\<lambda>a s. w_now (cw s) = fst E \<and> w_deps (cw s) = snd E
        \<and> Q a (cz s) (w_trace (cw s))) s"
      by (cases s) simp
  qed
qed

lemma evp_getz [evp_intros]: "Q z z tr \<Longrightarrow> evp E getz Q z tr"
  by (simp add: evp_def getz_def wp_simps)

lemma evp_getw [evp_intros]:
  "(\<And>w. w_now w = fst E \<Longrightarrow> w_deps w = snd E \<Longrightarrow> Q w z tr) \<Longrightarrow> evp E getw Q z tr"
  by (simp add: evp_def getw_def wp_simps)

lemma evp_modz [evp_intros]: "Q () (f z) tr \<Longrightarrow> evp E (modz f) Q z tr"
  by (simp add: evp_def modz_def wp_simps)

lemma evp_emit [evp_intros]: "Q () z (x # tr) \<Longrightarrow> evp E (emit x) Q z tr"
  by (simp add: evp_def emit_def modw_def wp_simps)

lemma evp_store [evp_intros]:
  "Q () z tr \<Longrightarrow> evp E (modw (\<lambda>w. w\<lparr>w_incidents := fi w\<rparr>)) Q z tr"
  "Q () z tr \<Longrightarrow> evp E (modw (\<lambda>w. w\<lparr>w_states := fs w\<rparr>)) Q z tr"
  "Q () z tr \<Longrightarrow> evp E (modw (\<lambda>w. w\<lparr>w_ledger := fl w\<rparr>)) Q z tr"
  by (simp_all add: evp_def modw_def wp_simps)

lemma evp_port_fails [evp_intros]: "(\<And>b. Q b z tr) \<Longrightarrow> evp E port_fails Q z tr"
  by (auto simp: evp_def port_fails_def getw_def modw_def wp_simps split: list.split)

lemma evp_whenS [evp_intros]:
  "(b \<Longrightarrow> evp E m Q z tr) \<Longrightarrow> (\<not> b \<Longrightarrow> Q () z tr) \<Longrightarrow> evp E (whenS b m) Q z tr"
  by (simp add: whenS_def evp_ret)

lemma evp_if [evp_intros]:
  "(b \<Longrightarrow> evp E m Q z tr) \<Longrightarrow> (\<not> b \<Longrightarrow> evp E m' Q z tr) \<Longrightarrow> evp E (if b then m else m') Q z tr"
  by simp

lemma evp_case_option [evp_intros]:
  "(x = None \<Longrightarrow> evp E m Q z tr) \<Longrightarrow> (\<And>a. x = Some a \<Longrightarrow> evp E (f a) Q z tr) \<Longrightarrow>
   evp E (case x of None \<Rightarrow> m | Some a \<Rightarrow> f a) Q z tr"
  by (cases x) auto

lemma evp_case_list [evp_intros]:
  "(x = [] \<Longrightarrow> evp E m Q z tr) \<Longrightarrow> (\<And>a as. x = a # as \<Longrightarrow> evp E (f a as) Q z tr) \<Longrightarrow>
   evp E (case x of [] \<Rightarrow> m | a # as \<Rightarrow> f a as) Q z tr"
  by (cases x) auto

lemma evp_case_prod [evp_intros]:
  "(\<And>a b. x = (a, b) \<Longrightarrow> evp E (f a b) Q z tr) \<Longrightarrow> evp E (case x of (a, b) \<Rightarrow> f a b) Q z tr"
  by (cases x) auto

lemma evp_case_sum [evp_intros]:
  "(\<And>a. x = Inl a \<Longrightarrow> evp E (f a) Q z tr) \<Longrightarrow> (\<And>b. x = Inr b \<Longrightarrow> evp E (g b) Q z tr) \<Longrightarrow>
   evp E (case x of Inl a \<Rightarrow> f a | Inr b \<Rightarrow> g b) Q z tr"
  by (cases x) auto

lemma evp_let [evp_intros]: "evp E (f e) Q z tr \<Longrightarrow> evp E (let x = e in f x) Q z tr"
  by simp

lemma evp_forS:
  assumes "I z tr" and "\<And>x z tr. x \<in> set xs \<Longrightarrow> I z tr \<Longrightarrow> evp E (f x) (\<lambda>_. I) z tr"
    and "\<And>z' tr'. I z' tr' \<Longrightarrow> Q () z' tr'"
  shows "evp E (forS xs f) Q z tr"
  using assms(1,2)
proof (induction xs arbitrary: z tr)
  case Nil
  then show ?case by (simp add: evp_ret assms(3))
next
  case (Cons x xs)
  then have "evp E (f x) (\<lambda>_. I) z tr" by simp
  then have "evp E (f x) (\<lambda>_ z tr. evp E (forS xs f) Q z tr) z tr"
    by (rule evp_mono) (rule Cons.IH, auto intro: Cons.prems)
  then show ?case by (simp add: evp_bind)
qed

section \<open>Port calls\<close>

text \<open>An effect is calm when it starts no output cycle. Port calls that may fail add calm effects.\<close>

fun calm :: "effect \<Rightarrow> bool" where
  "calm (EFire _ _ _) = False"
| "calm _ = True"

lemma evp_journal [evp_intros]:
  "Q () z (EJournal (e\<lparr>je_zone := zid z\<rparr>) # tr) \<Longrightarrow> evp E (journal_entry_append e) Q z tr"
  unfolding journal_entry_append_def by (intro evp_intros)

lemma evp_journal_fault [evp_intros]:
  "(\<And>x. calm x \<Longrightarrow> Q () z (x # tr)) \<Longrightarrow> evp E (journal_fault ev b k) Q z tr"
  unfolding journal_fault_def by (intro evp_intros) simp

lemma evp_publish [evp_intros]: "Q () z (EPublish ev # tr) \<Longrightarrow> evp E (publish ev) Q z tr"
  unfolding publish_def by (intro evp_intros)

lemma evp_publish_state [evp_intros]:
  "(\<And>x. calm x \<Longrightarrow> Q () z (x # tr)) \<Longrightarrow> evp E (publish_state st by src) Q z tr"
  unfolding publish_state_def by (intro evp_intros) simp

lemma evp_chirp [evp_intros]: "Q () z (EChirp (zid z) req # tr) \<Longrightarrow> evp E (chirp req) Q z tr"
  unfolding chirp_def by (intro evp_intros)

lemma evp_incident_call [evp_intros]:
  "(\<And>ok. Q ok z (EIncident op ok # tr)) \<Longrightarrow> evp E (incident_call op) Q z tr"
  unfolding incident_call_def by (intro evp_intros)

lemma calm_case: "list_all calm (if b then [EJournal j] else [])"
  by simp

lemma evp_stop_all [evp_intros]:
  assumes "\<And>fx. list_all calm fx \<Longrightarrow> Q () z (fx @ EStopAll (zid z) k # tr)"
  shows "evp E (stop_all k) Q z tr"
  unfolding stop_all_def using assms [of "[]"] assms [of "[_]"] by (intro evp_intros) simp_all

lemma evp_persist [evp_intros]:
  assumes "\<And>fx. list_all calm fx \<Longrightarrow> Q () z (fx @ tr)"
  shows "evp E persist Q z tr"
  unfolding persist_def using assms [of "[_]"] assms [of "[_, _]"] by (intro evp_intros) simp_all

lemma evp_fire_cycle [evp_intros]:
  assumes "\<And>fx. list_all calm fx \<Longrightarrow>
    Q () z (fx @ EFire (zid z) inc (opts\<lparr>fo_zone_name := zname z, fo_sources := zsources z\<rparr>) # tr)"
  shows "evp E (fire_cycle inc opts) Q z tr"
  unfolding fire_cycle_def sources_copy_def using assms [of "[]"] assms [of "[_]"]
  by (intro evp_intros) simp_all

lemma evp_schedule [evp_intros]: "Q () z tr \<Longrightarrow> evp E (schedule cb d) Q z tr"
  by (simp add: evp_def schedule_def modw_def wp_simps)

definition running :: "timer_kind \<Rightarrow> duration \<Rightarrow> time_ns \<Rightarrow> zone \<Rightarrow> zone" where
  "running kind d now z = z\<lparr>ztimer_seq := ztimer_seq z + 1, ztimer_kind := kind,
     ztimer_deadline := now + d, ztimer_remaining := d, ztimer_on := True\<rparr>"

lemma evp_schedule_state_timer [evp_intros]:
  "Q () (running kind d (fst E) z) tr \<Longrightarrow> evp E (schedule_state_timer kind d) Q z tr"
  unfolding schedule_state_timer_def running_def by (intro evp_intros) simp

lemma ticks_swap: "z\<lparr>ztick_on := b, ztick_seq := n\<rparr> = z\<lparr>ztick_seq := n, ztick_on := b\<rparr>"
  by simp

lemma evp_start_ticks [evp_intros]:
  "(\<And>b n. Q () (z\<lparr>ztick_seq := n, ztick_on := b\<rparr>) tr) \<Longrightarrow> evp E (start_ticks kind) Q z tr"
  unfolding start_ticks_def by (intro evp_intros) (simp_all add: cancel_ticks_def ticks_swap)

lemma evp_schedule_auto_rearm [evp_intros]:
  "(\<And>n t. Q () (z\<lparr>zauto_rearm_mode := mode, zauto_rearm_seq := n, zauto_rearm_deadline := t,
     zauto_rearm_on := True\<rparr>) tr) \<Longrightarrow> evp E (schedule_auto_rearm mode d) Q z tr"
  unfolding schedule_auto_rearm_def by (intro evp_intros) (simp_all add: cancel_auto_rearm_def)

lemma evp_schedule_arm_close_debounce [evp_intros]:
  "(\<And>n. Q () (z\<lparr>zdebounce_seq := n, zdebounce_on := True\<rparr>) tr) \<Longrightarrow>
   evp E (schedule_arm_close_debounce i) Q z tr"
  unfolding schedule_arm_close_debounce_def by (intro evp_intros) (simp_all add: cancel_debounce_def)

lemma evp_refresh_readiness [evp_intros]:
  assumes "\<And>r fx. list_all calm fx \<Longrightarrow> Q () (z\<lparr>zreadiness := r\<rparr>) (fx @ tr)"
  shows "evp E refresh_readiness Q z tr"
  unfolding refresh_readiness_def using assms [where fx = "[]" and r = "zreadiness z"] assms [where fx = "[_]"]
  by (intro evp_intros) simp_all

lemma evp_record_source [evp_intros]:
  assumes "\<And>b ss sn fx. list_all calm fx \<Longrightarrow> Q b (z\<lparr>zsource_seen := sn, zsources := ss\<rparr>) (fx @ tr)"
  shows "evp E (record_source k cause) Q z tr"
  unfolding record_source_def using assms [where fx = "[]" and ss = "zsources z" and sn = "zsource_seen z"]
    assms [where fx = "[]"] assms [where fx = "[_]"]
  by (intro evp_intros) simp_all

lemma evp_publish_sources_changed [evp_intros]:
  assumes "\<And>fx. list_all calm fx \<Longrightarrow> Q () z (fx @ tr)"
  shows "evp E (publish_sources_changed k) Q z tr"
  unfolding publish_sources_changed_def using assms [of "[]"] assms [of "[_]"] by (intro evp_intros) simp_all

text \<open>The zone after a refresh: the readable sensors hold their current values.\<close>

definition refreshed :: "deps \<Rightarrow> zone \<Rightarrow> zone" where
  "refreshed d z = (case dp_reader d of None \<Rightarrow> z
     | Some reader \<Rightarrow> z\<lparr>zsensors := map_vals (\<lambda>_. refresh_sensor reader) (zsensors z)\<rparr>)"

lemma evp_refresh_sensor_values [evp_intros]:
  "Q () (refreshed (snd E) z) tr \<Longrightarrow> evp E refresh_sensor_values Q z tr"
  unfolding refresh_sensor_values_def by (intro evp_intros) (simp_all add: refreshed_def)

lemma evp_fire_duress [evp_intros]:
  assumes "\<And>fx. list_all calm fx \<Longrightarrow> Q () z (fx @ tr)"
  shows "evp E (fire_duress v by src) Q z tr"
  unfolding fire_duress_def using assms [of "[_, _]"] by (intro evp_intros) simp

section \<open>Handlers that start no output cycle\<close>

definition calm_ext :: "effect list \<Rightarrow> effect list \<Rightarrow> bool" where
  "calm_ext tr tr' \<longleftrightarrow> (\<exists>fx. tr' = fx @ tr \<and> list_all calm fx)"

lemma calm_ext_simps [simp]:
  "calm_ext tr tr" "calm x \<Longrightarrow> calm_ext tr tr' \<Longrightarrow> calm_ext tr (x # tr')"
  "list_all calm fx \<Longrightarrow> calm_ext tr tr' \<Longrightarrow> calm_ext tr (fx @ tr')"
  by (auto simp: calm_ext_def intro: exI [of _ "_ # _"] exI [of _ "_ @ _"])

lemma calm_extE [elim!]: "calm_ext tr tr' \<Longrightarrow> (\<And>fx. tr' = fx @ tr \<Longrightarrow> list_all calm fx \<Longrightarrow> P) \<Longrightarrow> P"
  by (auto simp: calm_ext_def)

lemma evp_complete_arm [evp_intros]:
  assumes "\<And>tr'. calm_ext tr tr' \<Longrightarrow> Q () (armed_zone z) tr'"
  shows "evp E (complete_arm st by src) Q z tr"
  unfolding complete_arm_def
  by (intro evp_intros) (use assms in \<open>auto simp: armed_zone_def\<close>)

lemma evp_close_incident [evp_intros]:
  assumes "\<And>tr'. calm_ext tr tr' \<Longrightarrow> Q () (closed_zone z) tr'"
  shows "evp E (close_incident reason) Q z tr"
  unfolding close_incident_def
  by (intro evp_intros) (use assms in \<open>auto simp: closed_zone_def\<close>)

definition fresh_incident :: "zone \<Rightarrow> incident_cause \<Rightarrow> alarm_incident \<Rightarrow> bool" where
  "fresh_incident z cause inc \<longleftrightarrow> \<not> ai_silenced inc \<and> ai_cycles inc = 0 \<and> ai_refires inc = 0
     \<and> ai_zone inc = zid z \<and> ai_mode inc = zmode z \<and> ai_cause inc = Doc cause \<and> ai_closed_ms inc = 0"

lemma evp_open_incident [evp_intros]:
  assumes "\<And>inc tr'. fresh_incident z cause inc \<Longrightarrow> calm_ext tr tr' \<Longrightarrow> Q () (z\<lparr>zincident := Some inc\<rparr>) tr'"
  shows "evp E (open_incident cause d) Q z tr"
  unfolding open_incident_def
  by (intro evp_intros)
    (use assms in \<open>auto simp: fresh_incident_def new_incident_def\<close>)

lemma evp_silence_incident [evp_intros]:
  assumes "\<And>t b tr'. calm_ext tr tr' \<Longrightarrow> Q () (silenced_zone t b z) tr'"
  shows "evp E (silence_incident by src) Q z tr"
  unfolding silence_incident_def
  by (intro evp_intros) (use assms in \<open>auto simp: silenced_zone_def\<close>)

lemma evp_disarm_locked [evp_intros]:
  assumes "\<And>tr'. calm_ext tr tr' \<Longrightarrow> Q () (disarmed_zone z) tr'"
  shows "evp E (disarm_locked by src) Q z tr"
  unfolding disarm_locked_def
  by (intro evp_intros) (use assms in \<open>auto simp: disarmed_zone_def\<close>)

lemma evp_silence_locked [evp_intros]:
  assumes "\<And>t b tr'. calm_ext tr tr' \<Longrightarrow> Q () (silenced_zone t b z) tr'"
  shows "evp E (silence_locked by src) Q z tr"
proof -
  have none: "zincident z = None \<Longrightarrow> silenced_zone 0 by z = z" by (simp add: silenced_zone_def)
  show ?thesis
    unfolding silence_locked_def
    by (intro evp_intros) (use assms assms [where t = 0 and b = "by"] none in auto)
qed

lemma evp_cancel_pending_auto_rearm [evp_intros]:
  assumes "\<And>tr'. calm_ext tr tr' \<Longrightarrow> Q () (if zauto_rearm_on z then cancel_auto_rearm z else z) tr'"
  shows "evp E (cancel_pending_auto_rearm by src) Q z tr"
  unfolding cancel_pending_auto_rearm_def
  by (intro evp_intros) (use assms in auto)

lemma evp_disarm_resolved [evp_intros]:
  assumes "\<And>r tr'. calm_ext tr tr' \<Longrightarrow>
    Q () (if zstate z \<noteq> ZDisarmed then (disarmed_zone z)\<lparr>zreadiness := r\<rparr>
          else if zauto_rearm_on z then cancel_auto_rearm z else z) tr'"
  shows "evp E (disarm_resolved by src identity duress) Q z tr"
  unfolding disarm_resolved_def
  by (intro evp_intros) (use assms in \<open>auto split: if_splits\<close>)

end
