(* ===== verification/Alarm_Behaviour.thy ===== *)
theory Alarm_Behaviour
  imports Alarm_Effects
begin

text \<open>
  What single handlers do, whatever zone they start from and whatever the ports answer: disarming
  and silencing, the end of the triggered state and the bound on re-triggering.
\<close>

section \<open>Triggering and leaving triggered\<close>

lemma evp_extend_deadline [evp_intros]:
  assumes "\<And>tr'. zincident z = None \<Longrightarrow> calm_ext tr tr' \<Longrightarrow> Q () z tr'"
    and "\<And>inc d tr'. zincident z = Some inc \<Longrightarrow> calm_ext tr tr' \<Longrightarrow>
      Q () (z\<lparr>zincident := Some (inc\<lparr>ai_deadline_ms := d\<rparr>)\<rparr>) tr'"
  shows "evp E (extend_deadline dur) Q z tr"
  unfolding extend_deadline_def
  by (intro evp_intros) (use assms in auto)

lemma evp_account_call [evp_intros]:
  assumes "\<And>fx. list_all calm fx \<Longrightarrow> EIncident op False \<in> set fx \<Longrightarrow> Q False z (fx @ tr)"
    and "\<And>fx. list_all calm fx \<Longrightarrow> ai_id inc = 0 \<or> EIncident op True \<in> set fx \<Longrightarrow>
      Q True (z\<lparr>zincident := Some inc'\<rparr>) (fx @ tr)"
  shows "evp E (account_call op ev inc inc') Q z tr"
  unfolding account_call_def
  by (intro evp_intros) (use assms(1) [of "[_, _]"] assms(2) [of "[]"] assms(2) [of "[_]"] in auto)

lemma evp_schedule_auto_rearm_if_configured [evp_intros]:
  assumes "\<And>m n t b tr'. calm_ext tr tr' \<Longrightarrow> Q () (z\<lparr>zauto_rearm_mode := m, zauto_rearm_seq := n,
    zauto_rearm_deadline := t, zauto_rearm_on := b\<rparr>) tr'"
  shows "evp E (schedule_auto_rearm_if_configured mode actor) Q z tr"
proof -
  have "calm_ext tr tr' \<Longrightarrow> Q () z tr'" for tr'
    using assms [where m = "zauto_rearm_mode z" and n = "zauto_rearm_seq z"
        and t = "zauto_rearm_deadline z" and b = "zauto_rearm_on z"]
    by simp
  then show ?thesis
    unfolding schedule_auto_rearm_if_configured_def by (intro evp_intros) (use assms in auto)
qed

text \<open>What a zone keeps when it leaves the triggered state, and how it looks then.\<close>

definition left_triggered :: "zone \<Rightarrow> zone \<Rightarrow> bool" where
  "left_triggered z z' \<longleftrightarrow> zcfg z' = zcfg z \<and> zid z' = zid z \<and> zincident z' = None \<and> \<not> ztimer_on z'
     \<and> (zstate z' = ZArmed \<or> zstate z' = ZDisarmed \<and> zmode z' = ModeDisarmed \<and> zbypassed z' = [])"

lemma evp_disarm_after_trigger:
  assumes "zincident z = None" and "\<And>z' tr'. calm_ext tr tr' \<Longrightarrow> left_triggered z z' \<Longrightarrow>
    zpre_trigger_state z' = no_state \<Longrightarrow> \<not> zpre_alarm z' \<Longrightarrow> zstate z' = ZDisarmed \<Longrightarrow> Q () z' tr'"
  shows "evp E (disarm_after_trigger st by) Q z tr"
  unfolding disarm_after_trigger_def
  by (intro evp_intros) (use assms in \<open>auto simp: left_triggered_def zone_defs\<close>)

lemma evp_finish_triggered:
  assumes "\<And>z' tr'. calm_ext tr tr' \<Longrightarrow> left_triggered z z' \<Longrightarrow>
    (zc_post_trigger (zcfg z) \<noteq> PostDisarm \<Longrightarrow> zstate z' = ZArmed \<and> zmode z' = zmode z) \<Longrightarrow> Q () z' tr'"
  shows "evp E (finish_triggered ev) Q z tr"
  unfolding finish_triggered_def
  by (intro evp_intros evp_disarm_after_trigger) (use assms in \<open>auto simp: left_triggered_def zone_defs\<close>)

lemma evp_finish_always_on:
  assumes "\<And>z' tr'. calm_ext tr tr' \<Longrightarrow> left_triggered z z' \<Longrightarrow> zpre_trigger_state z' = no_state \<Longrightarrow>
    zstate z' = (if mode_armed (zpre_trigger_mode z) then ZArmed else ZDisarmed) \<Longrightarrow>
    zmode z' = (if mode_armed (zpre_trigger_mode z) then zpre_trigger_mode z else ModeDisarmed) \<Longrightarrow>
    zbypassed z' = (if mode_armed (zpre_trigger_mode z) then zbypassed z else []) \<Longrightarrow> Q () z' tr'"
  shows "evp E (finish_always_on ev actor) Q z tr"
  unfolding finish_always_on_def
  by (intro evp_intros) (use assms in \<open>auto simp: left_triggered_def zone_defs\<close>)

section \<open>Bounded triggering\<close>

definition after :: "'a prog \<Rightarrow> zone \<Rightarrow> world \<Rightarrow> ctx" where
  "after m z w = snd (run_state m \<lparr>cz = z, cw = w\<rparr>)"

lemma evp_after:
  assumes "evp (w_now w, w_deps w) m (\<lambda>_. R) z (w_trace w)"
  shows "R (cz (after m z w)) (w_trace (cw (after m z w)))"
  using evpD [OF assms] by (cases "run_state m \<lparr>cz = z, cw = w\<rparr>") (simp add: after_def)

definition cycles_of :: "zone \<Rightarrow> int" where
  "cycles_of z = (case zincident z of None \<Rightarrow> 0 | Some inc \<Rightarrow> ai_cycles inc)"

lemma mode_cfg_incident [simp]: "mode_cfg (z\<lparr>zincident := i\<rparr>) m = mode_cfg z m"
  by (simp add: mode_cfg_def)

text \<open>
  A stretch of the trace that starts exactly one output cycle, and in which the accounting of the
  cycle reached the store before the cycle was started (an incident that could not be stored has
  no row to account on).
\<close>

definition accounted_cycle ::
  "effect list \<Rightarrow> effect list \<Rightarrow> incident_op \<Rightarrow> alarm_incident \<Rightarrow> effect \<Rightarrow> bool" where
  "accounted_cycle tr tr' op inc fire \<longleftrightarrow>
     (\<exists>later earlier. tr' = later @ fire # earlier @ tr \<and> list_all calm later \<and> list_all calm earlier
        \<and> (ai_id inc = 0 \<or> EIncident op True \<in> set earlier))"

lemma accounted_cycleI:
  assumes "list_all calm later" and "list_all calm earlier" and "list_all calm paid"
    and "ai_id inc = 0 \<or> EIncident op True \<in> set paid"
  shows "accounted_cycle tr (later @ fire # earlier @ paid @ tr) op inc fire"
  unfolding accounted_cycle_def using assms
  by (intro exI [of _ later] exI [of _ "earlier @ paid"]) auto

lemma evp_retrigger_cycle:
  assumes inc: "zincident z = Some inc"
    and Q: "\<And>d later earlier opts. list_all calm later \<Longrightarrow> list_all calm earlier \<Longrightarrow> fo_cycle opts = ai_cycles inc \<Longrightarrow>
      Q () (running TKTrigger (trigger_duration (mode_cfg z (zmode z))) (fst E)
        (z\<lparr>zincident := Some (inc\<lparr>ai_deadline_ms := d\<rparr>)\<rparr>))
        (later @ EFire (zid z) (inc\<lparr>ai_deadline_ms := d\<rparr>) opts # earlier @ tr)"
  shows "evp E retrigger_cycle Q z tr"
proof -
  have Q': "Q () (running TKTrigger (trigger_duration (mode_cfg z (zmode z))) (fst E)
        (z\<lparr>zincident := Some (inc\<lparr>ai_deadline_ms := d\<rparr>)\<rparr>))
        (x # later @ EFire (zid z) (inc\<lparr>ai_deadline_ms := d\<rparr>) opts # earlier @ before @ tr)"
    if "calm x" "list_all calm later" "list_all calm earlier" "list_all calm before" "fo_cycle opts = ai_cycles inc"
    for d x later opts earlier before
    using Q [of "x # later" "earlier @ before" opts d] that by simp
  show ?thesis
    unfolding retrigger_cycle_def
    by (intro evp_intros) (use inc Q' in \<open>auto simp: running_def\<close>)
qed

lemma evp_on_trigger_elapsed:
  assumes leave: "\<And>z' tr'. calm_ext tr tr' \<Longrightarrow> left_triggered z z' \<Longrightarrow> Q () z' tr'"
    and stay: "\<And>z' tr' inc d opts. zcfg z' = zcfg z \<Longrightarrow> zmode z' = zmode z \<Longrightarrow> zstate z' = zstate z \<Longrightarrow>
      may_retrigger z \<Longrightarrow> cycles_of z' = cycles_of z + 1 \<Longrightarrow> ztimer_kind z' = TKTrigger \<Longrightarrow> ztimer_on z' \<Longrightarrow>
      ztimer_remaining z' = trigger_duration (mode_cfg z (zmode z)) \<Longrightarrow>
      zincident z = Some inc \<Longrightarrow> fo_cycle opts = ai_cycles inc + 1 \<Longrightarrow>
      zincident z' = Some (inc\<lparr>ai_cycles := ai_cycles inc + 1, ai_deadline_ms := d\<rparr>) \<Longrightarrow>
      accounted_cycle tr tr' (OpCycle (ai_id inc)) inc
        (EFire (zid z) (inc\<lparr>ai_cycles := ai_cycles inc + 1, ai_deadline_ms := d\<rparr>) opts) \<Longrightarrow> Q () z' tr'"
  shows "evp E on_trigger_elapsed Q z tr"
proof -
  have stay': "Q () (running TKTrigger (trigger_duration (mode_cfg z (zmode z))) t
      (z\<lparr>zincident := Some (inc\<lparr>ai_cycles := ai_cycles inc + 1, ai_deadline_ms := d\<rparr>)\<rparr>))
      (later @ EFire (zid z) (inc\<lparr>ai_cycles := ai_cycles inc + 1, ai_deadline_ms := d\<rparr>) opts # earlier @ paid @ tr)"
    if "may_retrigger z" "zincident z = Some inc" "list_all calm later" "list_all calm earlier" "list_all calm paid"
      "ai_id inc = 0 \<or> EIncident (OpCycle (ai_id inc)) True \<in> set paid" "fo_cycle opts = ai_cycles inc + 1"
    for t inc d later opts earlier paid
    by (rule stay [where inc = inc and d = d and opts = opts])
      (use that in \<open>simp_all add: running_def cycles_of_def accounted_cycleI\<close>)
  show ?thesis
    unfolding on_trigger_elapsed_def account_cycle_def
    by (intro evp_intros evp_finish_always_on evp_finish_triggered evp_retrigger_cycle)
      (auto simp: may_retrigger_def intro!: stay' intro: leave split: option.splits)
qed

text \<open>The trigger-time deadline firing \<open>n\<close> times.\<close>

primrec elapses :: "nat \<Rightarrow> unit prog" where
  "elapses 0 = skip"
| "elapses (Suc n) = do {
     z \<leftarrow> getz;
     whenS (zstate z = ZTriggered) on_trigger_elapsed;
     elapses n
   }"

lemma evp_elapses_done: "zstate z \<noteq> ZTriggered \<Longrightarrow> evp E (elapses n) (\<lambda>_ z' _. zstate z' \<noteq> ZTriggered) z tr"
  by (induction n arbitrary: tr) (auto intro!: evp_intros)

lemma evp_elapses:
  "mc_max_retrigger (mode_cfg z (zmode z)) - cycles_of z \<le> int n \<Longrightarrow>
   evp E (elapses (Suc n)) (\<lambda>_ z' _. zstate z' \<noteq> ZTriggered) z tr"
proof (induction n arbitrary: z tr)
  case 0
  then show ?case
    unfolding elapses.simps
    by (intro evp_intros evp_on_trigger_elapsed)
      (auto simp: left_triggered_def may_retrigger_def cycles_of_def split: option.splits)
next
  case (Suc n)
  show ?case
    unfolding elapses.simps(2) [of "Suc n"]
    by (intro evp_intros evp_on_trigger_elapsed evp_elapses_done Suc.IH)
      (use Suc.prems in \<open>auto simp: left_triggered_def mode_cfg_def\<close>)
qed

section \<open>Properties of the verbs\<close>

text \<open>
  C8. Disarming ends clean, whatever state the zone was in and whatever the ports answer: the zone is
  disarmed with no pending auto-rearm and no output cycle was started; a zone that was not disarmed
  has lost its mode, bypasses, baseline, pending cause, incident, countdown, pre-trigger tuple and
  pre-alarm flag, and a zone that was disarmed already is left as it was but for the auto-rearm.
\<close>

theorem disarm_ends_clean:
  "let s = after (disarm_resolved by src identity duress) z w; z' = cz s in
   zstate z' = ZDisarmed \<and> \<not> zauto_rearm_on z' \<and> calm_ext (w_trace w) (w_trace (cw s))
   \<and> (if zstate z = ZDisarmed then z' = (if zauto_rearm_on z then cancel_auto_rearm z else z)
      else zmode z' = ModeDisarmed \<and> zbypassed z' = [] \<and> zopen_at_arm z' = [] \<and> zpending_cause z' = ''''
        \<and> zincident z' = None \<and> \<not> ztimer_on z' \<and> ztimer_kind z' = no_timer
        \<and> zpre_trigger_state z' = no_state \<and> zpre_trigger_mode z' = no_mode \<and> \<not> zpre_alarm z')"
proof -
  have "evp (w_now w, w_deps w) (disarm_resolved by src identity duress)
    (\<lambda>_ z' tr'. zstate z' = ZDisarmed \<and> \<not> zauto_rearm_on z' \<and> calm_ext (w_trace w) tr'
     \<and> (if zstate z = ZDisarmed then z' = (if zauto_rearm_on z then cancel_auto_rearm z else z)
        else zmode z' = ModeDisarmed \<and> zbypassed z' = [] \<and> zopen_at_arm z' = [] \<and> zpending_cause z' = ''''
          \<and> zincident z' = None \<and> \<not> ztimer_on z' \<and> ztimer_kind z' = no_timer
          \<and> zpre_trigger_state z' = no_state \<and> zpre_trigger_mode z' = no_mode \<and> \<not> zpre_alarm z')) z (w_trace w)"
    by (intro evp_intros) (auto simp: zone_defs)
  then show ?thesis unfolding Let_def by (rule evp_after)
qed

text \<open>
  C2. A re-trigger cycle is accounted for before it sounds. When the trigger deadline of a zone
  fires, whatever the ports answer, either the zone leaves the triggered state without an output
  cycle being started, or exactly one cycle is started: for the zone's incident, which is not silenced and had cycles left, with its counter one higher than
  before and in the cycle number, and after the increment of the stored counter has succeeded in
  this very run of the handler (an incident that could not be stored is counted in memory).
\<close>

theorem retrigger_accounted_before_fire:
  "let s = after on_trigger_elapsed z w in
   left_triggered z (cz s) \<and> calm_ext (w_trace w) (w_trace (cw s))
   \<or> (\<exists>inc d opts. zincident z = Some inc \<and> ai_silenced inc = False
        \<and> ai_cycles inc < mc_max_retrigger (mode_cfg z (zmode z))
        \<and> zincident (cz s) = Some (inc\<lparr>ai_cycles := ai_cycles inc + 1, ai_deadline_ms := d\<rparr>)
        \<and> fo_cycle opts = ai_cycles inc + 1
        \<and> accounted_cycle (w_trace w) (w_trace (cw s)) (OpCycle (ai_id inc)) inc
            (EFire (zid z) (inc\<lparr>ai_cycles := ai_cycles inc + 1, ai_deadline_ms := d\<rparr>) opts))"
proof -
  have "evp (w_now w, w_deps w) on_trigger_elapsed
    (\<lambda>_ z' tr'. left_triggered z z' \<and> calm_ext (w_trace w) tr'
     \<or> (\<exists>inc d opts. zincident z = Some inc \<and> ai_silenced inc = False
          \<and> ai_cycles inc < mc_max_retrigger (mode_cfg z (zmode z))
          \<and> zincident z' = Some (inc\<lparr>ai_cycles := ai_cycles inc + 1, ai_deadline_ms := d\<rparr>)
          \<and> fo_cycle opts = ai_cycles inc + 1
          \<and> accounted_cycle (w_trace w) tr' (OpCycle (ai_id inc)) inc
              (EFire (zid z) (inc\<lparr>ai_cycles := ai_cycles inc + 1, ai_deadline_ms := d\<rparr>) opts))) z (w_trace w)"
    by (rule evp_on_trigger_elapsed) (simp, rule disjI2, auto simp: may_retrigger_def)
  then show ?thesis unfolding Let_def by (rule evp_after)
qed

text \<open>
  Silence never starts an output cycle and never changes the arm state, the mode, the bypass
  list or the countdown; it leaves the zone's incident marked silenced.
\<close>

theorem silence_only_silences:
  "let s = after (silence_resolved by src identity duress) z w; z' = cz s in
   zstate z' = zstate z \<and> zmode z' = zmode z \<and> zbypassed z' = zbypassed z \<and> ztimer_on z' = ztimer_on z
   \<and> ztimer_seq z' = ztimer_seq z \<and> calm_ext (w_trace w) (w_trace (cw s))
   \<and> (case zincident z of None \<Rightarrow> zincident z' = None
      | Some inc \<Rightarrow> \<exists>inc'. zincident z' = Some inc' \<and> ai_silenced inc' \<and> ai_id inc' = ai_id inc)"
proof -
  have "evp (w_now w, w_deps w) (silence_resolved by src identity duress)
    (\<lambda>_ z' tr'. zstate z' = zstate z \<and> zmode z' = zmode z \<and> zbypassed z' = zbypassed z \<and> ztimer_on z' = ztimer_on z
     \<and> ztimer_seq z' = ztimer_seq z \<and> calm_ext (w_trace w) tr'
     \<and> (case zincident z of None \<Rightarrow> zincident z' = None
        | Some inc \<Rightarrow> \<exists>inc'. zincident z' = Some inc' \<and> ai_silenced inc' \<and> ai_id inc' = ai_id inc)) z (w_trace w)"
    unfolding silence_resolved_def
    by (intro evp_intros) (auto simp: silenced_zone_def split: option.splits)
  then show ?thesis unfolding Let_def by (rule evp_after)
qed

text \<open>
  C7. Triggering is bounded: from any zone, after the trigger deadline has fired once more than the
  re-trigger cycles left in the active mode, the zone is no longer triggered, whatever the stores
  and outputs answer.
\<close>

theorem triggering_is_bounded:
  "zstate (cz (after (elapses (Suc (nat (mc_max_retrigger (mode_cfg z (zmode z)) - cycles_of z)))) z w))
     \<noteq> ZTriggered"
  by (rule evp_after [where R = "\<lambda>z' _. zstate z' \<noteq> ZTriggered"]) (rule evp_elapses, simp)

text \<open>
  When the window of a hazard or panic alarm ends, the zone returns to what the alarm
  interrupted: armed again in the recorded mode with the recorded bypasses, otherwise disarmed and
  clean; the incident is closed and nothing is sounded.
\<close>

theorem always_on_returns_to_interrupted_state:
  "let s = after (finish_always_on ev actor) z w; z' = cz s in
   zincident z' = None \<and> \<not> ztimer_on z' \<and> zpre_trigger_state z' = no_state
   \<and> calm_ext (w_trace w) (w_trace (cw s))
   \<and> (if mode_armed (zpre_trigger_mode z)
      then zstate z' = ZArmed \<and> zmode z' = zpre_trigger_mode z \<and> zbypassed z' = zbypassed z
      else zstate z' = ZDisarmed \<and> zmode z' = ModeDisarmed \<and> zbypassed z' = [])"
proof -
  have "evp (w_now w, w_deps w) (finish_always_on ev actor)
    (\<lambda>_ z' tr'. zincident z' = None \<and> \<not> ztimer_on z' \<and> zpre_trigger_state z' = no_state
     \<and> calm_ext (w_trace w) tr'
     \<and> (if mode_armed (zpre_trigger_mode z)
        then zstate z' = ZArmed \<and> zmode z' = zpre_trigger_mode z \<and> zbypassed z' = zbypassed z
        else zstate z' = ZDisarmed \<and> zmode z' = ModeDisarmed \<and> zbypassed z' = [])) z (w_trace w)"
    by (rule evp_finish_always_on) (auto simp: left_triggered_def)
  then show ?thesis unfolding Let_def by (rule evp_after)
qed

end
