(* ===== verification/Alarm_Guarantees.thy ===== *)
theory Alarm_Guarantees
  imports Alarm_Demo
begin

text \<open>
  The guarantees of the alarm engine over every interleaving of its critical sections with timer
  callbacks, crashes, restarts, port failures and changes of clock and configuration.
\<close>

section \<open>Silence\<close>

lemma winv_silence_positive:
  assumes "winv w" and "EIncident (OpSilence k a b) True \<in> set (w_trace w)"
  shows "0 < k"
proof -
  have "silenced_in k (w_trace w)" using assms(2) by (force simp: silenced_in_def list_ex_iff)
  then show ?thesis using assms(1) sqlite.get_id by (fastforce simp: winv_def)
qed

lemma reach_winv: "reach fresh estep e \<Longrightarrow> winv (e_world e)"
  using alarm.reach_inv [of e] by (simp add: einv_def eok_def)

text \<open>
  C1. No output cycle in the history of any reachable state was started with an incident marked
  silenced, and none was started for an incident after a silence of it had been written to the
  store, across crashes and restarts and whatever the ports answered.
\<close>

theorem no_fire_after_silence:
  assumes "reach fresh estep e"
    and "w_trace (e_world e) = newer @ EFire i inc opts # older"
  shows "\<not> ai_silenced inc \<and> EIncident (OpSilence (ai_id inc) a b) True \<notin> set older"
proof -
  have fire: "effect_ok (EFire i inc opts) older"
    using reach_trace_ok [OF assms(1)] assms(2) by (intro trace_ok_append [of newer]) simp
  have False if "EIncident (OpSilence (ai_id inc) a b) True \<in> set older"
  proof -
    from that have "0 < ai_id inc"
      using winv_silence_positive [OF reach_winv [OF assms(1)]] assms(2) by auto
    with that fire show False by (auto simp: silenced_in_def list_ex_iff)
  qed
  with fire show ?thesis by auto
qed

theorem no_fire_after_silence_witness:
  "\<exists>newer older inc opts. reach fresh estep demo_again
     \<and> w_trace (e_world demo_again) = newer @ EFire ''h'' inc opts # older
     \<and> EIncident (OpSilence 1 1000 ''u'') True \<in> set older \<and> ai_id inc \<noteq> 1 \<and> \<not> ai_silenced inc"
proof -
  obtain newer older inc opts where tr: "w_trace (e_world demo_again) =
      newer @ EIncident (OpSilence 1 1000 ''u'') True # older" "EFire ''h'' inc opts \<in> set newer"
    using demo_again_trace by blast
  then obtain n1 n2 where "newer = n1 @ EFire ''h'' inc opts # n2" by (meson split_list)
  with tr have split: "w_trace (e_world demo_again) =
      n1 @ EFire ''h'' inc opts # (n2 @ EIncident (OpSilence 1 1000 ''u'') True # older)" by simp
  have "EIncident (OpSilence (ai_id inc) 1000 ''u'') True \<notin> set (n2 @ EIncident (OpSilence 1 1000 ''u'') True # older)"
    "\<not> ai_silenced inc"
    using no_fire_after_silence [OF reach_demo_runs(2) split] by auto
  then have "ai_id inc \<noteq> 1" by auto
  with split reach_demo_runs(2) \<open>\<not> ai_silenced inc\<close> show ?thesis
    by (intro exI [of _ n1] exI [of _ "n2 @ EIncident (OpSilence 1 1000 ''u'') True # older"] exI) auto
qed

section \<open>Accounting\<close>

text \<open>
  The counters of a cycle that was started for a stored incident are covered by the store: its row
  holds at least the re-trigger cycles and restore re-fires the cycle was started with, and a
  numbered cycle carries the number stored with its incident.
\<close>

theorem cycles_accounted_before_fire:
  assumes "reach fresh estep e" and "EFire i inc opts \<in> set (w_trace (e_world e))" and "ai_id inc \<noteq> 0"
  shows "(fo_cycle opts = 0 \<or> fo_cycle opts = ai_cycles inc)
    \<and> (\<exists>row. incident_get (w_incidents (e_world e)) (ai_id inc) = Some row
         \<and> ai_cycles inc \<le> ai_cycles row \<and> ai_refires inc \<le> ai_refires row)"
proof -
  obtain n1 n2 where tr: "w_trace (e_world e) = n1 @ EFire i inc opts # n2"
    using assms(2) by (meson split_list)
  then have "effect_ok (EFire i inc opts) n2"
    using reach_trace_ok [OF assms(1)] by (intro trace_ok_append [of n1]) simp
  moreover have "accounted (w_incidents (e_world e)) (EFire i inc opts)"
    using reach_winv [OF assms(1)] assms(2) by (auto simp: winv_def)
  ultimately show ?thesis using assms(3) by (auto split: option.splits)
qed

theorem cycles_accounted_before_fire_witness:
  "\<exists>inc opts row. EFire ''h'' inc opts \<in> set (w_trace (e_world demo_alarm))
     \<and> incident_get (w_incidents (e_world demo_alarm)) 1 = Some row
     \<and> ai_cycles inc \<le> ai_cycles row \<and> ai_refires inc \<le> ai_refires row"
proof -
  obtain inc opts where "EFire ''h'' inc opts \<in> set (w_trace (e_world demo_alarm))" "ai_id inc = 1"
    using demo_alarm_fire by blast
  with cycles_accounted_before_fire [OF reach_demo_runs(1) this(1)] show ?thesis by auto
qed

section \<open>Zones\<close>

text \<open>
  C3. The invariant of a zone in every reachable state: a known state; an incident exactly while
  triggered; a pre-trigger state only while triggered; a disarmed zone has no mode and no bypass
  and, like an arming one, no open-sensor baseline and no pending cause; the silenced marker names
  the zone's own, silenced incident.
\<close>

theorem reachable_zone_invariant:
  assumes "reach fresh estep e" and "lookup (e_zones e) i = Some z"
  shows "zid z = i \<and> state_valid (zstate z)
    \<and> (zincident z = None \<longleftrightarrow> zstate z \<noteq> ZTriggered)
    \<and> (zpre_trigger_state z \<noteq> no_state \<longrightarrow> zstate z = ZTriggered)
    \<and> (zstate z = ZDisarmed \<longrightarrow> zmode z = ModeDisarmed \<and> zbypassed z = [])
    \<and> (zstate z = ZDisarmed \<or> zstate z = ZArming \<longrightarrow> zopen_at_arm z = [] \<and> zpending_cause z = '''')
    \<and> (zsilenced_incident z \<noteq> 0 \<longrightarrow>
         (\<exists>inc. zincident z = Some inc \<and> ai_silenced inc \<and> ai_id inc = zsilenced_incident z))"
  using reach_zone [OF assms] by (simp add: zinv_def)

theorem reachable_zone_invariant_witness:
  "\<exists>z. lookup (e_zones demo_alarm) ''h'' = Some z \<and> zstate z = ZTriggered \<and> zincident z \<noteq> None"
  using demo_alarm_zone reachable_zone_invariant [OF reach_demo_runs(1)] by blast

text \<open>
  C4. While the engine is started, a zone in a transient state has the countdown of that state
  running, and the callback that ends it is with the scheduler, due at the zone's deadline; a
  zone at rest has no countdown. No zone hangs in arming, pending or triggered.
\<close>

theorem transient_states_have_a_timer:
  assumes "reach fresh estep e" and "e_started e" and "lookup (e_zones e) i = Some z"
  shows "if zstate z \<in> {ZArming, ZPending, ZTriggered}
    then ztimer_on z \<and> (CbState i (ztimer_seq z), ztimer_deadline z) \<in> set (w_sched (e_world e))
      \<and> (zstate z = ZArming \<longrightarrow> ztimer_kind z = TKExit) \<and> (zstate z = ZPending \<longrightarrow> ztimer_kind z = TKEntry)
      \<and> (zstate z = ZTriggered \<longrightarrow> ztimer_kind z = TKTrigger \<or> ztimer_kind z = TKPreAlarm \<and> zpre_alarm z)
    else \<not> ztimer_on z"
  using reach_zone [OF assms(1,3)] assms(2)
  by (auto simp: timer_ok_def linked_def scheduled_def split: if_splits)

theorem transient_states_have_a_timer_witness:
  "\<exists>z. lookup (e_zones demo_alarm) ''h'' = Some z \<and> ztimer_on z
     \<and> (CbState ''h'' (ztimer_seq z), ztimer_deadline z) \<in> set (w_sched (e_world demo_alarm))"
  using demo_alarm_zone transient_states_have_a_timer [OF reach_demo_runs(1), of "''h''"] by fastforce

end
