(* ===== verification/Alarm_Recovery.thy ===== *)
theory Alarm_Recovery
  imports Alarm_Behaviour Alarm_Guarantees
begin

text \<open>
  Restarting: a silence survives through either of its two records, an untrusted clock never starts
  an output, restore-driven re-fires are accounted and bounded, and persisted rows give back what
  was persisted.
\<close>

section \<open>A silence survives the restart\<close>

text \<open>Rebuilding a zone starts no output cycle.\<close>

lemma evp_load_referenced_incident:
  assumes "\<And>z' tr'. calm_ext tr tr' \<Longrightarrow> Q () z' tr'"
  shows "evp E (load_referenced_incident k) Q z tr"
  unfolding load_referenced_incident_def by (intro evp_intros) (use assms in auto)

lemma evp_settle_orphan_incident:
  assumes "\<And>z' tr'. calm_ext tr tr' \<Longrightarrow> Q () z' tr'"
  shows "evp E (settle_orphan_incident st) Q z tr"
  unfolding settle_orphan_incident_def by (intro evp_intros) (use assms in auto)

lemma evp_heal_silence:
  assumes "\<And>z' tr'. calm_ext tr tr' \<Longrightarrow> Q () z' tr'"
  shows "evp E heal_silence Q z tr"
  unfolding heal_silence_def by (intro evp_intros) (use assms in auto)

lemma evp_restore_sources:
  assumes "\<And>z'. Q () z' tr"
  shows "evp E restore_sources Q z tr"
  unfolding restore_sources_def by (intro evp_intros assms)

lemma evp_restore_prelude:
  assumes "\<And>z' tr'. calm_ext tr tr' \<Longrightarrow> Q () z' tr'"
  shows "evp E (restore_prelude row plausible now) Q z tr"
  unfolding restore_prelude_def
  by (intro evp_intros evp_load_referenced_incident evp_settle_orphan_incident evp_heal_silence
      evp_restore_sources assms) auto

text \<open>From some point on, incident \<open>k\<close> is to stay quiet.\<close>

lemma cinv_mute:
  assumes c: "cinv F z w" and F: "f_muted F = {}" "f_others F = {}"
    and inc: "\<And>inc. zincident z = Some inc \<Longrightarrow> ai_id inc = k \<Longrightarrow> ai_silenced inc"
    and k: "incident_get (w_incidents w) k = Some row"
  shows "cinv (F\<lparr>f_muted := {k}, f_base := w_trace w\<rparr>) z w"
proof -
  have ok: "incident_table_ok (w_incidents w)" using c by (simp add: cinv_def winv_def)
  have "0 < k \<and> k < it_next (w_incidents w)"
    using sqlite.get_id [OF ok k] incident_get_id [OF k] ok by (auto simp: incident_table_ok_def)
  moreover have "linked {k} w z" using c F inc by (auto simp: cinv_def linked_def backed_def)
  ultimately show ?thesis using c F by (auto simp: cinv_def)
qed

lemma wp_dispatch_quiet:
  assumes c: "cinv F z w" and F: "f_muted F = {}" "f_others F = {}" "f_refs F = {k}"
    and z: "rebuilt row z" and k: "zx_silenced_incident (decode_context (st_context row)) = k"
  shows "wp (restore_dispatch row plausible now)
    (\<lambda>_ s. \<exists>fx. w_trace (cw s) = fx @ w_trace w \<and> list_all (quiet {k}) fx) \<lparr>cz = z, cw = w\<rparr>"
proof -
  obtain inc where inc: "incident_get (w_incidents w) k = Some inc" using c F by (auto simp: cinv_def)
  let ?F = "F\<lparr>f_muted := {k}, f_base := w_trace w\<rparr>"
  have "cinv ?F z w" using cinv_mute [OF c F(1,2) _ inc] z k by (simp add: rebuilt_def spared_def)
  moreover have "zwp ?F (restore_dispatch row plausible now) (\<lambda>_ _. True) z"
    by (rule zwp_restore_dispatch) (use z in \<open>simp_all add: rebuilt_def\<close>)
  ultimately have "wp (restore_dispatch row plausible now) (\<lambda>_ s. cinv ?F (cz s) (cw s) \<and> True) \<lparr>cz = z, cw = w\<rparr>"
    by (intro zwpD)
  then show ?thesis by (rule wp_mono) (auto simp: cinv_def list_all_iff)
qed

lemma wp_prelude_silence:
  assumes c: "cinv F z w" and F: "f_muted F = {}" "f_refs F = {k}" and row: "row_ok row"
    and z: "zincident z = None" "ztimer_kind z = no_timer" "\<not> ztimer_on z"
    and k: "st_incident row = k" "zx_silenced_incident (decode_context (st_context row)) = k"
  shows "wp (restore_prelude row plausible now)
    (\<lambda>_ s. (cinv F (cz s) (cw s) \<and> rebuilt row (cz s))
       \<and> calm_ext (w_trace w) (w_trace (cw s))) \<lparr>cz = z, cw = w\<rparr>"
proof (rule wp_conj)
  have "zwp F (restore_prelude row plausible now) (\<lambda>_. rebuilt row) z"
    by (rule zwp_restore_prelude [OF row _ F(1) z]) (use k F in auto)
  then show "wp (restore_prelude row plausible now)
      (\<lambda>_ s. cinv F (cz s) (cw s) \<and> rebuilt row (cz s)) \<lparr>cz = z, cw = w\<rparr>"
    using c by (rule zwpD)
  have "evp (w_now w, w_deps w) (restore_prelude row plausible now) (\<lambda>_ _. calm_ext (w_trace w)) z (w_trace w)"
    by (rule evp_restore_prelude)
  then show "wp (restore_prelude row plausible now)
      (\<lambda>_ s. calm_ext (w_trace w) (w_trace (cw s))) \<lparr>cz = z, cw = w\<rparr>"
    by (auto simp: evp_def elim: wp_mono)
qed

lemma calm_quiet: "list_all calm fx \<Longrightarrow> list_all (quiet M) fx"
proof -
  have "calm x \<Longrightarrow> quiet M x" for x by (cases x) simp_all
  then show "list_all calm fx \<Longrightarrow> list_all (quiet M) fx" by (auto simp: list_all_iff)
qed

lemma restore_keeps_silence:
  assumes w: "winv w" and row: "state_get (w_states w) i = Some row"
    and k: "st_incident row = k" "k \<noteq> 0" "zx_silenced_incident (decode_context (st_context row)) = k"
  shows "\<exists>fx. w_trace (cw (after (restore_zone row) (new_zone i n cfg) w)) = fx @ w_trace w
    \<and> list_all (quiet {k}) fx"
proof -
  let ?z = "new_zone i n cfg"
  let ?F = "\<lparr>f_id = i, f_others = {}, f_muted = {}, f_refs = {k}, f_base = w_trace w\<rparr> :: frame"
  let ?pl = "clock_plausible (unix_ms (w_now w)) (st_updated_ms row)"
  have ok: "row_ok row" "\<exists>inc. incident_get (w_incidents w) k = Some inc \<and> ai_zone inc = i"
    using w row k by (auto simp: winv_def rows_ok_def)
  have c: "cinv ?F ?z w"
    using w ok(2) by (auto simp: cinv_def linked_def scheduled_def new_zone_def)
  have "wp (restore_prelude row ?pl (w_now w)) (\<lambda>_. wp (restore_dispatch row ?pl (w_now w))
      (\<lambda>_ s. \<exists>fx. w_trace (cw s) = fx @ w_trace w \<and> list_all (quiet {k}) fx)) \<lparr>cz = ?z, cw = w\<rparr>"
  proof (rule wp_mono [OF wp_prelude_silence [OF c _ _ ok(1)]])
    fix a and s :: ctx
    assume s: "(cinv ?F (cz s) (cw s) \<and> rebuilt row (cz s))
       \<and> calm_ext (w_trace w) (w_trace (cw s))"
    then obtain fx where "w_trace (cw s) = fx @ w_trace w" "list_all (quiet {k}) fx"
      by (auto dest: calm_quiet)
    moreover from s have "wp (restore_dispatch row ?pl (w_now w)) (\<lambda>_ t. \<exists>fx. w_trace (cw t) = fx @ w_trace (cw s)
        \<and> list_all (quiet {k}) fx) \<lparr>cz = cz s, cw = cw s\<rparr>"
      by (intro wp_dispatch_quiet [of ?F]) (use k in auto)
    ultimately show "wp (restore_dispatch row ?pl (w_now w))
        (\<lambda>_ s. \<exists>fx. w_trace (cw s) = fx @ w_trace w \<and> list_all (quiet {k}) fx) s"
      by (cases s) (force elim!: wp_mono)
  qed (use k in \<open>simp_all add: new_zone_def\<close>)
  then have "wp (restore_zone row) (\<lambda>_ s. \<exists>fx. w_trace (cw s) = fx @ w_trace w \<and> list_all (quiet {k}) fx)
      \<lparr>cz = ?z, cw = w\<rparr>"
    unfolding restore_zone_split Let_def wp_bind getw_def wp_gets by simp
  then show ?thesis by (simp add: wp_def after_def split: prod.splits)
qed

text \<open>
  C5. A silence survives the restart even when its write to the incident table failed: if the
  persisted row of a zone carries the silenced marker of its incident, restoring the zone starts no
  output cycle for that incident, whatever the stores and the clock answer.
\<close>

theorem silence_marker_survives_restart:
  assumes "reach fresh estep e" and "state_get (w_states (e_world e)) i = Some row"
    and "st_incident row \<noteq> 0" and "zx_silenced_incident (decode_context (st_context row)) = st_incident row"
  shows "\<exists>fx. w_trace (cw (after (restore_zone row) (new_zone i n cfg) (e_world e))) = fx @ w_trace (e_world e)
    \<and> (\<forall>j inc opts. EFire j inc opts \<in> set fx \<longrightarrow> ai_id inc \<noteq> st_incident row)"
  using restore_keeps_silence [OF reach_winv [OF assms(1)] assms(2) refl assms(3,4)]
  by (fastforce simp: list_all_iff)

definition demo_silenced :: engine where
  "demo_silenced = acts [ActStart, demo_panic, ActSilence ''h'' ''u'' ''r'' '''' False] demo_engine"

lemma demo_silenced_row:
  "\<exists>row. state_get (w_states (e_world demo_silenced)) ''h'' = Some row \<and> st_incident row = 1
     \<and> zx_silenced_incident (decode_context (st_context row)) = 1"
  by (simp add: demo_silenced_def demo_panic_def demo_run_simps)

theorem silence_marker_survives_restart_witness:
  "\<exists>row fx. state_get (w_states (e_world demo_silenced)) ''h'' = Some row
     \<and> w_trace (cw (after (restore_zone row) (new_zone ''h'' ''h'' demo_config) (e_world demo_silenced))) =
         fx @ w_trace (e_world demo_silenced)
     \<and> (\<forall>j inc opts. EFire j inc opts \<in> set fx \<longrightarrow> ai_id inc \<noteq> 1)"
proof -
  obtain row where row: "state_get (w_states (e_world demo_silenced)) ''h'' = Some row" "st_incident row = 1"
    "zx_silenced_incident (decode_context (st_context row)) = 1"
    using demo_silenced_row by blast
  have "reach fresh estep demo_silenced" by (simp only: demo_silenced_def reach_demo)
  from silence_marker_survives_restart [OF this row(1)] row show ?thesis by auto
qed

section \<open>The restore table\<close>

text \<open>
  C14. Under an implausible clock a triggered zone stays triggered with a running countdown and never
  re-fires off untrusted wall time: restoring it starts no output cycle.
\<close>

theorem implausible_clock_never_fires:
  "let s = after (restore_triggered timers False now) (z\<lparr>zincident := Some inc\<rparr>) w; z' = cz s in
   zstate z' = ZTriggered \<and> ztimer_on z' \<and> ztimer_kind z' = TKTrigger \<and> zincident z' = Some inc
   \<and> \<not> zpre_alarm z' \<and> 0 < ztimer_remaining z' \<and> calm_ext (w_trace w) (w_trace (cw s))"
proof -
  have pos: "0 < implausible_remaining z1 timers" for z1
    by (auto simp: implausible_remaining_def trigger_duration_def default_trigger_s_def max_trigger_s_def
        go_millisecond_def Let_def split: option.split)
  have "evp (w_now w, w_deps w) (restore_triggered timers False now)
    (\<lambda>_ z' tr'. zstate z' = ZTriggered \<and> ztimer_on z' \<and> ztimer_kind z' = TKTrigger \<and> zincident z' = Some inc
     \<and> \<not> zpre_alarm z' \<and> 0 < ztimer_remaining z' \<and> calm_ext (w_trace w) tr') (z\<lparr>zincident := Some inc\<rparr>) (w_trace w)"
    unfolding restore_triggered_def stop_silenced_incident_on_restore_def
    by (intro evp_intros) (auto simp: running_def pos)
  then show ?thesis unfolding Let_def by (rule evp_after)
qed

text \<open>
  C6. The restart loop breaker: the re-fire of a triggered incident during a restore
  (\<open>refireOnRestore\<close>) starts no output cycle if the write of its accounting fails, and otherwise
  exactly one, of that incident with its re-fire counter one higher; the increment of the stored counter succeeded
  before (an incident that could not be stored is counted in memory), the cycle is marked as
  restored, and it is degraded exactly when the incident had already been re-fired as often as the
  loop breaker allows.
\<close>

theorem restart_loop_breaker:
  "let tr' = w_trace (cw (after (refire_on_restore inc policy) z w)) in
   (\<exists>fx. tr' = fx @ w_trace w \<and> list_all calm fx \<and> EIncident (OpRefire (ai_id inc)) False \<in> set fx)
   \<or> (\<exists>opts. accounted_cycle (w_trace w) tr' (OpRefire (ai_id inc)) inc
            (EFire (zid z) (inc\<lparr>ai_refires := ai_refires inc + 1\<rparr>) opts)
        \<and> fo_restored opts \<and> fo_policy opts = policy \<and> fo_cycle opts = ai_cycles inc
        \<and> fo_degraded opts = (dp_loop_breaker_k (w_deps w) \<le> ai_refires inc))"
proof -
  let ?fire = "EFire (zid z) (inc\<lparr>ai_refires := ai_refires inc + 1\<rparr>)"
  let ?marked = "\<lambda>opts. fo_restored opts \<and> fo_policy opts = policy \<and> fo_cycle opts = ai_cycles inc
      \<and> fo_degraded opts = (dp_loop_breaker_k (w_deps w) \<le> ai_refires inc)"
  have fired: "\<exists>opts. accounted_cycle tr (x # later @ ?fire o1 # earlier @ paid @ tr) op inc (?fire opts) \<and> ?marked opts"
    if "calm x" "list_all calm later" "list_all calm earlier" "list_all calm paid" "?marked o1"
      "ai_id inc = 0 \<or> EIncident op True \<in> set paid"
    for tr x later o1 earlier paid op
    using accounted_cycleI [of "x # later" earlier paid inc op tr "?fire o1"] that by auto
  have "evp (w_now w, w_deps w) (refire_on_restore inc policy) (\<lambda>_ _ tr'.
   (\<exists>fx. tr' = fx @ w_trace w \<and> list_all calm fx \<and> EIncident (OpRefire (ai_id inc)) False \<in> set fx)
   \<or> (\<exists>opts. accounted_cycle (w_trace w) tr' (OpRefire (ai_id inc)) inc
            (EFire (zid z) (inc\<lparr>ai_refires := ai_refires inc + 1\<rparr>) opts)
        \<and> fo_restored opts \<and> fo_policy opts = policy \<and> fo_cycle opts = ai_cycles inc
        \<and> fo_degraded opts = (dp_loop_breaker_k (w_deps w) \<le> ai_refires inc))) z (w_trace w)"
    unfolding refire_on_restore_def account_refire_def
    by (intro evp_intros) (simp_all, use fired [of _ _ "[_]"] fired [of _ _ "[]"] in simp_all)
  then show ?thesis unfolding Let_def by (rule evp_after)
qed

text \<open>
  What a zone persists is what it gets back: the fields that \<open>restoreZone\<close> copies from the row
  \<open>persist\<close> wrote are those of the zone, the bypass list and the baseline as sets.
\<close>

theorem persisted_fields_round_trip:
  "let z' = restore_fields (state_row_of z now boot) (new_zone i n cfg) in
   zmode z' = zmode z \<and> set (zbypassed z') = set (zbypassed z) \<and> distinct (zbypassed z')
   \<and> set (zopen_at_arm z') = set (zopen_at_arm z) \<and> zpending_cause z' = zpending_cause z
   \<and> zsilenced_incident z' = zsilenced_incident z \<and> zpre_trigger_state z' = zpre_trigger_state z
   \<and> zpre_trigger_mode z' = zpre_trigger_mode z \<and> zpre_alarm z' = zpre_alarm z
   \<and> zauto_rearm_mode z' = zauto_rearm_mode z \<and> st_state (state_row_of z now boot) = zstate z
   \<and> st_incident (state_row_of z now boot) = incident_id_of z"
  by (simp add: restore_fields_def state_row_of_def encode_bypass_def encode_context_def Let_def)

text \<open>
  A countdown that runs when the zone is persisted is found again under its kind, with the
  deadline to the millisecond, and under a plausible clock it resumes with what is left of it:
  less than a millisecond short of the remaining time.
\<close>

theorem persisted_countdown_round_trip:
  assumes "ztimer_on z"
  shows "\<exists>t. find_timer (decode_timers (st_timers (state_row_of z now boot))) (ztimer_kind z) = Some t
    \<and> pt_deadline_ms t = unix_ms (ztimer_deadline z)
    \<and> deadline_in t later \<le> ztimer_deadline z - later
    \<and> ztimer_deadline z - later < deadline_in t later + go_millisecond
    \<and> (now \<le> ztimer_deadline z \<longrightarrow> pt_remaining_ms t = (ztimer_deadline z - now) div go_millisecond)"
proof -
  let ?d = "ztimer_deadline z"
  have "from_unix_ms (unix_ms ?d) \<le> ?d" "?d < from_unix_ms (unix_ms ?d) + go_millisecond"
    by (simp_all add: go_millisecond_def from_unix_ms_def unix_ms_def)
  then show ?thesis
    using assms by (simp add: state_row_of_def encode_timers_def timer_tuples_def find_timer_def deadline_in_def)
qed

theorem persisted_countdown_round_trip_witness:
  "\<exists>t. find_timer (decode_timers (st_timers (state_row_of
        ((new_zone ''h'' ''h'' demo_config)\<lparr>ztimer_on := True, ztimer_kind := TKEntry, ztimer_deadline := 5000000\<rparr>)
        1000000 1))) TKEntry = Some t \<and> pt_deadline_ms t = 5 \<and> pt_remaining_ms t = 4"
  using persisted_countdown_round_trip [of "(new_zone ''h'' ''h'' demo_config)\<lparr>ztimer_on := True,
      ztimer_kind := TKEntry, ztimer_deadline := 5000000\<rparr>" 1000000 1 0]
  by (auto simp: unix_ms_def go_millisecond_def)

end
