(* ===== verification/Alarm_Pins.thy ===== *)
theory Alarm_Pins
  imports Prelude "HOL-Library.Word"
begin

text \<open>
  PIN hashes of \<open>internal/alarm/codes/pin.go\<close>: the PHC string that \<open>HashPIN\<close> writes, its parser
  and \<open>VerifyPIN\<close>, with the parts of the standard library they use (\<open>strings.Split\<close>,
  \<open>strconv.ParseUint\<close>, \<open>base64.RawStdEncoding\<close>). The key derivation \<open>argon2.IDKey\<close> is a parameter.
\<close>

type_synonym byte = "8 word"

section \<open>Base 64 without padding\<close>

definition b64_alphabet :: string where
  "b64_alphabet = ''ABCDEFGHIJKLMNOPQRSTUVWXYZabcdefghijklmnopqrstuvwxyz0123456789+/''"

definition b64_char :: "nat \<Rightarrow> char" where
  "b64_char n = b64_alphabet ! n"

definition b64_index :: "char \<Rightarrow> nat option" where
  "b64_index c = map_of (zip b64_alphabet [0..<64]) c"

fun sextets_of :: "byte list \<Rightarrow> nat list" where
  "sextets_of [] = []"
| "sextets_of [a] = [unat a div 4, unat a mod 4 * 16]"
| "sextets_of [a, b] = [unat a div 4, unat a mod 4 * 16 + unat b div 16, unat b mod 16 * 4]"
| "sextets_of (a # b # c # rest) =
     [unat a div 4, unat a mod 4 * 16 + unat b div 16, unat b mod 16 * 4 + unat c div 64, unat c mod 64] @ sextets_of rest"

definition b64_encode :: "byte list \<Rightarrow> string" where
  "b64_encode bs = map b64_char (sextets_of bs)"

text \<open>
  The decoder skips line breaks, rejects every other byte outside the alphabet, rejects a dangling
  single character, and (not being strict) ignores the trailing bits of a short last group.
\<close>

fun b64_groups :: "nat list \<Rightarrow> byte list option" where
  "b64_groups [] = Some []"
| "b64_groups [p] = None"
| "b64_groups [p, q] = Some [of_nat (p * 4 + q div 16)]"
| "b64_groups [p, q, r] = Some [of_nat (p * 4 + q div 16), of_nat (q mod 16 * 16 + r div 4)]"
| "b64_groups (p # q # r # s # rest) =
     map_option (\<lambda>bs. of_nat (p * 4 + q div 16) # of_nat (q mod 16 * 16 + r div 4) # of_nat (r mod 4 * 64 + s) # bs)
       (b64_groups rest)"

definition b64_decode :: "string \<Rightarrow> byte list option" where
  "b64_decode s =
     (let digits = map b64_index (filter (\<lambda>c. c \<noteq> CHR 0x0A \<and> c \<noteq> CHR 0x0D) s) in
      if None \<in> set digits then None else b64_groups (map the digits))"

lemma b64_index_char [simp]: "n < 64 \<Longrightarrow> b64_index (b64_char n) = Some n"
proof -
  have "distinct b64_alphabet" "length b64_alphabet = 64" by (simp_all add: b64_alphabet_def)
  then show "n < 64 \<Longrightarrow> b64_index (b64_char n) = Some n"
    by (simp add: b64_index_def b64_char_def map_of_zip_nth)
qed

lemma b64_char_in: "n < 64 \<Longrightarrow> b64_char n \<in> set b64_alphabet"
proof -
  have "length b64_alphabet = 64" by (simp add: b64_alphabet_def)
  then show "n < 64 \<Longrightarrow> b64_char n \<in> set b64_alphabet" by (simp add: b64_char_def)
qed

lemma byte_bound [simp]: "unat (a :: byte) < 256"
  using unsigned_less [of a] by simp

lemma sextets [simp]:
  "unat (a :: byte) div 4 < 64" "unat a mod 4 * 16 + unat (b :: byte) div 16 < 64"
  "unat a mod 16 * 4 + unat b div 64 < 64" "unat a mod 4 * 16 < 64" "unat a mod 16 * 4 < 64"
  using byte_bound [of a] byte_bound [of b] by linarith+

lemma digits_of_chars: "\<forall>n \<in> set ns. n < 64 \<Longrightarrow> b64_decode (map b64_char ns) = b64_groups ns"
proof -
  assume ns: "\<forall>n \<in> set ns. n < 64"
  have "CHR 0x0A \<notin> set b64_alphabet" "CHR 0x0D \<notin> set b64_alphabet" by (simp_all add: b64_alphabet_def)
  then have "n < 64 \<Longrightarrow> b64_char n \<noteq> CHR 0x0A \<and> b64_char n \<noteq> CHR 0x0D" for n
    using b64_char_in [of n] by auto
  then have "filter (\<lambda>c. c \<noteq> CHR 0x0A \<and> c \<noteq> CHR 0x0D) (map b64_char ns) = map b64_char ns"
    using ns by (induction ns) auto
  moreover have "map b64_index (map b64_char ns) = map Some ns"
    using ns by (induction ns) auto
  ultimately show ?thesis by (auto simp: b64_decode_def Let_def simp del: map_map) (simp add: comp_def)
qed

lemma sextets_bound: "\<forall>n \<in> set (sextets_of bs). n < 64"
  by (induction bs rule: sextets_of.induct) auto

lemma set_b64_encode: "set (b64_encode bs) \<subseteq> set b64_alphabet"
  using sextets_bound [of bs] by (auto simp: b64_encode_def intro: b64_char_in)

lemma pack [simp]: "l < k \<Longrightarrow> (h * k + l) div k = h" "l < k \<Longrightarrow> (h * k + l) mod k = (l :: nat)"
  by simp_all

lemma high_parts [simp]: "unat (b :: byte) div 16 < 16" "unat b div 64 < 4"
  using byte_bound [of b] by linarith+

lemma groups_sextets: "b64_groups (sextets_of bs) = Some bs"
  by (induction bs rule: sextets_of.induct) (simp_all del: of_nat_add of_nat_mult)

lemma b64_round_trip [simp]: "b64_decode (b64_encode bs) = Some bs"
  by (simp add: b64_encode_def digits_of_chars sextets_bound groups_sextets)

section \<open>The PHC encoding\<close>

text \<open>\<open>strings.Split\<close> with a separator of one byte, \<open>strings.TrimPrefix\<close> and \<open>strings.HasPrefix\<close>.\<close>

fun split_on :: "char \<Rightarrow> string \<Rightarrow> string list" where
  "split_on c [] = [[]]"
| "split_on c (x # xs) =
     (if x = c then [] # split_on c xs
      else case split_on c xs of [] \<Rightarrow> [[x]] | p # ps \<Rightarrow> (x # p) # ps)"

definition has_prefix :: "string \<Rightarrow> string \<Rightarrow> bool" where
  "has_prefix s p \<longleftrightarrow> take (length p) s = p"

definition digit :: "char \<Rightarrow> nat option" where
  "digit c = map_of (zip ''0123456789'' [0..<10]) c"

text \<open>\<open>strconv.ParseUint\<close> in base 10 with 32 bits: syntax and range errors are both \<open>None\<close>.\<close>

definition parse_uint32 :: "string \<Rightarrow> 32 word option" where
  "parse_uint32 s =
     (let ds = map digit s in
      if s = [] \<or> None \<in> set ds then None
      else let n = foldl (\<lambda>n d. 10 * n + the d) 0 ds in if n < 2 ^ 32 then Some (of_nat n) else None)"

definition parse_param :: "string \<Rightarrow> string \<Rightarrow> 32 word option" where
  "parse_param field prefix =
     (if \<not> has_prefix field prefix then None else parse_uint32 (drop (length prefix) field))"

fun fmt_d :: "nat \<Rightarrow> string" where
  "fmt_d n = (if n < 10 then [''0123456789'' ! n] else fmt_d (n div 10) @ [''0123456789'' ! (n mod 10)])"

declare fmt_d.simps [simp del]

record decoded_pin_hash =
  ph_salt :: "byte list"
  ph_key :: "byte list"
  ph_time :: "32 word"
  ph_memory :: "32 word"
  ph_threads :: "8 word"

definition decode_pin_hash :: "string \<Rightarrow> decoded_pin_hash option" where
  "decode_pin_hash encoded =
     (case split_on (CHR ''$'') encoded of
        [_, alg, v, params, salt64, key64] \<Rightarrow>
          if alg \<noteq> ''argon2id'' then None
          else if \<not> has_prefix v ''v='' then None
          else (case split_on (CHR '','') params of
            [m', t', p'] \<Rightarrow>
              (case (parse_param m' ''m='', parse_param t' ''t='', parse_param p' ''p='') of
                 (Some m, Some t, Some p) \<Rightarrow>
                   if p = 0 \<or> p > 255 then None
                   else (case (b64_decode salt64, b64_decode key64) of
                     (Some salt, Some key) \<Rightarrow>
                       Some \<lparr>ph_salt = salt, ph_key = key, ph_time = t, ph_memory = m, ph_threads = ucast p\<rparr>
                   | _ \<Rightarrow> None)
               | _ \<Rightarrow> None)
          | _ \<Rightarrow> None)
      | _ \<Rightarrow> None)"

text \<open>The key derivation: password, salt, time, memory, threads, length of the key.\<close>

type_synonym id_key = "string \<Rightarrow> byte list \<Rightarrow> 32 word \<Rightarrow> 32 word \<Rightarrow> 8 word \<Rightarrow> 32 word \<Rightarrow> byte list"

definition argon2_time :: "32 word" where
  "argon2_time = 1"

definition argon2_memory :: "32 word" where
  "argon2_memory = 65536"

definition argon2_threads :: "8 word" where
  "argon2_threads = 4"

definition argon2_key_len :: "32 word" where
  "argon2_key_len = 32"

definition argon2_version :: nat where
  "argon2_version = 19"

text \<open>The salt is what \<open>rand.Read\<close> answers: \<open>None\<close> is its error.\<close>

definition hash_pin :: "id_key \<Rightarrow> byte list option \<Rightarrow> string \<Rightarrow> string option" where
  "hash_pin idkey random pin =
     (case random of None \<Rightarrow> None
      | Some salt \<Rightarrow>
        (let key = idkey pin salt argon2_time argon2_memory argon2_threads argon2_key_len in
         Some (''$argon2id$v='' @ fmt_d argon2_version @ ''$m='' @ fmt_d (unat argon2_memory)
           @ '',t='' @ fmt_d (unat argon2_time) @ '',p='' @ fmt_d (unat argon2_threads)
           @ ''$'' @ b64_encode salt @ ''$'' @ b64_encode key)))"

definition verify_pin :: "id_key \<Rightarrow> string \<Rightarrow> string \<Rightarrow> bool" where
  "verify_pin idkey encoded pin =
     (if encoded = '''' then False
      else case decode_pin_hash encoded of None \<Rightarrow> False
      | Some h \<Rightarrow>
        idkey pin (ph_salt h) (ph_time h) (ph_memory h) (ph_threads h) (of_nat (length (ph_key h))) = ph_key h)"

lemma split_on_ne [simp]: "split_on c xs \<noteq> []"
  by (induction xs) (auto split: list.split)

lemma split_on_plain: "c \<notin> set xs \<Longrightarrow> split_on c xs = [xs]"
  by (induction xs) auto

lemma split_on_sep: "c \<notin> set xs \<Longrightarrow> split_on c (xs @ c # ys) = xs # split_on c ys"
  by (induction xs) auto

lemma hash_pin_eq:
  "hash_pin idkey (Some salt) pin = Some (''$argon2id$v=19$m=65536,t=1,p=4$'' @ b64_encode salt @ ''$''
     @ b64_encode (idkey pin salt 1 65536 4 32))"
  by (simp add: hash_pin_def argon2_time_def argon2_memory_def argon2_threads_def argon2_key_len_def
      argon2_version_def fmt_d.simps)

lemma decode_hash_pin:
  "decode_pin_hash (''$argon2id$v=19$m=65536,t=1,p=4$'' @ b64_encode salt @ ''$'' @ b64_encode key) =
     Some \<lparr>ph_salt = salt, ph_key = key, ph_time = 1, ph_memory = 65536, ph_threads = 4\<rparr>"
proof -
  have "CHR ''$'' \<notin> set b64_alphabet" by (simp add: b64_alphabet_def)
  then have sep: "CHR ''$'' \<notin> set (b64_encode bs)" for bs using set_b64_encode [of bs] by blast
  have "split_on (CHR ''$'') (''$argon2id$v=19$m=65536,t=1,p=4$'' @ b64_encode salt @ ''$'' @ b64_encode key) =
      ['''', ''argon2id'', ''v=19'', ''m=65536,t=1,p=4'', b64_encode salt, b64_encode key]"
    by (simp add: split_on_sep split_on_plain sep)
  moreover have "split_on (CHR '','') ''m=65536,t=1,p=4'' = [''m=65536'', ''t=1'', ''p=4'']" by simp
  moreover have "parse_param ''m=65536'' ''m='' = Some 65536" "parse_param ''t=1'' ''t='' = Some 1"
    "parse_param ''p=4'' ''p='' = Some 4"
    by (simp_all add: parse_param_def has_prefix_def parse_uint32_def digit_def upt_rec Let_def)
  ultimately show ?thesis by (simp add: decode_pin_hash_def has_prefix_def)
qed

text \<open>
  C18. A stored hash accepts the PIN it was made from, and accepts another PIN exactly when the key
  derivation maps both to the same key under the stored salt: the PHC string carries everything
  that verification needs.
\<close>

theorem pin_hash_round_trip:
  assumes "\<And>p s t m n. length (idkey p s t m n 32) = 32" and "hash_pin idkey (Some salt) pin = Some encoded"
  shows "verify_pin idkey encoded pin
    \<and> (verify_pin idkey encoded pin' \<longleftrightarrow> idkey pin' salt 1 65536 4 32 = idkey pin salt 1 65536 4 32)"
proof -
  have enc: "encoded = ''$argon2id$v=19$m=65536,t=1,p=4$'' @ b64_encode salt @ ''$''
      @ b64_encode (idkey pin salt 1 65536 4 32)"
    using assms(2) by (simp add: hash_pin_eq)
  have "verify_pin idkey encoded p \<longleftrightarrow> idkey p salt 1 65536 4 32 = idkey pin salt 1 65536 4 32" for p
    unfolding verify_pin_def enc decode_hash_pin by (simp add: assms(1))
  then show ?thesis by simp
qed

definition demo_idkey :: id_key where
  "demo_idkey pin salt t m p n = map (\<lambda>c. of_nat (of_char c)) (take (unat n) (pin @ replicate (unat n) CHR 0x00))"

theorem pin_hash_round_trip_witness:
  "\<exists>encoded. hash_pin demo_idkey (Some [1, 2, 3]) ''4711'' = Some encoded
     \<and> verify_pin demo_idkey encoded ''4711'' \<and> \<not> verify_pin demo_idkey encoded ''4712''"
proof -
  obtain e where e: "hash_pin demo_idkey (Some [1, 2, 3]) ''4711'' = Some e" by (simp add: hash_pin_def)
  moreover have "length (demo_idkey p s t m n 32) = 32" for p s t m n by (simp add: demo_idkey_def)
  moreover have "demo_idkey ''4712'' [1, 2, 3] 1 65536 4 32 \<noteq> demo_idkey ''4711'' [1, 2, 3] 1 65536 4 32"
    by (simp add: demo_idkey_def)
  ultimately show ?thesis using pin_hash_round_trip [of demo_idkey "[1, 2, 3]" "''4711''" e "''4712''"] by blast
qed

end
