(* ===== verification/Alarm_Codes.thy ===== *)
theory Alarm_Codes
  imports Alarm_System Alarm_Pins
begin

text \<open>
  The code facade of \<open>internal/alarm/codes\<close>: rows, permissions and candidates (\<open>facade.go\<close>), the
  per-source rate limiter (\<open>ratelimit.go\<close>), the memo that narrows the hash sweep
  (\<open>verify_memo.go\<close>), and the facade as the engine's code validator and duress matcher.

  The derivation \<open>argon2.IDKey\<close>, the digest and the keyed hash are parameters (a record \<open>crypto\<close>).
  The store's answer is an argument: \<open>None\<close> is a failed \<open>GetAll\<close>. JSON columns are abstract
  documents as in the engine's configuration.

  \<open>Validate\<close> is one step here. In the code the look at the limiter, the comparison of the hashes and
  the record of a failure are separate sections, so attempts under way at the same time may all pass
  the limiter before the first failure is recorded; statements about several attempts are about
  attempts that follow each other. The engine's validator port is the answer alone: what the facade
  journals and charges to the limiter is not part of the engine's world.
\<close>

section \<open>Rows and candidates\<close>

datatype code_kind = KindPIN | KindKeypadSlot | KindRemoteKey | KindOther string

definition code_kinds :: "code_kind list" where
  "code_kinds = [KindPIN, KindKeypadSlot, KindRemoteKey]"

record perms =
  pm_arm :: bool
  pm_disarm :: bool
  pm_silence :: bool

record binding =
  bn_central :: string
  bn_device :: string
  bn_slot :: int
  bn_arm_mode :: string
  bn_channel :: string
  bn_parameter :: string
  bn_action :: string
  bn_zone :: string

record code_row =
  cd_id :: string
  cd_name :: string
  cd_kind :: code_kind
  cd_hash :: string
  cd_duress :: bool
  cd_perms :: "perms json_doc"
  cd_zones :: "string list json_doc"
  cd_binding :: "binding json_doc"
  cd_from_ms :: int
  cd_until_ms :: int
  cd_enabled :: bool

record parsed_row =
  pr_id :: string
  pr_name :: string
  pr_kind :: code_kind
  pr_duress :: bool
  pr_perms :: perms
  pr_zones :: "string list"
  pr_binding :: binding
  pr_from_ms :: int
  pr_until_ms :: int
  pr_enabled :: bool

record pin_candidate =
  pc_id :: string
  pc_name :: string
  pc_hash :: string
  pc_duress :: bool
  pc_perms :: perms
  pc_zones :: "string list"
  pc_from_ms :: int
  pc_until_ms :: int

definition no_perms :: perms where
  "no_perms = \<lparr>pm_arm = False, pm_disarm = False, pm_silence = False\<rparr>"

definition no_binding :: binding where
  "no_binding = \<lparr>bn_central = '''', bn_device = '''', bn_slot = 0, bn_arm_mode = '''', bn_channel = '''',
     bn_parameter = '''', bn_action = '''', bn_zone = ''''\<rparr>"

fun parse_perms :: "perms json_doc \<Rightarrow> perms option" where
  "parse_perms DocEmpty = Some no_perms"
| "parse_perms DocBad = None"
| "parse_perms (Doc p) = Some p"

fun parse_zones :: "string list json_doc \<Rightarrow> string list option" where
  "parse_zones DocEmpty = Some []"
| "parse_zones DocBad = None"
| "parse_zones (Doc zs) = Some zs"

fun parse_binding :: "binding json_doc \<Rightarrow> binding option" where
  "parse_binding DocEmpty = Some no_binding"
| "parse_binding DocBad = None"
| "parse_binding (Doc b) = Some b"

fun permits :: "perms \<Rightarrow> code_verb \<Rightarrow> bool" where
  "permits p VerbArm = pm_arm p"
| "permits p VerbDisarm = pm_disarm p"
| "permits p VerbSilence = pm_silence p"
| "permits p (VerbOther _) = False"

fun code_verb_token :: "code_verb \<Rightarrow> string" where
  "code_verb_token VerbArm = ''arm''"
| "code_verb_token VerbDisarm = ''disarm''"
| "code_verb_token VerbSilence = ''silence''"
| "code_verb_token (VerbOther s) = s"

definition parse_row :: "code_row \<Rightarrow> parsed_row option" where
  "parse_row r =
     (case (parse_perms (cd_perms r), parse_zones (cd_zones r), parse_binding (cd_binding r)) of
        (Some p, Some zs, Some b) \<Rightarrow>
          Some \<lparr>pr_id = cd_id r, pr_name = cd_name r, pr_kind = cd_kind r, pr_duress = cd_duress r, pr_perms = p,
            pr_zones = zs, pr_binding = b, pr_from_ms = cd_from_ms r, pr_until_ms = cd_until_ms r,
            pr_enabled = cd_enabled r\<rparr>
      | _ \<Rightarrow> None)"

text \<open>\<open>Rows\<close>: malformed rows are skipped, a store error fails the call.\<close>

definition code_rows :: "code_row list option \<Rightarrow> parsed_row list option" where
  "code_rows answer = map_option (List.map_filter parse_row) answer"

definition candidate_of :: "string \<Rightarrow> int \<Rightarrow> code_row \<Rightarrow> pin_candidate option" where
  "candidate_of zone_id now_ms r =
     (if cd_kind r \<noteq> KindPIN \<or> \<not> cd_enabled r then None
      else if cd_from_ms r \<noteq> 0 \<and> now_ms < cd_from_ms r then None
      else if cd_until_ms r \<noteq> 0 \<and> now_ms > cd_until_ms r then None
      else case parse_perms (cd_perms r) of None \<Rightarrow> None
      | Some p \<Rightarrow>
        (case parse_zones (cd_zones r) of None \<Rightarrow> None
         | Some zs \<Rightarrow>
           if zs \<noteq> [] \<and> zone_id \<notin> set zs then None
           else Some \<lparr>pc_id = cd_id r, pc_name = cd_name r, pc_hash = cd_hash r, pc_duress = cd_duress r,
             pc_perms = p, pc_zones = zs, pc_from_ms = cd_from_ms r, pc_until_ms = cd_until_ms r\<rparr>))"

definition pin_candidates :: "code_row list option \<Rightarrow> string \<Rightarrow> int \<Rightarrow> pin_candidate list option" where
  "pin_candidates answer zone_id now_ms = map_option (List.map_filter (candidate_of zone_id now_ms)) answer"

definition has_pin_codes :: "code_row list option \<Rightarrow> string \<Rightarrow> time_ns \<Rightarrow> bool" where
  "has_pin_codes answer zone_id now =
     (case pin_candidates answer zone_id (unix_ms now) of None \<Rightarrow> False | Some cs \<Rightarrow> cs \<noteq> [])"

section \<open>Rate limiter\<close>

definition rate_limit_max_attempts :: int where
  "rate_limit_max_attempts = 5"

definition rate_limit_base_lockout :: duration where
  "rate_limit_base_lockout = secs 60"

definition rate_limit_max_lockout :: duration where
  "rate_limit_max_lockout = secs (15 * 60)"

definition rate_limit_max_doublings :: int where
  "rate_limit_max_doublings = 8"

record rate_limit_entry =
  rl_fails :: int
  rl_lockouts :: int
  rl_locked_until :: time_ns

type_synonym rate_limiter = "(string \<times> rate_limit_entry) list"

definition new_entry :: rate_limit_entry where
  "new_entry = \<lparr>rl_fails = 0, rl_lockouts = 0, rl_locked_until = 0\<rparr>"

text \<open>The shifted constant stays far below \<open>2 ^ 63\<close> nanoseconds, so the shift is the product.\<close>

definition lockout_duration :: "int \<Rightarrow> duration" where
  "lockout_duration step =
     (let step = (if step > rate_limit_max_doublings then rate_limit_max_doublings else step) in
      min (rate_limit_base_lockout * 2 ^ nat step) rate_limit_max_lockout)"

definition allow :: "rate_limiter \<Rightarrow> string \<Rightarrow> time_ns \<Rightarrow> bool \<times> duration" where
  "allow l source now =
     (case lookup l source of
        None \<Rightarrow> (True, 0)
      | Some e \<Rightarrow> if \<not> now < rl_locked_until e then (True, 0) else (False, rl_locked_until e - now))"

definition record_failure :: "string \<Rightarrow> time_ns \<Rightarrow> rate_limiter \<Rightarrow> duration \<times> rate_limiter" where
  "record_failure source now l =
     (let e = (case lookup l source of None \<Rightarrow> new_entry | Some e \<Rightarrow> e);
          e = e\<lparr>rl_fails := rl_fails e + 1\<rparr> in
      if rl_fails e < rate_limit_max_attempts then (0, AList.update source e l)
      else let d = lockout_duration (rl_lockouts e) in
        (d, AList.update source
              (e\<lparr>rl_lockouts := rl_lockouts e + 1, rl_fails := 0, rl_locked_until := now + d\<rparr>) l))"

definition record_success :: "string \<Rightarrow> rate_limiter \<Rightarrow> rate_limiter" where
  "record_success source l = AList.delete source l"

section \<open>Verification memo\<close>

record crypto =
  cr_idkey :: id_key
  cr_digest :: "string \<Rightarrow> string"
  cr_mac :: "string \<Rightarrow> string"

text \<open>\<open>vm_keyed\<close> is false when the process could not obtain randomness.\<close>

record verify_memo =
  vm_keyed :: bool
  vm_scope :: string
  vm_rows :: "(string \<times> string) list"

definition memo_capacity :: nat where
  "memo_capacity = 256"

definition new_verify_memo :: "bool \<Rightarrow> verify_memo" where
  "new_verify_memo random = \<lparr>vm_keyed = random, vm_scope = '''', vm_rows = []\<rparr>"

definition memo_lookup :: "crypto \<Rightarrow> string \<Rightarrow> string \<Rightarrow> verify_memo \<Rightarrow> string option" where
  "memo_lookup cr scope code m =
     (if \<not> vm_keyed m then None
      else if vm_scope m \<noteq> scope then None
      else lookup (vm_rows m) (cr_mac cr code))"

definition memo_remember :: "crypto \<Rightarrow> string \<Rightarrow> string \<Rightarrow> string \<Rightarrow> verify_memo \<Rightarrow> verify_memo" where
  "memo_remember cr scope code rid m =
     (if \<not> vm_keyed m then m
      else let m' = (if vm_scope m \<noteq> scope \<or> memo_capacity \<le> length (vm_rows m)
                     then m\<lparr>vm_scope := scope, vm_rows := []\<rparr> else m)
        in m'\<lparr>vm_rows := AList.update (cr_mac cr code) rid (vm_rows m')\<rparr>)"

text \<open>\<open>binary.BigEndian.PutUint64\<close> of a length.\<close>

definition be64 :: "nat \<Rightarrow> string" where
  "be64 n = map (\<lambda>i. char_of (n div 256 ^ i)) [7, 6, 5, 4, 3, 2, 1, 0]"

definition framed :: "string \<Rightarrow> string" where
  "framed s = be64 (length s) @ s"

definition scope_bytes :: "pin_candidate list \<Rightarrow> string" where
  "scope_bytes cs = concat (map (\<lambda>c. framed (pc_id c) @ framed (pc_hash c)) cs)"

definition candidate_scope :: "crypto \<Rightarrow> pin_candidate list \<Rightarrow> string" where
  "candidate_scope cr cs = cr_digest cr (scope_bytes cs)"

section \<open>The facade\<close>

record facade =
  fc_limiter :: rate_limiter
  fc_probes :: rate_limiter
  fc_memo :: verify_memo
  fc_journal_on :: bool
  fc_journal :: "journal_entry list"

type_synonym 'a fprog = "(facade, 'a) state"

definition new_facade :: "bool \<Rightarrow> bool \<Rightarrow> facade" where
  "new_facade journal random =
     \<lparr>fc_limiter = [], fc_probes = [], fc_memo = new_verify_memo random, fc_journal_on = journal, fc_journal = []\<rparr>"

definition facade_fault :: "string \<Rightarrow> string \<Rightarrow> string \<Rightarrow> (string \<times> jval) list \<Rightarrow> unit fprog" where
  "facade_fault zone_id source event details =
     modify (\<lambda>f. if \<not> fc_journal_on f then f
       else f\<lparr>fc_journal := (entry JFault event)\<lparr>je_zone := zone_id, je_source := source, je_details := details\<rparr>
                # fc_journal f\<rparr>)"

definition record_invalid :: "string \<Rightarrow> string \<Rightarrow> string \<Rightarrow> bool \<Rightarrow> bool \<Rightarrow> time_ns \<Rightarrow> unit fprog" where
  "record_invalid zone_id source event operator_source charge later = do {
     facade_fault zone_id source event [];
     if operator_source \<or> \<not> charge then skip
     else do {
       f \<leftarrow> gets id;
       let (lockout, l) = record_failure source later (fc_limiter f);
       modify (fc_limiter_update (\<lambda>_. l));
       if lockout \<le> 0 then skip
       else facade_fault zone_id source ''code_lockout'' [(''lockout_s'', JVInt (lockout div go_second))]
     }
   }"

definition sweep :: "crypto \<Rightarrow> pin_candidate list \<Rightarrow> string \<Rightarrow> pin_candidate option" where
  "sweep cr cs code = find (\<lambda>c. verify_pin (cr_idkey cr) (pc_hash c) code) cs"

definition match_candidate :: "crypto \<Rightarrow> pin_candidate list \<Rightarrow> string \<Rightarrow> verify_memo \<Rightarrow> pin_candidate option \<times> verify_memo" where
  "match_candidate cr cs code m =
     (let scope = candidate_scope cr cs;
          full = (case sweep cr cs code of
                    Some c \<Rightarrow> (Some c, memo_remember cr scope code (pc_id c) m)
                  | None \<Rightarrow> (None, memo_remember cr scope code '''' m))
      in case memo_lookup cr scope code m of
           None \<Rightarrow> full
         | Some rid \<Rightarrow>
             if rid = '''' then (None, m)
             else case find (\<lambda>c. pc_id c = rid \<and> verify_pin (cr_idkey cr) (pc_hash c) code) cs of
                    Some c \<Rightarrow> (Some c, m)
                  | None \<Rightarrow> full)"

text \<open>
  \<open>Validate\<close>; \<open>now\<close> is the clock at its start and \<open>later\<close> the clock \<open>recordInvalid\<close> reads after the
  hashes were derived.
\<close>

definition validate :: "crypto \<Rightarrow> code_row list option \<Rightarrow> time_ns \<Rightarrow> time_ns \<Rightarrow> string \<Rightarrow> code_verb \<Rightarrow> string
    \<Rightarrow> string \<Rightarrow> (engine_error + (string \<times> bool)) fprog" where
  "validate cr answer now later zone_id verb code source = do {
     f \<leftarrow> gets id;
     let op_source = is_operator_source source;
     let (allowed, remaining) = allow (fc_limiter f) source now;
     if \<not> op_source \<and> \<not> allowed then do {
       facade_fault zone_id source ''code_locked_out'' [(''remaining_s'', JVInt (remaining div go_second))];
       ret (Inl ErrInvalidCode)
     } else case pin_candidates answer zone_id (unix_ms now) of
       None \<Rightarrow> ret (Inl ErrValidatorFailed)
     | Some cs \<Rightarrow>
         if code = '''' then
           (if cs = [] then ret (Inr ('''', False))
            else do {
              record_invalid zone_id source ''code_missing'' op_source False later;
              ret (Inl ErrInvalidCode)
            })
         else do {
           let (matched, m) = match_candidate cr cs code (fc_memo f);
           modify (fc_memo_update (\<lambda>_. m));
           case matched of
             Some c \<Rightarrow>
               if \<not> permits (pc_perms c) verb then do {
                 facade_fault zone_id source ''code_permission_denied'' 
                   [(''code_id'', JVStr (pc_id c)), (''verb'', JVStr (code_verb_token verb))];
                 ret (Inl ErrInvalidCode)
               } else do {
                 modify (fc_limiter_update (record_success source));
                 ret (Inr (pc_name c, pc_duress c))
               }
           | None \<Rightarrow> do {
               record_invalid zone_id source ''invalid_code'' op_source True later;
               ret (Inl ErrInvalidCode)
             }
         }
   }"

definition match_duress :: "crypto \<Rightarrow> code_row list option \<Rightarrow> time_ns \<Rightarrow> string \<Rightarrow> code_verb \<Rightarrow> string
    \<Rightarrow> string \<Rightarrow> (string \<times> bool) fprog" where
  "match_duress cr answer now zone_id verb code source =
     (if code = '''' then ret ('''', False)
      else case pin_candidates answer zone_id (unix_ms now) of
        None \<Rightarrow> ret ('''', False)
      | Some cs \<Rightarrow>
          let eligible = (\<lambda>c. pc_duress c \<and> permits (pc_perms c) verb);
              limited = \<not> is_operator_source source
          in if \<not> list_ex eligible cs then ret ('''', False)
             else do {
               f \<leftarrow> gets id;
               if limited \<and> \<not> fst (allow (fc_probes f) source now) then ret ('''', False)
               else case sweep cr (filter eligible cs) code of
                 Some c \<Rightarrow> do {
                   whenS limited (modify (fc_probes_update (record_success source)));
                   ret (pc_name c, True)
                 }
               | None \<Rightarrow> do {
                   let known = (sweep cr (filter (\<lambda>c. \<not> eligible c) cs) code \<noteq> None);
                   whenS limited (modify (fc_probes_update
                     (if known then record_success source else (\<lambda>l. snd (record_failure source now l)))));
                   ret ('''', False)
                 }
             })"

end
