(* ===== verification/Alarm_Arming.thy ===== *)
theory Alarm_Arming
  imports Alarm_Behaviour "HOL-Library.Multiset"
begin

text \<open>
  The decision to arm: a specification of readiness by sensor and its equivalence with the loop of
  \<open>readiness.go\<close>, the outcome of \<open>beginArm\<close> on every branch, and the code checks of the verbs.
\<close>

section \<open>Readiness\<close>

text \<open>
  The specification of readiness, sensor by sensor: the conditions a sensor shows for a mode with
  the policy that applies to each, and what each condition amounts to.
\<close>

definition conditions :: "zone \<Rightarrow> sensor_state \<Rightarrow> (blocker_reason \<times> blocker_policy) list" where
  "conditions z s =
     (let pol = zc_blockers (zcfg z) in
      (if ss_active_known s \<and> ss_active s \<and> \<not> sc_allow_open_after_arming (ss_cfg s)
       then [(ReasonOpen, bp_open pol)] else []) @
      (if \<not> ss_available s then [(ReasonUnreachable, bp_unreachable pol)] else []) @
      (if ss_sabotage s then [(ReasonSabotage, bp_sabotage pol)] else []) @
      (if ss_low_battery s then [(ReasonLowBattery, bp_low_battery pol)] else []))"

definition member :: "alarm_mode \<Rightarrow> sensor_state \<Rightarrow> bool" where
  "member mode s \<longleftrightarrow> \<not> sc_always_on (ss_cfg s) \<and> in_mode (ss_cfg s) mode"

definition hard :: "blocker_policy \<Rightarrow> bool" where
  "hard p \<longleftrightarrow> p \<noteq> PolicyIgnore \<and> p \<noteq> PolicyWarn"

definition has_hard_condition :: "zone \<Rightarrow> alarm_mode \<Rightarrow> string \<times> sensor_state \<Rightarrow> bool" where
  "has_hard_condition z mode e \<longleftrightarrow> member mode (snd e) \<and> fst e \<notin> set (zbypassed z)
     \<and> list_ex (hard \<circ> snd) (conditions z (snd e))"

definition blocks :: "zone \<Rightarrow> alarm_mode \<Rightarrow> string \<times> sensor_state \<Rightarrow> bool" where
  "blocks z mode e \<longleftrightarrow> has_hard_condition z mode e \<and> \<not> sc_bypass_auto (ss_cfg (snd e))"

definition auto_bypassed :: "zone \<Rightarrow> alarm_mode \<Rightarrow> string \<times> sensor_state \<Rightarrow> bool" where
  "auto_bypassed z mode e \<longleftrightarrow> has_hard_condition z mode e \<and> sc_bypass_auto (ss_cfg (snd e))"

definition condition_detail :: "sensor_state \<Rightarrow> string \<Rightarrow> blocker_reason \<times> blocker_policy \<Rightarrow> blocker_detail list" where
  "condition_detail s i c = (if snd c = PolicyIgnore then []
     else [blocker_detail_of s i (fst c) (hard (snd c) \<and> \<not> sc_bypass_auto (ss_cfg s))])"

definition sensor_details :: "zone \<Rightarrow> alarm_mode \<Rightarrow> string \<times> sensor_state \<Rightarrow> blocker_detail list" where
  "sensor_details z mode e =
     (if \<not> member mode (snd e) then []
      else if fst e \<in> set (zbypassed z) then [blocker_detail_of (snd e) (fst e) ReasonBypassed False]
      else concat (map (condition_detail (snd e) (fst e)) (conditions z (snd e))))"

lemma classify_sel [simp]:
  "set (ra_blockers (classify s i p auto r acc)) = set (ra_blockers acc) \<union> (if hard p \<and> \<not> auto then {i} else {})"
  "set (ra_auto (classify s i p auto r acc)) = set (ra_auto acc) \<union> (if hard p \<and> auto then {i} else {})"
  "set (ra_warnings (classify s i p auto r acc)) =
     set (ra_warnings acc) \<union> (if p = PolicyWarn \<or> hard p \<and> auto then {i} else {})"
  "ra_details (classify s i p auto r acc) = ra_details acc @
     (if p = PolicyIgnore then [] else [blocker_detail_of s i r (hard p \<and> \<not> auto)])"
  by (auto simp: classify_def hard_def)

definition warns :: "zone \<Rightarrow> alarm_mode \<Rightarrow> string \<times> sensor_state \<Rightarrow> bool" where
  "warns z mode e \<longleftrightarrow> member mode (snd e) \<and>
     (fst e \<in> set (zbypassed z)
      \<or> list_ex (\<lambda>c. snd c = PolicyWarn \<or> hard (snd c) \<and> sc_bypass_auto (ss_cfg (snd e))) (conditions z (snd e)))"

text \<open>The loop body of \<open>readinessDetail\<close> classifies the conditions of one sensor in order.\<close>

lemma sensor_readiness_conditions:
  "sensor_readiness z mode e acc =
     (if \<not> member mode (snd e) then acc
      else if fst e \<in> set (zbypassed z) then
        acc\<lparr>ra_warnings := ra_warnings acc @ [fst e],
            ra_details := ra_details acc @ [blocker_detail_of (snd e) (fst e) ReasonBypassed False]\<rparr>
      else fold (\<lambda>c. classify (snd e) (fst e) (snd c) (sc_bypass_auto (ss_cfg (snd e))) (fst c))
             (conditions z (snd e)) acc)"
  by (simp add: sensor_readiness_def conditions_def member_def Let_def)

lemma fold_classify:
  "set (ra_blockers (fold (\<lambda>c. classify s i (snd c) b (fst c)) cs acc)) =
     set (ra_blockers acc) \<union> (if list_ex (hard \<circ> snd) cs \<and> \<not> b then {i} else {})"
  "set (ra_auto (fold (\<lambda>c. classify s i (snd c) b (fst c)) cs acc)) =
     set (ra_auto acc) \<union> (if list_ex (hard \<circ> snd) cs \<and> b then {i} else {})"
  "set (ra_warnings (fold (\<lambda>c. classify s i (snd c) b (fst c)) cs acc)) =
     set (ra_warnings acc) \<union> (if list_ex (\<lambda>c. snd c = PolicyWarn \<or> hard (snd c) \<and> b) cs then {i} else {})"
  "ra_details (fold (\<lambda>c. classify s i (snd c) (sc_bypass_auto (ss_cfg s)) (fst c)) cs acc) =
     ra_details acc @ concat (map (condition_detail s i) cs)"
  by (induction cs arbitrary: acc) (auto simp: condition_detail_def)

lemma sensor_readiness_sel:
  "set (ra_blockers (sensor_readiness z mode e acc)) =
     set (ra_blockers acc) \<union> (if blocks z mode e then {fst e} else {})"
  "set (ra_auto (sensor_readiness z mode e acc)) =
     set (ra_auto acc) \<union> (if auto_bypassed z mode e then {fst e} else {})"
  "set (ra_warnings (sensor_readiness z mode e acc)) =
     set (ra_warnings acc) \<union> (if warns z mode e then {fst e} else {})"
  "ra_details (sensor_readiness z mode e acc) = ra_details acc @ sensor_details z mode e"
  by (simp_all add: sensor_readiness_conditions fold_classify blocks_def auto_bypassed_def warns_def
      has_hard_condition_def sensor_details_def)

lemma fold_readiness:
  "set (ra_blockers (fold (sensor_readiness z mode) es acc)) =
     set (ra_blockers acc) \<union> fst ` set (filter (blocks z mode) es)"
  "set (ra_auto (fold (sensor_readiness z mode) es acc)) =
     set (ra_auto acc) \<union> fst ` set (filter (auto_bypassed z mode) es)"
  "set (ra_warnings (fold (sensor_readiness z mode) es acc)) =
     set (ra_warnings acc) \<union> fst ` set (filter (warns z mode) es)"
  "ra_details (fold (sensor_readiness z mode) es acc) =
     ra_details acc @ concat (map (sensor_details z mode) es)"
  by (induction es arbitrary: acc) (auto simp: sensor_readiness_sel)

definition blockers_of :: "zone \<Rightarrow> alarm_mode \<Rightarrow> string set" where
  "blockers_of z mode = fst ` set (filter (blocks z mode) (zsensors z))"

definition auto_of :: "zone \<Rightarrow> alarm_mode \<Rightarrow> string set" where
  "auto_of z mode = fst ` set (filter (auto_bypassed z mode) (zsensors z))"

lemma readiness_sets:
  "rd_blockers (fst (readiness_detail z mode)) = sorted_list_of_set (blockers_of z mode)"
  "snd (readiness_detail z mode) = sorted_list_of_set (auto_of z mode)"
  "rd_ready (fst (readiness_detail z mode)) \<longleftrightarrow> blockers_of z mode = {}"
  by (simp_all add: blockers_of_def auto_of_def readiness_detail_def Let_def dedupe_sort_eq fold_readiness
      readiness_empty_def flip: set_empty)

text \<open>
  C10. A zone is ready for a mode exactly when no member sensor has a hard condition without the
  automatic bypass; the blockers and the automatic bypasses are those sensors in order, without
  duplicates.
\<close>

theorem readiness_characterised:
  "rd_blockers (compute_readiness z mode) = sorted_list_of_set (blockers_of z mode)
   \<and> snd (readiness_detail z mode) = sorted_list_of_set (auto_of z mode)
   \<and> (rd_ready (compute_readiness z mode) \<longleftrightarrow> \<not> list_ex (blocks z mode) (zsensors z))"
  by (simp add: compute_readiness_def readiness_sets blockers_of_def list_ex_iff) (metis prod.collapse)

lemma sort_key_cong_mset:
  assumes "mset xs = mset ys" and "inj_on f (set xs)"
  shows "sort_key f xs = sort_key f ys"
proof (rule properties_for_sort_key)
  show "mset (sort_key f ys) = mset xs" using assms(1) by simp
  show "sorted (map f (sort_key f ys))" by simp
  have set: "set ys = set xs" using assms(1) by (metis set_mset_mset)
  fix k assume "k \<in> set (sort_key f ys)"
  with set have "k \<in> set xs" by simp
  then have rep: "filter (\<lambda>x. f k = f x) l = replicate (count (mset l) k) k" if "set l \<subseteq> set xs" for l
    using assms(2) that by (induction l) (auto simp: inj_on_def)
  show "filter (\<lambda>x. f k = f x) (sort_key f ys) = filter (\<lambda>x. f k = f x) xs"
    using rep [of xs] rep [of "sort_key f ys"] set assms(1) by simp
qed

lemma reason_token_inj: "reason_token r = reason_token r' \<Longrightarrow> r = r'"
  by (cases r; cases r') simp_all

lemma distinct_conditions: "distinct (map fst (conditions z s))"
  by (auto simp: conditions_def Let_def)

lemma in_sensor_details:
  assumes "d \<in> set (sensor_details z mode e)"
  shows "bd_sensor_id d = fst e"
    and "d' \<in> set (sensor_details z mode e) \<Longrightarrow> bd_reason d' = bd_reason d \<Longrightarrow> d' = d"
proof -
  show "bd_sensor_id d = fst e"
    using assms by (auto simp: sensor_details_def condition_detail_def blocker_detail_of_def Let_def split: if_splits)
  have one: "(r, p) \<in> set (conditions z (snd e)) \<Longrightarrow> (r, q) \<in> set (conditions z (snd e)) \<Longrightarrow> hard p = hard q"
    for p q r using distinct_conditions [of z "snd e"] by (metis eq_key_imp_eq_value)
  show "d' \<in> set (sensor_details z mode e) \<Longrightarrow> bd_reason d' = bd_reason d \<Longrightarrow> d' = d"
    using assms
    by (auto simp: sensor_details_def condition_detail_def blocker_detail_of_def Let_def split: if_splits
        dest: one)
qed

text \<open>
  The verdict does not depend on the iteration order of the sensor map: any two orders of the
  same sensors give the same blockers, warnings, details and automatic bypasses.
\<close>

theorem readiness_order_independent:
  assumes "distinct (map fst (zsensors z))" and "mset sensors = mset (zsensors z)"
  shows "readiness_detail (z\<lparr>zsensors := sensors\<rparr>) mode = readiness_detail z mode"
proof -
  let ?z = "z\<lparr>zsensors := sensors\<rparr>"
  have set: "set sensors = set (zsensors z)" using assms(2) by (metis set_mset_mset)
  have same: "blocks ?z mode = blocks z mode" "auto_bypassed ?z mode = auto_bypassed z mode"
    "warns ?z mode = warns z mode" "sensor_details ?z mode = sensor_details z mode"
    by (auto simp: fun_eq_iff blocks_def auto_bypassed_def warns_def has_hard_condition_def sensor_details_def
        conditions_def)
  let ?ds = "concat (map (sensor_details z mode) (zsensors z))"
  have "inj_on (\<lambda>d. (bd_sensor_id d, reason_token (bd_reason d))) (set ?ds)"
  proof (rule inj_onI)
    fix d d' assume d: "d \<in> set ?ds" "d' \<in> set ?ds"
      and eq: "(bd_sensor_id d, reason_token (bd_reason d)) = (bd_sensor_id d', reason_token (bd_reason d'))"
    then obtain e e' where e: "e \<in> set (zsensors z)" "d \<in> set (sensor_details z mode e)"
      "e' \<in> set (zsensors z)" "d' \<in> set (sensor_details z mode e')" by auto
    then have "fst e = fst e'" using eq in_sensor_details(1) [OF e(2)] in_sensor_details(1) [OF e(4)] by simp
    then have "e = e'" using assms(1) e by (metis eq_key_imp_eq_value prod.collapse)
    then show "d = d'" using e eq in_sensor_details(2) [of d' z mode e d] reason_token_inj by auto
  qed
  moreover have "mset ?ds = mset (concat (map (sensor_details z mode) sensors))"
    using assms(2) by (simp add: mset_concat flip: sum_mset_sum_list)
  ultimately have "sort_key (\<lambda>d. (bd_sensor_id d, reason_token (bd_reason d))) ?ds =
      sort_key (\<lambda>d. (bd_sensor_id d, reason_token (bd_reason d))) (concat (map (sensor_details z mode) sensors))"
    by (intro sort_key_cong_mset)
  then show ?thesis
    by (simp add: readiness_detail_def Let_def dedupe_sort_eq fold_readiness same set readiness_empty_def
        flip: set_empty)
qed

section \<open>Arming\<close>

lemma evp_abort_walk_test_for_arm [evp_intros]:
  assumes "\<And>tr'. calm_ext tr tr' \<Longrightarrow> Q () (z\<lparr>zwalk := None\<rparr>) tr'"
  shows "evp E (abort_walk_test_for_arm by src) Q z tr"
proof -
  have "zwalk z = None \<Longrightarrow> z\<lparr>zwalk := None\<rparr> = z" by (cases z) simp
  with assms [of tr] have "zwalk z = None \<Longrightarrow> Q () z tr" by simp
  then show ?thesis
    unfolding abort_walk_test_for_arm_def using assms by (intro evp_intros) simp_all
qed

lemma evp_reset_triggered_motion_for_arm [evp_intros]:
  assumes "\<And>tr'. calm_ext tr tr' \<Longrightarrow> Q () z tr'"
  shows "evp E (reset_triggered_motion_for_arm by src) Q z tr"
  unfolding reset_triggered_motion_for_arm_def using assms by (intro evp_intros) auto

fun journaled_bypass :: "string \<Rightarrow> effect \<Rightarrow> bool" where
  "journaled_bypass i (EJournal j) = (je_class j = JBypass \<and> je_event j = ''sensor_bypassed''
     \<and> je_details j = [(''sensor_id'', JVStr i)])"
| "journaled_bypass i _ = False"

lemma evp_journal_bypasses:
  assumes "\<And>fx. list_all calm fx \<Longrightarrow> set xs \<subseteq> {i. list_ex (journaled_bypass i) fx} \<Longrightarrow> Q () z (fx @ tr)"
    and "\<And>i. journaled_bypass i (EJournal ((f i)\<lparr>je_zone := zid z\<rparr>))"
  shows "evp E (forS xs (\<lambda>i. journal_entry_append (f i))) Q z tr"
  using assms(1)
proof (induction xs arbitrary: tr)
  case Nil
  from Nil.prems [of "[]"] show ?case by (simp add: evp_ret)
next
  case (Cons x xs)
  have "evp E (forS xs (\<lambda>i. journal_entry_append (f i))) Q z (EJournal ((f x)\<lparr>je_zone := zid z\<rparr>) # tr)"
  proof (rule Cons.IH)
    fix fx assume "list_all calm fx" "set xs \<subseteq> {i. list_ex (journaled_bypass i) fx}"
    then show "Q () z (fx @ EJournal ((f x)\<lparr>je_zone := zid z\<rparr>) # tr)"
      using Cons.prems [of "fx @ [EJournal ((f x)\<lparr>je_zone := zid z\<rparr>)]"] assms(2) [of x] by auto
  qed
  then show ?case by (auto intro!: evp_intros)
qed

definition excluded :: "zone \<Rightarrow> arm_request \<Rightarrow> string set" where
  "excluded z req = auto_of z (ar_mode req) \<union> set (requested_bypass z (ar_bypass req))"

lemma evp_commit_arm:
  assumes "\<And>z' tr' res. calm_ext tr tr' \<Longrightarrow> zmode z' = ar_mode req \<Longrightarrow> zbypassed z' = bypass \<Longrightarrow>
      zstate z' = (if 0 < res_exit_delay res then ZArming else ZArmed) \<Longrightarrow>
      res_state res = zstate z' \<Longrightarrow> res_bypassed res = sort bypass \<Longrightarrow>
      res_exit_delay res = (if ar_skip_delay req then 0 else secs (mc_exit_delay_s mcfg)) \<Longrightarrow>
      set bypass \<subseteq> {i. list_ex (journaled_bypass i) tr'} \<Longrightarrow> Q res z' tr'"
  shows "evp E (commit_arm req mcfg bypass) Q z tr"
  unfolding commit_arm_def
  by (intro evp_intros evp_journal_bypasses)
    (auto simp: zone_defs running_def entry_def list_ex_append intro!: assms)

lemma blocks_frame [simp]:
  "blocks (z\<lparr>zwalk := x\<rparr>) = blocks z" "blocks (cancel_auto_rearm z) = blocks z"
  "blocks (z\<lparr>zsensors := ss\<rparr>) = blocks z" "auto_bypassed (z\<lparr>zsensors := ss\<rparr>) = auto_bypassed z"
  "auto_bypassed (z\<lparr>zwalk := x\<rparr>) = auto_bypassed z" "auto_bypassed (cancel_auto_rearm z) = auto_bypassed z"
  by (auto simp: fun_eq_iff blocks_def auto_bypassed_def has_hard_condition_def conditions_def cancel_auto_rearm_def)

lemma sensors_frame [simp]: "zsensors (cancel_auto_rearm z) = zsensors z"
  by (simp add: cancel_auto_rearm_def)

lemma same_decision:
  assumes "zsensors z1 = zsensors z2" and "blocks z1 = blocks z2" and "auto_bypassed z1 = auto_bypassed z2"
  shows "blockers_of z1 = blockers_of z2" and "excluded z1 = excluded z2"
  by (rule ext, simp add: assms blockers_of_def excluded_def auto_of_def requested_bypass_def)+

lemma filter_sorted_list_of_set:
  "finite S \<Longrightarrow> filter P (sorted_list_of_set S) = sorted_list_of_set {x \<in> S. P (x :: 'a :: linorder)}"
  by (rule sorted_distinct_set_unique) (auto simp: sorted_wrt_filter)

lemma finite_decision [simp]: "finite (blockers_of z mode)" "finite (auto_of z mode)" "finite (excluded z req)"
  by (simp_all add: blockers_of_def auto_of_def excluded_def)

lemma evp_begin_arm:
  assumes zr_def: "zr = refreshed (snd E) z"
    and B_def: "B = blockers_of zr (ar_mode req) - excluded zr req"
    and refused: "\<And>z' tr' ds. B \<noteq> {} \<Longrightarrow> \<not> ar_force req \<Longrightarrow> calm_ext tr tr' \<Longrightarrow>
      z' = (refreshed (snd E) ((cancel_auto_rearm z)\<lparr>zwalk := None\<rparr>)) \<Longrightarrow>
      Q (Inl (ErrNotReady (sorted_list_of_set B) ds)) z' tr'"
    and armed: "\<And>z' tr' res. B = {} \<or> ar_force req \<Longrightarrow> calm_ext tr tr' \<Longrightarrow> zmode z' = ar_mode req \<Longrightarrow>
      set (zbypassed z') = B \<union> excluded zr req \<Longrightarrow>
      zstate z' = (if 0 < res_exit_delay res then ZArming else ZArmed) \<Longrightarrow> res_state res = zstate z' \<Longrightarrow>
      res_exit_delay res = (if ar_skip_delay req then 0 else secs (mc_exit_delay_s mcfg)) \<Longrightarrow>
      set (zbypassed z') \<subseteq> {i. list_ex (journaled_bypass i) tr'} \<Longrightarrow> Q (Inr res) z' tr'"
  shows "evp E (begin_arm req mcfg) Q z tr"
proof -
  let ?z = "refreshed (snd E) ((cancel_auto_rearm z)\<lparr>zwalk := None\<rparr>)"
  obtain rd auto where rd: "readiness_detail ?z (ar_mode req) = (rd, auto)" by fastforce
  have z: "zsensors ?z = zsensors zr" "blocks ?z = blocks zr" "auto_bypassed ?z = auto_bypassed zr"
    by (simp_all add: zr_def refreshed_def split: option.split)
  have sets: "rd_blockers rd = sorted_list_of_set (blockers_of zr (ar_mode req))"
    "set auto \<union> set (requested_bypass ?z (ar_bypass req)) = excluded zr req"
    using readiness_sets [of ?z "ar_mode req"] same_decision [OF z] rd
    by (simp_all add: excluded_def flip: excluded_def [of ?z])
  have rem: "filter (\<lambda>i. i \<notin> set (List.union auto (requested_bypass ?z (ar_bypass req)))) (rd_blockers rd) =
      sorted_list_of_set B"
    by (simp add: sets filter_sorted_list_of_set B_def set_diff_eq)
  have "finite B" by (simp add: B_def)
  then have B: "sorted_list_of_set B = [] \<longleftrightarrow> B = {}" "set (sorted_list_of_set B) = B" by simp_all
  have decide: "evp E (if sorted_list_of_set B \<noteq> [] \<and> \<not> ar_force req then ret (Inl (ErrNotReady (sorted_list_of_set B) ds))
      else do { res \<leftarrow> commit_arm req mcfg (List.union (sorted_list_of_set B) (List.union auto (requested_bypass ?z (ar_bypass req))));
        ret (Inr res) }) Q ?z tr'" if "calm_ext tr tr'" for ds tr'
    by (intro evp_intros evp_commit_arm) (use that B sets in \<open>auto intro!: refused armed\<close>)
  show ?thesis
    unfolding begin_arm_def
    by (intro evp_bind evp_modz evp_abort_walk_test_for_arm evp_reset_triggered_motion_for_arm
        evp_refresh_sensor_values evp_getz, simp only: rd Let_def prod.case rem, rule decide) auto
qed

text \<open>
  C9. An arm is refused exactly when it is not forced and a blocker remains outside the requested
  and automatic bypasses; the error names those blockers in order and the zone's arm state, mode,
  bypasses, incident and countdown stay as they were (a pending auto-rearm and a walk test are
  ended and the sensor values refreshed before the decision). Otherwise the zone takes the
  requested mode, goes through the exit delay if there is one, excludes exactly the bypasses and
  (when forced) the remaining blockers, and journals every exclusion. Neither starts an output
  cycle.
\<close>

theorem arm_decision:
  "let out = run_state (begin_arm req mcfg) \<lparr>cz = z, cw = w\<rparr>; z' = cz (snd out); tr' = w_trace (cw (snd out));
       zr = refreshed (w_deps w) z; B = blockers_of zr (ar_mode req) - excluded zr req
   in calm_ext (w_trace w) tr' \<and>
     (if B = {} \<or> ar_force req
      then zmode z' = ar_mode req \<and> set (zbypassed z') = B \<union> excluded zr req
        \<and> set (zbypassed z') \<subseteq> {i. list_ex (journaled_bypass i) tr'}
        \<and> (\<exists>res. fst out = Inr res \<and> res_state res = zstate z'
             \<and> res_exit_delay res = (if ar_skip_delay req then 0 else secs (mc_exit_delay_s mcfg))
             \<and> zstate z' = (if 0 < res_exit_delay res then ZArming else ZArmed))
      else (\<exists>ds. fst out = Inl (ErrNotReady (sorted_list_of_set B) ds))
        \<and> zstate z' = zstate z \<and> zmode z' = zmode z \<and> zbypassed z' = zbypassed z \<and> zincident z' = zincident z
        \<and> ztimer_on z' = ztimer_on z \<and> ztimer_seq z' = ztimer_seq z)"
proof -
  let ?zr = "refreshed (w_deps w) z"
  let ?B = "blockers_of ?zr (ar_mode req) - excluded ?zr req"
  have frame: "zstate (refreshed d (cancel_auto_rearm y\<lparr>zwalk := None\<rparr>)) = zstate y"
    "zmode (refreshed d (cancel_auto_rearm y\<lparr>zwalk := None\<rparr>)) = zmode y"
    "zbypassed (refreshed d (cancel_auto_rearm y\<lparr>zwalk := None\<rparr>)) = zbypassed y"
    "zincident (refreshed d (cancel_auto_rearm y\<lparr>zwalk := None\<rparr>)) = zincident y"
    "ztimer_on (refreshed d (cancel_auto_rearm y\<lparr>zwalk := None\<rparr>)) = ztimer_on y"
    "ztimer_seq (refreshed d (cancel_auto_rearm y\<lparr>zwalk := None\<rparr>)) = ztimer_seq y" for d y
    by (simp_all add: refreshed_def cancel_auto_rearm_def split: option.split)
  obtain r s where run: "run_state (begin_arm req mcfg) \<lparr>cz = z, cw = w\<rparr> = (r, s)" by fastforce
  have "evp (w_now w, w_deps w) (begin_arm req mcfg) (\<lambda>r z' tr'. calm_ext (w_trace w) tr' \<and>
     (if ?B = {} \<or> ar_force req
      then zmode z' = ar_mode req \<and> set (zbypassed z') = ?B \<union> excluded ?zr req
        \<and> set (zbypassed z') \<subseteq> {i. list_ex (journaled_bypass i) tr'}
        \<and> (\<exists>res. r = Inr res \<and> res_state res = zstate z'
             \<and> res_exit_delay res = (if ar_skip_delay req then 0 else secs (mc_exit_delay_s mcfg))
             \<and> zstate z' = (if 0 < res_exit_delay res then ZArming else ZArmed))
      else (\<exists>ds. r = Inl (ErrNotReady (sorted_list_of_set ?B) ds))
        \<and> zstate z' = zstate z \<and> zmode z' = zmode z \<and> zbypassed z' = zbypassed z \<and> zincident z' = zincident z
        \<and> ztimer_on z' = ztimer_on z \<and> ztimer_seq z' = ztimer_seq z)) z (w_trace w)"
    by (rule evp_begin_arm [OF refl refl]) (simp_all add: frame)
  from evpD [OF this run] show ?thesis unfolding Let_def run fst_conv snd_conv .
qed

definition demo_sensor :: "string \<Rightarrow> sensor_state" where
  "demo_sensor i = new_sensor \<lparr>row_id = i, row_zone_id = ''h'', row_central = ''c'', row_interface = ''f'',
     row_channel = i, row_parameter = ''p'', row_sensor_type = STDoor, row_name = i, row_config = DocEmpty\<rparr>
     (zero_sensor_config\<lparr>sc_modes := [ModeFull]\<rparr>)"

definition demo_house :: zone where
  "demo_house = (new_zone ''h'' ''h'' demo_config)\<lparr>zsensors :=
     [(''d'', (demo_sensor ''d'')\<lparr>ss_active := True, ss_active_known := True\<rparr>), (''w'', demo_sensor ''w'')]\<rparr>"

theorem readiness_order_independent_witness:
  "readiness_detail (demo_house\<lparr>zsensors := rev (zsensors demo_house)\<rparr>) ModeFull = readiness_detail demo_house ModeFull"
  by (rule readiness_order_independent) (simp_all add: demo_house_def)

section \<open>Codes\<close>

lemma arm_preconditions_alarm:
  assumes "lookup (e_zones e) i = Some z" and "zstate z = ZPending \<or> zstate z = ZTriggered"
  shows "\<exists>err. arm_preconditions e i mode = Inl err"
  using assms by (auto simp: arm_preconditions_def split: option.split)

text \<open>
  A pending or triggered zone cannot be armed: the request fails before a code is verified and
  changes nothing at all.
\<close>

theorem arm_refused_during_alarm:
  assumes "lookup (e_zones e) i = Some z" and "zstate z = ZPending \<or> zstate z = ZTriggered"
  shows "\<exists>err. run_state (arm i req) e = (Inl err, e)
    \<and> (e_started e \<and> mode_armed (ar_mode req) \<and> lookup (zc_modes (zcfg z)) (ar_mode req) \<noteq> None
         \<longrightarrow> err = ErrInvalidState)"
proof -
  obtain err where err: "arm_preconditions e i (ar_mode req) = Inl err"
    using arm_preconditions_alarm [OF assms] by blast
  moreover have "e_started e \<and> mode_armed (ar_mode req) \<and> lookup (zc_modes (zcfg z)) (ar_mode req) \<noteq> None
      \<longrightarrow> err = ErrInvalidState"
    using err assms by (auto simp: arm_preconditions_def)
  ultimately show ?thesis by (simp add: arm_def gete_def)
qed

definition demo_request :: arm_request where
  "demo_request = \<lparr>ar_mode = ModeFull, ar_force = True, ar_bypass = [], ar_skip_delay = True,
     ar_code = '''', ar_by = ''u'', ar_source = ''r''\<rparr>"

theorem arm_refused_during_alarm_witness:
  "\<exists>err. run_state (arm ''h'' demo_request) demo_alarm = (Inl err, demo_alarm)"
  using demo_alarm_zone arm_refused_during_alarm [of demo_alarm "''h''" _ demo_request] by blast

text \<open>
  When a code is accepted: no validator is wired, the surface is an operator session, no code
  was given where none is required or the surface authenticated its user already, or the validator
  accepts it.
\<close>

theorem code_acceptance:
  "(\<exists>r. resolve_code d i policy verb code src = Inr r) \<longleftrightarrow>
     dp_validator d = None \<or> is_operator_source src
     \<or> code = '''' \<and> (code_policy_requires policy verb src = False \<or> is_pre_authenticated_source src)
     \<or> (\<exists>validate ok. dp_validator d = Some validate \<and> validate i verb code src = Inr ok)"
  by (auto simp: resolve_code_def is_pre_authenticated_source_def Let_def split: option.splits sum.splits)

definition demo_guarded :: engine where
  "demo_guarded = \<lparr>e_started = True, e_zones = [(''h'', demo_house\<lparr>zstate := ZArmed, zmode := ModeFull\<rparr>)],
     e_index = [], e_world = demo_world\<lparr>w_deps := demo_deps\<lparr>dp_validator := Some (\<lambda>_ _ _ _. Inl ErrInvalidCode)\<rparr>\<rparr>\<rparr>"

end
