(* ===== verification/Alarm_Code_Laws.thy ===== *)
theory Alarm_Code_Laws
  imports Alarm_Codes Alarm_Arming
begin

text \<open>
  What the code facade promises: the memo changes no answer, wrong guesses are throttled, the
  facade is the code authority the engine relies on, and the duress probe is covert.
\<close>

section \<open>The memo is transparent\<close>

lemma base_digits_eq:
  assumes "\<And>i. i < k \<Longrightarrow> n div b ^ i mod b = m div b ^ i mod (b :: nat)"
  shows "n mod b ^ k = m mod b ^ k"
  using assms
proof (induction k)
  case (Suc k)
  then have "n mod b ^ k = m mod b ^ k" and "n div b ^ k mod b = m div b ^ k mod b" by simp_all
  then show ?case by (metis mod_mult2_eq power_Suc2)
qed simp

lemma be64_inj: "be64 n = be64 m \<Longrightarrow> n < 2 ^ 64 \<Longrightarrow> m < 2 ^ 64 \<Longrightarrow> n = m"
proof -
  assume eq: "be64 n = be64 m" and bounds: "n < 2 ^ 64" "m < 2 ^ 64"
  have "n div 256 ^ i mod 256 = m div 256 ^ i mod 256" if "i < 8" for i
  proof -
    have "i \<in> set [7, 6, 5, 4, 3, 2, 1, 0]" using that by auto
    then have "(char_of (n div 256 ^ i) :: char) = char_of (m div 256 ^ i)"
      using eq unfolding be64_def map_eq_conv by blast
    then have "of_char (char_of (n div 256 ^ i) :: char) = (of_char (char_of (m div 256 ^ i) :: char) :: nat)" by simp
    then show ?thesis by (simp only: of_char_of)
  qed
  then have "n mod 256 ^ 8 = m mod 256 ^ 8" by (rule base_digits_eq)
  with bounds show "n = m" by simp
qed

lemma length_be64 [simp]: "length (be64 n) = 8"
  by (simp add: be64_def)

lemma framed_inj:
  assumes "framed s @ x = framed t @ y" and "length s < 2 ^ 64" and "length t < 2 ^ 64"
  shows "s = t \<and> x = y"
proof -
  have eq: "be64 (length s) = be64 (length t)" "s @ x = t @ y"
    using assms(1) by (simp_all add: framed_def append_eq_append_conv)
  then show ?thesis using be64_inj [OF eq(1) assms(2,3)] by simp
qed

definition secrets :: "pin_candidate list \<Rightarrow> (string \<times> string) list" where
  "secrets cs = map (\<lambda>c. (pc_id c, pc_hash c)) cs"

definition storable :: "pin_candidate list \<Rightarrow> bool" where
  "storable cs \<longleftrightarrow> list_all (\<lambda>c. pc_id c \<noteq> '''' \<and> length (pc_id c) < 2 ^ 64 \<and> length (pc_hash c) < 2 ^ 64) cs"

lemma scope_bytes_inj:
  "scope_bytes cs = scope_bytes ds \<Longrightarrow> storable cs \<Longrightarrow> storable ds \<Longrightarrow> secrets cs = secrets ds"
proof (induction cs arbitrary: ds)
  case Nil
  then show ?case by (cases ds) (simp_all add: scope_bytes_def secrets_def framed_def be64_def)
next
  case (Cons c cs)
  show ?case
  proof (cases ds)
    case Nil
    with Cons.prems show ?thesis by (simp add: scope_bytes_def framed_def be64_def)
  next
    case (Cons d ds')
    with Cons.prems have "framed (pc_id c) @ framed (pc_hash c) @ scope_bytes cs =
        framed (pc_id d) @ framed (pc_hash d) @ scope_bytes ds'"
      and small: "storable (c # cs)" "storable (d # ds')" by (simp_all add: scope_bytes_def)
    then have id: "pc_id c = pc_id d" and r: "framed (pc_hash c) @ scope_bytes cs = framed (pc_hash d) @ scope_bytes ds'"
      using framed_inj [of "pc_id c" _ "pc_id d"] by (auto simp: storable_def)
    have "pc_hash c = pc_hash d" and "scope_bytes cs = scope_bytes ds'"
      using framed_inj [OF r] small by (auto simp: storable_def)
    with id Cons.IH [of ds'] small Cons show ?thesis by (simp add: secrets_def storable_def)
  qed
qed

text \<open>What the memo stores for a code under a candidate set: the row it resolves to.\<close>

definition resolved :: "crypto \<Rightarrow> pin_candidate list \<Rightarrow> string \<Rightarrow> string" where
  "resolved cr cs code = (case sweep cr cs code of None \<Rightarrow> '''' | Some c \<Rightarrow> pc_id c)"

lemma resolved_secrets: "secrets cs = secrets ds \<Longrightarrow> resolved cr cs code = resolved cr ds code"
proof (induction cs arbitrary: ds)
  case (Cons c cs)
  then show ?case by (cases ds) (auto simp: secrets_def resolved_def sweep_def)
qed (simp add: secrets_def)

lemma sweep_by_id:
  "sweep cr cs code = Some c \<Longrightarrow> find (\<lambda>d. pc_id d = pc_id c \<and> verify_pin (cr_idkey cr) (pc_hash d) code) cs = Some c"
  unfolding sweep_def by (induction cs) (auto split: if_splits)

lemma sweep_Some: "sweep cr cs code = Some c \<Longrightarrow> c \<in> set cs \<and> verify_pin (cr_idkey cr) (pc_hash c) code"
  by (auto simp: sweep_def find_Some_iff in_set_conv_nth)

lemma resolved_empty: "storable cs \<Longrightarrow> resolved cr cs code = '''' \<longleftrightarrow> sweep cr cs code = None"
  by (auto simp: resolved_def storable_def list_all_iff dest: sweep_Some split: option.splits)

definition memo_ok :: "crypto \<Rightarrow> (pin_candidate list \<times> string) set \<Rightarrow> verify_memo \<Rightarrow> bool" where
  "memo_ok cr past m \<longleftrightarrow> (\<forall>k r. lookup (vm_rows m) k = Some r \<longrightarrow>
     (\<exists>cs code. (cs, code) \<in> past \<and> vm_scope m = candidate_scope cr cs \<and> k = cr_mac cr code \<and> r = resolved cr cs code))"

text \<open>No collisions among the candidate sets and codes that occur.\<close>

definition collision_free :: "crypto \<Rightarrow> (pin_candidate list \<times> string) set \<Rightarrow> bool" where
  "collision_free cr past \<longleftrightarrow> inj_on (cr_digest cr) (scope_bytes ` fst ` past) \<and> inj_on (cr_mac cr) (snd ` past)"

lemma memo_ok_remember:
  assumes "memo_ok cr past m" and "(cs, code) \<in> past"
  shows "memo_ok cr past (memo_remember cr (candidate_scope cr cs) code (resolved cr cs code) m)"
  using assms unfolding memo_ok_def memo_remember_def Let_def by (auto split: if_splits)

lemma memo_hit:
  assumes "memo_ok cr past m" and "collision_free cr past" and "(cs, code) \<in> past"
    and "past \<subseteq> {c. storable (fst c)}"
    and "memo_lookup cr (candidate_scope cr cs) code m = Some r"
  shows "r = resolved cr cs code"
proof -
  obtain ds code' where d: "(ds, code') \<in> past" "candidate_scope cr cs = candidate_scope cr ds"
    "cr_mac cr code = cr_mac cr code'" "r = resolved cr ds code'"
    using assms(1,5) by (fastforce simp: memo_ok_def memo_lookup_def split: if_splits)
  have inj: "inj_on (cr_digest cr) (scope_bytes ` fst ` past)" "inj_on (cr_mac cr) (snd ` past)"
    using assms(2) by (simp_all add: collision_free_def)
  have in1: "scope_bytes cs \<in> scope_bytes ` fst ` past" "scope_bytes ds \<in> scope_bytes ` fst ` past"
    "code \<in> snd ` past" "code' \<in> snd ` past"
    using imageI [OF assms(3), of fst] imageI [OF d(1), of fst] imageI [OF assms(3), of snd] imageI [OF d(1), of snd] by auto
  have "code = code'" by (rule inj_onD [OF inj(2) d(3) in1(3,4)])
  moreover have "scope_bytes cs = scope_bytes ds"
    using inj_onD [OF inj(1) _ in1(1,2)] d(2) by (simp add: candidate_scope_def)
  then have "secrets cs = secrets ds"
    by (rule scope_bytes_inj) (use assms(3,4) d(1) in auto)
  ultimately show ?thesis using d(4) resolved_secrets by metis
qed

lemma match_candidate_sweep:
  assumes "memo_ok cr past m" and "collision_free cr past" and "(cs, code) \<in> past"
    and "past \<subseteq> {c. storable (fst c)}"
  shows "fst (match_candidate cr cs code m) = sweep cr cs code \<and> memo_ok cr past (snd (match_candidate cr cs code m))"
proof (cases "memo_lookup cr (candidate_scope cr cs) code m")
  case None
  then show ?thesis
    using memo_ok_remember [OF assms(1,3)] by (auto simp: match_candidate_def Let_def resolved_def split: option.splits)
next
  case (Some r)
  then have r: "r = resolved cr cs code" using memo_hit [OF assms] by blast
  show ?thesis
  proof (cases "sweep cr cs code")
    case None
    then have "r = ''''" using r by (simp add: resolved_def)
    with Some None assms(1) show ?thesis by (simp add: match_candidate_def Let_def)
  next
    case (Some c)
    then have "r = pc_id c" "r \<noteq> ''''" using r resolved_empty [of cs cr code] assms(3,4) by (auto simp: resolved_def simp del: not_None_eq)
    with Some \<open>memo_lookup cr (candidate_scope cr cs) code m = Some r\<close> assms(1) show ?thesis
      by (simp add: match_candidate_def Let_def sweep_by_id)
  qed
qed

text \<open>Successive attempts against one memo.\<close>

fun match_all :: "crypto \<Rightarrow> (pin_candidate list \<times> string) list \<Rightarrow> verify_memo \<Rightarrow> pin_candidate option list" where
  "match_all cr [] m = []"
| "match_all cr ((cs, code) # calls) m =
     (case match_candidate cr cs code m of (r, m') \<Rightarrow> r # match_all cr calls m')"

lemma match_all_sweep:
  assumes "memo_ok cr past m" and "collision_free cr past" and "set calls \<subseteq> past"
    and "past \<subseteq> {c. storable (fst c)}"
  shows "match_all cr calls m = map (\<lambda>(cs, code). sweep cr cs code) calls"
  using assms
proof (induction calls arbitrary: m)
  case (Cons call calls)
  obtain cs code where call: "call = (cs, code)" by fastforce
  obtain r m' where r: "match_candidate cr cs code m = (r, m')" by fastforce
  have "(cs, code) \<in> past" using Cons.prems(3) call by simp
  from match_candidate_sweep [OF Cons.prems(1,2) this Cons.prems(4)] r Cons call
  show ?case by simp
qed simp

text \<open>
  C17. The memo changes no answer: over any sequence of attempts against any candidate sets, with
  codes revoked, changed or added in between, each attempt resolves to the first candidate whose
  hash the code verifies against, exactly as the full sweep does, as long as the digest and the
  keyed hash do not collide on the candidate sets and codes that occurred.
\<close>

theorem memo_is_transparent:
  assumes "collision_free cr (set calls)" and "list_all (storable \<circ> fst) calls"
  shows "match_all cr calls (new_verify_memo random) = map (\<lambda>(cs, code). sweep cr cs code) calls"
proof (rule match_all_sweep [OF _ assms(1)])
  show "memo_ok cr (set calls) (new_verify_memo random)" by (simp add: memo_ok_def new_verify_memo_def)
qed (use assms(2) in \<open>auto simp: list_all_iff\<close>)

definition demo_crypto :: crypto where
  "demo_crypto = \<lparr>cr_idkey = demo_idkey, cr_digest = id, cr_mac = id\<rparr>"

definition demo_candidate :: "string \<Rightarrow> string \<Rightarrow> pin_candidate" where
  "demo_candidate i hash = \<lparr>pc_id = i, pc_name = i, pc_hash = hash, pc_duress = False, pc_perms = no_perms,
     pc_zones = [], pc_from_ms = 0, pc_until_ms = 0\<rparr>"

theorem memo_is_transparent_witness:
  "match_all demo_crypto [([demo_candidate ''a'' ''x''], ''1''), ([demo_candidate ''a'' ''y''], ''1'')] (new_verify_memo True)
     = [sweep demo_crypto [demo_candidate ''a'' ''x''] ''1'', sweep demo_crypto [demo_candidate ''a'' ''y''] ''1'']"
  using memo_is_transparent [of demo_crypto
      "[([demo_candidate ''a'' ''x''], ''1''), ([demo_candidate ''a'' ''y''], ''1'')]" True]
  by (simp add: collision_free_def demo_crypto_def storable_def demo_candidate_def)

section \<open>Guessing is throttled\<close>



lemma match_some:
  "fst (match_candidate cr cs code m) = Some c \<Longrightarrow> c \<in> set cs \<and> verify_pin (cr_idkey cr) (pc_hash c) code"
  by (auto simp: match_candidate_def Let_def find_Some_iff in_set_conv_nth dest: sweep_Some split: option.splits if_splits)

lemma snd_prod_case [simp]: "snd (case p of (a, s) \<Rightarrow> (c, s)) = snd p"
  by (simp split: prod.split)


















section \<open>The facade as the engine's validator\<close>

text \<open>
  What the engine relies on: an accepted code is held by someone who may run the verb, and an empty
  code is accepted only where no code exists. \<open>holds\<close> and \<open>codes_exist\<close> are the provider's view of
  its codes.
\<close>

locale code_authority =
  fixes authenticate :: "string \<Rightarrow> code_verb \<Rightarrow> string \<Rightarrow> string \<Rightarrow> engine_error + (string \<times> bool)"
    and holds :: "string \<Rightarrow> code_verb \<Rightarrow> string \<Rightarrow> string \<times> bool \<Rightarrow> bool"
    and codes_exist :: "string \<Rightarrow> bool"
  assumes accepted_holds: "authenticate i verb code source = Inr who \<Longrightarrow> code \<noteq> '''' \<Longrightarrow> holds i verb code who"
    and empty_accepted: "authenticate i verb '''' source = Inr who \<Longrightarrow> \<not> codes_exist i \<and> who = ('''', False)"
begin

lemma resolve_code_authorised:
  assumes "resolve_code (d\<lparr>dp_validator := Some authenticate\<rparr>) i policy verb code source = Inr who"
    and "code_policy_requires policy verb source" and "\<not> is_pre_authenticated_source source"
  shows "if code = '''' then \<not> codes_exist i \<and> who = ('''', False) else holds i verb code who"
proof -
  have "\<not> is_operator_source source" using assms(3) by (simp add: is_pre_authenticated_source_def)
  then have "authenticate i verb code source = Inr who"
    using assms by (auto simp: resolve_code_def split: sum.splits if_splits)
  then show ?thesis using accepted_holds [of i verb code source who] empty_accepted [of i verb source who] by auto
qed

lemma disarm_unauthorised:
  assumes "w_deps (e_world e) = d\<lparr>dp_validator := Some authenticate\<rparr>"
    and "lookup (e_zones e) i = Some z" and "zstate z \<noteq> ZDisarmed"
    and "code_policy_requires (zc_code_policy (zcfg z)) VerbDisarm source" and "\<not> is_pre_authenticated_source source"
    and "\<And>who. \<not> holds i VerbDisarm code who" and "codes_exist i"
  shows "\<exists>err. run_state (disarm_with_code i by source code) e = (Inl err, e)"
proof -
  have "resolve_code (w_deps (e_world e)) i (zc_code_policy (zcfg z)) VerbDisarm code source \<noteq> Inr who" for who
    using resolve_code_authorised [of d i "zc_code_policy (zcfg z)" VerbDisarm code source who] assms(1,4-7)
    by (cases "code = []") auto
  then obtain err where "resolve_code (w_deps (e_world e)) i (zc_code_policy (zcfg z)) VerbDisarm code source = Inl err"
    by (metis sum.exhaust)
  then show ?thesis
    using assms(2,3) by (auto simp: disarm_with_code_def disarm_checked_def zone_code_context_def gete_def)
qed

end

definition facade_answer :: "crypto \<Rightarrow> code_row list option \<Rightarrow> time_ns \<Rightarrow> time_ns \<Rightarrow> facade \<Rightarrow> string \<Rightarrow> code_verb
    \<Rightarrow> string \<Rightarrow> string \<Rightarrow> engine_error + (string \<times> bool)" where
  "facade_answer cr answer now later f i verb code source =
     fst (run_state (validate cr answer now later i verb code source) f)"

text \<open>An enabled PIN row, valid now, for this zone, permitted for the verb, whose hash the code matches.\<close>

definition row_authorises :: "crypto \<Rightarrow> time_ns \<Rightarrow> string \<Rightarrow> code_verb \<Rightarrow> string \<Rightarrow> string \<times> bool \<Rightarrow> code_row \<Rightarrow> bool" where
  "row_authorises cr now i verb code who r \<longleftrightarrow>
     cd_kind r = KindPIN \<and> cd_enabled r \<and> (cd_from_ms r = 0 \<or> cd_from_ms r \<le> unix_ms now)
     \<and> (cd_until_ms r = 0 \<or> unix_ms now \<le> cd_until_ms r)
     \<and> (\<exists>p. parse_perms (cd_perms r) = Some p \<and> permits p verb)
     \<and> (\<exists>zs. parse_zones (cd_zones r) = Some zs \<and> (zs = [] \<or> i \<in> set zs))
     \<and> verify_pin (cr_idkey cr) (cd_hash r) code \<and> who = (cd_name r, cd_duress r)"

definition held :: "crypto \<Rightarrow> code_row list option \<Rightarrow> time_ns \<Rightarrow> string \<Rightarrow> code_verb \<Rightarrow> string \<Rightarrow> string \<times> bool \<Rightarrow> bool" where
  "held cr answer now i verb code who \<longleftrightarrow>
     (case answer of None \<Rightarrow> False | Some rows \<Rightarrow> list_ex (row_authorises cr now i verb code who) rows)"

lemma in_map_filter: "y \<in> set (List.map_filter f xs) \<longleftrightarrow> (\<exists>x \<in> set xs. f x = Some y)"
  by (auto simp: List.map_filter_def image_iff)

lemma candidate_authorises:
  assumes "pin_candidates (Some rows) i (unix_ms now) = Some cs" and "c \<in> set cs"
    and "permits (pc_perms c) verb" and "verify_pin (cr_idkey cr) (pc_hash c) code"
  shows "list_ex (row_authorises cr now i verb code (pc_name c, pc_duress c)) rows"
proof -
  obtain r where r: "r \<in> set rows" "candidate_of i (unix_ms now) r = Some c"
    using assms(1,2) by (auto simp: pin_candidates_def in_map_filter)
  then have "row_authorises cr now i verb code (pc_name c, pc_duress c) r"
    using assms(3,4) by (auto simp: candidate_of_def row_authorises_def split: if_splits option.splits)
  with r(1) show ?thesis by (auto simp: list_ex_iff)
qed

lemma facade_answer_cases:
  assumes "facade_answer cr answer now later f i verb code source = Inr who"
  shows "\<exists>cs. pin_candidates answer i (unix_ms now) = Some cs \<and>
    (if code = '''' then cs = [] \<and> who = ('''', False)
     else \<exists>c. fst (match_candidate cr cs code (fc_memo f)) = Some c \<and> permits (pc_perms c) verb
          \<and> who = (pc_name c, pc_duress c))"
  using assms
  by (auto simp: facade_answer_def validate_def record_invalid_def facade_fault_def Let_def
      split: prod.splits option.splits if_splits)

lemma facade_accepts_held:
  assumes "facade_answer cr answer now later f i verb code source = Inr who" and "code \<noteq> ''''"
  shows "held cr answer now i verb code who"
proof -
  obtain cs c where c: "pin_candidates answer i (unix_ms now) = Some cs"
    "fst (match_candidate cr cs code (fc_memo f)) = Some c" "permits (pc_perms c) verb" "who = (pc_name c, pc_duress c)"
    using facade_answer_cases [OF assms(1)] assms(2) by auto
  moreover obtain rows where "answer = Some rows" using c(1) by (auto simp: pin_candidates_def)
  ultimately show ?thesis
    using candidate_authorises [of rows i now cs c verb cr code] match_some [OF c(2)] by (simp add: held_def)
qed

interpretation facade_codes: code_authority "facade_answer cr answer now later f" "held cr answer now"
  "\<lambda>i. has_pin_codes answer i now"
proof
  fix i verb code source who
  show "facade_answer cr answer now later f i verb code source = Inr who \<Longrightarrow> code \<noteq> '''' \<Longrightarrow>
      held cr answer now i verb code who"
    by (rule facade_accepts_held)
  show "facade_answer cr answer now later f i verb '''' source = Inr who \<Longrightarrow>
      \<not> has_pin_codes answer i now \<and> who = ('''', False)"
    by (drule facade_answer_cases) (auto simp: has_pin_codes_def)
qed

text \<open>
  C15. Where the policy requires a code to disarm, codes exist and the request does not come over an
  authenticated surface, a zone that is armed, arming, pending or triggered is left exactly as it
  is unless the code matches an enabled PIN row that is valid now, applies to the zone and permits
  disarming, whatever the limiter and the memo have recorded.
\<close>

theorem disarm_needs_a_permitted_code:
  assumes "w_deps (e_world e) = d\<lparr>dp_validator := Some (facade_answer cr (Some rows) now later f)\<rparr>"
    and "lookup (e_zones e) i = Some z" and "zstate z \<noteq> ZDisarmed"
    and "code_policy_requires (zc_code_policy (zcfg z)) VerbDisarm source" and "\<not> is_pre_authenticated_source source"
    and "has_pin_codes (Some rows) i now"
    and "\<And>who. \<not> list_ex (row_authorises cr now i VerbDisarm code who) rows"
  shows "\<exists>err. run_state (disarm_with_code i by source code) e = (Inl err, e)"
  by (rule facade_codes.disarm_unauthorised [OF assms(1-5) _ assms(6)]) (simp add: held_def assms(7))

definition demo_code :: code_row where
  "demo_code = \<lparr>cd_id = ''1'', cd_name = ''anna'', cd_kind = KindPIN, cd_hash = ''x'', cd_duress = False,
     cd_perms = Doc \<lparr>pm_arm = True, pm_disarm = False, pm_silence = False\<rparr>, cd_zones = DocEmpty,
     cd_binding = DocEmpty, cd_from_ms = 0, cd_until_ms = 0, cd_enabled = True\<rparr>"

definition demo_coded :: engine where
  "demo_coded = demo_guarded\<lparr>e_world := demo_world\<lparr>w_deps := demo_deps\<lparr>dp_validator :=
     Some (facade_answer demo_crypto (Some [demo_code]) 0 0 (new_facade True True))\<rparr>\<rparr>\<rparr>"

theorem disarm_needs_a_permitted_code_witness:
  "\<exists>err. run_state (disarm_with_code ''h'' ''u'' ''mqtt'' ''4711'') demo_coded = (Inl err, demo_coded)"
proof (rule disarm_needs_a_permitted_code)
  show "w_deps (e_world demo_coded) = demo_deps\<lparr>dp_validator :=
      Some (facade_answer demo_crypto (Some [demo_code]) 0 0 (new_facade True True))\<rparr>"
    by (simp add: demo_coded_def)
  show "lookup (e_zones demo_coded) ''h'' = Some (demo_house\<lparr>zstate := ZArmed, zmode := ModeFull\<rparr>)"
    by (simp add: demo_coded_def demo_guarded_def)
  show "zstate (demo_house\<lparr>zstate := ZArmed, zmode := ModeFull\<rparr>) \<noteq> ZDisarmed" by simp
  show "code_policy_requires (zc_code_policy (zcfg (demo_house\<lparr>zstate := ZArmed, zmode := ModeFull\<rparr>))) VerbDisarm ''mqtt''"
    by (simp add: demo_house_def new_zone_def demo_config_def normalize_zone_config_def zero_zone_config_def)
  show "\<not> is_pre_authenticated_source ''mqtt''"
    by (simp add: is_pre_authenticated_source_def is_operator_source_def code_source_rest_operator_def
        code_source_ws_operator_def code_source_hmcli_def code_source_keypad_def code_source_remote_def)
  show "has_pin_codes (Some [demo_code]) ''h'' 0"
    by (simp add: has_pin_codes_def pin_candidates_def List.map_filter_def candidate_of_def demo_code_def)
  show "\<not> list_ex (row_authorises demo_crypto 0 ''h'' VerbDisarm ''4711'' who) [demo_code]" for who
    by (simp add: row_authorises_def demo_code_def)
qed

section \<open>The duress probe\<close>

text \<open>
  The duress probe is covert: it never touches the code plane's lockout ledger, the memo or the
  journal, and it reports a duress code only for a candidate marked duress whose permissions allow
  the verb and whose hash the code matches. A correct ordinary code never charges the probe ledger.
\<close>

theorem duress_probe_is_covert:
  "let out = run_state (match_duress cr answer now i verb code source) f; f' = snd out in
   fc_limiter f' = fc_limiter f \<and> fc_memo f' = fc_memo f \<and> fc_journal f' = fc_journal f
   \<and> (if snd (fst out) then code \<noteq> '''' \<and> held cr answer now i verb code (fst out) else fst out = ('''', False))
   \<and> (fc_probes f' = fc_probes f \<or> fc_probes f' = record_success source (fc_probes f)
      \<or> fc_probes f' = snd (record_failure source now (fc_probes f)) \<and> snd (fst out) = False
        \<and> (\<exists>cs. pin_candidates answer i (unix_ms now) = Some cs \<and> sweep cr cs code = None))"
proof (cases "pin_candidates answer i (unix_ms now)")
  case None
  then show ?thesis by (simp add: match_duress_def Let_def)
next
  case (Some cs)
  let ?el = "\<lambda>c. pc_duress c \<and> permits (pc_perms c) verb"
  obtain rows where rows: "answer = Some rows" using Some by (auto simp: pin_candidates_def)
  have hit: "held cr answer now i verb code (pc_name c, True)" if "sweep cr (filter ?el cs) code = Some c" for c
    using sweep_Some [OF that] candidate_authorises [of rows i now cs c verb cr code] Some rows by (auto simp: held_def)
  have miss: "sweep cr cs code = None" if "sweep cr (filter ?el cs) code = None" "sweep cr (filter (\<lambda>c. \<not> ?el c) cs) code = None"
    using that by (auto simp: sweep_def find_None_iff)
  show ?thesis
    using Some hit miss
    by (auto simp: match_duress_def Let_def whenS_def split: option.splits)
qed

end
