(* ===== verification/Alarm_Rules.thy ===== *)
theory Alarm_Rules
  imports Alarm_Behaviour
begin

text \<open>
  Rules of the engine one by one: what a disarm does to callbacks under way, the cross-zone
  confirmation, the incident table under any sequence of statements, the well-formedness of a zone
  configuration, and what becomes of an adopted siren.
\<close>

section \<open>Cancelled callbacks\<close>

lemma disarm_sequences:
  "let s = after (disarm_locked by src) z w in
   zstate (cz s) = ZDisarmed \<and> ztimer_seq (cz s) \<noteq> ztimer_seq z \<and> zdebounce_seq (cz s) \<noteq> zdebounce_seq z
   \<and> ztick_seq (cz s) \<noteq> ztick_seq z \<and> zauto_rearm_seq (cz s) \<noteq> zauto_rearm_seq z"
proof -
  have "evp (w_now w, w_deps w) (disarm_locked by src) (\<lambda>_ z' _. zstate z' = ZDisarmed
     \<and> ztimer_seq z' \<noteq> ztimer_seq z \<and> zdebounce_seq z' \<noteq> zdebounce_seq z \<and> ztick_seq z' \<noteq> ztick_seq z
     \<and> zauto_rearm_seq z' \<noteq> zauto_rearm_seq z) z (w_trace w)"
    by (rule evp_disarm_locked) (simp add: disarmed_zone_def zone_defs)
  then show ?thesis unfolding Let_def by (rule evp_after)
qed

text \<open>
  A disarm cancels every callback of the zone that is still under way: a countdown, a tick, a
  closing debounce or an automatic re-arm that was scheduled before the disarm and runs after it
  finds its sequence number outdated and changes nothing, in the zone, the stores or the trace.
\<close>

theorem disarm_cancels_callbacks:
  "let s = after (disarm_locked by src) z w in
   run_state (on_state_timer_fired (ztimer_seq z)) s = ((), s)
   \<and> run_state (on_debounce_fired (zdebounce_seq z) i) s = ((), s)
   \<and> run_state (on_tick_fired (ztick_seq z) kind tot) s = ((), s)
   \<and> run_state (on_auto_rearm_fired (zauto_rearm_seq z)) s = ((), s)"
  using disarm_sequences [of "by" src z w]
  by (simp add: Let_def on_state_timer_fired_def on_debounce_fired_def on_tick_fired_def on_auto_rearm_fired_def
      getz_def getw_def)

section \<open>Cross-zone confirmation\<close>

definition recent :: "time_ns \<Rightarrow> string \<times> time_ns \<Rightarrow> bool" where
  "recent now h \<longleftrightarrow> now - snd h \<le> secs 60"

definition hits_of :: "zone \<Rightarrow> string \<Rightarrow> (string \<times> time_ns) list" where
  "hits_of z g = (case lookup (zgroup_hits z) g of None \<Rightarrow> [] | Some h \<Rightarrow> h)"

lemma length_update: "length (AList.update k v m) = (if k \<in> fst ` set m then length m else Suc (length m))"
  by (induction m) auto

lemma list_ex_filter: "list_ex P (filter Q xs) = list_ex (\<lambda>x. P x \<and> Q x) xs"
  by (induction xs) auto

lemma two_hits:
  assumes "distinct (map fst m)"
  shows "2 \<le> length (AList.update k v m) \<longleftrightarrow> list_ex (\<lambda>h. fst h \<noteq> k) m"
proof (cases m)
  case (Cons a l)
  show ?thesis
  proof (cases l)
    case Nil
    with Cons show ?thesis by (auto simp: length_update)
  next
    case (Cons b l')
    with \<open>m = a # l\<close> assms show ?thesis by (auto simp: length_update)
  qed
qed simp

text \<open>
  A sensor of a cross-zone group never alarms alone: its activation is dispatched exactly when a
  different sensor of the group was active within the last sixty seconds; otherwise the zone only
  remembers the hit and journals it.
\<close>

theorem cross_zone_needs_a_second_sensor:
  assumes "sc_group (ss_cfg s) = g" and "g \<noteq> ''''" and "distinct (map fst (hits_of z g))"
  shows "run_state (gate_cross_zone i s) \<lparr>cz = z, cw = w\<rparr> =
    (if list_ex (\<lambda>h. fst h \<noteq> i \<and> recent (w_now w) h) (hits_of z g)
     then run_state (dispatch_sensor_activation i s) \<lparr>cz = z\<lparr>zgroup_hits := AList.delete g (zgroup_hits z)\<rparr>, cw = w\<rparr>
     else run_state (journal_entry_append ((entry JTrigger ''cross_zone_first_hit'')\<lparr>
            je_details := [(''sensor_id'', JVStr i), (''group'', JVStr g)]\<rparr>))
          \<lparr>cz = z\<lparr>zgroup_hits := AList.update g (AList.update i (w_now w) (filter (recent (w_now w)) (hits_of z g)))
             (zgroup_hits z)\<rparr>, cw = w\<rparr>)"
proof -
  have f: "filter (\<lambda>(_, at). \<not> (w_now w - at > cross_zone_window)) xs = filter (recent (w_now w)) xs" for xs :: "(string \<times> time_ns) list"
    by (rule filter_cong) (auto simp: recent_def cross_zone_window_def)
  have d: "distinct (map fst (filter (recent (w_now w)) (hits_of z g)))"
    using assms(3) by (simp add: distinct_map_filter)
  have "(2 \<le> length (AList.update i (w_now w) (filter (recent (w_now w)) (hits_of z g)))) =
      list_ex (\<lambda>h. fst h \<noteq> i \<and> recent (w_now w) h) (hits_of z g)"
    unfolding two_hits [OF d] by (rule list_ex_filter)
  then show ?thesis
    using assms(1,2)
    by (simp add: gate_cross_zone_def getz_def getw_def modz_def cross_zone_min_sensors_def f flip: hits_of_def)
qed

definition demo_gated :: "string \<Rightarrow> sensor_state" where
  "demo_gated i = new_sensor \<lparr>row_id = i, row_zone_id = ''h'', row_central = ''c'', row_interface = ''f'',
     row_channel = i, row_parameter = ''p'', row_sensor_type = STMotion, row_name = i, row_config = DocEmpty\<rparr>
     (zero_sensor_config\<lparr>sc_modes := [ModeFull], sc_group := ''g''\<rparr>)"

theorem cross_zone_needs_a_second_sensor_witness:
  "zstate (cz (snd (run_state (gate_cross_zone ''a'' (demo_gated ''a''))
     \<lparr>cz = (new_zone ''h'' ''h'' demo_config)\<lparr>zstate := ZArmed, zmode := ModeFull\<rparr>, cw = demo_world\<rparr>))) = ZArmed"
proof -
  let ?z = "(new_zone ''h'' ''h'' demo_config)\<lparr>zstate := ZArmed, zmode := ModeFull\<rparr>"
  have "sc_group (ss_cfg (demo_gated ''a'')) = ''g''" by (simp add: demo_gated_def new_sensor_def)
  moreover have "hits_of ?z ''g'' = []" by (simp add: hits_of_def new_zone_def)
  ultimately show ?thesis
    using cross_zone_needs_a_second_sensor [of "demo_gated ''a''" "''g''" ?z "''a''" demo_world]
    by (simp add: run_defs)
qed

section \<open>The incident table\<close>

text \<open>
  An incident row only moves forward: whatever statements the engine issues afterwards, the row
  stays, a silence with its time and author stays, the first close stays, and the counters of
  re-trigger cycles and of restart re-fires never shrink.
\<close>

theorem incident_rows_move_forward:
  assumes "incident_table_ok t" and "incident_get t k = Some i"
  shows "\<exists>i'. incident_get (fold incident_exec ops t) k = Some i'
    \<and> ai_cycles i \<le> ai_cycles i' \<and> ai_refires i \<le> ai_refires i'
    \<and> (if ai_silenced i then ai_silenced i' \<and> ai_silenced_at_ms i' = ai_silenced_at_ms i
         \<and> ai_silenced_by i' = ai_silenced_by i else True)
    \<and> (if ai_closed_ms i = 0 then True else ai_closed_ms i' = ai_closed_ms i \<and> ai_close_reason i' = ai_close_reason i)"
proof -
  obtain i' where i': "incident_get (fold incident_exec ops t) k = Some i'" "ai_cycles i \<le> ai_cycles i'"
    "ai_refires i \<le> ai_refires i'"
    using sqlite.counters_grow [OF assms] by blast
  moreover have "if ai_silenced i then ai_silenced i' \<and> ai_silenced_at_ms i' = ai_silenced_at_ms i
      \<and> ai_silenced_by i' = ai_silenced_by i else True"
    using sqlite.silence_one_way [OF assms, of ops] i'(1) by auto
  moreover have "if ai_closed_ms i = 0 then True else ai_closed_ms i' = ai_closed_ms i \<and> ai_close_reason i' = ai_close_reason i"
    using sqlite.first_close_wins [OF assms, of ops] i'(1) by auto
  ultimately show ?thesis by blast
qed

definition demo_row :: alarm_incident where
  "demo_row = (new_incident (new_zone ''h'' ''h'' demo_config) (bare_cause CausePanic) 0 0)\<lparr>ai_id := 1, ai_silenced := True,
     ai_silenced_at_ms := 5, ai_silenced_by := ''u''\<rparr>"

theorem incident_rows_move_forward_witness:
  "\<exists>i'. incident_get (fold incident_exec [OpSilence 1 9 ''v'', OpCycle 1, OpClose 1 10 ''disarm'']
       \<lparr>it_rows = [demo_row], it_next = 2\<rparr>) 1 = Some i' \<and> ai_silenced i' \<and> ai_silenced_at_ms i' = 5 \<and> ai_silenced_by i' = ''u''"
proof -
  have "incident_table_ok \<lparr>it_rows = [demo_row], it_next = 2\<rparr>" by (simp add: incident_table_ok_def demo_row_def)
  moreover have "incident_get \<lparr>it_rows = [demo_row], it_next = 2\<rparr> 1 = Some demo_row"
    by (simp add: incident_get_def demo_row_def)
  moreover have "ai_silenced demo_row" "ai_silenced_at_ms demo_row = 5" "ai_silenced_by demo_row = ''u''"
    by (simp_all add: demo_row_def)
  ultimately show ?thesis
    using incident_rows_move_forward [of "\<lparr>it_rows = [demo_row], it_next = 2\<rparr>" 1 demo_row
        "[OpSilence 1 9 ''v'', OpCycle 1, OpClose 1 10 ''disarm'']"]
    by auto
qed

section \<open>Configuration\<close>

text \<open>
  C40. A zone configuration is never half valid: a document that does not decode is rejected, and
  every other one yields policies out of their enumerations only, a trigger time between one second
  and ten minutes in every mode, and is a fixed point of the normalisation.
\<close>

theorem zone_config_well_formed:
  "case parse_zone_config doc of None \<Rightarrow> doc = DocBad
   | Some cfg \<Rightarrow> post_trigger_valid (zc_post_trigger cfg) \<and> central_loss_valid (zc_central_loss cfg)
       \<and> list_all policy_valid [bp_open (zc_blockers cfg), bp_unreachable (zc_blockers cfg),
           bp_sabotage (zc_blockers cfg), bp_low_battery (zc_blockers cfg)]
       \<and> list_all (\<lambda>m. secs 1 \<le> trigger_duration m \<and> trigger_duration m \<le> secs 600) (map snd (zc_modes cfg))
       \<and> normalize_zone_config cfg = cfg"
proof -
  have "normalize_zone_config (normalize_zone_config c) = normalize_zone_config c" for c
    by (simp add: normalize_zone_config_def blockers_normalized_def)
  moreover have "post_trigger_valid (zc_post_trigger (normalize_zone_config c))"
    "central_loss_valid (zc_central_loss (normalize_zone_config c))" for c
    by (simp_all add: normalize_zone_config_def)
  moreover have "list_all policy_valid [bp_open (zc_blockers (normalize_zone_config c)),
      bp_unreachable (zc_blockers (normalize_zone_config c)), bp_sabotage (zc_blockers (normalize_zone_config c)),
      bp_low_battery (zc_blockers (normalize_zone_config c))]" for c
    by (simp add: normalize_zone_config_def blockers_normalized_def)
  moreover have "list_all (\<lambda>m. secs 1 \<le> trigger_duration m \<and> trigger_duration m \<le> secs 600) ms" for ms
    using trigger_duration_bounds by (simp add: list_all_iff max_trigger_s_def)
  ultimately show ?thesis by (cases doc) simp_all
qed

section \<open>Adopted alarms\<close>

definition demo_adopted :: engine where
  "demo_adopted = acts [ActStart, ActAdopt ''h'' [''siren'']] demo_engine"

definition demo_later :: engine where
  "demo_later = demo_adopted\<lparr>e_world := (e_world demo_adopted)\<lparr>w_now := 999000000000\<rparr>\<rparr>"

lemma demo_adopted_timer: "w_sched (e_world demo_adopted) = [(CbState ''h'' (Suc 0), 181000000000)]"
  by (simp add: demo_adopted_def demo_run_simps)

lemma demo_adopted_zone:
  "\<exists>z. lookup (e_zones demo_adopted) ''h'' = Some z \<and> zstate z = ZTriggered \<and> zmode z = ModeDisarmed
     \<and> ztimer_kind z = TKTrigger \<and> ztimer_seq z = Suc 0 \<and> zpre_trigger_state z = no_state \<and> zcfg z = demo_config
     \<and> \<not> may_retrigger z"
  by (simp add: demo_adopted_def may_retrigger_def demo_run_simps)

lemma elapsed_returns_to_armed:
  assumes "ztimer_kind z = TKTrigger" and "zstate z = ZTriggered" and "zpre_trigger_state z = no_state"
    and "\<not> may_retrigger z" and "zc_post_trigger (zcfg z) \<noteq> PostDisarm"
  shows "let z' = cz (after (on_state_timer_fired (ztimer_seq z)) z w) in zstate z' = ZArmed \<and> zmode z' = zmode z"
proof -
  have "\<not> may_retrigger (z\<lparr>ztimer_on := False, ztimer_kind := no_timer\<rparr>)"
    using assms(4) by (cases "zincident z") (simp_all add: may_retrigger_def mode_cfg_def)
  then have "evp (w_now w, w_deps w) on_trigger_elapsed (\<lambda>_ z' _. zstate z' = ZArmed \<and> zmode z' = zmode z)
      (z\<lparr>ztimer_on := False, ztimer_kind := no_timer\<rparr>) (w_trace w)"
    unfolding on_trigger_elapsed_def by (intro evp_intros evp_finish_triggered) (use assms in auto)
  then have "evp (w_now w, w_deps w) (on_state_timer_fired (ztimer_seq z)) (\<lambda>_ z' _. zstate z' = ZArmed \<and> zmode z' = zmode z)
      z (w_trace w)"
    unfolding on_state_timer_fired_def by (intro evp_intros) (use assms in \<open>simp_all add: whenS_def\<close>)
  then show ?thesis unfolding Let_def by (rule evp_after)
qed

lemma demo_later_reached: "reach fresh estep demo_later"
proof -
  have "reach fresh estep demo_adopted" by (simp only: demo_adopted_def reach_demo)
  moreover have "estep demo_adopted demo_later"
    unfolding demo_later_def by (rule step_env) (simp add: same_stores_def)
  ultimately show ?thesis by (rule reach_step)
qed

lemma demo_later_elapsed:
  "\<exists>z. lookup (e_zones (snd (run_state (run_callback (CbState ''h'' (Suc 0))) demo_later))) ''h'' = Some z
     \<and> zstate z = ZArmed \<and> zmode z = ModeDisarmed"
proof -
  obtain z where z: "lookup (e_zones demo_adopted) ''h'' = Some z" "zmode z = ModeDisarmed" "ztimer_seq z = Suc 0"
    and "zstate z = ZTriggered" "ztimer_kind z = TKTrigger" "zpre_trigger_state z = no_state" "zcfg z = demo_config"
      "\<not> may_retrigger z"
    using demo_adopted_zone by blast
  then have "zstate (cz (after (on_state_timer_fired (Suc 0)) z (e_world demo_later))) = ZArmed
      \<and> zmode (cz (after (on_state_timer_fired (Suc 0)) z (e_world demo_later))) = ModeDisarmed"
    using elapsed_returns_to_armed [of z "e_world demo_later"] by (simp add: Let_def)
  then show ?thesis
    using z(1)
    by (cases "run_state (on_state_timer_fired (Suc 0)) \<lparr>cz = z, cw = e_world demo_later\<rparr>")
      (simp add: on_zone_def demo_later_def after_def)
qed

text \<open>
  A siren that is adopted while its zone is disarmed leaves the zone armed without a mode: when
  the trigger time of the adopted incident has run out and the zone returns to armed, it is armed
  in the disarmed mode, in which no sensor is a member. Such a state is reachable.
\<close>

theorem adopted_alarm_arms_without_mode:
  "\<exists>e i z. reach fresh estep e \<and> lookup (e_zones e) i = Some z \<and> zstate z = ZArmed \<and> zmode z = ModeDisarmed"
proof -
  let ?e = "snd (run_state (run_callback (CbState ''h'' (Suc 0))) demo_later)"
  have "estep demo_later ?e"
    by (rule step_fire [where t = 181000000000]) (simp_all add: demo_adopted_timer demo_later_def)
  with demo_later_reached have "reach fresh estep ?e" by (rule reach_step)
  with demo_later_elapsed show ?thesis by blast
qed

end
