(* ===== verification/Alarm_Outputs.thy ===== *)
theory Alarm_Outputs
  imports Alarm_World
begin

text \<open>
  The output drivers of the alarm system, \<open>internal/alarm/outputs\<close>: eligibility and grouping of the
  enrolled outputs, the acoustic budget of an incident, bounded activations, the stop watchdog with
  its read-back verification, the arbitration of channels that several zones share, chirps, test
  fires, reconciliation and shutdown.

  \<^item> \<open>manager\<close> holds the fields of the Go struct, the clock, the devices behind the resolver, the
    incident table, the outcomes of the coming calls and the trace of all calls, newest first.
  \<^item> An activation is known by the serial number it was created with, which stands for its pointer.
  \<^item> Cancelling takes the callbacks of an activation from \<open>om_sched\<close>; they are kept in \<open>om_late\<close>, for
    a cancel may come too late, and the code has to cope with a callback that runs all the same.
  \<^item> A call of the port and a callback are whole programs here. In the code several of them may be
    under way at once, each with its own short locked sections.
  \<^item> Durations computed from milliseconds in the ledger are unbounded; the code computes them in 64
    bits, which wraps only for ledgers of more than 290 years.
  \<^item> Numbers that are only passed on to a device (levels, volumes) are kept as their text.
\<close>

section \<open>Rows and configuration\<close>

datatype output_class = ClassAcousticSiren | ClassSwitchedSiren | ClassSmokeSounder | ClassOpticalSiren
  | ClassAlarmLight | ClassChirp | ClassNotification | ClassSysvarMirror | ClassOther string

fun class_acoustic :: "output_class \<Rightarrow> bool" where
  "class_acoustic ClassAcousticSiren = True"
| "class_acoustic ClassSwitchedSiren = True"
| "class_acoustic ClassSmokeSounder = True"
| "class_acoustic ClassChirp = True"
| "class_acoustic _ = False"

record output_config =
  oc_modes :: "alarm_mode list"
  oc_outdoor :: bool
  oc_shared :: bool
  oc_duration_s :: int
  oc_optical_s :: int
  oc_acoustic_tone :: string
  oc_optical_pattern :: string
  oc_level :: "string option"
  oc_chirp_arm_tone :: string
  oc_chirp_disarm_tone :: string
  oc_chirp_tick_tone :: string
  oc_soundfile :: int
  oc_volume :: "string option"
  oc_sysvar_name :: string
  oc_sysvar_allow_disarm :: bool
  oc_sysvar_existing :: bool
  oc_notify_mqtt :: "bool option"
  oc_notify_webhook :: "bool option"

record output_row =
  or_id :: string
  or_zone :: string
  or_class :: output_class
  or_central :: string
  or_interface :: string
  or_channel :: string
  or_name :: string
  or_config :: "output_config json_doc"
  or_created_ms :: int
  or_updated_ms :: int

record instance_rec =
  in_row :: output_row
  in_cfg :: output_config

definition zero_output_config :: output_config where
  "zero_output_config = \<lparr>oc_modes = [], oc_outdoor = False, oc_shared = False, oc_duration_s = 0, oc_optical_s = 0,
     oc_acoustic_tone = '''', oc_optical_pattern = '''', oc_level = None, oc_chirp_arm_tone = '''',
     oc_chirp_disarm_tone = '''', oc_chirp_tick_tone = '''', oc_soundfile = 0, oc_volume = None, oc_sysvar_name = '''',
     oc_sysvar_allow_disarm = False, oc_sysvar_existing = False, oc_notify_mqtt = None, oc_notify_webhook = None\<rparr>"

fun parse_output_config :: "output_config json_doc \<Rightarrow> output_config option" where
  "parse_output_config DocEmpty = Some zero_output_config"
| "parse_output_config DocBad = None"
| "parse_output_config (Doc c) = Some c"

definition max_acoustic_seconds :: int where
  "max_acoustic_seconds = 600"

definition default_siren_seconds :: int where
  "default_siren_seconds = 180"

definition default_optical_seconds :: int where
  "default_optical_seconds = 600"

definition max_optical_seconds :: int where
  "max_optical_seconds = 3600"

definition stop_verify_interval :: duration where
  "stop_verify_interval = secs 10"

definition chirp_min_gap :: duration where
  "chirp_min_gap = secs 2"

definition notify_mqtt_enabled :: "output_config \<Rightarrow> bool" where
  "notify_mqtt_enabled c = (case oc_notify_mqtt c of None \<Rightarrow> True | Some b \<Rightarrow> b)"

definition notify_webhook_enabled :: "output_config \<Rightarrow> bool" where
  "notify_webhook_enabled c = (case oc_notify_webhook c of None \<Rightarrow> True | Some b \<Rightarrow> b)"

text \<open>\<open>time.Duration(n) * time.Second\<close> in 64 bits: the configured number is not bounded before.\<close>

definition secs64 :: "int \<Rightarrow> duration" where
  "secs64 n = (n * go_second + 2 ^ 63) mod 2 ^ 64 - 2 ^ 63"

definition output_in_mode :: "output_config \<Rightarrow> alarm_mode \<Rightarrow> bool" where
  "output_in_mode c mode = (if oc_modes c = [] then True else mode \<in> set (oc_modes c))"

definition acoustic_duration :: "output_config \<Rightarrow> duration \<Rightarrow> duration" where
  "acoustic_duration c engine_default =
     (let d = secs64 (oc_duration_s c);
          d = (if d \<le> 0 then engine_default else d);
          d = (if d \<le> 0 then secs default_siren_seconds else d)
      in if d > secs max_acoustic_seconds then secs max_acoustic_seconds else d)"

definition optical_duration :: "output_config \<Rightarrow> duration" where
  "optical_duration c =
     (let d = secs64 (oc_optical_s c);
          d = (if d \<le> 0 then secs default_optical_seconds else d)
      in if d > secs max_optical_seconds then secs max_optical_seconds else d)"

section \<open>Devices, effects, manager\<close>

text \<open>\<open>(active, observed)\<close> pairs, and the labels a siren can name.\<close>

record siren_device =
  sd_acoustic :: "bool \<times> bool"
  sd_optical :: "bool \<times> bool"
  sd_disable_label :: "string option"
  sd_alarm_label :: "string option"

record smoke_device =
  sm_active :: "bool \<times> bool"
  sm_intrusion :: bool

record devices =
  dv_siren :: "string \<Rightarrow> string \<Rightarrow> siren_device option"
  dv_smoke :: "string \<Rightarrow> string \<Rightarrow> smoke_device option"
  dv_actuator :: "string \<Rightarrow> string \<Rightarrow> (bool \<times> bool) option"
  dv_sound :: "string \<Rightarrow> string \<Rightarrow> bool"

record on_config =
  on_duration :: duration
  on_acoustic_selection :: "string option"
  on_acoustic_tone :: string
  on_optical_selection :: "string option"

datatype device_write =
    SirenOn on_config
  | ActuatorOn duration "string option"
  | ActuatorSteady "string option"
  | SmokeOn
  | PlayChirp int string
  | TurnOff

text \<open>Device writes carry the enrolled output, its channel and whether they succeeded.\<close>

datatype out_effect =
    OWrite string "string \<times> string" device_write bool
  | OLedger int int bool
  | OJournal journal_class string string string int
  | OHealth bool
  | OZoneHealth string bool
  | ONotify string int

datatype stopper = StopSiren bool | StopActuator | StopSmoke | StopSound | StopChirp

record activation =
  ac_serial :: nat
  ac_output :: string
  ac_zone :: string
  ac_incident :: int

record demand_rec =
  dr_channel :: string
  dr_zone :: string

datatype out_callback =
    CbRunStop instance_rec activation stopper
  | CbVerifyStop instance_rec activation stopper time_ns

record manager =
  om_by_zone :: "(string \<times> instance_rec list) list"
  om_active :: "(string \<times> activation) list"
  om_demands :: "(string \<times> demand_rec) list"
  om_last_chirp :: "(string \<times> time_ns) list"
  om_failed :: "(string \<times> string) list"
  om_default_siren :: duration
  om_max_per_incident :: duration
  om_stop_verify_window :: duration
  om_serial :: nat
  om_now :: time_ns
  om_devices :: devices
  om_incidents :: incident_table
  om_faults :: "bool list"
  om_sched :: "(out_callback \<times> time_ns) list"
  om_late :: "(out_callback \<times> time_ns) list"
  om_trace :: "out_effect list"

type_synonym 'a oprog = "(manager, 'a) state"

definition new_manager :: "duration \<Rightarrow> duration \<Rightarrow> duration \<Rightarrow> devices \<Rightarrow> incident_table \<Rightarrow> manager" where
  "new_manager default_siren max_per_incident window devs incidents =
     \<lparr>om_by_zone = [], om_active = [], om_demands = [], om_last_chirp = [], om_failed = [],
      om_default_siren = (if default_siren \<le> 0 then secs default_siren_seconds else default_siren),
      om_max_per_incident = (if max_per_incident \<le> 0 then secs 900 else max_per_incident),
      om_stop_verify_window = (if window \<le> 0 then secs 120 else window),
      om_serial = 0, om_now = 0, om_devices = devs, om_incidents = incidents, om_faults = [], om_sched = [],
      om_late = [], om_trace = []\<rparr>"

definition o_emit :: "out_effect \<Rightarrow> unit oprog" where
  "o_emit x = modify (\<lambda>m. m\<lparr>om_trace := x # om_trace m\<rparr>)"

definition o_fails :: "bool oprog" where
  "o_fails = do {
     m \<leftarrow> gets id;
     case om_faults m of [] \<Rightarrow> ret False
     | b # bs \<Rightarrow> do { modify (om_faults_update (\<lambda>_. bs)); ret b }
   }"

definition channel_of :: "instance_rec \<Rightarrow> string \<times> string" where
  "channel_of i = (or_central (in_row i), or_channel (in_row i))"

text \<open>One write to a resolved device; the result is its success.\<close>

definition write_device :: "instance_rec \<Rightarrow> device_write \<Rightarrow> bool oprog" where
  "write_device i x = do {
     failed \<leftarrow> o_fails;
     o_emit (OWrite (or_id (in_row i)) (channel_of i) x (\<not> failed));
     ret (\<not> failed)
   }"

definition instances_of :: "string \<Rightarrow> manager \<Rightarrow> instance_rec list" where
  "instances_of zone m = (case lookup (om_by_zone m) zone of None \<Rightarrow> [] | Some l \<Rightarrow> l)"

section \<open>Journal and health\<close>

definition o_journal :: "journal_class \<Rightarrow> string \<Rightarrow> string \<Rightarrow> string \<Rightarrow> int \<Rightarrow> unit oprog" where
  "o_journal c zone event output incident = o_emit (OJournal c zone event output incident)"

definition note_failure :: "string \<Rightarrow> string \<Rightarrow> unit oprog" where
  "note_failure output zone = do {
     modify (\<lambda>m. m\<lparr>om_failed := AList.update output zone (om_failed m)\<rparr>);
     o_emit (OHealth False);
     o_emit (OZoneHealth zone False)
   }"

definition output_failed :: "string \<Rightarrow> string \<Rightarrow> string \<Rightarrow> int \<Rightarrow> unit oprog" where
  "output_failed zone event output incident = do {
     o_journal JFault zone event output incident;
     note_failure output zone
   }"

definition zone_still_failed :: "string \<Rightarrow> manager \<Rightarrow> bool" where
  "zone_still_failed zone m = list_ex (\<lambda>(_, z). z = zone) (om_failed m)"

definition resolve_failure :: "string \<Rightarrow> string \<Rightarrow> unit oprog" where
  "resolve_failure output zone = do {
     modify (\<lambda>m. m\<lparr>om_failed := AList.delete output (om_failed m)\<rparr>);
     m \<leftarrow> gets id;
     whenS (om_failed m = []) (o_emit (OHealth True));
     whenS (\<not> zone_still_failed zone m) (o_emit (OZoneHealth zone True))
   }"

section \<open>Arbitration\<close>

definition demand_channel_key :: "instance_rec \<Rightarrow> string" where
  "demand_channel_key i = or_central (in_row i) @ ''|'' @ or_channel (in_row i)"

definition note_demand :: "instance_rec \<Rightarrow> unit oprog" where
  "note_demand i = modify (\<lambda>m. m\<lparr>om_demands := AList.update (or_id (in_row i))
     \<lparr>dr_channel = demand_channel_key i, dr_zone = or_zone (in_row i)\<rparr> (om_demands m)\<rparr>)"

definition drop_demand :: "string \<Rightarrow> unit oprog" where
  "drop_demand output = modify (\<lambda>m. m\<lparr>om_demands := AList.delete output (om_demands m)\<rparr>)"

definition foreign_demand :: "instance_rec \<Rightarrow> manager \<Rightarrow> bool" where
  "foreign_demand i m = list_ex (\<lambda>(_, r). dr_channel r = demand_channel_key i \<and> dr_zone r \<noteq> or_zone (in_row i)) (om_demands m)"

definition release_demand_foreign_remains :: "instance_rec \<Rightarrow> bool oprog" where
  "release_demand_foreign_remains i = do {
     drop_demand (or_id (in_row i));
     m \<leftarrow> gets id;
     ret (foreign_demand i m)
   }"

section \<open>Stoppers\<close>

definition siren_of :: "instance_rec \<Rightarrow> manager \<Rightarrow> siren_device option" where
  "siren_of i m = dv_siren (om_devices m) (or_central (in_row i)) (or_channel (in_row i))"

definition smoke_of :: "instance_rec \<Rightarrow> manager \<Rightarrow> smoke_device option" where
  "smoke_of i m = dv_smoke (om_devices m) (or_central (in_row i)) (or_channel (in_row i))"

definition actuator_of :: "instance_rec \<Rightarrow> manager \<Rightarrow> (bool \<times> bool) option" where
  "actuator_of i m = dv_actuator (om_devices m) (or_central (in_row i)) (or_channel (in_row i))"

definition sound_of :: "instance_rec \<Rightarrow> manager \<Rightarrow> bool" where
  "sound_of i m = dv_sound (om_devices m) (or_central (in_row i)) (or_channel (in_row i))"

text \<open>The target a stopper resolves on each call.\<close>

fun picked :: "instance_rec \<Rightarrow> manager \<Rightarrow> stopper \<Rightarrow> stopper" where
  "picked i m StopChirp = (if siren_of i m \<noteq> None then StopSiren True else StopSound)"
| "picked i m s = s"

definition resolves :: "instance_rec \<Rightarrow> manager \<Rightarrow> stopper \<Rightarrow> bool" where
  "resolves i m s = (case picked i m s of
     StopSiren _ \<Rightarrow> siren_of i m \<noteq> None | StopActuator \<Rightarrow> actuator_of i m \<noteq> None
   | StopSmoke \<Rightarrow> smoke_of i m \<noteq> None | _ \<Rightarrow> sound_of i m)"

definition run_stopper :: "instance_rec \<Rightarrow> stopper \<Rightarrow> bool oprog" where
  "run_stopper i s = do {
     m \<leftarrow> gets id;
     if resolves i m s then write_device i TurnOff else ret False
   }"

definition inactive :: "bool \<times> bool \<Rightarrow> bool" where
  "inactive r = (snd r \<and> \<not> fst r)"

definition verified :: "instance_rec \<Rightarrow> stopper \<Rightarrow> manager \<Rightarrow> bool" where
  "verified i s m = (case picked i m s of
     StopSiren acoustic \<Rightarrow> (case siren_of i m of None \<Rightarrow> False
       | Some d \<Rightarrow> inactive (if acoustic then sd_acoustic d else sd_optical d))
   | StopActuator \<Rightarrow> (case actuator_of i m of None \<Rightarrow> False | Some r \<Rightarrow> inactive r)
   | StopSmoke \<Rightarrow> (case smoke_of i m of None \<Rightarrow> False | Some d \<Rightarrow> inactive (sm_active d))
   | _ \<Rightarrow> True)"

fun stopper_for :: "output_class \<Rightarrow> stopper option" where
  "stopper_for ClassAcousticSiren = Some (StopSiren True)"
| "stopper_for ClassOpticalSiren = Some (StopSiren False)"
| "stopper_for ClassChirp = Some StopChirp"
| "stopper_for ClassSwitchedSiren = Some StopActuator"
| "stopper_for ClassAlarmLight = Some StopActuator"
| "stopper_for ClassSmokeSounder = Some StopSmoke"
| "stopper_for _ = None"

section \<open>Watchdog\<close>

definition o_schedule :: "duration \<Rightarrow> out_callback \<Rightarrow> unit oprog" where
  "o_schedule d cb = modify (\<lambda>m. m\<lparr>om_sched := (cb, om_now m + d) # om_sched m\<rparr>)"

fun cb_activation :: "out_callback \<Rightarrow> activation" where
  "cb_activation (CbRunStop i act s) = act"
| "cb_activation (CbVerifyStop i act s u) = act"

text \<open>\<open>act.cancel()\<close> for a list of activations, and the activation that holds an output, if any.\<close>

definition cancel_callbacks :: "activation list \<Rightarrow> manager \<Rightarrow> manager" where
  "cancel_callbacks acts m =
     m\<lparr>om_sched := filter (\<lambda>(cb, _). cb_activation cb \<notin> set acts) (om_sched m),
       om_late := filter (\<lambda>(cb, _). cb_activation cb \<in> set acts) (om_sched m) @ om_late m\<rparr>"

definition prior_activation :: "string \<Rightarrow> manager \<Rightarrow> activation list" where
  "prior_activation output m = (case lookup (om_active m) output of None \<Rightarrow> [] | Some act \<Rightarrow> [act])"

definition new_activation :: "instance_rec \<Rightarrow> int \<Rightarrow> activation oprog" where
  "new_activation i incident = do {
     m \<leftarrow> gets id;
     let act = \<lparr>ac_serial = om_serial m, ac_output = or_id (in_row i), ac_zone = or_zone (in_row i),
                ac_incident = incident\<rparr>;
     modify (\<lambda>m. cancel_callbacks (prior_activation (or_id (in_row i)) m) m);
     modify (\<lambda>m. m\<lparr>om_serial := om_serial m + 1, om_active := AList.update (or_id (in_row i)) act (om_active m)\<rparr>);
     ret act
   }"

definition arm_stop_watchdog :: "instance_rec \<Rightarrow> int \<Rightarrow> duration \<Rightarrow> stopper \<Rightarrow> unit oprog" where
  "arm_stop_watchdog i incident d s = do {
     act \<leftarrow> new_activation i incident;
     o_schedule d (CbRunStop i act s)
   }"

definition cancel_watchdog :: "string \<Rightarrow> unit oprog" where
  "cancel_watchdog output = do {
     modify (\<lambda>m. cancel_callbacks (prior_activation output m) m);
     modify (\<lambda>m. m\<lparr>om_active := AList.delete output (om_active m)\<rparr>)
   }"

definition is_current :: "activation \<Rightarrow> manager \<Rightarrow> bool" where
  "is_current act m = (lookup (om_active m) (ac_output act) = Some act)"

definition clear_activation :: "activation \<Rightarrow> unit oprog" where
  "clear_activation act = modify (\<lambda>m. if is_current act m
     then m\<lparr>om_active := AList.delete (ac_output act) (om_active m)\<rparr> else m)"

definition run_stop :: "instance_rec \<Rightarrow> activation \<Rightarrow> stopper \<Rightarrow> time_ns \<Rightarrow> unit oprog" where
  "run_stop i act s verify_until = do {
     foreign \<leftarrow> release_demand_foreign_remains i;
     if foreign then clear_activation act
     else do {
       ok \<leftarrow> run_stopper i s;
       whenS (\<not> ok) (output_failed (ac_zone act) ''output_stop_failed'' (ac_output act) (ac_incident act));
       m \<leftarrow> gets id;
       whenS (is_current act m) (o_schedule stop_verify_interval (CbVerifyStop i act s verify_until))
     }
   }"

definition verify_stop :: "instance_rec \<Rightarrow> activation \<Rightarrow> stopper \<Rightarrow> time_ns \<Rightarrow> unit oprog" where
  "verify_stop i act s verify_until = do {
     m \<leftarrow> gets id;
     if verified i s m then do {
       clear_activation act;
       resolve_failure (ac_output act) (ac_zone act)
     } else if om_now m > verify_until then do {
       clear_activation act;
       o_journal JFault (ac_zone act) ''output_stop_unverified'' (ac_output act) (ac_incident act);
       note_failure (ac_output act) (ac_zone act)
     } else run_stop i act s verify_until
   }"

definition stop_and_verify :: "instance_rec \<Rightarrow> int \<Rightarrow> bool oprog" where
  "stop_and_verify i incident =
     (case stopper_for (or_class (in_row i)) of
        None \<Rightarrow> ret True
      | Some s \<Rightarrow> do {
          foreign \<leftarrow> release_demand_foreign_remains i;
          if foreign then do { cancel_watchdog (or_id (in_row i)); ret True }
          else do {
            act \<leftarrow> new_activation i incident;
            ok \<leftarrow> run_stopper i s;
            m \<leftarrow> gets id;
            whenS (is_current act m)
              (o_schedule stop_verify_interval (CbVerifyStop i act s (om_now m + om_stop_verify_window m)));
            ret ok
          }
        })"

definition stop_watchdogs :: "unit oprog" where
  "stop_watchdogs = do {
     modify (\<lambda>m. cancel_callbacks (map snd (om_active m)) m);
     modify (\<lambda>m. m\<lparr>om_active := [], om_demands := []\<rparr>)
   }"

fun unbounded_class :: "output_class \<Rightarrow> bool" where
  "unbounded_class ClassSmokeSounder = True"
| "unbounded_class ClassAlarmLight = True"
| "unbounded_class _ = False"

definition unbounded_activations :: "manager \<Rightarrow> (instance_rec \<times> int) list" where
  "unbounded_activations m =
     (let by_id = concat (map snd (om_by_zone m));
          incident = (\<lambda>output. case lookup (om_active m) output of None \<Rightarrow> 0 | Some act \<Rightarrow> ac_incident act);
          ids = sort (remdups (keys (om_active m) @ keys (om_demands m)))
      in List.map_filter (\<lambda>output. case find (\<lambda>i. or_id (in_row i) = output) by_id of
             None \<Rightarrow> None
           | Some i \<Rightarrow> if unbounded_class (or_class (in_row i)) then Some (i, incident output) else None) ids)"

definition shutdown :: "unit oprog" where
  "shutdown = do {
     m \<leftarrow> gets id;
     forS (unbounded_activations m) (\<lambda>(i, incident).
       case stopper_for (or_class (in_row i)) of None \<Rightarrow> skip
       | Some s \<Rightarrow> do {
           ok \<leftarrow> run_stopper i s;
           whenS (\<not> ok) (o_journal JFault (or_zone (in_row i)) ''output_stop_failed'' (or_id (in_row i)) incident)
         });
     stop_watchdogs
   }"

section \<open>Firing\<close>

definition acoustic_budget :: "alarm_incident \<Rightarrow> duration oprog" where
  "acoustic_budget inc = do {
     m \<leftarrow> gets id;
     acc \<leftarrow> (if ai_id inc \<noteq> 0 then do {
               failed \<leftarrow> o_fails;
               ret (if failed then ai_acoustic_ms inc
                    else case incident_get (om_incidents m) (ai_id inc) of
                      None \<Rightarrow> ai_acoustic_ms inc | Some fresh \<Rightarrow> ai_acoustic_ms fresh)
             } else ret (ai_acoustic_ms inc));
     ret (max (om_max_per_incident m - acc * go_millisecond) 0)
   }"

text \<open>\<open>Inl\<close> is the failed ledger write; \<open>Inr (d, remaining)\<close> what was reserved and what is left.\<close>

definition reserve_acoustic :: "int \<Rightarrow> duration \<Rightarrow> duration \<Rightarrow> (unit + duration \<times> duration) oprog" where
  "reserve_acoustic incident remaining d =
     (if remaining \<le> 0 then ret (Inr (0, remaining))
      else let d = (if d > remaining then remaining else d) in
        if incident \<noteq> 0 then do {
          failed \<leftarrow> o_fails;
          o_emit (OLedger incident (d div go_millisecond) (\<not> failed));
          if failed then ret (Inl ())
          else do {
            modify (\<lambda>m. m\<lparr>om_incidents := incident_add_acoustic_ms incident (d div go_millisecond) (om_incidents m)\<rparr>);
            ret (Inr (d, remaining - d))
          }
        } else ret (Inr (d, remaining - d)))"

record siren_channel =
  sch_rows :: "instance_rec list"
  sch_acoustic :: "instance_rec option"
  sch_optical :: "instance_rec option"

definition siren_class :: "output_class \<Rightarrow> bool" where
  "siren_class c = (c = ClassAcousticSiren \<or> c = ClassOpticalSiren)"

definition siren_channel_of :: "instance_rec list \<Rightarrow> string \<Rightarrow> siren_channel" where
  "siren_channel_of eligible key =
     (let rows = filter (\<lambda>i. siren_class (or_class (in_row i)) \<and> demand_channel_key i = key) eligible in
      \<lparr>sch_rows = rows,
       sch_acoustic = find (\<lambda>i. or_class (in_row i) = ClassAcousticSiren) rows,
       sch_optical = find (\<lambda>i. or_class (in_row i) = ClassOpticalSiren) rows\<rparr>)"

definition empty_on :: on_config where
  "empty_on = \<lparr>on_duration = 0, on_acoustic_selection = None, on_acoustic_tone = '''', on_optical_selection = None\<rparr>"

definition acoustic_on :: "output_config \<Rightarrow> duration \<Rightarrow> on_config" where
  "acoustic_on c d =
     (let on = empty_on\<lparr>on_duration := d\<rparr>;
          on = (if oc_acoustic_tone c \<noteq> ''''
                then on\<lparr>on_acoustic_selection := Some (oc_acoustic_tone c), on_acoustic_tone := oc_acoustic_tone c\<rparr>
                else on)
      in if oc_optical_pattern c \<noteq> '''' then on\<lparr>on_optical_selection := Some (oc_optical_pattern c)\<rparr> else on)"

definition optical_on :: "siren_device \<Rightarrow> output_config \<Rightarrow> bool \<Rightarrow> on_config \<Rightarrow> on_config" where
  "optical_on dev c acoustic_fires on =
     (let on = (if acoustic_fires then on
                else let on = on\<lparr>on_duration := optical_duration c\<rparr> in
                  case sd_disable_label dev of None \<Rightarrow> on | Some off \<Rightarrow> on\<lparr>on_acoustic_selection := Some off\<rparr>);
          p = oc_optical_pattern c;
          p = (if p = '''' \<and> on_optical_selection on = None
               then (case sd_alarm_label dev of None \<Rightarrow> '''' | Some l \<Rightarrow> l) else p)
      in if p \<noteq> '''' then on\<lparr>on_optical_selection := Some p\<rparr> else on)"

text \<open>The activation write of a channel, whether there is one, and the budget that is left.\<close>

definition siren_on_config :: "siren_device \<Rightarrow> siren_channel \<Rightarrow> int \<Rightarrow> duration
    \<Rightarrow> (unit + on_config \<times> bool \<times> duration) oprog" where
  "siren_on_config dev ch incident remaining = do {
     m \<leftarrow> gets id;
     r \<leftarrow> (case sch_acoustic ch of
             None \<Rightarrow> ret (Inr (0, remaining))
           | Some a \<Rightarrow> do {
               r \<leftarrow> reserve_acoustic incident remaining (acoustic_duration (in_cfg a) (om_default_siren m));
               (case r of Inr (d, _) \<Rightarrow>
                  whenS (d \<le> 0) (o_journal JFault (or_zone (in_row a)) ''acoustic_budget_exhausted''
                    (or_id (in_row a)) incident)
                | Inl _ \<Rightarrow> skip);
               ret r
             });
     case r of Inl e \<Rightarrow> ret (Inl e)
     | Inr (d, left) \<Rightarrow>
         let fires = (sch_acoustic ch \<noteq> None \<and> d > 0);
             on = (case sch_acoustic ch of None \<Rightarrow> empty_on
                   | Some a \<Rightarrow> if fires then acoustic_on (in_cfg a) d else empty_on);
             on = (case sch_optical ch of None \<Rightarrow> on | Some o' \<Rightarrow> optical_on dev (in_cfg o') fires on)
         in ret (Inr (on, fires \<or> sch_optical ch \<noteq> None, left))
   }"

text \<open>The fire programs answer with their success and the budget that is left.\<close>

definition fire_siren_channel :: "siren_channel \<Rightarrow> int \<Rightarrow> duration \<Rightarrow> (bool \<times> duration) oprog" where
  "fire_siren_channel ch incident remaining = do {
     m \<leftarrow> gets id;
     let lead = hd (sch_rows ch);
     case siren_of lead m of None \<Rightarrow> ret (False, remaining)
     | Some dev \<Rightarrow> do {
         r \<leftarrow> siren_on_config dev ch incident remaining;
         case r of Inl _ \<Rightarrow> ret (False, remaining)
         | Inr (on, fires, left) \<Rightarrow>
             if \<not> fires then ret (True, left)
             else do {
               ok \<leftarrow> write_device lead (SirenOn on);
               if \<not> ok then ret (False, left)
               else do {
                 forS (sch_rows ch) (\<lambda>i. do {
                   note_demand i;
                   arm_stop_watchdog i incident (on_duration on)
                     (StopSiren (or_class (in_row i) = ClassAcousticSiren))
                 });
                 ret (True, left)
               }
             }
       }
   }"

definition fire_switched_siren :: "instance_rec \<Rightarrow> int \<Rightarrow> duration \<Rightarrow> (bool \<times> duration) oprog" where
  "fire_switched_siren i incident remaining = do {
     m \<leftarrow> gets id;
     if actuator_of i m = None then ret (False, remaining)
     else do {
       r \<leftarrow> reserve_acoustic incident remaining (acoustic_duration (in_cfg i) (om_default_siren m));
       case r of Inl _ \<Rightarrow> ret (False, remaining)
       | Inr (d, left) \<Rightarrow>
           if d \<le> 0 then do {
             o_journal JFault (or_zone (in_row i)) ''acoustic_budget_exhausted'' (or_id (in_row i)) incident;
             ret (True, left)
           } else do {
             ok \<leftarrow> write_device i (ActuatorOn d (oc_level (in_cfg i)));
             if \<not> ok then ret (False, left)
             else do {
               note_demand i;
               arm_stop_watchdog i incident d StopActuator;
               ret (True, left)
             }
           }
     }
   }"

definition fire_smoke_sounder :: "instance_rec \<Rightarrow> int \<Rightarrow> duration \<Rightarrow> (bool \<times> duration) oprog" where
  "fire_smoke_sounder i incident remaining = do {
     m \<leftarrow> gets id;
     if smoke_of i m = None then ret (False, remaining)
     else do {
       r \<leftarrow> reserve_acoustic incident remaining (acoustic_duration (in_cfg i) (om_default_siren m));
       case r of Inl _ \<Rightarrow> ret (False, remaining)
       | Inr (d, left) \<Rightarrow>
           if d \<le> 0 then do {
             o_journal JFault (or_zone (in_row i)) ''acoustic_budget_exhausted'' (or_id (in_row i)) incident;
             ret (True, left)
           } else do {
             note_demand i;
             arm_stop_watchdog i incident d StopSmoke;
             ok \<leftarrow> write_device i SmokeOn;
             if \<not> ok then do {
               cancel_watchdog (or_id (in_row i));
               drop_demand (or_id (in_row i));
               ret (False, left)
             } else ret (True, left)
           }
     }
   }"

definition fire_alarm_light :: "instance_rec \<Rightarrow> bool oprog" where
  "fire_alarm_light i = do {
     m \<leftarrow> gets id;
     if actuator_of i m = None then ret False
     else do {
       ok \<leftarrow> write_device i (ActuatorSteady (oc_level (in_cfg i)));
       whenS ok (note_demand i);
       ret ok
     }
   }"

fun degraded_class :: "output_class \<Rightarrow> bool" where
  "degraded_class ClassOpticalSiren = True"
| "degraded_class ClassAlarmLight = True"
| "degraded_class ClassNotification = True"
| "degraded_class ClassSysvarMirror = True"
| "degraded_class _ = False"

fun pre_alarm_class :: "output_class \<Rightarrow> bool" where
  "pre_alarm_class ClassChirp = True"
| "pre_alarm_class ClassNotification = True"
| "pre_alarm_class ClassAlarmLight = True"
| "pre_alarm_class ClassSysvarMirror = True"
| "pre_alarm_class _ = False"

definition class_eligible :: "output_class \<Rightarrow> fire_options \<Rightarrow> bool" where
  "class_eligible c opts =
     (if fo_degraded opts \<and> \<not> degraded_class c then False
      else if fo_pre_alarm opts \<and> \<not> pre_alarm_class c then False
      else if op_silent (fo_policy opts) \<and> class_acoustic c then False
      else if c = ClassSmokeSounder \<and> \<not> op_smoke_sounders (fo_policy opts) then False
      else True)"

definition eligible_for :: "alarm_incident \<Rightarrow> fire_options \<Rightarrow> instance_rec \<Rightarrow> bool" where
  "eligible_for inc opts i \<longleftrightarrow> output_in_mode (in_cfg i) (ai_mode inc) \<and> class_eligible (or_class (in_row i)) opts
     \<and> \<not> (oc_outdoor (in_cfg i) \<and> op_exclude_outdoor (fo_policy opts))"

text \<open>
  One turn of the fire loop: the outcome with the rows it covers (\<open>None\<close> when the row was written
  with the first row of its channel) and the budget that is left.
\<close>

definition fire_one :: "instance_rec list \<Rightarrow> alarm_incident \<Rightarrow> instance_rec \<Rightarrow> duration
    \<Rightarrow> ((bool \<times> instance_rec list) option \<times> duration) oprog" where
  "fire_one eligible inc i remaining =
     (if siren_class (or_class (in_row i)) then
        let ch = siren_channel_of eligible (demand_channel_key i) in
        if hd (sch_rows ch) \<noteq> i then ret (None, remaining)
        else do {
          (ok, left) \<leftarrow> fire_siren_channel ch (ai_id inc) remaining;
          ret (Some (ok, sch_rows ch), left)
        }
      else case or_class (in_row i) of
        ClassSwitchedSiren \<Rightarrow> do {
          (ok, left) \<leftarrow> fire_switched_siren i (ai_id inc) remaining;
          ret (Some (ok, [i]), left)
        }
      | ClassSmokeSounder \<Rightarrow> do {
          (ok, left) \<leftarrow> fire_smoke_sounder i (ai_id inc) remaining;
          ret (Some (ok, [i]), left)
        }
      | ClassAlarmLight \<Rightarrow> do { ok \<leftarrow> fire_alarm_light i; ret (Some (ok, [i]), remaining) }
      | ClassNotification \<Rightarrow> do {
          o_emit (ONotify (or_id (in_row i)) (ai_id inc));
          ret (Some (True, [i]), remaining)
        }
      | _ \<Rightarrow> ret (Some (True, [i]), remaining))"

definition report_fire :: "string \<Rightarrow> int \<Rightarrow> (bool \<times> instance_rec list) option \<Rightarrow> string list oprog" where
  "report_fire zone incident r =
     (case r of Some (False, covered) \<Rightarrow> do {
        forS covered (\<lambda>i. output_failed zone ''output_fire_failed'' (or_id (in_row i)) incident);
        ret (map (or_id \<circ> in_row) covered)
      }
      | _ \<Rightarrow> ret [])"

fun fire_loop :: "string \<Rightarrow> instance_rec list \<Rightarrow> alarm_incident \<Rightarrow> instance_rec list \<Rightarrow> duration \<Rightarrow> string list oprog" where
  "fire_loop zone eligible inc [] remaining = ret []"
| "fire_loop zone eligible inc (i # rest) remaining = do {
     (r, left) \<leftarrow> fire_one eligible inc i remaining;
     errs \<leftarrow> report_fire zone (ai_id inc) r;
     more \<leftarrow> fire_loop zone eligible inc rest left;
     ret (errs @ more)
   }"

text \<open>\<open>FireCycle\<close>: the outputs that failed, empty when all went well.\<close>

definition fire_cycle_outputs :: "string \<Rightarrow> alarm_incident \<Rightarrow> fire_options \<Rightarrow> string list oprog" where
  "fire_cycle_outputs zone inc opts = do {
     m \<leftarrow> gets id;
     let eligible = filter (eligible_for inc opts) (instances_of zone m);
     remaining \<leftarrow> acoustic_budget inc;
     fire_loop zone eligible inc eligible remaining
   }"

fun stoppable :: "output_class \<Rightarrow> bool" where
  "stoppable ClassNotification = False"
| "stoppable ClassSysvarMirror = False"
| "stoppable (ClassOther _) = False"
| "stoppable _ = True"

fun stop_loop :: "string \<Rightarrow> int \<Rightarrow> instance_rec list \<Rightarrow> string list oprog" where
  "stop_loop zone incident [] = ret []"
| "stop_loop zone incident (i # rest) = do {
     ok \<leftarrow> (if stoppable (or_class (in_row i)) then stop_and_verify i incident else ret True);
     whenS (\<not> ok) (output_failed zone ''output_stop_failed'' (or_id (in_row i)) incident);
     more \<leftarrow> stop_loop zone incident rest;
     ret (if ok then more else or_id (in_row i) # more)
   }"

definition stop_all_outputs :: "string \<Rightarrow> int \<Rightarrow> string list oprog" where
  "stop_all_outputs zone incident = do { m \<leftarrow> gets id; stop_loop zone incident (instances_of zone m) }"

section \<open>Reconciliation\<close>

definition is_sounding :: "instance_rec \<Rightarrow> manager \<Rightarrow> bool" where
  "is_sounding i m =
     (let active = (\<lambda>r. snd r \<and> fst r) in
      case or_class (in_row i) of
        ClassSwitchedSiren \<Rightarrow> (case actuator_of i m of None \<Rightarrow> False | Some r \<Rightarrow> active r)
      | ClassSmokeSounder \<Rightarrow> (case smoke_of i m of None \<Rightarrow> False | Some d \<Rightarrow> active (sm_active d) \<and> sm_intrusion d)
      | c \<Rightarrow> if siren_class c \<or> c = ClassChirp
             then (case siren_of i m of None \<Rightarrow> False | Some d \<Rightarrow> active (sd_acoustic d) \<or> active (sd_optical d))
             else False)"

definition sounding :: "string \<Rightarrow> manager \<Rightarrow> (string \<times> bool) list" where
  "sounding zone m = map (\<lambda>i. (or_id (in_row i), oc_shared (in_cfg i))) (filter (\<lambda>i. is_sounding i m) (instances_of zone m))"

definition adopt_one :: "string \<Rightarrow> int \<Rightarrow> instance_rec \<Rightarrow> unit oprog" where
  "adopt_one zone incident i =
     (case stopper_for (or_class (in_row i)) of None \<Rightarrow> skip
      | Some s \<Rightarrow> do {
          m \<leftarrow> gets id;
          let d = acoustic_duration (in_cfg i) (om_default_siren m);
          whenS (incident \<noteq> 0 \<and> class_acoustic (or_class (in_row i))) (do {
            failed \<leftarrow> o_fails;
            o_emit (OLedger incident (d div go_millisecond) (\<not> failed));
            if failed then output_failed zone ''acoustic_ledger_failed'' (or_id (in_row i)) incident
            else modify (\<lambda>m. m\<lparr>om_incidents := incident_add_acoustic_ms incident (d div go_millisecond) (om_incidents m)\<rparr>)
          });
          arm_stop_watchdog i incident d s
        })"

definition adopt_bounded :: "string \<Rightarrow> int \<Rightarrow> string list \<Rightarrow> unit oprog" where
  "adopt_bounded zone incident outputs = do {
     m \<leftarrow> gets id;
     forS (filter (\<lambda>i. or_id (in_row i) \<in> set outputs) (instances_of zone m)) (adopt_one zone incident)
   }"

definition stop_unowned :: "string \<Rightarrow> unit oprog" where
  "stop_unowned zone = do {
     m \<leftarrow> gets id;
     forS (instances_of zone m) (\<lambda>i. do {
       m \<leftarrow> gets id;
       if oc_shared (in_cfg i) \<or> \<not> is_sounding i m then skip
       else do {
         ok \<leftarrow> stop_and_verify i 0;
         if ok then o_journal JFault zone ''reconcile_stopped_unowned_siren'' (or_id (in_row i)) 0
         else output_failed zone ''output_stop_failed'' (or_id (in_row i)) 0
       }
     })
   }"

section \<open>Chirps and test fires\<close>

definition chirp_duration :: duration where
  "chirp_duration = secs 1"

fun chirp_tone :: "output_config \<Rightarrow> chirp_kind \<Rightarrow> string" where
  "chirp_tone c ChirpArmSquawk = oc_chirp_arm_tone c"
| "chirp_tone c ChirpDisarmSquawk = oc_chirp_disarm_tone c"
| "chirp_tone c _ = oc_chirp_tick_tone c"

definition chirp_volume :: "output_config \<Rightarrow> string" where
  "chirp_volume c = (case oc_volume c of None \<Rightarrow> ''0.5'' | Some v \<Rightarrow> v)"

definition is_tick :: "chirp_kind \<Rightarrow> bool" where
  "is_tick k = (k = ChirpCountdownTick \<or> k = ChirpEntryWarning)"

definition tick_due :: "duration \<Rightarrow> bool" where
  "tick_due remaining =
     (let s = (remaining + 500 * go_millisecond) div go_second in
      if s \<le> 0 then False else if s \<le> 10 then s mod 2 = 0 else s mod 10 = 0)"

definition emit_chirp :: "instance_rec \<Rightarrow> chirp_kind \<Rightarrow> bool oprog" where
  "emit_chirp i kind = do {
     m \<leftarrow> gets id;
     if oc_soundfile (in_cfg i) > 0 then
       (if sound_of i m then write_device i (PlayChirp (oc_soundfile (in_cfg i)) (chirp_volume (in_cfg i)))
        else ret False)
     else let tone = chirp_tone (in_cfg i) kind in
       if tone = '''' then ret True
       else case siren_of i m of None \<Rightarrow> ret False
         | Some _ \<Rightarrow> write_device i (SirenOn (empty_on\<lparr>on_duration := chirp_duration,
             on_acoustic_selection := Some tone, on_acoustic_tone := tone\<rparr>))
   }"

definition chirp_outputs :: "string \<Rightarrow> chirp_request \<Rightarrow> unit oprog" where
  "chirp_outputs zone req = do {
     m \<leftarrow> gets id;
     if list_ex (\<lambda>(_, act). ac_zone act = zone) (om_active m) then skip
     else if is_tick (ch_kind req) \<and> \<not> tick_due (ch_remaining req) then skip
     else forS (filter (\<lambda>i. or_class (in_row i) = ClassChirp) (instances_of zone m)) (\<lambda>i. do {
       m \<leftarrow> gets id;
       let last = (case lookup (om_last_chirp m) (or_id (in_row i)) of None \<Rightarrow> 0 | Some t \<Rightarrow> t);
       if om_now m - last < chirp_min_gap then skip
       else do {
         modify (\<lambda>m. m\<lparr>om_last_chirp := AList.update (or_id (in_row i)) (om_now m) (om_last_chirp m)\<rparr>);
         _ \<leftarrow> emit_chirp i (ch_kind req);
         skip
       }
     })
   }"

definition test_fire_duration :: duration where
  "test_fire_duration = secs 3"

datatype test_error = ErrUnknownOutput | ErrTestFireUnsupported | ErrTestFailed

definition test_fire_sound :: "instance_rec \<Rightarrow> bool oprog" where
  "test_fire_sound i = do {
     m \<leftarrow> gets id;
     if oc_soundfile (in_cfg i) \<le> 0 then ret False
     else if \<not> sound_of i m then ret False
     else write_device i (PlayChirp (oc_soundfile (in_cfg i)) (chirp_volume (in_cfg i)))
   }"

definition test_on :: "siren_device \<Rightarrow> output_row \<Rightarrow> output_config \<Rightarrow> bool \<Rightarrow> on_config" where
  "test_on dev row c optical_only =
     (let on = empty_on\<lparr>on_duration := test_fire_duration\<rparr> in
      if optical_only \<or> or_class row = ClassOpticalSiren then
        let on = (case sd_disable_label dev of None \<Rightarrow> on | Some off \<Rightarrow> on\<lparr>on_acoustic_selection := Some off\<rparr>);
            p = (if oc_optical_pattern c = '''' then (case sd_alarm_label dev of None \<Rightarrow> '''' | Some l \<Rightarrow> l)
                 else oc_optical_pattern c)
        in if p \<noteq> '''' then on\<lparr>on_optical_selection := Some p\<rparr> else on
      else if oc_acoustic_tone c \<noteq> ''''
        then on\<lparr>on_acoustic_selection := Some (oc_acoustic_tone c), on_acoustic_tone := oc_acoustic_tone c\<rparr>
        else on)"

text \<open>The outcome of a test: journaled as a test, or as a failure that degrades health.\<close>

definition test_outcome :: "instance_rec \<Rightarrow> bool \<Rightarrow> (test_error + unit) oprog" where
  "test_outcome i ok =
     (if ok then do { o_journal JTest (or_zone (in_row i)) ''output_test_fired'' (or_id (in_row i)) 0; ret (Inr ()) }
      else do { output_failed (or_zone (in_row i)) ''output_test_failed'' (or_id (in_row i)) 0; ret (Inl ErrTestFailed) })"

definition test_fire :: "string \<Rightarrow> bool \<Rightarrow> (test_error + unit) oprog" where
  "test_fire output optical_only = do {
     m \<leftarrow> gets id;
     case find (\<lambda>i. or_id (in_row i) = output) (concat (map snd (om_by_zone m))) of
       None \<Rightarrow> ret (Inl ErrUnknownOutput)
     | Some i \<Rightarrow>
         (let c = or_class (in_row i) in
          if siren_class c \<or> c = ClassChirp then
            (case siren_of i m of
               None \<Rightarrow>
                 if c = ClassChirp then do { ok \<leftarrow> test_fire_sound i; test_outcome i ok }
                 else test_outcome i False
             | Some dev \<Rightarrow> do {
                 ok \<leftarrow> write_device i (SirenOn (test_on dev (in_row i) (in_cfg i) optical_only));
                 whenS ok (arm_stop_watchdog i 0 test_fire_duration
                   (StopSiren (\<not> optical_only \<and> c \<noteq> ClassOpticalSiren)));
                 test_outcome i ok
               })
          else if c = ClassSwitchedSiren \<or> c = ClassAlarmLight then
            (if actuator_of i m = None then test_outcome i False
             else do {
               ok \<leftarrow> write_device i (ActuatorOn test_fire_duration (oc_level (in_cfg i)));
               whenS ok (arm_stop_watchdog i 0 test_fire_duration StopActuator);
               test_outcome i ok
             })
          else ret (Inl ErrTestFireUnsupported))
   }"

section \<open>Reload\<close>

definition prune_demands :: "string list \<Rightarrow> unit oprog" where
  "prune_demands ids = modify (\<lambda>m. m\<lparr>om_demands := filter (\<lambda>(i, _). i \<in> set ids) (om_demands m)\<rparr>)"

definition prune_failed :: "string list \<Rightarrow> unit oprog" where
  "prune_failed ids = do {
     m0 \<leftarrow> gets id;
     let gone = filter (\<lambda>(i, _). i \<notin> set ids) (om_failed m0);
     modify (\<lambda>m. m\<lparr>om_failed := filter (\<lambda>(i, _). i \<in> set ids) (om_failed m)\<rparr>);
     m \<leftarrow> gets id;
     whenS (gone \<noteq> [] \<and> om_failed m = []) (o_emit (OHealth True));
     forS (filter (\<lambda>z. \<not> zone_still_failed z m) (remdups (map snd gone))) (\<lambda>z. o_emit (OZoneHealth z True))
   }"

definition parse_instance :: "output_row \<Rightarrow> instance_rec option" where
  "parse_instance r = map_option (\<lambda>c. \<lparr>in_row = r, in_cfg = c\<rparr>) (parse_output_config (or_config r))"

definition group_by_zone :: "instance_rec list \<Rightarrow> (string \<times> instance_rec list) list" where
  "group_by_zone is = map (\<lambda>z. (z, sort_key (or_id \<circ> in_row) (filter (\<lambda>i. or_zone (in_row i) = z) is)))
     (remdups (map (or_zone \<circ> in_row) is))"

definition reload_outputs :: "output_row list option \<Rightarrow> bool oprog" where
  "reload_outputs rows =
     (case rows of None \<Rightarrow> ret False
      | Some rs \<Rightarrow>
        (let is = map parse_instance rs in
         if None \<in> set is then ret False
         else do {
           modify (\<lambda>m. m\<lparr>om_by_zone := group_by_zone (map the is)\<rparr>);
           prune_demands (map or_id rs);
           prune_failed (map or_id rs);
           ret True
         }))"

fun run_out_callback :: "out_callback \<Rightarrow> unit oprog" where
  "run_out_callback (CbRunStop i act s) = do {
     m \<leftarrow> gets id;
     run_stop i act s (om_now m + om_stop_verify_window m)
   }"
| "run_out_callback (CbVerifyStop i act s verify_until) = verify_stop i act s verify_until"

end
