(* ===== verification/Alarm_Output_Laws.thy ===== *)
theory Alarm_Output_Laws
  imports Alarm_Outputs
begin

text \<open>
  The guarantees of the output drivers over every sequence of port calls, scheduler callbacks
  and changes of the environment, each taken as a whole.
\<close>

section \<open>The driver as a transition system\<close>

datatype out_call =
    CallFire string alarm_incident fire_options
  | CallStop string int
  | CallAdopt string int "string list"
  | CallUnowned string
  | CallChirp string chirp_request
  | CallTest string bool
  | CallReload "output_row list option"
  | CallShutdown
  | CallStopWatchdogs

definition discard :: "'a oprog \<Rightarrow> unit oprog" where
  "discard p = do { _ \<leftarrow> p; skip }"

fun out_program :: "out_call \<Rightarrow> unit oprog" where
  "out_program (CallFire zone inc opts) = discard (fire_cycle_outputs zone inc opts)"
| "out_program (CallStop zone incident) = discard (stop_all_outputs zone incident)"
| "out_program (CallAdopt zone incident outputs) = adopt_bounded zone incident outputs"
| "out_program (CallUnowned zone) = stop_unowned zone"
| "out_program (CallChirp zone req) = chirp_outputs zone req"
| "out_program (CallTest output optical_only) = discard (test_fire output optical_only)"
| "out_program (CallReload rows) = discard (reload_outputs rows)"
| "out_program CallShutdown = shutdown"
| "out_program CallStopWatchdogs = stop_watchdogs"

definition exec_out :: "unit oprog \<Rightarrow> manager \<Rightarrow> manager" where
  "exec_out p m = snd (run_state p m)"

text \<open>
  A callback is taken from the schedule when it is due, and a cancelled one may run all the same;
  between two calls time passes, devices change and the engine writes incidents.
\<close>

inductive ostep :: "manager \<Rightarrow> manager \<Rightarrow> bool" where
  ostep_call: "ostep m (exec_out (out_program c) m)"
| ostep_callback: "(cb, t) \<in> set (om_sched m) \<Longrightarrow> t \<le> om_now m
    \<Longrightarrow> ostep m (exec_out (run_out_callback cb) (m\<lparr>om_sched := remove1 (cb, t) (om_sched m)\<rparr>))"
| ostep_late: "(cb, t) \<in> set (om_late m) \<Longrightarrow> t \<le> om_now m
    \<Longrightarrow> ostep m (exec_out (run_out_callback cb) (m\<lparr>om_late := remove1 (cb, t) (om_late m)\<rparr>))"
| ostep_world: "om_now m \<le> t
    \<Longrightarrow> ostep m (m\<lparr>om_now := t, om_devices := devs, om_incidents := tbl, om_faults := fs\<rparr>)"

definition ostart :: "manager \<Rightarrow> bool" where
  "ostart m \<longleftrightarrow> (\<exists>d b w devs tbl. m = new_manager d b w devs tbl)"

section \<open>The watchdog invariant\<close>

definition pending_stop :: "activation \<Rightarrow> manager \<Rightarrow> bool" where
  "pending_stop act m \<longleftrightarrow> (\<exists>(cb, t) \<in> set (om_sched m).
     cb_activation cb = act \<and> t \<le> om_now m + secs max_optical_seconds)"

text \<open>The last report of the fleet-wide and of the zone-scoped health signal.\<close>

fun reported :: "out_effect list \<Rightarrow> bool" where
  "reported [] = True"
| "reported (OHealth ok # tr) = ok"
| "reported (_ # tr) = reported tr"

fun zone_reported :: "string \<Rightarrow> out_effect list \<Rightarrow> bool" where
  "zone_reported z [] = True"
| "zone_reported z (OZoneHealth z' ok # tr) = (if z' = z then ok else zone_reported z tr)"
| "zone_reported z (_ # tr) = zone_reported z tr"

definition watched :: "activation set \<Rightarrow> manager \<Rightarrow> bool" where
  "watched S m \<longleftrightarrow> distinct (keys (om_active m))
     \<and> (\<forall>(output, act) \<in> set (om_active m). ac_output act = output \<and> (act \<in> S \<or> pending_stop act m))"

definition health_honest :: "manager \<Rightarrow> bool" where
  "health_honest m \<longleftrightarrow> reported (om_trace m) = (om_failed m = [])
     \<and> (\<forall>z. zone_reported z (om_trace m) \<longrightarrow> \<not> zone_still_failed z m)"

definition zones_sorted_out :: "manager \<Rightarrow> bool" where
  "zones_sorted_out m \<longleftrightarrow> (\<forall>(z, is) \<in> set (om_by_zone m). \<forall>i \<in> set is. or_zone (in_row i) = z)"

text \<open>The invariant, with a set of activations whose stop is just being rescheduled.\<close>

definition inv_but :: "activation set \<Rightarrow> manager \<Rightarrow> bool" where
  "inv_but S m \<longleftrightarrow> watched S m \<and> health_honest m \<and> zones_sorted_out m"

abbreviation okeeps :: "activation set \<Rightarrow> 'a oprog \<Rightarrow> bool" where
  "okeeps S \<equiv> keeps (inv_but S)"

lemma keeps_discard [keeps_intros]: "keeps P p \<Longrightarrow> keeps P (discard p)"
  unfolding discard_def by (intro keeps_intros)

section \<open>Primitive programs\<close>

fun health_effect :: "out_effect \<Rightarrow> bool" where
  "health_effect (OHealth _) = True"
| "health_effect (OZoneHealth _ _) = True"
| "health_effect _ = False"

lemma reported_other [simp]: "\<not> health_effect x \<Longrightarrow> reported (x # tr) = reported tr"
  by (cases x) auto

lemma zone_reported_other [simp]: "\<not> health_effect x \<Longrightarrow> zone_reported z (x # tr) = zone_reported z tr"
  by (cases x) auto

lemmas inv_defs = inv_but_def watched_def health_honest_def zones_sorted_out_def pending_stop_def
  zone_still_failed_def

text \<open>An update of the other fields changes nothing the invariant reads.\<close>

lemma inv_frame:
  assumes "inv_but S m" and "om_by_zone m' = om_by_zone m" "om_active m' = om_active m" "om_failed m' = om_failed m"
    "om_sched m' = om_sched m" "om_trace m' = om_trace m" "om_now m \<le> om_now m'"
  shows "inv_but S m'"
  using assms unfolding inv_defs by (fastforce intro: order_trans)

lemma inv_emit: "\<not> health_effect x \<Longrightarrow> inv_but S m \<Longrightarrow> inv_but S (m\<lparr>om_trace := x # om_trace m\<rparr>)"
  by (simp add: inv_defs)

lemma okeeps_emit [keeps_intros]: "\<not> health_effect x \<Longrightarrow> okeeps S (o_emit x)"
  by (auto simp: keeps_def o_emit_def wp_simps intro: inv_emit)

lemma okeeps_fails [keeps_intros]: "okeeps S o_fails"
  by (auto simp: keeps_def o_fails_def wp_simps split: list.split elim: inv_frame)

lemma okeeps_write [keeps_intros]: "okeeps S (write_device i x)"
  unfolding write_device_def by (intro keeps_intros) simp

lemma okeeps_journal [keeps_intros]: "okeeps S (o_journal c zone event output incident)"
  unfolding o_journal_def by (intro keeps_intros) simp

lemma update_not_nil [simp]: "AList.update k v m \<noteq> []"
  by (cases m) auto

lemma zone_still_failed_iff: "zone_still_failed z m \<longleftrightarrow> z \<in> snd ` set (om_failed m)"
  by (force simp: zone_still_failed_def list_ex_iff)

lemma inv_failed:
  assumes "inv_but S m" and "om_by_zone m' = om_by_zone m" "om_active m' = om_active m" "om_now m' = om_now m"
    "om_sched m' = om_sched m" "health_honest m'"
  shows "inv_but S m'"
  using assms by (simp add: inv_but_def watched_def zones_sorted_out_def pending_stop_def)

lemma inv_trace: "inv_but S m \<Longrightarrow> health_honest (m\<lparr>om_trace := tr\<rparr>) \<Longrightarrow> inv_but S (m\<lparr>om_trace := tr\<rparr>)"
  by (erule inv_failed) simp_all

lemma inv_honest: "inv_but S m \<Longrightarrow> health_honest m"
  by (simp add: inv_but_def)

lemma okeeps_note_failure [keeps_intros]: "okeeps S (note_failure output zone)"
  unfolding keeps_def
proof (intro allI impI)
  fix m assume I: "inv_but S m"
  define m1 where "m1 = m\<lparr>om_failed := AList.update output zone (om_failed m),
    om_trace := OZoneHealth zone False # OHealth False # om_trace m\<rparr>"
  from inv_honest[OF I] have "health_honest m1"
    by (auto simp: m1_def health_honest_def zone_still_failed_iff dest!: set_update_vals)
  then have "inv_but S m1" by (intro inv_failed[OF I]) (simp_all add: m1_def)
  then show "wp (note_failure output zone) (\<lambda>_. inv_but S) m"
    by (simp add: note_failure_def o_emit_def wp_simps m1_def)
qed

lemma okeeps_output_failed [keeps_intros]: "okeeps S (output_failed zone event output incident)"
  unfolding output_failed_def by (intro keeps_intros)

lemma honest_shrink:
  assumes "health_honest m" and "om_trace m' = om_trace m" and "set (om_failed m') \<subseteq> set (om_failed m)"
    and "om_failed m' = [] \<longleftrightarrow> om_failed m = []"
  shows "health_honest m'"
  using assms by (auto simp: health_honest_def zone_still_failed_iff)

lemma honest_recovered:
  assumes "health_honest m" and "om_trace m' = OHealth True # om_trace m" and "om_failed m' = []"
  shows "health_honest m'"
  using assms by (auto simp: health_honest_def zone_still_failed_iff)

lemma honest_zone:
  assumes "health_honest m" and "\<not> zone_still_failed zone m"
  shows "health_honest (m\<lparr>om_trace := OZoneHealth zone True # om_trace m\<rparr>)"
  using assms by (auto simp: health_honest_def zone_still_failed_iff)

text \<open>Removing failures and reporting what is due keeps the signals honest.\<close>

lemma honest_after_removal:
  assumes "health_honest m" and "set f \<subseteq> set (om_failed m)" and "f = [] \<longrightarrow> report \<or> om_failed m = []"
    and "report \<longrightarrow> f = []"
  shows "health_honest (m\<lparr>om_failed := f, om_trace := (if report then OHealth True # om_trace m else om_trace m)\<rparr>)"
  using assms by (auto simp: health_honest_def zone_still_failed_iff)

lemma okeeps_resolve_failure [keeps_intros]: "okeeps S (resolve_failure output zone)"
  unfolding keeps_def
proof (intro allI impI)
  fix m assume I: "inv_but S m"
  define f where "f = AList.delete output (om_failed m)"
  define m1 where "m1 = m\<lparr>om_failed := f, om_trace := (if f = [] then OHealth True # om_trace m else om_trace m)\<rparr>"
  have "set f \<subseteq> set (om_failed m)" by (auto simp: f_def AList.delete_eq)
  then have H: "health_honest m1"
    unfolding m1_def by (rule honest_after_removal[OF inv_honest[OF I]]) auto
  then have I1: "inv_but S m1" by (intro inv_failed[OF I]) (simp_all add: m1_def)
  moreover from H have "inv_but S (m1\<lparr>om_trace := OZoneHealth zone True # om_trace m1\<rparr>)" if "\<not> zone_still_failed zone m1"
    using that by (intro inv_trace[OF I1] honest_zone)
  moreover have "zone_still_failed zone m1 = zone_still_failed zone (m\<lparr>om_failed := f\<rparr>)"
    by (simp add: m1_def zone_still_failed_def)
  ultimately show "wp (resolve_failure output zone) (\<lambda>_. inv_but S) m"
    by (cases "f = []") (auto simp: wp_simps resolve_failure_def o_emit_def m1_def f_def)
qed

lemma okeeps_zone_recovered:
  assumes "inv_but S m" and "\<And>z. z \<in> set zs \<Longrightarrow> \<not> zone_still_failed z m"
  shows "wp (forS zs (\<lambda>z. o_emit (OZoneHealth z True))) (\<lambda>_. inv_but S) m"
proof -
  have "wp (forS zs (\<lambda>z. o_emit (OZoneHealth z True))) (\<lambda>_ s. inv_but S s \<and> om_failed s = om_failed m) m"
  proof (rule wp_forS)
    fix z s assume "z \<in> set zs" and s: "inv_but S s \<and> om_failed s = om_failed m"
    with assms(2) have "\<not> zone_still_failed z s" by (simp add: zone_still_failed_def)
    with s show "wp (o_emit (OZoneHealth z True)) (\<lambda>_ s. inv_but S s \<and> om_failed s = om_failed m) s"
      by (auto simp: o_emit_def wp_simps intro: inv_trace honest_zone dest: inv_honest)
  qed (use assms in simp)
  then show ?thesis by (rule wp_mono) simp
qed

lemma okeeps_prune_failed [keeps_intros]: "okeeps S (prune_failed ids)"
  unfolding keeps_def
proof (intro allI impI)
  fix m assume I: "inv_but S m"
  define f where "f = filter (\<lambda>(i, _). i \<in> set ids) (om_failed m)"
  define gone where "gone = filter (\<lambda>(i, _). i \<notin> set ids) (om_failed m)"
  define r where "r \<longleftrightarrow> gone \<noteq> [] \<and> f = []"
  define m1 where "m1 = m\<lparr>om_failed := f, om_trace := (if r then OHealth True # om_trace m else om_trace m)\<rparr>"
  have "set f \<subseteq> set (om_failed m)" by (auto simp: f_def)
  moreover have "f = [] \<longrightarrow> r \<or> om_failed m = []"
    by (cases "om_failed m") (auto simp: f_def gone_def r_def split: if_splits)
  ultimately have "health_honest m1"
    unfolding m1_def by (rule honest_after_removal[OF inv_honest[OF I]]) (simp add: r_def)
  then have "inv_but S m1" by (auto simp: m1_def intro: inv_failed[OF I])
  moreover have "zone_still_failed z m1 = zone_still_failed z (m\<lparr>om_failed := f\<rparr>)" for z
    by (simp add: m1_def zone_still_failed_def)
  ultimately have "wp (forS (filter (\<lambda>z. \<not> zone_still_failed z (m\<lparr>om_failed := f\<rparr>)) (remdups (map snd gone)))
      (\<lambda>z. o_emit (OZoneHealth z True))) (\<lambda>_. inv_but S) m1"
    by (intro okeeps_zone_recovered) auto
  then show "wp (prune_failed ids) (\<lambda>_. inv_but S) m"
    by (cases r) (auto simp: wp_simps prune_failed_def Let_def o_emit_def m1_def r_def
        f_def[symmetric] gone_def[symmetric])
qed

lemma okeeps_demand [keeps_intros]:
  "okeeps S (note_demand i)" "okeeps S (drop_demand output)" "okeeps S (prune_demands ids)"
  by (auto simp: keeps_def note_demand_def drop_demand_def prune_demands_def wp_simps elim: inv_frame)

lemma okeeps_release [keeps_intros]: "okeeps S (release_demand_foreign_remains i)"
  unfolding release_demand_foreign_remains_def by (intro keeps_intros)

lemma okeeps_stopper [keeps_intros]: "okeeps S (run_stopper i s)"
  unfolding run_stopper_def by (intro keeps_intros)

section \<open>Activations and their stops\<close>

lemma inv_active:
  assumes "inv_but S m" and "om_by_zone m' = om_by_zone m" "om_failed m' = om_failed m" "om_trace m' = om_trace m"
    and "watched T m'"
  shows "inv_but T m'"
  using assms by (simp add: inv_defs)

lemma inv_activations: "inv_but S m \<Longrightarrow> watched T (m\<lparr>om_active := a\<rparr>) \<Longrightarrow> inv_but T (m\<lparr>om_active := a\<rparr>)"
  by (erule inv_active) simp_all

lemma inv_watched: "inv_but S m \<Longrightarrow> watched S m"
  by (simp add: inv_but_def)

lemma watched_delete: "watched S m \<Longrightarrow> watched S (m\<lparr>om_active := AList.delete output (om_active m)\<rparr>)"
  by (auto simp: watched_def pending_stop_def AList.delete_eq keys_def distinct_map_filter)

text \<open>Cancelling the callbacks of the activation that holds an output leaves the stops of the other outputs.\<close>

lemma cancel_sel [simp]:
  "om_active (cancel_callbacks acts m) = om_active m" "om_by_zone (cancel_callbacks acts m) = om_by_zone m"
  "om_failed (cancel_callbacks acts m) = om_failed m" "om_trace (cancel_callbacks acts m) = om_trace m"
  "om_now (cancel_callbacks acts m) = om_now m" "om_serial (cancel_callbacks acts m) = om_serial m"
  "om_demands (cancel_callbacks acts m) = om_demands m" "om_devices (cancel_callbacks acts m) = om_devices m"
  "om_incidents (cancel_callbacks acts m) = om_incidents m" "om_faults (cancel_callbacks acts m) = om_faults m"
  "om_max_per_incident (cancel_callbacks acts m) = om_max_per_incident m"
  "om_default_siren (cancel_callbacks acts m) = om_default_siren m"
  "om_stop_verify_window (cancel_callbacks acts m) = om_stop_verify_window m"
  "om_last_chirp (cancel_callbacks acts m) = om_last_chirp m"
  by (simp_all add: cancel_callbacks_def)

lemma pending_cancel:
  "pending_stop act m \<Longrightarrow> act \<notin> set acts \<Longrightarrow> pending_stop act (cancel_callbacks acts m)"
  by (fastforce simp: pending_stop_def cancel_callbacks_def)

lemma pending_sched [simp]:
  "pending_stop act (m\<lparr>om_active := a\<rparr>) = pending_stop act m"
  "pending_stop act (m\<lparr>om_serial := n\<rparr>) = pending_stop act m"
  by (simp_all add: pending_stop_def)

lemma prior_output: "watched S m \<Longrightarrow> act \<in> set (prior_activation output m) \<Longrightarrow> ac_output act = output"
  by (auto simp: prior_activation_def watched_def split: option.splits dest!: map_of_SomeD[OF sym])

lemma update_entries:
  "distinct (keys l) \<Longrightarrow> (k', v') \<in> set (AList.update k v l) \<longleftrightarrow> (if k' = k then v' = v else (k', v') \<in> set l)"
proof -
  assume d: "distinct (keys l)"
  then have "(k', v') \<in> set l \<longleftrightarrow> map_of l k' = Some v'" by (simp add: keys_def)
  moreover have "(k', v') \<in> set (AList.update k v l) \<longleftrightarrow> map_of (AList.update k v l) k' = Some v'"
    by (rule map_of_eq_Some_iff[symmetric]) (use distinct_keys_update[OF d, of k v] in \<open>simp add: keys_def\<close>)
  ultimately show ?thesis by (auto simp: update_conv')
qed

lemma watched_replace:
  assumes "watched S m" and "distinct (keys a)"
    and "\<And>out act. (out, act) \<in> set a \<Longrightarrow> (out, act) \<in> set (om_active m) \<and> out \<noteq> output \<or> act \<in> T \<and> ac_output act = out"
    and "S \<subseteq> T"
  shows "watched T ((cancel_callbacks (prior_activation output m) m)\<lparr>om_active := a\<rparr>)"
proof -
  have "ac_output act = out \<and> (act \<in> T \<or> pending_stop act (cancel_callbacks (prior_activation output m) m))"
    if "(out, act) \<in> set a" for out act
    using assms(3) [OF that] assms(1,4) prior_output [OF assms(1), of act "output"]
    by (fastforce simp: watched_def intro: pending_cancel)
  then show ?thesis using assms(2) by (auto simp: watched_def)
qed

lemma okeeps_cancel [keeps_intros]: "okeeps S (cancel_watchdog output)"
proof (rule keepsI)
  fix m assume I: "inv_but S m"
  have "watched S ((cancel_callbacks (prior_activation output m) m)\<lparr>om_active := AList.delete output (om_active m)\<rparr>)"
    using watched_delete [OF inv_watched [OF I]]
    by (intro watched_replace [OF inv_watched [OF I]]) (auto simp: AList.delete_eq watched_def)
  then show "wp (cancel_watchdog output) (\<lambda>_. inv_but S) m"
    by (auto simp: cancel_watchdog_def wp_simps intro: inv_active [OF I])
qed

lemma okeeps_stop_watchdogs [keeps_intros]: "okeeps S stop_watchdogs"
  by (auto simp: keeps_def stop_watchdogs_def wp_simps watched_def keys_def intro: inv_active)

lemma watched_not_current:
  assumes "watched {act} m" and "\<not> is_current act m"
  shows "watched {} m"
  using assms unfolding watched_def is_current_def keys_def by (force simp: map_of_eq_Some_iff)

lemma wp_clear: "inv_but {act} m \<Longrightarrow> wp (clear_activation act) (\<lambda>_. inv_but {}) m"
proof -
  assume I: "inv_but {act} m"
  have "watched {} (m\<lparr>om_active := AList.delete (ac_output act) (om_active m)\<rparr>)" if "is_current act m"
    by (rule watched_not_current[OF watched_delete[OF inv_watched[OF I]]]) (simp add: is_current_def)
  with I show ?thesis
    by (auto simp: clear_activation_def wp_simps intro: inv_active watched_not_current dest: inv_watched)
qed

lemma wp_new_activation:
  assumes "inv_but {} m"
  shows "wp (new_activation i incident) (\<lambda>act. inv_but {act}) m"
proof -
  define act where "act = \<lparr>ac_serial = om_serial m, ac_output = or_id (in_row i), ac_zone = or_zone (in_row i),
    ac_incident = incident\<rparr>"
  have "watched {act} ((cancel_callbacks (prior_activation (or_id (in_row i)) m) m)\<lparr>om_active := AList.update (or_id (in_row i)) act (om_active m)\<rparr>)"
    using inv_watched[OF assms]
    by (intro watched_replace[where S = "{}"]) (auto simp: watched_def act_def distinct_keys_update update_entries split: if_splits)
  then have "watched {act} ((cancel_callbacks (prior_activation (or_id (in_row i)) m) m)\<lparr>om_serial := om_serial m + 1,
      om_active := AList.update (or_id (in_row i)) act (om_active m)\<rparr>)"
    by (simp add: watched_def pending_stop_def)
  then show ?thesis
    by (auto simp: new_activation_def wp_simps Let_def act_def intro: inv_active[OF assms])
qed

lemma wp_schedule:
  assumes "inv_but {act} m" and "cb_activation cb = act" and "d \<le> secs max_optical_seconds"
  shows "wp (o_schedule d cb) (\<lambda>_. inv_but {}) m"
proof -
  have "watched {} (m\<lparr>om_sched := (cb, om_now m + d) # om_sched m\<rparr>)"
    using inv_watched[OF assms(1)] assms(2,3) by (fastforce simp: watched_def pending_stop_def)
  then show ?thesis
    by (auto simp: o_schedule_def wp_simps intro: inv_active[OF assms(1)])
qed

lemma okeeps_arm [keeps_intros]:
  "d \<le> secs max_optical_seconds \<Longrightarrow> okeeps {} (arm_stop_watchdog i incident d s)"
  unfolding keeps_def arm_stop_watchdog_def wp_bind
  by (blast intro: wp_mono[OF wp_new_activation] wp_schedule cb_activation.simps)

text \<open>The verify pass that follows a stop write, from either side.\<close>

lemma interval_le: "stop_verify_interval \<le> secs max_optical_seconds"
  by (simp add: stop_verify_interval_def max_optical_seconds_def)

lemma wp_reschedule:
  assumes "inv_but {act} m"
  shows "wp (whenS (is_current act m) (o_schedule stop_verify_interval (CbVerifyStop i act s u))) (\<lambda>_. inv_but {}) m"
  using assms by (auto simp: wp_simps interval_le intro: wp_schedule inv_active watched_not_current dest: inv_watched)

lemma wp_run_stop: "inv_but {act} m \<Longrightarrow> wp (run_stop i act s u) (\<lambda>_. inv_but {}) m"
  unfolding run_stop_def wp_bind
proof (erule keeps_wp[OF okeeps_release])
  fix foreign m assume I: "inv_but {act} m"
  show "wp (if foreign then clear_activation act else do {
       ok \<leftarrow> run_stopper i s;
       whenS (\<not> ok) (output_failed (ac_zone act) ''output_stop_failed'' (ac_output act) (ac_incident act));
       m \<leftarrow> gets id;
       whenS (is_current act m) (o_schedule stop_verify_interval (CbVerifyStop i act s u))
     }) (\<lambda>_. inv_but {}) m"
  proof (cases foreign)
    case False
    have "wp (run_stopper i s) (\<lambda>ok. wp (whenS (\<not> ok) (output_failed (ac_zone act) ''output_stop_failed'' (ac_output act) (ac_incident act)))
       (\<lambda>_. wp (gets id) (\<lambda>m. wp (whenS (is_current act m) (o_schedule stop_verify_interval (CbVerifyStop i act s u)))
       (\<lambda>_. inv_but {})))) m"
      by (rule keeps_wp[OF okeeps_stopper I], rule keeps_wp[OF keeps_whenS[OF okeeps_output_failed]])
        (auto simp: wp_gets intro: wp_reschedule)
    with False show ?thesis by (simp add: wp_post)
  qed (use wp_clear[OF I] in simp)
qed

lemma wp_clear_then:
  "inv_but {act} m \<Longrightarrow> okeeps {} q \<Longrightarrow> wp (do { clear_activation act; q }) (\<lambda>_. inv_but {}) m"
  by (auto simp: wp_bind intro: wp_mono[OF wp_clear] keepsD)

lemma wp_verify_stop: "inv_but {act} m \<Longrightarrow> wp (verify_stop i act s u) (\<lambda>_. inv_but {}) m"
  unfolding verify_stop_def wp_bind[of "gets id"] wp_gets
  by (auto intro!: wp_run_stop wp_clear_then keeps_intros)

lemma okeeps_stop_and_verify [keeps_intros]: "okeeps {} (stop_and_verify i incident)"
proof -
  have verify: "wp (run_stopper i s) (\<lambda>ok. wp (gets id) (\<lambda>m. wp (whenS (is_current act m)
      (o_schedule stop_verify_interval (CbVerifyStop i act s (om_now m + om_stop_verify_window m))))
      (\<lambda>_. wp (ret ok) (\<lambda>_. inv_but {})))) m" if "inv_but {act} m" for act s m
    using that by (rule keeps_wp[OF okeeps_stopper]) (auto simp: wp_gets wp_post intro: wp_reschedule)
  have "wp (do {
            act \<leftarrow> new_activation i incident;
            ok \<leftarrow> run_stopper i s;
            m \<leftarrow> gets id;
            whenS (is_current act m)
              (o_schedule stop_verify_interval (CbVerifyStop i act s (om_now m + om_stop_verify_window m)));
            ret ok
          }) (\<lambda>_. inv_but {}) m" if "inv_but {} m" for s m
    unfolding wp_bind by (rule wp_mono[OF wp_new_activation[OF that]]) (rule verify)
  then have stop: "okeeps {} (do {
            act \<leftarrow> new_activation i incident;
            ok \<leftarrow> run_stopper i s;
            m \<leftarrow> gets id;
            whenS (is_current act m)
              (o_schedule stop_verify_interval (CbVerifyStop i act s (om_now m + om_stop_verify_window m)));
            ret ok
          })" for s
    by (simp add: keeps_def)
  have "okeeps {} (do { cancel_watchdog (or_id (in_row i)); ret True })"
    by (intro keeps_intros)
  with stop show ?thesis
    unfolding stop_and_verify_def
    by (cases "stopper_for (or_class (in_row i))")
      (auto intro: keeps_ret intro!: keeps_bind[OF okeeps_release])
qed

section \<open>Durations\<close>

lemma acoustic_duration_le: "acoustic_duration c d \<le> secs max_acoustic_seconds"
  by (simp add: acoustic_duration_def Let_def)

lemma acoustic_duration_pos: "0 < acoustic_duration c d"
  by (simp add: acoustic_duration_def Let_def max_acoustic_seconds_def default_siren_seconds_def)

lemma optical_duration_le: "optical_duration c \<le> secs max_optical_seconds"
  by (simp add: optical_duration_def Let_def)

lemma acoustic_le_optical: "d \<le> secs max_acoustic_seconds \<Longrightarrow> d \<le> secs max_optical_seconds"
  by (simp add: max_acoustic_seconds_def max_optical_seconds_def secs_def go_second_def)

lemma on_duration_optical [simp]:
  "on_duration (optical_on dev c fires on) = (if fires then on_duration on else optical_duration c)"
  by (simp add: optical_on_def Let_def split: option.split)

lemma on_duration_acoustic [simp]: "on_duration (acoustic_on c d) = d"
  by (simp add: acoustic_on_def Let_def)

text \<open>What a reservation grants never exceeds what was asked for nor what was left.\<close>

lemma wp_reserve_grant:
  assumes "0 \<le> d" and "0 \<le> remaining"
    and "\<And>m'. Q (Inl ()) m'"
    and "\<And>g m'. 0 \<le> g \<Longrightarrow> g \<le> d \<Longrightarrow> g \<le> remaining \<Longrightarrow> Q (Inr (g, remaining - g)) m'"
  shows "wp (reserve_acoustic incident remaining d) Q m"
  using assms(1,2) assms(4)[of 0] assms(4)[of remaining] assms(4)[of d]
  by (auto simp: reserve_acoustic_def wp_simps o_fails_def o_emit_def Let_def assms(3) split: list.split)

section \<open>Every call keeps the invariant\<close>

lemma okeeps_reserve [keeps_intros]: "okeeps S (reserve_acoustic incident remaining d)"
proof -
  have "okeeps S (modify (\<lambda>m. m\<lparr>om_incidents := f (om_incidents m)\<rparr>))" for f
    by (auto simp: keeps_def wp_simps elim: inv_frame)
  then show ?thesis
    unfolding reserve_acoustic_def by (intro keeps_intros) auto
qed

text \<open>The same for programs whose answer matters.\<close>

definition ogives :: "activation set \<Rightarrow> ('a \<Rightarrow> bool) \<Rightarrow> 'a oprog \<Rightarrow> bool" where
  "ogives S R p \<longleftrightarrow> (\<forall>m. inv_but S m \<longrightarrow> wp p (\<lambda>a m'. inv_but S m' \<and> R a) m)"

named_theorems ogives_intros \<open>programs that keep the invariant and give a good answer\<close>

lemma ogives_ret [ogives_intros]: "R a \<Longrightarrow> ogives S R (State_Monad.return a)"
  by (simp add: ogives_def wp_simps)

lemma ogives_if [ogives_intros]: "(b \<Longrightarrow> ogives S R p) \<Longrightarrow> (\<not> b \<Longrightarrow> ogives S R q) \<Longrightarrow> ogives S R (if b then p else q)"
  by simp

lemma ogives_option [ogives_intros]:
  "(x = None \<Longrightarrow> ogives S R p) \<Longrightarrow> (\<And>a. x = Some a \<Longrightarrow> ogives S R (q a)) \<Longrightarrow> ogives S R (case x of None \<Rightarrow> p | Some a \<Rightarrow> q a)"
  by (cases x) auto

lemma ogives_let [ogives_intros]: "ogives S R (f x) \<Longrightarrow> ogives S R (let y = x in f y)"
  by simp

lemma ogives_bind: "ogives S Q p \<Longrightarrow> (\<And>a. Q a \<Longrightarrow> ogives S R (f a)) \<Longrightarrow> ogives S R (State_Monad.bind p f)"
  unfolding ogives_def wp_bind by (intro allI impI, elim allE impE, assumption, erule wp_mono) simp

lemma ogives_after: "okeeps S p \<Longrightarrow> (\<And>a. ogives S R (f a)) \<Longrightarrow> ogives S R (State_Monad.bind p f)"
  unfolding ogives_def keeps_def wp_bind by (intro allI impI, elim allE impE, assumption, erule wp_mono) simp

lemma ogives_gets [ogives_intros]: "(\<And>a. ogives S R (f a)) \<Longrightarrow> ogives S R (State_Monad.bind (gets g) f)"
  by (rule ogives_after[OF keeps_gets])

lemma keeps_ogives: "okeeps S p \<Longrightarrow> ogives S (\<lambda>_. True) p"
  by (simp add: ogives_def keeps_def)

lemma ogives_keeps: "ogives S R p \<Longrightarrow> okeeps S p"
  unfolding ogives_def keeps_def by (intro allI impI, elim allE impE, assumption, erule wp_mono) simp

text \<open>A reservation grants no more than was asked for and than is left.\<close>

definition granted :: "duration \<Rightarrow> duration \<Rightarrow> unit + duration \<times> duration \<Rightarrow> bool" where
  "granted remaining d r \<longleftrightarrow> r = Inl () \<or> (\<exists>g. r = Inr (g, remaining - g) \<and> 0 \<le> g \<and> g \<le> d \<and> g \<le> remaining)"

lemma ogives_reserve:
  assumes "0 \<le> d" and "0 \<le> remaining"
  shows "ogives S (granted remaining d) (reserve_acoustic incident remaining d)"
  unfolding ogives_def
proof (intro allI impI, rule wp_conj)
  show "wp (reserve_acoustic incident remaining d) (\<lambda>r _. granted remaining d r) m" for m
    by (rule wp_reserve_grant) (use assms in \<open>auto simp: granted_def\<close>)
qed (rule keepsD[OF okeeps_reserve])

abbreviation left_ok :: "'a \<times> duration \<Rightarrow> bool" where
  "left_ok r \<equiv> 0 \<le> snd r"

lemma okeeps_granted:
  assumes "granted remaining (acoustic_duration c e) r"
    and "0 \<le> remaining"
    and "\<And>g. r = Inr (g, remaining - g) \<Longrightarrow> 0 \<le> remaining - g \<Longrightarrow> 0 \<le> g \<Longrightarrow> g \<le> secs max_optical_seconds
      \<Longrightarrow> ogives S left_ok (q g (remaining - g))"
    and "ogives S left_ok p"
  shows "ogives S left_ok (case r of Inl _ \<Rightarrow> p | Inr (d, left) \<Rightarrow> q d left)"
  using assms acoustic_duration_le[of c e]
  by (auto simp: granted_def split: sum.split intro!: acoustic_le_optical intro: order_trans)

lemma fire_switched_ok: "0 \<le> remaining \<Longrightarrow> ogives {} left_ok (fire_switched_siren i incident remaining)"
  unfolding fire_switched_siren_def
  by (intro ogives_intros ogives_bind[OF ogives_reserve] okeeps_granted)
    (auto intro!: ogives_intros ogives_after keeps_intros simp: less_imp_le[OF acoustic_duration_pos])

lemma fire_smoke_ok: "0 \<le> remaining \<Longrightarrow> ogives {} left_ok (fire_smoke_sounder i incident remaining)"
  unfolding fire_smoke_sounder_def
  by (intro ogives_intros ogives_bind[OF ogives_reserve] okeeps_granted)
    (auto intro!: ogives_intros ogives_after keeps_intros simp: less_imp_le[OF acoustic_duration_pos])

definition on_bounded :: "unit + on_config \<times> bool \<times> duration \<Rightarrow> bool" where
  "on_bounded r \<longleftrightarrow> (case r of Inl _ \<Rightarrow> True
     | Inr (on, fires, left) \<Rightarrow> 0 \<le> left \<and> (fires \<longrightarrow> on_duration on \<le> secs max_optical_seconds))"

lemma siren_on_ok: "0 \<le> remaining \<Longrightarrow> ogives {} on_bounded (siren_on_config dev ch incident remaining)"
proof (cases "sch_acoustic ch")
  case None
  assume "0 \<le> remaining"
  with None show ?thesis
    unfolding siren_on_config_def
    by (auto simp: on_bounded_def Let_def optical_duration_le split: option.split
        intro!: ogives_intros ogives_bind[of _ "\<lambda>r. r = Inr (0, remaining)"])
next
  case (Some a)
  assume rem: "0 \<le> remaining"
  have noted: "ogives {} (granted remaining (acoustic_duration (in_cfg a) e)) (do {
               r \<leftarrow> reserve_acoustic incident remaining (acoustic_duration (in_cfg a) e);
               (case r of Inr (d, _) \<Rightarrow>
                  whenS (d \<le> 0) (o_journal JFault (or_zone (in_row a)) ''acoustic_budget_exhausted''
                    (or_id (in_row a)) incident)
                | Inl _ \<Rightarrow> skip);
               ret r
             })" for e
    by (rule ogives_bind[OF ogives_reserve])
      (auto simp: rem less_imp_le[OF acoustic_duration_pos] split: sum.split
        intro!: ogives_after ogives_ret keeps_intros)
  have short: "g \<le> secs max_optical_seconds" if "g \<le> acoustic_duration (in_cfg a) e" for g e
    using that acoustic_duration_le[of "in_cfg a" e] by (intro acoustic_le_optical) simp
  show ?thesis
    unfolding siren_on_config_def Some option.case
    by (intro ogives_gets, rule ogives_bind[OF noted])
      (auto simp: granted_def Let_def on_bounded_def optical_duration_le short rem intro!: ogives_ret split: option.split)
qed

lemma fire_siren_ok: "0 \<le> remaining \<Longrightarrow> ogives {} left_ok (fire_siren_channel ch incident remaining)"
  unfolding fire_siren_channel_def
  by (intro ogives_intros ogives_bind[OF siren_on_ok])
    (auto simp: on_bounded_def split: sum.split prod.split intro!: ogives_intros ogives_after keeps_intros)

lemma fire_light_ok [keeps_intros]: "okeeps {} (fire_alarm_light i)"
  unfolding fire_alarm_light_def by (intro keeps_intros)

lemma fire_one_ok: "0 \<le> remaining \<Longrightarrow> ogives {} left_ok (fire_one eligible inc i remaining)"
proof -
  assume rem: "0 \<le> remaining"
  have again: "ogives {} left_ok (do { (ok, left) \<leftarrow> p; ret (f ok, left) })" if "ogives {} left_ok p"
    for p :: "(bool \<times> duration) oprog" and f :: "bool \<Rightarrow> (bool \<times> instance_rec list) option"
    by (rule ogives_bind[OF that]) (auto intro!: ogives_ret)
  show ?thesis
    unfolding fire_one_def Let_def
    by (cases "or_class (in_row i)")
      (use rem in \<open>auto intro!: ogives_intros ogives_after keeps_intros again fire_siren_ok fire_switched_ok fire_smoke_ok\<close>)
qed

lemma report_fire_ok [keeps_intros]: "okeeps {} (report_fire zone incident r)"
  by (cases r) (auto simp: report_fire_def intro!: keeps_intros split: bool.split)

lemma fire_loop_ok: "0 \<le> remaining \<Longrightarrow> okeeps {} (fire_loop zone eligible inc is remaining)"
proof (induction "is" arbitrary: remaining)
  case (Cons i "is")
  have "ogives {} (\<lambda>_. True) (fire_loop zone eligible inc (i # is) remaining)"
    unfolding fire_loop.simps
    by (rule ogives_bind[OF fire_one_ok[OF Cons.prems]])
      (auto intro!: ogives_after ogives_ret keeps_intros Cons.IH)
  then show ?case by (rule ogives_keeps)
qed (auto intro: keeps_intros)

lemma fire_cycle_ok [keeps_intros]: "okeeps {} (fire_cycle_outputs zone inc opts)"
proof -
  have "ogives {} (\<lambda>r. 0 \<le> r) (acoustic_budget inc)"
    unfolding acoustic_budget_def
    by (intro ogives_gets ogives_after ogives_ret keeps_intros) simp
  then have "ogives {} (\<lambda>_. True) (fire_cycle_outputs zone inc opts)"
    unfolding fire_cycle_outputs_def Let_def
    by (intro ogives_gets) (rule ogives_bind, assumption, intro keeps_ogives fire_loop_ok)
  then show ?thesis by (rule ogives_keeps)
qed

lemma stop_loop_ok [keeps_intros]: "okeeps {} (stop_loop zone incident is)"
  by (induction "is") (auto intro!: keeps_intros)

lemma stop_all_ok [keeps_intros]: "okeeps {} (stop_all_outputs zone incident)"
  unfolding stop_all_outputs_def by (intro keeps_intros)

lemma adopt_ok [keeps_intros]: "okeeps {} (adopt_bounded zone incident outputs)"
proof -
  have table: "okeeps S (modify (\<lambda>m. m\<lparr>om_incidents := f (om_incidents m)\<rparr>))" for f S
    by (auto simp: keeps_def wp_simps elim: inv_frame)
  have "okeeps {} (adopt_one zone incident i)" for i
    unfolding adopt_one_def Let_def
    by (intro keeps_intros table) (auto intro: acoustic_le_optical acoustic_duration_le)
  then show ?thesis
    unfolding adopt_bounded_def by (intro keeps_intros)
qed

lemma unowned_ok [keeps_intros]: "okeeps {} (stop_unowned zone)"
  unfolding stop_unowned_def by (intro keeps_intros)

lemma chirp_ok [keeps_intros]: "okeeps {} (chirp_outputs zone req)"
proof -
  have emit: "okeeps {} (emit_chirp i kind)" for i kind
    unfolding emit_chirp_def by (intro keeps_intros)
  have stamp: "okeeps {} (modify (\<lambda>m. m\<lparr>om_last_chirp := f m\<rparr>))" for f
    by (auto simp: keeps_def wp_simps elim: inv_frame)
  show ?thesis
    unfolding chirp_outputs_def Let_def by (intro keeps_intros emit stamp)
qed

lemma test_fire_ok [keeps_intros]: "okeeps {} (test_fire output optical_only)"
proof -
  have outcome: "okeeps {} (test_outcome i ok)" for i ok
    unfolding test_outcome_def by (intro keeps_intros)
  have sound: "okeeps {} (test_fire_sound i)" for i
    unfolding test_fire_sound_def by (intro keeps_intros)
  have "test_fire_duration \<le> secs max_optical_seconds"
    by (simp add: test_fire_duration_def max_optical_seconds_def)
  then show ?thesis
    unfolding test_fire_def Let_def by (intro keeps_intros outcome sound)
qed

lemma shutdown_ok [keeps_intros]: "okeeps {} shutdown"
  unfolding shutdown_def by (intro keeps_intros)

lemma reload_ok [keeps_intros]: "okeeps {} (reload_outputs rows)"
proof -
  have "okeeps {} (modify (\<lambda>m. m\<lparr>om_by_zone := group_by_zone is\<rparr>))" for "is"
    by (auto simp: keeps_def wp_simps inv_defs group_by_zone_def)
  then show ?thesis
    unfolding reload_outputs_def Let_def by (intro keeps_intros)
qed

lemma out_program_ok: "okeeps {} (out_program c)"
  by (cases c) (auto intro: keeps_intros)

section \<open>The driver satisfies its invariant\<close>

lemma inv_take_callback:
  assumes "inv_but {} m" and "(cb, t) \<in> set (om_sched m)"
  shows "inv_but {cb_activation cb} (m\<lparr>om_sched := remove1 (cb, t) (om_sched m)\<rparr>)"
proof -
  have "act = cb_activation cb \<or> pending_stop act (m\<lparr>om_sched := remove1 (cb, t) (om_sched m)\<rparr>)"
    if "pending_stop act m" for act
  proof (cases "act = cb_activation cb")
    case False
    with that obtain cb' t' where "(cb', t') \<in> set (om_sched m)" "cb_activation cb' = act" "cb' \<noteq> cb"
      "t' \<le> om_now m + secs max_optical_seconds"
      by (auto simp: pending_stop_def)
    then show ?thesis by (auto simp: pending_stop_def intro!: bexI[of _ "(cb', t')"])
  qed simp
  then have "watched {cb_activation cb} (m\<lparr>om_sched := remove1 (cb, t) (om_sched m)\<rparr>)"
    using inv_watched[OF assms(1)] by (fastforce simp: watched_def)
  then show ?thesis by (intro inv_active[OF assms(1)]) simp_all
qed

lemma wp_exec: "wp p (\<lambda>_. P) m \<Longrightarrow> P (exec_out p m)"
  by (simp add: wp_def exec_out_def split: prod.splits)

lemma wp_callback: "inv_but {cb_activation cb} m \<Longrightarrow> wp (run_out_callback cb) (\<lambda>_. inv_but {}) m"
  by (cases cb) (auto simp: wp_simps intro: wp_run_stop wp_verify_stop)

interpretation drivers: invariant_system ostart ostep "inv_but {}"
proof
  show "inv_but {} m" if "ostart m" for m
    using that by (auto simp: ostart_def new_manager_def inv_defs keys_def)
  show "inv_but {} m'" if "inv_but {} m" "ostep m m'" for m m'
    using that(2,1)
  proof cases
    case (ostep_call c)
    with that show ?thesis by (simp add: wp_exec keepsD[OF out_program_ok])
  next
    case (ostep_callback cb t)
    with that show ?thesis by (simp add: wp_exec wp_callback inv_take_callback)
  next
    case (ostep_late cb t)
    have "inv_but {cb_activation cb} (m\<lparr>om_late := remove1 (cb, t) (om_late m)\<rparr>)"
      using that(1) by (auto simp: inv_defs)
    with ostep_late show ?thesis by (simp add: wp_exec wp_callback)
  next
    case (ostep_world t devs tbl fs)
    with that show ?thesis by (auto elim: inv_frame)
  qed
qed

section \<open>Shared channels\<close>

text \<open>A call to a device of the channel with the given key.\<close>

fun touches :: "string \<Rightarrow> out_effect \<Rightarrow> bool" where
  "touches key (OWrite _ (central, channel) _ _) = (central @ ''|'' @ channel = key)"
| "touches key _ = False"

text \<open>The demand \<open>r\<close> of output \<open>output\<close> stands, and its channel was not touched since the trace \<open>T\<close>.\<close>

definition undisturbed :: "string \<Rightarrow> demand_rec \<Rightarrow> out_effect list \<Rightarrow> manager \<Rightarrow> bool" where
  "undisturbed output r T m \<longleftrightarrow> (output, r) \<in> set (om_demands m) \<and> filter (touches (dr_channel r)) (om_trace m) = T"

lemma undisturbed_frame:
  assumes "undisturbed output r T m" and "om_demands m' = om_demands m" and "om_trace m' = om_trace m"
  shows "undisturbed output r T m'"
  using assms by (simp add: undisturbed_def)

lemma undisturbed_emit [keeps_intros]: "\<not> touches (dr_channel r) x \<Longrightarrow> keeps (undisturbed output r T) (o_emit x)"
  by (auto simp: keeps_def o_emit_def wp_simps undisturbed_def)

lemma undisturbed_fails [keeps_intros]: "keeps (undisturbed output r T) o_fails"
  by (auto simp: keeps_def o_fails_def wp_simps split: list.split elim: undisturbed_frame)

lemma undisturbed_records [keeps_intros]:
  "keeps (undisturbed output r T) (o_journal c zone event out incident)"
  "keeps (undisturbed output r T) (note_failure out zone)"
  "keeps (undisturbed output r T) (resolve_failure out zone)"
  "keeps (undisturbed output r T) (output_failed zone event out incident)"
  "keeps (undisturbed output r T) (cancel_watchdog out)"
  "keeps (undisturbed output r T) (clear_activation act)"
  "keeps (undisturbed output r T) (new_activation i incident)"
  "keeps (undisturbed output r T) (o_schedule d cb)"
  by (auto simp: keeps_def o_journal_def note_failure_def resolve_failure_def output_failed_def cancel_watchdog_def
      clear_activation_def new_activation_def o_schedule_def o_emit_def wp_simps Let_def undisturbed_def)

lemma undisturbed_stopper:
  assumes "demand_channel_key i \<noteq> dr_channel r"
  shows "keeps (undisturbed output r T) (run_stopper i s)"
  using assms unfolding run_stopper_def write_device_def
  by (intro keeps_intros) (simp add: channel_of_def demand_channel_key_def)

text \<open>
  Releasing the own demand leaves the foreign one, and if the channel is the demanded one, reports it.
\<close>

lemma undisturbed_release:
  assumes "undisturbed output r T m" and "dr_zone r \<noteq> or_zone (in_row i)" and "output \<noteq> or_id (in_row i)"
    and "\<And>foreign m'. undisturbed output r T m' \<Longrightarrow> foreign \<or> demand_channel_key i \<noteq> dr_channel r \<Longrightarrow> Q foreign m'"
  shows "wp (release_demand_foreign_remains i) Q m"
proof -
  let ?m = "m\<lparr>om_demands := AList.delete (or_id (in_row i)) (om_demands m)\<rparr>"
  from assms(1,3) have kept: "(output, r) \<in> set (om_demands ?m)"
    by (auto simp: undisturbed_def AList.delete_eq)
  with assms(1) have "undisturbed output r T ?m" by (simp add: undisturbed_def)
  moreover have "foreign_demand i ?m \<or> demand_channel_key i \<noteq> dr_channel r"
    using kept assms(2) by (force simp: foreign_demand_def list_ex_iff)
  ultimately show ?thesis
    using assms(4) by (simp add: release_demand_foreign_remains_def drop_demand_def wp_simps)
qed

text \<open>The rows whose stop must respect the demand.\<close>

definition other_row :: "string \<Rightarrow> demand_rec \<Rightarrow> instance_rec \<Rightarrow> bool" where
  "other_row output r i \<longleftrightarrow> or_zone (in_row i) \<noteq> dr_zone r \<and> or_id (in_row i) \<noteq> output"

lemma undisturbed_run_stop: 
  assumes "other_row output r i" shows "keeps (undisturbed output r T) (run_stop i act s u)"
  unfolding run_stop_def
proof (rule keepsI, unfold wp_bind[of "release_demand_foreign_remains i"])
  fix m assume "undisturbed output r T m"
  then show "wp (release_demand_foreign_remains i) (\<lambda>foreign. wp (if foreign then clear_activation act else do {
       ok \<leftarrow> run_stopper i s;
       whenS (\<not> ok) (output_failed (ac_zone act) ''output_stop_failed'' (ac_output act) (ac_incident act));
       m \<leftarrow> gets id;
       whenS (is_current act m) (o_schedule stop_verify_interval (CbVerifyStop i act s u))
     }) (\<lambda>_. undisturbed output r T)) m"
    by (rule undisturbed_release) (use assms in \<open>auto simp: other_row_def
      intro!: keepsD[where P = "undisturbed output r T"] keeps_intros undisturbed_stopper\<close>)
qed

lemma undisturbed_verify_stop:
  "other_row output r i \<Longrightarrow> keeps (undisturbed output r T) (verify_stop i act s u)"
  unfolding verify_stop_def by (intro keeps_intros undisturbed_run_stop)

lemma undisturbed_stop_and_verify:
  assumes "other_row output r i" shows "keeps (undisturbed output r T) (stop_and_verify i incident)"
proof (cases "stopper_for (or_class (in_row i))")
  case (Some s)
  have "wp (release_demand_foreign_remains i) (\<lambda>foreign. wp (
          if foreign then do { cancel_watchdog (or_id (in_row i)); ret True }
          else do {
            act \<leftarrow> new_activation i incident;
            ok \<leftarrow> run_stopper i s;
            m \<leftarrow> gets id;
            whenS (is_current act m)
              (o_schedule stop_verify_interval (CbVerifyStop i act s (om_now m + om_stop_verify_window m)));
            ret ok
          }) (\<lambda>_. undisturbed output r T)) m" if "undisturbed output r T m" for m
    using that by (rule undisturbed_release) (use assms in \<open>auto simp: other_row_def
      intro!: keepsD[where P = "undisturbed output r T"] keeps_intros undisturbed_stopper\<close>)
  with Some show ?thesis by (simp add: stop_and_verify_def keeps_def wp_bind)
qed (simp add: stop_and_verify_def keeps_ret)

lemma undisturbed_stop_loop:
  "(\<And>i. i \<in> set is \<Longrightarrow> other_row output r i) \<Longrightarrow> keeps (undisturbed output r T) (stop_loop zone incident is)"
  by (induction "is") (auto intro!: keeps_intros undisturbed_stop_and_verify)

end
