(* ===== verification/Alarm_Budget.thy ===== *)
theory Alarm_Budget
  imports Alarm_Output_Laws
begin

text \<open>
  The acoustic budget of an incident: how long the tones of one fire cycle may sound, and that the
  ledger carries the time before the device is told.
\<close>

section \<open>Reading a trace\<close>

text \<open>
  A write that starts a tone. A siren write is silent when it names the entry with which its device
  disables the acoustic half; a steady light and a stop make no sound.
\<close>

fun loud :: "devices \<Rightarrow> string \<times> string \<Rightarrow> device_write \<Rightarrow> bool" where
  "loud ds (central, channel) (SirenOn on) =
     (case dv_siren ds central channel of None \<Rightarrow> True | Some dev \<Rightarrow> on_acoustic_selection on \<noteq> sd_disable_label dev)"
| "loud ds ch (ActuatorOn d level) = True"
| "loud ds ch SmokeOn = True"
| "loud ds ch (PlayChirp n v) = True"
| "loud ds ch (ActuatorSteady level) = False"
| "loud ds ch TurnOff = False"

text \<open>The time a write asks for; a smoke detector takes none, its watchdog ends the tone.\<close>

fun asked :: "device_write \<Rightarrow> duration option" where
  "asked (SirenOn on) = Some (on_duration on)"
| "asked (ActuatorOn d level) = Some d"
| "asked _ = None"

text \<open>The entry written directly before a loud write carries its time, at most ten minutes.\<close>

definition prepaid :: "int \<Rightarrow> device_write \<Rightarrow> out_effect list \<Rightarrow> bool" where
  "prepaid incident x tr = (case tr of
     OLedger k ms True # _ \<Rightarrow> k = incident \<and> 0 \<le> ms \<and> ms * go_millisecond \<le> secs max_acoustic_seconds
       \<and> (case asked x of None \<Rightarrow> True | Some d \<Rightarrow> ms = d div go_millisecond \<and> d \<le> secs max_acoustic_seconds)
   | _ \<Rightarrow> False)"

fun paid :: "devices \<Rightarrow> int \<Rightarrow> out_effect list \<Rightarrow> bool" where
  "paid ds incident [] = True"
| "paid ds incident (OWrite output ch x ok # tr) = ((loud ds ch x \<longrightarrow> prepaid incident x tr) \<and> paid ds incident tr)"
| "paid ds incident (_ # tr) = paid ds incident tr"

fun booked :: "int \<Rightarrow> out_effect list \<Rightarrow> int" where
  "booked incident [] = 0"
| "booked incident (OLedger k ms ok # tr) = (if ok \<and> k = incident then ms else 0) + booked incident tr"
| "booked incident (_ # tr) = booked incident tr"

fun plain :: "out_effect \<Rightarrow> bool" where
  "plain (OWrite _ _ _ _) = False"
| "plain (OLedger _ _ _) = False"
| "plain _ = True"

lemma paid_plain [simp]: "plain x \<Longrightarrow> paid ds incident (x # tr) = paid ds incident tr"
  by (cases x) auto

lemma booked_plain [simp]: "plain x \<Longrightarrow> booked incident (x # tr) = booked incident tr"
  by (cases x) auto

section \<open>Spending a budget\<close>

text \<open>
  \<open>spent\<close>: since \<open>m0\<close>, every loud write was paid for, what was booked and what remains stay within
  \<open>budget\<close>, and the row of the incident carries what was booked. \<open>paying g\<close>: the last call booked \<open>g\<close>.
\<close>

definition accounts :: "manager \<Rightarrow> int \<Rightarrow> duration \<Rightarrow> duration \<Rightarrow> out_effect list \<Rightarrow> manager \<Rightarrow> bool" where
  "accounts m0 incident budget remaining new m \<longleftrightarrow>
     om_trace m = new @ om_trace m0 \<and> om_devices m = om_devices m0 \<and> paid (om_devices m0) incident new
     \<and> 0 \<le> remaining \<and> booked incident new * go_millisecond + remaining \<le> budget
     \<and> map_option ai_acoustic_ms (incident_get (om_incidents m) incident)
       = map_option (\<lambda>i. ai_acoustic_ms i + booked incident new) (incident_get (om_incidents m0) incident)"

definition spent :: "manager \<Rightarrow> int \<Rightarrow> duration \<Rightarrow> duration \<Rightarrow> manager \<Rightarrow> bool" where
  "spent m0 incident budget remaining m \<longleftrightarrow> (\<exists>new. accounts m0 incident budget remaining new m)"

definition paying :: "manager \<Rightarrow> int \<Rightarrow> duration \<Rightarrow> duration \<Rightarrow> duration \<Rightarrow> manager \<Rightarrow> bool" where
  "paying m0 incident budget remaining g m \<longleftrightarrow>
     (\<exists>new. accounts m0 incident budget remaining (OLedger incident (g div go_millisecond) True # new) m)"

lemma paying_spent: "paying m0 incident budget remaining g m \<Longrightarrow> spent m0 incident budget remaining m"
  by (auto simp: paying_def spent_def)

lemma accounts_frame:
  assumes "accounts m0 incident budget remaining new m" and "om_trace m' = om_trace m" "om_devices m' = om_devices m"
    "om_incidents m' = om_incidents m"
  shows "accounts m0 incident budget remaining new m'"
  using assms by (simp add: accounts_def)

lemma spent_frame:
  assumes "spent m0 incident budget remaining m" and "om_trace m' = om_trace m" "om_devices m' = om_devices m"
    "om_incidents m' = om_incidents m"
  shows "spent m0 incident budget remaining m'"
  using assms by (auto simp: spent_def intro: accounts_frame)

lemma paying_frame:
  assumes "paying m0 incident budget remaining g m" and "om_trace m' = om_trace m" "om_devices m' = om_devices m"
    "om_incidents m' = om_incidents m"
  shows "paying m0 incident budget remaining g m'"
  using assms by (auto simp: paying_def intro: accounts_frame)

lemma spent_emit [keeps_intros]: "plain x \<Longrightarrow> keeps (spent m0 incident budget remaining) (o_emit x)"
proof (rule keepsI)
  fix m assume x: "plain x" and "spent m0 incident budget remaining m"
  then obtain new where "accounts m0 incident budget remaining new m" by (auto simp: spent_def)
  with x have "accounts m0 incident budget remaining (x # new) (m\<lparr>om_trace := x # om_trace m\<rparr>)"
    by (simp add: accounts_def)
  then show "wp (o_emit x) (\<lambda>_. spent m0 incident budget remaining) m"
    by (auto simp: o_emit_def wp_simps spent_def)
qed

text \<open>Bookkeeping of the manager touches neither trace nor table.\<close>

lemma bookkeeping [keeps_intros]:
  "keeps (spent m0 incident budget remaining) (note_demand i)"
  "keeps (spent m0 incident budget remaining) (arm_stop_watchdog i k d s)"
  "keeps (spent m0 incident budget remaining) (cancel_watchdog output)"
  "keeps (spent m0 incident budget remaining) (drop_demand output)"
  "keeps (paying m0 incident budget remaining g) (note_demand i)"
  "keeps (paying m0 incident budget remaining g) (arm_stop_watchdog i k d s)"
  by (auto simp: keeps_def note_demand_def arm_stop_watchdog_def new_activation_def o_schedule_def
      cancel_watchdog_def drop_demand_def wp_simps Let_def elim: spent_frame paying_frame)

lemma spent_journal [keeps_intros]: "keeps (spent m0 incident budget remaining) (o_journal c zone event output k)"
  unfolding o_journal_def by (intro keeps_intros) simp

lemma spent_failed [keeps_intros]: "keeps (spent m0 incident budget remaining) (output_failed zone event output k)"
proof -
  have "keeps (spent m0 incident budget remaining) (modify (\<lambda>m. m\<lparr>om_failed := f m\<rparr>))" for f
    by (auto simp: keeps_def wp_simps elim: spent_frame)
  then show ?thesis
    unfolding output_failed_def note_failure_def by (intro keeps_intros) auto
qed

lemma wp_fails:
  assumes "\<And>b fs. Q b (m\<lparr>om_faults := fs\<rparr>)"
  shows "wp o_fails Q m"
proof -
  have "Q False m" using assms[of False "om_faults m"] by simp
  with assms show ?thesis by (auto simp: o_fails_def wp_simps split: list.split)
qed

lemma wp_write:
  assumes "\<And>ok fs. Q ok (m\<lparr>om_faults := fs, om_trace := OWrite (or_id (in_row i)) (channel_of i) x ok # om_trace m\<rparr>)"
  shows "wp (write_device i x) Q m"
  unfolding write_device_def wp_bind by (rule wp_fails) (simp add: o_emit_def wp_simps assms)

lemma wp_quiet_write:
  assumes "spent m0 incident budget remaining m" and "\<not> loud (om_devices m0) (channel_of i) x"
    and "\<And>ok m'. spent m0 incident budget remaining m' \<Longrightarrow> Q ok m'"
  shows "wp (write_device i x) Q m"
proof (rule wp_write, rule assms(3))
  fix ok fs
  from assms(1) obtain new where "accounts m0 incident budget remaining new m" by (auto simp: spent_def)
  with assms(2) have "accounts m0 incident budget remaining (OWrite (or_id (in_row i)) (channel_of i) x ok # new)
      (m\<lparr>om_faults := fs, om_trace := OWrite (or_id (in_row i)) (channel_of i) x ok # om_trace m\<rparr>)"
    by (simp add: accounts_def)
  then show "spent m0 incident budget remaining
      (m\<lparr>om_faults := fs, om_trace := OWrite (or_id (in_row i)) (channel_of i) x ok # om_trace m\<rparr>)"
    by (auto simp: spent_def)
qed

lemma prepaid_ledger:
  assumes "0 \<le> g" and "g \<le> secs max_acoustic_seconds" and "asked x = None \<or> asked x = Some g"
  shows "prepaid incident x (OLedger incident (g div go_millisecond) True # tr)"
proof -
  have "g div go_millisecond * go_millisecond \<le> g"
    by (simp add: go_millisecond_def)
  moreover from assms(1) have "0 \<le> g div go_millisecond"
    by (simp add: go_millisecond_def)
  ultimately show ?thesis using assms by (auto simp: prepaid_def)
qed

lemma wp_paid_write:
  assumes "paying m0 incident budget remaining g m" and "0 \<le> g" and "g \<le> secs max_acoustic_seconds"
    and "asked x = None \<or> asked x = Some g"
    and "\<And>ok m'. spent m0 incident budget remaining m' \<Longrightarrow> Q ok m'"
  shows "wp (write_device i x) Q m"
proof (rule wp_write, rule assms(5))
  fix ok fs
  from assms(1) obtain new where
    "accounts m0 incident budget remaining (OLedger incident (g div go_millisecond) True # new) m"
    by (auto simp: paying_def)
  with prepaid_ledger[OF assms(2-4)] have "accounts m0 incident budget remaining
      (OWrite (or_id (in_row i)) (channel_of i) x ok # OLedger incident (g div go_millisecond) True # new)
      (m\<lparr>om_faults := fs, om_trace := OWrite (or_id (in_row i)) (channel_of i) x ok # om_trace m\<rparr>)"
    by (simp add: accounts_def)
  then show "spent m0 incident budget remaining
      (m\<lparr>om_faults := fs, om_trace := OWrite (or_id (in_row i)) (channel_of i) x ok # om_trace m\<rparr>)"
    unfolding spent_def by blast
qed

lemma wp_reserve:
  assumes s: "spent m0 incident budget remaining m" and "incident \<noteq> 0" and d: "0 < d"
    and refused: "\<And>m'. spent m0 incident budget remaining m' \<Longrightarrow> Q (Inl ()) m'"
    and exhausted: "\<And>m'. spent m0 incident budget remaining m' \<Longrightarrow> Q (Inr (0, remaining)) m'"
    and granted: "\<And>g m'. 0 < g \<Longrightarrow> g \<le> d \<Longrightarrow> paying m0 incident budget (remaining - g) g m' \<Longrightarrow> Q (Inr (g, remaining - g)) m'"
  shows "wp (reserve_acoustic incident remaining d) Q m"
proof (cases "remaining \<le> 0")
  case True
  then show ?thesis by (simp add: reserve_acoustic_def wp_simps exhausted s)
next
  case False
  define g where "g = (if d > remaining then remaining else d)"
  define ms where "ms = g div go_millisecond"
  have g: "0 < g" "g \<le> d" "g \<le> remaining" using False d by (auto simp: g_def)
  have ms: "ms * go_millisecond \<le> g" by (simp add: ms_def go_millisecond_def)
  from s obtain new where new: "accounts m0 incident budget remaining new m" by (auto simp: spent_def)
  have "accounts m0 incident budget remaining (OLedger incident ms False # new)
      (m\<lparr>om_faults := fs, om_trace := OLedger incident ms False # om_trace m\<rparr>)" for fs
    using new by (simp add: accounts_def)
  then have no: "spent m0 incident budget remaining (m\<lparr>om_faults := fs, om_trace := OLedger incident ms False # om_trace m\<rparr>)" for fs
    unfolding spent_def by blast
  have row: "map_option ai_acoustic_ms (incident_get (incident_add_acoustic_ms incident ms t) incident)
      = map_option (\<lambda>a. a + ms) (map_option ai_acoustic_ms (incident_get t incident))" for t
    by (cases "incident_get t incident") (simp_all add: incident_add_acoustic_ms_def incident_get_mapped)
  have "accounts m0 incident budget (remaining - g) (OLedger incident ms True # new)
      (m\<lparr>om_faults := fs, om_trace := OLedger incident ms True # om_trace m,
         om_incidents := incident_add_acoustic_ms incident ms (om_incidents m)\<rparr>)" for fs
    using new g ms by (auto simp: accounts_def row algebra_simps option.map_comp comp_def)
  then have yes: "paying m0 incident budget (remaining - g) g
      (m\<lparr>om_faults := fs, om_trace := OLedger incident ms True # om_trace m,
         om_incidents := incident_add_acoustic_ms incident ms (om_incidents m)\<rparr>)" for fs
    unfolding paying_def ms_def by blast
  show ?thesis
    unfolding reserve_acoustic_def
    using False assms(2) no yes g
    by (auto simp: Let_def wp_bind g_def[symmetric] ms_def[symmetric] intro!: wp_fails)
      (auto simp: o_emit_def wp_simps intro: refused granted)
qed

section \<open>The fire programs\<close>

abbreviation within :: "manager \<Rightarrow> int \<Rightarrow> duration \<Rightarrow> 'a \<times> duration \<Rightarrow> manager \<Rightarrow> bool" where
  "within m0 incident budget r \<equiv> spent m0 incident budget (snd r)"

lemma wp_after:
  "keeps P p \<Longrightarrow> P m \<Longrightarrow> (\<And>a m'. P m' \<Longrightarrow> wp (f a) Q m') \<Longrightarrow> wp (State_Monad.bind p f) Q m"
  unfolding wp_bind by (rule keeps_wp)

lemma short: "g \<le> acoustic_duration c e \<Longrightarrow> g \<le> secs max_acoustic_seconds"
  using acoustic_duration_le[of c e] by linarith

text \<open>The shape shared by the switched siren and the smoke sounder.\<close>

lemma wp_reserve_case:
  assumes s: "spent m0 incident budget remaining m" and "incident \<noteq> 0"
    and fire: "\<And>g m'. 0 < g \<Longrightarrow> g \<le> secs max_acoustic_seconds \<Longrightarrow> paying m0 incident budget (remaining - g) g m'
      \<Longrightarrow> wp (fire g (remaining - g)) (within m0 incident budget) m'"
  shows "wp (do {
       r \<leftarrow> reserve_acoustic incident remaining (acoustic_duration c e);
       case r of Inl _ \<Rightarrow> ret (False, remaining)
       | Inr (d, left) \<Rightarrow> if d \<le> 0 then do { o_journal j z event output k; ret (True, left) } else fire d left
     }) (within m0 incident budget) m"
  unfolding wp_bind
  by (rule wp_reserve[OF s assms(2) acoustic_duration_pos])
    (auto simp: wp_return short intro!: fire wp_after[where P = "spent m0 incident budget remaining"] keeps_intros)

lemma wp_paid_then:
  assumes "paying m0 incident budget remaining g m" and "0 < g" and "g \<le> secs max_acoustic_seconds"
    and "asked x = None \<or> asked x = Some g"
    and "\<And>ok m'. spent m0 incident budget remaining m' \<Longrightarrow> wp (f ok) Q m'"
  shows "wp (State_Monad.bind (write_device i x) f) Q m"
  unfolding wp_bind by (rule wp_paid_write[OF assms(1)]) (use assms in auto)

lemma wp_wind_up:
  assumes "keeps (spent m0 incident budget left) p" "keeps (spent m0 incident budget left) q" "spent m0 incident budget left m"
  shows "wp (do { p; q; ret (b, left) }) (within m0 incident budget) m"
  by (rule wp_after[OF assms(1,3)], rule wp_after[OF assms(2)]) (simp_all add: wp_return)

lemma fire_switched_within:
  assumes "spent m0 incident budget remaining m" and "incident \<noteq> 0"
  shows "wp (fire_switched_siren i incident remaining) (within m0 incident budget) m"
  unfolding fire_switched_siren_def wp_bind[of "gets id"] wp_gets
  using assms by (auto simp: wp_return intro!: wp_reserve_case wp_paid_then wp_wind_up bookkeeping)

lemma fire_smoke_within:
  assumes "spent m0 incident budget remaining m" and "incident \<noteq> 0"
  shows "wp (fire_smoke_sounder i incident remaining) (within m0 incident budget) m"
  unfolding fire_smoke_sounder_def wp_bind[of "gets id"] wp_gets
  using assms by (auto simp: wp_return intro!: wp_reserve_case wp_after[OF bookkeeping(5)] wp_after[OF bookkeeping(6)]
      wp_paid_then wp_wind_up bookkeeping(1-4))

lemma fire_light_within:
  assumes "spent m0 incident budget remaining m"
  shows "wp (fire_alarm_light i) (\<lambda>_. spent m0 incident budget remaining) m"
  unfolding fire_alarm_light_def wp_bind[of "gets id"] wp_gets
  using assms by (auto simp: wp_return wp_bind wp_whenS wp_post intro!: wp_quiet_write keepsD[OF bookkeeping(1)])

section \<open>Siren channels\<close>

text \<open>
  The activation write of a channel is either paid for or names the disable entry of its device.
\<close>

definition channel_paid :: "manager \<Rightarrow> int \<Rightarrow> duration \<Rightarrow> siren_device \<Rightarrow> unit + on_config \<times> bool \<times> duration \<Rightarrow> manager \<Rightarrow> bool" where
  "channel_paid m0 incident budget dev r m \<longleftrightarrow> (case r of Inl _ \<Rightarrow> True
     | Inr (on, fires, left) \<Rightarrow> spent m0 incident budget left m
         \<and> (fires \<longrightarrow> on_acoustic_selection on = sd_disable_label dev
              \<or> 0 < on_duration on \<and> on_duration on \<le> secs max_acoustic_seconds
                \<and> paying m0 incident budget left (on_duration on) m))"

lemma silent_optical: "sd_disable_label dev \<noteq> None \<Longrightarrow>
  on_acoustic_selection (optical_on dev c False on) = sd_disable_label dev"
  by (auto simp: optical_on_def Let_def)

lemma siren_on_paid:
  assumes s: "spent m0 incident budget remaining m" and "incident \<noteq> 0" and off: "sd_disable_label dev \<noteq> None"
  shows "wp (siren_on_config dev ch incident remaining)
    (\<lambda>r m'. (r = Inl () \<longrightarrow> spent m0 incident budget remaining m') \<and> channel_paid m0 incident budget dev r m') m"
proof (cases "sch_acoustic ch")
  case None
  with s off show ?thesis
    by (cases "sch_optical ch")
      (auto simp: siren_on_config_def wp_simps Let_def channel_paid_def silent_optical)
next
  case (Some a)
  have reserve: "wp (reserve_acoustic incident remaining (acoustic_duration (in_cfg a) e))
      (\<lambda>r. wp (case r of Inr (d, _) \<Rightarrow> whenS (d \<le> 0) (o_journal j z event out k) | Inl _ \<Rightarrow> skip)
      (\<lambda>_ m'. (case r of Inl _ \<Rightarrow> spent m0 incident budget remaining m'
        | Inr (g, left) \<Rightarrow> if g \<le> 0 then spent m0 incident budget left m'
            else g \<le> secs max_acoustic_seconds \<and> paying m0 incident budget left g m'))) m" for e j z event out k
    by (rule wp_reserve[OF s assms(2) acoustic_duration_pos])
      (auto simp: wp_simps short intro: keepsD[OF spent_journal])
  show ?thesis
    unfolding siren_on_config_def Some option.case wp_bind[of "gets id"] wp_gets wp_bind
    by (rule wp_mono[OF reserve], erule wp_mono)
      (use off in \<open>auto simp: wp_return Let_def channel_paid_def silent_optical dest: paying_spent
        split: sum.splits if_splits option.splits\<close>)
qed

lemma spent_devices: "spent m0 incident budget remaining m \<Longrightarrow> om_devices m = om_devices m0"
  by (auto simp: spent_def accounts_def)

definition can_be_silenced :: "devices \<Rightarrow> bool" where
  "can_be_silenced ds \<longleftrightarrow> (\<forall>central channel dev. dv_siren ds central channel = Some dev \<longrightarrow> sd_disable_label dev \<noteq> None)"

lemma fire_siren_within:
  assumes s: "spent m0 incident budget remaining m" and "incident \<noteq> 0" and quiet: "can_be_silenced (om_devices m0)"
  shows "wp (fire_siren_channel ch incident remaining) (within m0 incident budget) m"
proof (cases "siren_of (hd (sch_rows ch)) m")
  case None
  with s show ?thesis by (simp add: fire_siren_channel_def wp_simps)
next
  case (Some dev)
  let ?lead = "hd (sch_rows ch)"
  have dev: "dv_siren (om_devices m0) (or_central (in_row ?lead)) (or_channel (in_row ?lead)) = Some dev"
    using Some spent_devices[OF s] by (simp add: siren_of_def)
  with quiet have off: "sd_disable_label dev \<noteq> None" by (auto simp: can_be_silenced_def)
  have rows: "wp (do { forS (sch_rows ch) (\<lambda>i. do { note_demand i; arm_stop_watchdog i incident d (st i) }); ret (True, left) })
      (within m0 incident budget) m'" if "spent m0 incident budget left m'" for d st left m'
    by (rule wp_after[where P = "spent m0 incident budget left"]) (use that in \<open>auto intro!: keeps_intros simp: wp_return\<close>)
  have written: "wp (write_device ?lead (SirenOn on)) (\<lambda>ok. spent m0 incident budget left) m'"
    if "channel_paid m0 incident budget dev (Inr (on, True, left)) m'" for on left m'
    using that by (auto simp: channel_paid_def channel_of_def dev intro: wp_paid_write wp_quiet_write)
  show ?thesis
    unfolding fire_siren_channel_def wp_bind[of "gets id"] wp_gets Let_def id_apply Some option.case wp_bind[of "siren_on_config _ _ _ _"]
    by (rule wp_mono[OF siren_on_paid[OF s assms(2) off]])
      (auto simp: wp_return channel_paid_def wp_bind[of "write_device _ _"] split: sum.split
        intro!: wp_mono[OF written] rows)
qed

lemma fire_one_within:
  assumes "spent m0 (ai_id inc) budget remaining m" and "ai_id inc \<noteq> 0" and "can_be_silenced (om_devices m0)"
  shows "wp (fire_one eligible inc i remaining) (within m0 (ai_id inc) budget) m"
proof -
  have again: "wp (do { (ok, left) \<leftarrow> p; ret (f ok, left) }) (within m0 (ai_id inc) budget) m"
    if "wp p (within m0 (ai_id inc) budget) m"
    for p :: "(bool \<times> duration) oprog" and f :: "bool \<Rightarrow> (bool \<times> instance_rec list) option"
    using that unfolding wp_bind by (rule wp_mono) (auto simp: wp_return)
  show ?thesis
    using assms fire_siren_within[OF assms] fire_switched_within[OF assms(1,2)] fire_smoke_within[OF assms(1,2)]
    unfolding fire_one_def Let_def
    by (cases "or_class (in_row i)")
      (auto simp: wp_return intro!: again wp_after[OF spent_emit] wp_mono[OF fire_light_within] simp: wp_bind[of "fire_alarm_light i"])
qed

lemma report_fire_within [keeps_intros]: "keeps (spent m0 incident budget remaining) (report_fire zone k r)"
  by (cases r) (auto simp: report_fire_def intro!: keeps_intros split: bool.split)

lemma fire_loop_within:
  assumes "spent m0 (ai_id inc) budget remaining m" and "ai_id inc \<noteq> 0" and "can_be_silenced (om_devices m0)"
  shows "wp (fire_loop zone eligible inc is remaining) (\<lambda>_ m'. \<exists>left. spent m0 (ai_id inc) budget left m') m"
  using assms(1)
proof (induction "is" arbitrary: remaining m)
  case (Cons i "is")
  show ?case
    unfolding fire_loop.simps wp_bind[of "fire_one _ _ _ _"]
  proof (rule wp_mono[OF fire_one_within[OF Cons.prems assms(2,3)]])
    fix r :: "(bool \<times> instance_rec list) option \<times> duration" and m' assume s: "within m0 (ai_id inc) budget r m'"
    obtain x left where r: "r = (x, left)" by (cases r)
    with s have s: "spent m0 (ai_id inc) budget left m'" by simp
    have rest: "wp (do { more \<leftarrow> fire_loop zone eligible inc is left; ret (errs @ more) })
        (\<lambda>_ m'. \<exists>left. spent m0 (ai_id inc) budget left m') m''" if "spent m0 (ai_id inc) budget left m''" for errs m''
      using Cons.IH[OF that] unfolding wp_bind by (rule wp_mono) (simp add: wp_return)
    show "wp (case r of (r, left) \<Rightarrow> do {
        errs \<leftarrow> report_fire zone (ai_id inc) r;
        more \<leftarrow> fire_loop zone eligible inc is left;
        ret (errs @ more)
      }) (\<lambda>_ m'. \<exists>left. spent m0 (ai_id inc) budget left m') m'"
      unfolding r prod.case by (rule wp_after[OF report_fire_within s]) (rule rest)
  qed
qed (auto simp: wp_return)

section \<open>One fire cycle\<close>

text \<open>The incident a cycle is budgeted by: the fresh row when it can be read, else the caller's.\<close>

definition budget_basis :: "alarm_incident \<Rightarrow> manager \<Rightarrow> alarm_incident" where
  "budget_basis inc m = (case om_faults m of True # _ \<Rightarrow> inc
     | _ \<Rightarrow> (case incident_get (om_incidents m) (ai_id inc) of None \<Rightarrow> inc | Some fresh \<Rightarrow> fresh))"

definition cycle_budget :: "alarm_incident \<Rightarrow> manager \<Rightarrow> duration" where
  "cycle_budget inc m = max (om_max_per_incident m - ai_acoustic_ms (budget_basis inc m) * go_millisecond) 0"

lemma wp_budget:
  assumes "ai_id inc \<noteq> 0"
  shows "wp (acoustic_budget inc) (\<lambda>r. spent m (ai_id inc) (cycle_budget inc m) r) m"
proof -
  have "accounts m (ai_id inc) (cycle_budget inc m) (cycle_budget inc m) [] (m\<lparr>om_faults := fs\<rparr>)" for fs
    by (simp add: accounts_def cycle_budget_def)
  then have "spent m (ai_id inc) (cycle_budget inc m) (cycle_budget inc m) (m\<lparr>om_faults := fs\<rparr>)" for fs
    unfolding spent_def by blast
  from this this[of "om_faults m"] show ?thesis
    using assms by (auto simp: acoustic_budget_def o_fails_def wp_simps cycle_budget_def budget_basis_def
      split: list.split option.split bool.split)
qed

lemma fire_cycle_within:
  assumes "ai_id inc \<noteq> 0" and "can_be_silenced (om_devices m)"
  shows "wp (fire_cycle_outputs zone inc opts) (\<lambda>_ m'. \<exists>left. spent m (ai_id inc) (cycle_budget inc m) left m') m"
  unfolding fire_cycle_outputs_def wp_bind[of "gets id"] wp_gets Let_def wp_bind[of "acoustic_budget inc"]
  by (rule wp_mono[OF wp_budget[OF assms(1)]]) (rule fire_loop_within[OF _ assms])

end
