(* ===== verification/Alarm_Output_Guarantees.thy ===== *)
theory Alarm_Output_Guarantees
  imports Alarm_Budget
begin

text \<open>
  The guarantees of the output drivers: what the laws of the preceding theories give for every
  reachable state and for every call, and a small installation they are applied to.
\<close>

section \<open>A stop reaches what nobody else holds\<close>

text \<open>Devices stay, demands only go away, effects only come.\<close>

definition growing ::
  "devices \<Rightarrow> (string \<times> demand_rec) set \<Rightarrow> out_effect list \<Rightarrow> out_effect set \<Rightarrow> manager \<Rightarrow> bool" where
  "growing ds demands base fx m \<longleftrightarrow> om_devices m = ds \<and> set (om_demands m) \<subseteq> demands
     \<and> (\<exists>new. om_trace m = new @ base \<and> fx \<subseteq> set new)"

lemma growing_effect: "growing ds X base fx m \<Longrightarrow> growing ds X base fx (m\<lparr>om_trace := x # om_trace m\<rparr>)"
  by (auto simp: growing_def intro: exI[of _ "_ # _"])

lemma growing_frame:
  "growing ds X base fx m \<Longrightarrow> om_devices m' = om_devices m \<Longrightarrow> set (om_demands m') \<subseteq> set (om_demands m) \<Longrightarrow>
   om_trace m' = om_trace m \<Longrightarrow> growing ds X base fx m'"
  by (auto simp: growing_def)

lemma growing_emit [keeps_intros]: "keeps (growing ds X base fx) (o_emit x)"
  by (auto simp: keeps_def o_emit_def wp_simps intro: growing_effect)

lemma growing_records [keeps_intros]:
  "keeps (growing ds X base fx) (cancel_watchdog out)"
  "keeps (growing ds X base fx) (new_activation i incident)"
  "keeps (growing ds X base fx) (o_schedule d cb)"
  "keeps (growing ds X base fx) (drop_demand out)"
  by (auto simp: keeps_def cancel_watchdog_def drop_demand_def new_activation_def o_schedule_def wp_simps Let_def
      AList.delete_eq elim!: growing_frame)

lemma growing_failed [keeps_intros]: "keeps (growing ds X base fx) (output_failed zone event out incident)"
proof -
  have "keeps (growing ds X base fx) (modify (\<lambda>m. m\<lparr>om_failed := f m\<rparr>))" for f
    by (auto simp: keeps_def wp_simps elim: growing_frame)
  then show ?thesis
    unfolding output_failed_def o_journal_def note_failure_def by (intro keeps_intros)
qed

lemma growing_fails [keeps_intros]: "keeps (growing ds X base fx) o_fails"
  by (auto simp: keeps_def o_fails_def wp_simps growing_def split: list.split)

lemma growing_stopper [keeps_intros]: "keeps (growing ds X base fx) (run_stopper i s)"
  unfolding run_stopper_def write_device_def by (intro keeps_intros)

lemma growing_stop [keeps_intros]: "keeps (growing ds X base fx) (stop_and_verify i incident)"
  unfolding stop_and_verify_def release_demand_foreign_remains_def by (intro keeps_intros)

lemma growing_stop_loop [keeps_intros]: "keeps (growing ds X base fx) (stop_loop zone incident is)"
  by (induction "is") (auto intro!: keeps_intros)







section \<open>Guarantees\<close>

text \<open>
  C11. Accounting before sound. In a fire cycle of a stored incident, on devices of which every siren
  names a label for no tone, every write that starts a tone comes directly after the ledger entry
  that books its time, no entry books more than ten minutes, all entries of the cycle together
  stay within what the incident has left, and the row of the incident carries them. Which calls
  fail does not matter. (An incident that could not be stored has no ledger, and a siren without
  such a label may repeat its last tone when only its light is meant.)
\<close>

theorem tones_are_paid_in_advance:
  assumes "run_state (fire_cycle_outputs zone inc opts) m = (errs, m')" and "ai_id inc \<noteq> 0"
    and "can_be_silenced (om_devices m)"
  shows "\<exists>new. om_trace m' = new @ om_trace m \<and> paid (om_devices m) (ai_id inc) new
    \<and> booked (ai_id inc) new * go_millisecond \<le> cycle_budget inc m
    \<and> map_option ai_acoustic_ms (incident_get (om_incidents m') (ai_id inc))
      = map_option (\<lambda>i. ai_acoustic_ms i + booked (ai_id inc) new) (incident_get (om_incidents m) (ai_id inc))"
proof -
  from fire_cycle_within[OF assms(2,3), of zone opts] assms(1)
  obtain left new where "accounts m (ai_id inc) (cycle_budget inc m) left new m'"
    by (auto simp: wp_run spent_def)
  then show ?thesis by (auto simp: accounts_def intro!: exI[of _ new])
qed

text \<open>
  C12. After any sequence of cycles, stops, adoptions, tests, reloads, shutdowns, callbacks on time
  and callbacks that outran their cancellation, each run as a whole, on devices that may fail: an
  output the driver holds active has a stop or a verification of its current activation in the
  schedule, not cancelled, and due within the longest activation time.
\<close>

theorem active_outputs_have_a_stop_ahead:
  assumes "reach ostart ostep m" and "lookup (om_active m) out = Some act"
  shows "ac_output act = out
    \<and> (\<exists>cb t. (cb, t) \<in> set (om_sched m) \<and> cb_activation cb = act \<and> t \<le> om_now m + secs 3600)"
proof -
  from drivers.reach_inv[OF assms(1)] have "watched {} m" by (rule inv_watched)
  with map_of_SomeD[OF assms(2)] show ?thesis
    by (fastforce simp: watched_def pending_stop_def max_optical_seconds_def)
qed


text \<open>
  The health signal is the worst outstanding condition, not the last sample: in every reachable
  state the last report is good exactly when no output has an unresolved failure, and a zone was last
  reported good only if none of its outputs has one.
\<close>

theorem health_tells_the_outstanding_failures:
  assumes "reach ostart ostep m"
  shows "reported (om_trace m) = (om_failed m = []) \<and> (\<forall>z. zone_reported z (om_trace m) \<longrightarrow> \<not> zone_still_failed z m)"
  using inv_honest[OF drivers.reach_inv[OF assms]] by (simp add: health_honest_def)

section \<open>A small installation\<close>

text \<open>One siren channel, enrolled in two zones; the first zone also has a light.\<close>

definition demo_siren :: siren_device where
  "demo_siren = \<lparr>sd_acoustic = (True, True), sd_optical = (False, True), sd_disable_label = Some ''DISABLE'',
     sd_alarm_label = None\<rparr>"

definition demo_devices :: devices where
  "demo_devices = \<lparr>dv_siren = (\<lambda>central channel. if channel = ''S:3'' then Some demo_siren else None),
     dv_smoke = (\<lambda>_ _. None), dv_actuator = (\<lambda>_ _. Some (True, True)), dv_sound = (\<lambda>_ _. False)\<rparr>"

definition demo_output :: "string \<Rightarrow> string \<Rightarrow> output_class \<Rightarrow> string \<Rightarrow> output_row" where
  "demo_output out zone c channel = \<lparr>or_id = out, or_zone = zone, or_class = c, or_central = ''ccu'', or_interface = ''HmIP-RF'',
     or_channel = channel, or_name = out, or_config = DocEmpty, or_created_ms = 0, or_updated_ms = 0\<rparr>"

definition demo_rows :: "output_row list" where
  "demo_rows = [demo_output ''siren1'' ''z1'' ClassAcousticSiren ''S:3'', demo_output ''light1'' ''z1'' ClassAlarmLight ''L:1'',
     demo_output ''siren2'' ''z2'' ClassAcousticSiren ''S:3'']"

definition demo_sounding :: "string \<Rightarrow> alarm_incident" where
  "demo_sounding zone = \<lparr>ai_id = 7, ai_zone = zone, ai_mode = ModeFull, ai_cause = DocEmpty, ai_started_ms = 0,
     ai_deadline_ms = 0, ai_silenced = False, ai_silenced_at_ms = 0, ai_silenced_by = '''', ai_cycles = 0,
     ai_acoustic_ms = 0, ai_refires = 0, ai_closed_ms = 0, ai_close_reason = ''''\<rparr>"

definition demo_manager :: manager where
  "demo_manager = exec_out (out_program (CallReload (Some demo_rows)))
     (new_manager 0 0 0 demo_devices \<lparr>it_rows = [demo_sounding ''z2''], it_next = 8\<rparr>)"

definition demo_fired :: manager where
  "demo_fired = exec_out (out_program (CallFire ''z2'' (demo_sounding ''z2'') zero_fire_options)) demo_manager"

lemma call_reach: "reach ostart ostep m \<Longrightarrow> reach ostart ostep (exec_out (out_program c) m)"
  by (erule reach_step) (rule ostep_call)

lemma demo_reach: "reach ostart ostep demo_manager" "reach ostart ostep demo_fired"
proof -
  show m: "reach ostart ostep demo_manager"
    unfolding demo_manager_def by (rule call_reach, rule reach_start) (unfold ostart_def, blast)
  show "reach ostart ostep demo_fired"
    unfolding demo_fired_def by (rule call_reach[OF m])
qed

lemma demo_devices_ok: "can_be_silenced (om_devices demo_manager)"
proof -
  have "om_devices demo_manager = demo_devices"
    by (simp add: demo_manager_def exec_out_def discard_def reload_outputs_def Let_def prune_demands_def
        prune_failed_def new_manager_def demo_rows_def demo_output_def parse_instance_def whenS_def)
  then show ?thesis by (simp add: can_be_silenced_def demo_devices_def demo_siren_def)
qed

theorem tones_are_paid_in_advance_witness:
  "\<exists>new. om_trace (snd (run_state (fire_cycle_outputs ''z2'' (demo_sounding ''z2'') zero_fire_options) demo_manager))
       = new @ om_trace demo_manager
     \<and> paid (om_devices demo_manager) 7 new \<and> booked 7 new * go_millisecond \<le> secs 900"
proof -
  have "cycle_budget (demo_sounding ''z2'') demo_manager = secs 900" by code_simp
  with tones_are_paid_in_advance [of "''z2''" "demo_sounding ''z2''" zero_fire_options demo_manager, OF prod.collapse [symmetric]]
  show ?thesis using demo_devices_ok by (auto simp: demo_sounding_def)
qed

theorem active_outputs_have_a_stop_ahead_witness:
  "\<exists>act. lookup (om_active demo_fired) ''siren2'' = Some act \<and>
     (\<exists>cb t. (cb, t) \<in> set (om_sched demo_fired) \<and> cb_activation cb = act \<and> t \<le> om_now demo_fired + secs 3600)"
proof -
  have "lookup (om_active demo_fired) ''siren2''
      = Some \<lparr>ac_serial = 0, ac_output = ''siren2'', ac_zone = ''z2'', ac_incident = 7\<rparr>"
    by code_simp
  with active_outputs_have_a_stop_ahead [OF demo_reach(2) this] show ?thesis by simp
qed


theorem health_tells_the_outstanding_failures_witness:
  "reported (om_trace demo_fired) = (om_failed demo_fired = [])"
  using health_tells_the_outstanding_failures [OF demo_reach(2)] by blast

end
