(* ===== verification/Circuit_Breaker.thy ===== *)
theory Circuit_Breaker
  imports Prelude "HOL-Library.Multiset"
begin

text \<open>
  The circuit breaker of \<open>internal/client/reliability/circuit.go\<close>, with the fault classification of
  \<open>pkg/hmerr/errors.go\<close> that decides which errors count.

  Each section the code runs under \<open>c.mu\<close> is one definition; \<open>DoWithPriority\<close> is their composition.
  Because the wrapped call runs outside the lock, several calls can be in flight: the step relation
  \<open>bstep\<close> interleaves the sections of any number of calls with the clock, the external recorders
  and state queries, and \<open>breset\<close> adds \<open>Reset\<close>.
\<close>

section \<open>Errors\<close>

record xmlrpc_fault =
  xf_code :: int
  xf_message :: string

definition lower_char :: "char \<Rightarrow> char" where
  "lower_char c = (let n = (of_char c :: nat) in if 65 \<le> n \<and> n \<le> 90 then char_of (n + 32) else c)"

fun contains :: "string \<Rightarrow> string \<Rightarrow> bool" where
  "contains [] sub = (sub = [])"
| "contains (c # cs) sub = (take (length sub) (c # cs) = sub \<or> contains cs sub)"

definition permanent_fault_message_markers :: "string list" where
  "permanent_fault_message_markers =
     [''not found'', ''does not exist'', ''unknown method'', ''unknown parameter'', ''invalid address'']"

text \<open>The markers are ASCII, so only the ASCII part of \<open>strings.ToLower\<close> matters for them.\<close>

definition is_permanent_fault_message :: "string \<Rightarrow> bool" where
  "is_permanent_fault_message msg =
     (if msg = '''' then False
      else list_ex (contains (map lower_char msg)) permanent_fault_message_markers)"

definition fault_code_retryable :: "int \<Rightarrow> bool" where
  "fault_code_retryable c \<longleftrightarrow> c \<in> {-1, -8, -9, -10}"

definition fault_is_retryable :: "xmlrpc_fault \<Rightarrow> bool" where
  "fault_is_retryable f =
     (if is_permanent_fault_message (xf_message f) then False else fault_code_retryable (xf_code f))"

text \<open>
  An error is what \<open>errors.Is\<close> and \<open>errors.As\<close> answer about it: the sentinels its chain matches and
  the typed fault it carries.
\<close>

record call_error =
  er_breaker_open :: bool
  er_fault :: "xmlrpc_fault option"
  er_scope_missing :: bool
  er_canceled :: bool
  er_deadline :: bool
  er_queue_full :: bool
  er_throttle_closed :: bool
  er_superseded :: bool

definition plain_error :: call_error where
  "plain_error = \<lparr>er_breaker_open = False, er_fault = None, er_scope_missing = False, er_canceled = False,
     er_deadline = False, er_queue_full = False, er_throttle_closed = False, er_superseded = False\<rparr>"

definition is_semantic_fault :: "call_error \<Rightarrow> bool" where
  "is_semantic_fault err =
     (case er_fault err of None \<Rightarrow> False | Some f \<Rightarrow> \<not> fault_is_retryable f)"

text \<open>\<open>ctx_done\<close> is \<open>ctx.Err() != nil\<close> for the caller's context.\<close>

definition is_caller_gone :: "bool \<Rightarrow> call_error \<Rightarrow> bool" where
  "is_caller_gone ctx_done err = (if \<not> ctx_done then False else er_canceled err \<or> er_deadline err)"

definition is_wire_failure :: "bool \<Rightarrow> call_error option \<Rightarrow> bool" where
  "is_wire_failure ctx_done err =
     (case err of None \<Rightarrow> False
      | Some e \<Rightarrow>
        if er_breaker_open e then False
        else if is_semantic_fault e then False
        else if er_scope_missing e then False
        else if is_caller_gone ctx_done e then False
        else if er_queue_full e \<or> er_throttle_closed e \<or> er_superseded e then False
        else True)"

section \<open>The breaker\<close>

datatype circuit_state = CircuitClosed | CircuitOpen | CircuitHalfOpen

datatype command_priority = PriorityCritical | PriorityHigh | PriorityLow

record circuit_config =
  cc_failure_threshold :: int
  cc_reset_timeout :: duration
  cc_half_open_success :: int

definition default_circuit_config :: circuit_config where
  "default_circuit_config = \<lparr>cc_failure_threshold = 5, cc_reset_timeout = secs 30, cc_half_open_success = 2\<rparr>"

text \<open>A listener is its name; \<open>None\<close> is the cleared primary slot.\<close>

record breaker =
  cb_cfg :: circuit_config
  cb_state :: circuit_state
  cb_consecutive_err :: int
  cb_half_open_ok :: int
  cb_opened_at :: time_ns
  cb_total_requests :: int
  cb_in_flight :: int
  cb_listeners :: "string option list"

text \<open>What \<open>publish\<close> delivers: listener, from, to; the zero notice delivers nothing.\<close>

type_synonym notice = "(string \<times> circuit_state \<times> circuit_state) list"

definition new_circuit :: "circuit_config \<Rightarrow> breaker" where
  "new_circuit cfg =
     (let base = default_circuit_config;
          base = (if 0 < cc_failure_threshold cfg then base\<lparr>cc_failure_threshold := cc_failure_threshold cfg\<rparr> else base);
          base = (if 0 < cc_reset_timeout cfg then base\<lparr>cc_reset_timeout := cc_reset_timeout cfg\<rparr> else base);
          base = (if 0 < cc_half_open_success cfg then base\<lparr>cc_half_open_success := cc_half_open_success cfg\<rparr> else base)
      in \<lparr>cb_cfg = base, cb_state = CircuitClosed, cb_consecutive_err = 0, cb_half_open_ok = 0, cb_opened_at = 0,
          cb_total_requests = 0, cb_in_flight = 0, cb_listeners = []\<rparr>)"

definition on_state_change :: "string option \<Rightarrow> breaker \<Rightarrow> breaker" where
  "on_state_change fn b =
     (case fn of
        None \<Rightarrow> (if cb_listeners b \<noteq> [] then b\<lparr>cb_listeners := (cb_listeners b)[0 := None]\<rparr> else b)
      | Some f \<Rightarrow>
          if cb_listeners b = [] then b\<lparr>cb_listeners := [Some f]\<rparr>
          else b\<lparr>cb_listeners := (cb_listeners b)[0 := Some f]\<rparr>)"

definition add_on_state_change :: "string option \<Rightarrow> breaker \<Rightarrow> breaker" where
  "add_on_state_change fn b =
     (case fn of None \<Rightarrow> b
      | Some f \<Rightarrow>
        b\<lparr>cb_listeners := (if cb_listeners b = [] then [None] else cb_listeners b) @ [Some f]\<rparr>)"

definition snapshot_listeners :: "breaker \<Rightarrow> string list" where
  "snapshot_listeners b = List.map_filter id (cb_listeners b)"

definition state_notice :: "circuit_state \<Rightarrow> circuit_state \<Rightarrow> breaker \<Rightarrow> notice" where
  "state_notice from to b = map (\<lambda>l. (l, from, to)) (snapshot_listeners b)"

definition is_bypass_op :: "string \<Rightarrow> bool" where
  "is_bypass_op op \<longleftrightarrow> op \<in> {''init'', ''ping'', ''getVersion'', ''system.listMethods'', ''system.methodHelp'',
     ''Session.login'', ''Session.logout'', ''Session.renew''}"

definition refresh_locked :: "time_ns \<Rightarrow> breaker \<Rightarrow> notice \<times> breaker" where
  "refresh_locked now b =
     (if cb_state b \<noteq> CircuitOpen then ([], b)
      else if cc_reset_timeout (cb_cfg b) \<le> now - cb_opened_at b then
        (state_notice CircuitOpen CircuitHalfOpen b, b\<lparr>cb_state := CircuitHalfOpen\<rparr>)
      else ([], b))"

datatype admission =
    Bypass
  | Rejected
  | Admitted circuit_state

text \<open>
  The first section of \<open>DoWithPriority\<close>, up to the release of the lock. \<open>Admitted s\<close> carries the state
  the call was admitted in: in every state but closed it has taken the probe slot.
\<close>

definition admit :: "time_ns \<Rightarrow> string \<Rightarrow> command_priority \<Rightarrow> breaker \<Rightarrow> admission \<times> notice \<times> breaker" where
  "admit now op prio b =
     (if is_bypass_op op then (Bypass, [], b)
      else let (notice, b) = refresh_locked now b;
               counted = b\<lparr>cb_total_requests := cb_total_requests b + 1\<rparr>
        in if cb_state b = CircuitOpen then
             (if prio = PriorityCritical then
                (if cb_in_flight b \<noteq> 0 then (Rejected, notice, counted)
                 else (Admitted CircuitOpen, notice, counted\<lparr>cb_in_flight := 1\<rparr>))
              else (Rejected, notice, counted))
           else if cb_state b = CircuitHalfOpen then
             (if cb_in_flight b \<noteq> 0 then (Rejected, notice, counted)
              else (Admitted CircuitHalfOpen, notice, counted\<lparr>cb_in_flight := 1\<rparr>))
           else (Admitted CircuitClosed, notice, counted))"

definition record_outcome :: "time_ns \<Rightarrow> bool \<Rightarrow> call_error option \<Rightarrow> breaker \<Rightarrow> notice \<times> breaker" where
  "record_outcome now ctx_done err b =
     (let b' =
        (if err = None then
           (let b1 = b\<lparr>cb_consecutive_err := 0\<rparr> in
            if cb_state b1 = CircuitHalfOpen then
              (let b2 = b1\<lparr>cb_half_open_ok := cb_half_open_ok b1 + 1\<rparr> in
               if cc_half_open_success (cb_cfg b2) \<le> cb_half_open_ok b2
               then b2\<lparr>cb_state := CircuitClosed, cb_half_open_ok := 0\<rparr> else b2)
            else b1)
         else if is_wire_failure ctx_done err then
           (let b1 = b\<lparr>cb_half_open_ok := 0, cb_consecutive_err := cb_consecutive_err b + 1\<rparr> in
            if cb_state b1 = CircuitHalfOpen then b1\<lparr>cb_state := CircuitOpen, cb_opened_at := now\<rparr>
            else if cb_state b1 = CircuitClosed \<and> cc_failure_threshold (cb_cfg b1) \<le> cb_consecutive_err b1
            then b1\<lparr>cb_state := CircuitOpen, cb_opened_at := now\<rparr>
            else b1)
         else b)
      in (if cb_state b \<noteq> cb_state b' then state_notice (cb_state b) (cb_state b') b' else [], b'))"

text \<open>The deferred \<open>halfOpenInFlight.Store(0)\<close> of an admitted probe.\<close>

definition release :: "circuit_state \<Rightarrow> breaker \<Rightarrow> breaker" where
  "release admitted b = (if admitted = CircuitClosed then b else b\<lparr>cb_in_flight := 0\<rparr>)"

definition record_failure_external :: "time_ns \<Rightarrow> breaker \<Rightarrow> notice \<times> breaker" where
  "record_failure_external now b = record_outcome now False (Some plain_error) b"

definition record_success_external :: "time_ns \<Rightarrow> breaker \<Rightarrow> notice \<times> breaker" where
  "record_success_external now b = record_outcome now False None b"

definition record_rejection :: "breaker \<Rightarrow> breaker" where
  "record_rejection b = b\<lparr>cb_total_requests := cb_total_requests b + 1\<rparr>"

text \<open>\<open>Reset\<close>: the locked section, then the store to the probe slot outside the lock.\<close>

definition reset_locked :: "breaker \<Rightarrow> notice \<times> breaker" where
  "reset_locked b =
     (let b' = b\<lparr>cb_state := CircuitClosed, cb_consecutive_err := 0, cb_half_open_ok := 0, cb_opened_at := 0\<rparr>
      in (if cb_state b \<noteq> CircuitClosed then state_notice (cb_state b) CircuitClosed b' else [], b'))"

definition reset_slot :: "breaker \<Rightarrow> breaker" where
  "reset_slot b = b\<lparr>cb_in_flight := 0\<rparr>"

text \<open>
  A whole call that nothing interleaves with: its result (\<open>Inl ()\<close> the breaker's own refusal, \<open>Inr\<close>
  what the wrapped call returned), the notices, the breaker. \<open>later\<close> is the clock when the call
  returns.
\<close>

definition do_with_priority ::
  "time_ns \<Rightarrow> time_ns \<Rightarrow> bool \<Rightarrow> string \<Rightarrow> command_priority \<Rightarrow> call_error option \<Rightarrow> breaker
     \<Rightarrow> (unit + call_error option) \<times> notice \<times> breaker" where
  "do_with_priority now later ctx_done op prio result b =
     (case admit now op prio b of
        (Bypass, n, b1) \<Rightarrow> (Inr result, n, b1)
      | (Rejected, n, b1) \<Rightarrow> (Inl (), n, b1)
      | (Admitted s, n, b1) \<Rightarrow>
          (case record_outcome later ctx_done result b1 of
             (n', b2) \<Rightarrow> (Inr result, n @ n', release s b2)))"

definition do_call :: "time_ns \<Rightarrow> time_ns \<Rightarrow> bool \<Rightarrow> string \<Rightarrow> call_error option \<Rightarrow> breaker
    \<Rightarrow> (unit + call_error option) \<times> notice \<times> breaker" where
  "do_call now later ctx_done op result b = do_with_priority now later ctx_done op PriorityLow result b"

section \<open>Interleaved calls\<close>

text \<open>
  \<open>bs_running\<close> are the admitted calls whose wrapped function runs, \<open>bs_returning\<close> those that have
  recorded their outcome (or unwind from a panic) and still owe the deferred release, each with the
  state it was admitted in; \<open>bs_resetting\<close> counts resets between their two sections.
\<close>

record bsys =
  bs_breaker :: breaker
  bs_now :: time_ns
  bs_running :: "circuit_state multiset"
  bs_returning :: "circuit_state multiset"
  bs_resetting :: nat

inductive bstart :: "bsys \<Rightarrow> bool" where
  "bstart \<lparr>bs_breaker = new_circuit cfg, bs_now = t, bs_running = {#}, bs_returning = {#}, bs_resetting = 0\<rparr>"

inductive bstep :: "bsys \<Rightarrow> bsys \<Rightarrow> bool" where
  b_tick: "bs_now s \<le> t \<Longrightarrow> bstep s (s\<lparr>bs_now := t\<rparr>)"
| b_listen: "bstep s (s\<lparr>bs_breaker := on_state_change fn (bs_breaker s)\<rparr>)"
| b_add_listener: "bstep s (s\<lparr>bs_breaker := add_on_state_change fn (bs_breaker s)\<rparr>)"
| b_refused: "admit (bs_now s) op prio (bs_breaker s) = (a, n, b) \<Longrightarrow> a = Bypass \<or> a = Rejected
    \<Longrightarrow> bstep s (s\<lparr>bs_breaker := b\<rparr>)"
| b_admitted: "admit (bs_now s) op prio (bs_breaker s) = (Admitted c, n, b)
    \<Longrightarrow> bstep s (s\<lparr>bs_breaker := b, bs_running := add_mset c (bs_running s)\<rparr>)"
| b_recorded: "c \<in># bs_running s \<Longrightarrow> record_outcome (bs_now s) ctx_done result (bs_breaker s) = (n, b)
    \<Longrightarrow> bstep s (s\<lparr>bs_breaker := b, bs_running := bs_running s - {#c#},
          bs_returning := add_mset c (bs_returning s)\<rparr>)"
| b_panicked: "c \<in># bs_running s
    \<Longrightarrow> bstep s (s\<lparr>bs_running := bs_running s - {#c#}, bs_returning := add_mset c (bs_returning s)\<rparr>)"
| b_released: "c \<in># bs_returning s
    \<Longrightarrow> bstep s (s\<lparr>bs_breaker := release c (bs_breaker s), bs_returning := bs_returning s - {#c#}\<rparr>)"
| b_queried: "bstep s (s\<lparr>bs_breaker := snd (refresh_locked (bs_now s) (bs_breaker s))\<rparr>)"
| b_failure: "bstep s (s\<lparr>bs_breaker := snd (record_failure_external (bs_now s) (bs_breaker s))\<rparr>)"
| b_success: "bstep s (s\<lparr>bs_breaker := snd (record_success_external (bs_now s) (bs_breaker s))\<rparr>)"
| b_rejection: "bstep s (s\<lparr>bs_breaker := record_rejection (bs_breaker s)\<rparr>)"

inductive breset :: "bsys \<Rightarrow> bsys \<Rightarrow> bool" where
  b_step: "bstep s t \<Longrightarrow> breset s t"
| b_reset: "breset s (s\<lparr>bs_breaker := snd (reset_locked (bs_breaker s)), bs_resetting := bs_resetting s + 1\<rparr>)"
| b_reset_slot: "0 < bs_resetting s
    \<Longrightarrow> breset s (s\<lparr>bs_breaker := reset_slot (bs_breaker s), bs_resetting := bs_resetting s - 1\<rparr>)"

section \<open>Invariants\<close>

definition config_ok :: "circuit_config \<Rightarrow> bool" where
  "config_ok c \<longleftrightarrow> 0 < cc_failure_threshold c \<and> 0 < cc_reset_timeout c \<and> 0 < cc_half_open_success c"

definition breaker_ok :: "breaker \<Rightarrow> bool" where
  "breaker_ok b \<longleftrightarrow> config_ok (cb_cfg b)
     \<and> 0 \<le> cb_consecutive_err b \<and> 0 \<le> cb_half_open_ok b \<and> 0 \<le> cb_total_requests b
     \<and> cb_half_open_ok b < cc_half_open_success (cb_cfg b)
     \<and> (if cb_state b = CircuitHalfOpen then True else cb_half_open_ok b = 0)
     \<and> (if cb_state b = CircuitClosed then cb_consecutive_err b < cc_failure_threshold (cb_cfg b) else True)
     \<and> cb_in_flight b \<in> {0, 1}"

lemmas breaker_ops = refresh_locked_def record_outcome_def release_def reset_locked_def reset_slot_def
  record_failure_external_def record_success_external_def record_rejection_def on_state_change_def
  add_on_state_change_def

lemma new_circuit_ok: "breaker_ok (new_circuit cfg)"
  by (auto simp: new_circuit_def default_circuit_config_def breaker_ok_def config_ok_def Let_def)

lemma record_outcome_ok: "breaker_ok b \<Longrightarrow> breaker_ok (snd (record_outcome now d e b))"
  by (auto simp: record_outcome_def breaker_ok_def config_ok_def Let_def)

lemma refresh_ok: "breaker_ok b \<Longrightarrow> breaker_ok (snd (refresh_locked now b))"
  by (auto simp: refresh_locked_def breaker_ok_def)

lemma slot_ok_update: "breaker_ok b \<Longrightarrow> n \<in> {0, 1} \<Longrightarrow> breaker_ok (b\<lparr>cb_in_flight := n\<rparr>)"
  by (simp add: breaker_ok_def)

lemma counted_ok: "breaker_ok b \<Longrightarrow> breaker_ok (b\<lparr>cb_total_requests := cb_total_requests b + 1\<rparr>)"
  by (simp add: breaker_ok_def)

lemma listeners_ok: "breaker_ok b \<Longrightarrow> breaker_ok (b\<lparr>cb_listeners := ls\<rparr>)"
  by (simp add: breaker_ok_def)

lemma admit_ok: "breaker_ok b \<Longrightarrow> breaker_ok (snd (snd (admit now op prio b)))"
proof -
  assume ok: "breaker_ok b"
  obtain n b1 where b1: "refresh_locked now b = (n, b1)" by fastforce
  then have "breaker_ok b1" using refresh_ok [OF ok, of now] by simp
  with ok b1 show ?thesis by (simp add: admit_def Let_def counted_ok slot_ok_update)
qed

lemma bstep_ok: "bstep s t \<Longrightarrow> breaker_ok (bs_breaker s) \<Longrightarrow> breaker_ok (bs_breaker t)"
proof (induction rule: bstep.induct)
  case (b_refused s op prio a n b)
  then show ?case using admit_ok [of "bs_breaker s" "bs_now s" op prio] by simp
next
  case (b_admitted s op prio c n b)
  then show ?case using admit_ok [of "bs_breaker s" "bs_now s" op prio] by simp
next
  case (b_recorded c s ctx_done result n b)
  then show ?case using record_outcome_ok [of "bs_breaker s" "bs_now s" ctx_done result] by simp
qed (auto simp: record_outcome_ok refresh_ok counted_ok listeners_ok slot_ok_update release_def on_state_change_def
    add_on_state_change_def record_rejection_def record_failure_external_def record_success_external_def
    split: option.split)

lemma reset_locked_ok: "breaker_ok b \<Longrightarrow> breaker_ok (snd (reset_locked b))"
  by (auto simp: reset_locked_def breaker_ok_def config_ok_def Let_def)

lemma breset_ok: "breset s t \<Longrightarrow> breaker_ok (bs_breaker s) \<Longrightarrow> breaker_ok (bs_breaker t)"
  by (induction rule: breset.induct) (simp_all add: bstep_ok reset_locked_ok slot_ok_update reset_slot_def)

interpretation breaker_counters: invariant_system bstart breset "\<lambda>s. breaker_ok (bs_breaker s)"
  by unfold_locales (auto simp: new_circuit_ok breset_ok elim: bstart.cases)

text \<open>
  Whatever calls, outcomes, state queries, clock readings and resets interleave, the breaker's
  bookkeeping is consistent: a closed breaker is below its failure threshold, successes are counted
  only while half open and below the number that closes it, and the probe slot is 0 or 1.
\<close>

theorem breaker_bookkeeping:
  assumes "reach bstart breset s"
  shows "breaker_ok (bs_breaker s)"
  using assms by (rule breaker_counters.reach_inv)

section \<open>The probe slot\<close>

definition probes :: "bsys \<Rightarrow> circuit_state multiset" where
  "probes s = filter_mset (\<lambda>c. c \<noteq> CircuitClosed) (bs_running s + bs_returning s)"

definition slot_ok :: "bsys \<Rightarrow> bool" where
  "slot_ok s \<longleftrightarrow> int (size (probes s)) = cb_in_flight (bs_breaker s) \<and> cb_in_flight (bs_breaker s) \<le> 1"

lemma slot_frame [simp]:
  "cb_in_flight (snd (refresh_locked now b)) = cb_in_flight b"
  "cb_in_flight (snd (record_outcome now d e b)) = cb_in_flight b"
  "cb_in_flight (record_rejection b) = cb_in_flight b"
  "cb_in_flight (on_state_change fn b) = cb_in_flight b"
  "cb_in_flight (add_on_state_change fn b) = cb_in_flight b"
  by (auto simp: breaker_ops Let_def split: option.split)

lemma admit_slot:
  "admit now op prio b = (a, n, b') \<Longrightarrow>
     (case a of Admitted c \<Rightarrow> if c = CircuitClosed then cb_in_flight b' = cb_in_flight b
        else cb_in_flight b = 0 \<and> cb_in_flight b' = 1
      | _ \<Rightarrow> cb_in_flight b' = cb_in_flight b)"
  using slot_frame(1) [of now b]
  by (cases "refresh_locked now b") (auto simp: admit_def Let_def simp del: slot_frame split: if_splits)

lemma bstep_slot: "bstep s t \<Longrightarrow> slot_ok s \<Longrightarrow> slot_ok t"
proof (induction rule: bstep.induct)
  case (b_refused s op prio a n b)
  then show ?case using admit_slot [OF b_refused(1)] by (auto simp: slot_ok_def probes_def)
next
  case (b_admitted s op prio c n b)
  then show ?case using admit_slot [OF b_admitted(1)] by (auto simp: slot_ok_def probes_def split: if_splits)
next
  case (b_recorded c s ctx_done result n b)
  then have "bs_running s - {#c#} + add_mset c (bs_returning s) = bs_running s + bs_returning s"
    by (metis add_mset_add_single insert_DiffM union_assoc union_commute)
  with b_recorded show ?case
    using slot_frame(2) [of "bs_now s" ctx_done result "bs_breaker s"] by (simp add: slot_ok_def probes_def flip: filter_union_mset)
next
  case (b_panicked c s)
  then have "bs_running s - {#c#} + add_mset c (bs_returning s) = bs_running s + bs_returning s"
    by (metis add_mset_add_single insert_DiffM union_assoc union_commute)
  with b_panicked show ?case by (simp add: slot_ok_def probes_def flip: filter_union_mset)
next
  case (b_released c s)
  then obtain R where R: "bs_returning s = add_mset c R" by (metis insert_DiffM)
  with b_released show ?case by (auto simp: slot_ok_def probes_def release_def split: if_splits)
qed (auto simp: slot_ok_def probes_def record_failure_external_def record_success_external_def)

interpretation probe_slot: invariant_system bstart bstep slot_ok
proof
  show "bstart s \<Longrightarrow> slot_ok s" for s by (auto simp: slot_ok_def probes_def new_circuit_def Let_def elim!: bstart.cases)
  show "slot_ok s \<Longrightarrow> bstep s t \<Longrightarrow> slot_ok t" for s t by (rule bstep_slot)
qed

text \<open>
  C19. As long as nobody resets the breaker by hand, at most one call that was admitted while the
  breaker was not closed is under way at any moment, critical probes through the open breaker
  included, and a panic in the wrapped call frees the slot.
\<close>

theorem one_probe_at_a_time:
  assumes "reach bstart bstep s"
  shows "size (filter_mset (\<lambda>c. c \<noteq> CircuitClosed) (bs_running s + bs_returning s)) \<le> 1
    \<and> (if bs_running s + bs_returning s = {#} then cb_in_flight (bs_breaker s) = 0 else True)"
  using probe_slot.reach_inv [OF assms] by (auto simp: slot_ok_def probes_def)

section \<open>The cycle of one breaker\<close>

text \<open>Calls one after the other: clock at start and end, whether the caller's context is done, the outcome.\<close>

fun call_seq :: "string \<Rightarrow> (time_ns \<times> time_ns \<times> bool \<times> call_error option) list \<Rightarrow> breaker
    \<Rightarrow> (unit + call_error option) list \<times> breaker" where
  "call_seq op [] b = ([], b)"
| "call_seq op ((now, later, d, result) # cs) b =
     (case do_call now later d op result b of
        (r, _, b1) \<Rightarrow> (case call_seq op cs b1 of (rs, b2) \<Rightarrow> (r # rs, b2)))"

lemma call_seq_step:
  assumes "do_call now later d op result b = (r, n, b1)"
  shows "fst (call_seq op ((now, later, d, result) # cs) b) = r # fst (call_seq op cs b1)"
    and "snd (call_seq op ((now, later, d, result) # cs) b) = snd (call_seq op cs b1)"
  using assms by (simp_all split: prod.split)

definition failing :: "time_ns \<times> time_ns \<times> bool \<times> call_error option \<Rightarrow> bool" where
  "failing c \<longleftrightarrow> (case c of (_, _, d, result) \<Rightarrow> is_wire_failure d result)"

definition succeeding :: "time_ns \<times> time_ns \<times> bool \<times> call_error option \<Rightarrow> bool" where
  "succeeding c \<longleftrightarrow> (case c of (_, _, _, result) \<Rightarrow> result = None)"

definition outcome_of :: "time_ns \<times> time_ns \<times> bool \<times> call_error option \<Rightarrow> unit + call_error option" where
  "outcome_of c = (case c of (_, _, _, result) \<Rightarrow> Inr result)"

lemma is_wire_failure_None [simp]: "is_wire_failure d None = False"
  by (simp add: is_wire_failure_def)

lemma do_call_closed_failure:
  assumes "\<not> is_bypass_op op" and "cb_state b = CircuitClosed" and "is_wire_failure d result"
  shows "\<exists>n b1. do_call now later d op result b = (Inr result, n, b1) \<and> cb_cfg b1 = cb_cfg b
    \<and> cb_consecutive_err b1 = cb_consecutive_err b + 1
    \<and> cb_state b1 = (if cc_failure_threshold (cb_cfg b) \<le> cb_consecutive_err b + 1 then CircuitOpen else CircuitClosed)"
proof -
  obtain e where "result = Some e" using assms(3) by (cases result) simp_all
  then show ?thesis
    using assms
    by (simp add: do_call_def do_with_priority_def admit_def refresh_locked_def record_outcome_def release_def Let_def)
qed

lemma call_seq_failures:
  assumes "\<not> is_bypass_op op" and "cb_state b = CircuitClosed" and "list_all failing cs"
    and "cb_consecutive_err b + int (length cs) \<le> cc_failure_threshold (cb_cfg b)"
    and "cb_consecutive_err b < cc_failure_threshold (cb_cfg b)"
  shows "fst (call_seq op cs b) = map outcome_of cs
    \<and> cb_state (snd (call_seq op cs b)) =
        (if cb_consecutive_err b + int (length cs) < cc_failure_threshold (cb_cfg b) then CircuitClosed else CircuitOpen)"
  using assms
proof (induction cs arbitrary: b)
  case (Cons c cs)
  obtain now later d result where c: "c = (now, later, d, result)" by (metis prod.exhaust)
  then obtain n b1 where b1: "do_call now later d op result b = (Inr result, n, b1)" "cb_cfg b1 = cb_cfg b"
    "cb_consecutive_err b1 = cb_consecutive_err b + 1"
    "cb_state b1 = (if cc_failure_threshold (cb_cfg b) \<le> cb_consecutive_err b + 1 then CircuitOpen else CircuitClosed)"
    using do_call_closed_failure [OF Cons.prems(1,2)] Cons.prems(3) by (fastforce simp: failing_def)
  show ?case
  proof (cases cs)
    case Nil
    with b1 c Cons.prems show ?thesis by (simp add: outcome_of_def)
  next
    case (Cons c' cs')
    then have "cb_state b1 = CircuitClosed" "cb_consecutive_err b1 < cc_failure_threshold (cb_cfg b)"
      using b1(3,4) Cons.prems(4) by simp_all
    then show ?thesis
      using Cons.IH [of b1] b1(2,3) Cons.prems
      by (simp only: c call_seq_step [OF b1(1)]) (simp add: outcome_of_def algebra_simps)
  qed
qed simp

text \<open>
  The breaker trips at its threshold: starting closed with no failure counted, up to threshold
  many consecutive wire failures are all executed, and the breaker is open after them exactly when
  their number has reached the threshold.
\<close>

theorem breaker_trips_at_threshold:
  assumes "\<not> is_bypass_op op" and "list_all failing cs"
    and "int (length cs) \<le> cc_failure_threshold (cb_cfg (new_circuit cfg))"
  shows "fst (call_seq op cs (new_circuit cfg)) = map outcome_of cs
    \<and> cb_state (snd (call_seq op cs (new_circuit cfg))) =
        (if int (length cs) < cc_failure_threshold (cb_cfg (new_circuit cfg)) then CircuitClosed else CircuitOpen)"
proof -
  have "cb_state (new_circuit cfg) = CircuitClosed" "cb_consecutive_err (new_circuit cfg) = 0"
    "0 < cc_failure_threshold (cb_cfg (new_circuit cfg))"
    using new_circuit_ok [of cfg] by (simp_all add: new_circuit_def Let_def breaker_ok_def config_ok_def)
  with call_seq_failures [OF assms(1) _ assms(2), of "new_circuit cfg"] assms(3) show ?thesis by simp
qed

definition demo_circuit :: circuit_config where
  "demo_circuit = \<lparr>cc_failure_threshold = 2, cc_reset_timeout = 10, cc_half_open_success = 1\<rparr>"

theorem breaker_trips_at_threshold_witness:
  "cb_state (snd (call_seq ''setValue'' [(1, 2, False, Some plain_error), (3, 4, False, Some plain_error)]
     (new_circuit demo_circuit))) = CircuitOpen"
  using breaker_trips_at_threshold [of "''setValue''"
      "[(1, 2, False, Some plain_error), (3, 4, False, Some plain_error)]" demo_circuit]
  by (simp add: is_bypass_op_def failing_def is_wire_failure_def plain_error_def is_semantic_fault_def
      is_caller_gone_def demo_circuit_def new_circuit_def Let_def)

text \<open>
  An open breaker sheds load: before its reset timeout has passed, a call that is neither on the
  bypass list nor a critical probe is refused without running, and only the request counter moves.
  A critical call takes the free probe slot, runs, releases the slot and leaves the breaker open
  with its dwell time unchanged, even when it succeeds.
\<close>

theorem open_breaker_sheds_load:
  assumes "cb_state b = CircuitOpen" and "now - cb_opened_at b < cc_reset_timeout (cb_cfg b)"
  shows "let out = do_with_priority now later d op prio result b; b' = snd (snd out) in
    if is_bypass_op op then out = (Inr result, [], b)
    else if prio = PriorityCritical \<and> cb_in_flight b = 0
    then fst out = Inr result \<and> cb_state b' = CircuitOpen \<and> cb_opened_at b' = cb_opened_at b \<and> cb_in_flight b' = 0
    else out = (Inl (), [], b\<lparr>cb_total_requests := cb_total_requests b + 1\<rparr>)"
  using assms
  by (simp add: do_with_priority_def admit_def refresh_locked_def record_outcome_def release_def Let_def)

theorem open_breaker_sheds_load_witness:
  "do_with_priority 5 6 False ''setValue'' PriorityLow None ((new_circuit demo_circuit)\<lparr>cb_state := CircuitOpen\<rparr>)
     = (Inl (), [], (new_circuit demo_circuit)\<lparr>cb_state := CircuitOpen, cb_total_requests := 1\<rparr>)"
  using open_breaker_sheds_load [of "(new_circuit demo_circuit)\<lparr>cb_state := CircuitOpen\<rparr>" 5 6 False
      "''setValue''" PriorityLow None]
  by (simp add: is_bypass_op_def demo_circuit_def new_circuit_def Let_def)

lemma half_open_success:
  assumes "\<not> is_bypass_op op" and "cb_in_flight b = 0"
    and "cb_state b = CircuitHalfOpen \<or> cb_state b = CircuitOpen \<and> cc_reset_timeout (cb_cfg b) \<le> now - cb_opened_at b"
  shows "\<exists>n b1. do_call now later d op None b = (Inr None, n, b1) \<and> cb_cfg b1 = cb_cfg b \<and> cb_in_flight b1 = 0
    \<and> (if cc_half_open_success (cb_cfg b) \<le> cb_half_open_ok b + 1 then cb_state b1 = CircuitClosed
       else cb_state b1 = CircuitHalfOpen \<and> cb_half_open_ok b1 = cb_half_open_ok b + 1)"
  using assms
  by (auto simp: do_call_def do_with_priority_def admit_def refresh_locked_def record_outcome_def release_def Let_def)

lemma half_open_successes:
  assumes "\<not> is_bypass_op op" and "cb_state b = CircuitHalfOpen" and "cb_in_flight b = 0" and "list_all succeeding cs"
    and "cb_half_open_ok b + int (length cs) \<le> cc_half_open_success (cb_cfg b)" and "0 < length cs"
  shows "fst (call_seq op cs b) = map outcome_of cs
    \<and> cb_state (snd (call_seq op cs b)) =
        (if cb_half_open_ok b + int (length cs) < cc_half_open_success (cb_cfg b) then CircuitHalfOpen else CircuitClosed)"
  using assms
proof (induction cs arbitrary: b)
  case (Cons c cs)
  obtain now later d where c: "c = (now, later, d, None)"
    using Cons.prems(4) by (cases c) (auto simp: succeeding_def)
  obtain n b1 where b1: "do_call now later d op None b = (Inr None, n, b1)" "cb_cfg b1 = cb_cfg b" "cb_in_flight b1 = 0"
    "if cc_half_open_success (cb_cfg b) \<le> cb_half_open_ok b + 1 then cb_state b1 = CircuitClosed
     else cb_state b1 = CircuitHalfOpen \<and> cb_half_open_ok b1 = cb_half_open_ok b + 1"
    using half_open_success [OF Cons.prems(1,3)] Cons.prems(2) by blast
  show ?case
  proof (cases cs)
    case Nil
    with b1 c Cons.prems show ?thesis by (simp add: outcome_of_def split: if_splits)
  next
    case (Cons c' cs')
    then have "cb_state b1 = CircuitHalfOpen" "cb_half_open_ok b1 = cb_half_open_ok b + 1"
      using b1(4) Cons.prems(5) by (auto split: if_splits)
    then show ?thesis
      using Cons.IH [of b1] b1(2,3) Cons.prems Cons
      by (simp only: c call_seq_step [OF b1(1)]) (simp add: outcome_of_def algebra_simps)
  qed
qed simp

text \<open>
  The breaker recovers: once the reset timeout has passed, the first call is admitted as the
  probe, no success is refused, and the breaker is closed again exactly when as many consecutive
  calls have succeeded as its configuration asks for.
\<close>

theorem breaker_recovers:
  assumes "breaker_ok b" and "cb_state b = CircuitOpen" and "cb_in_flight b = 0" and "\<not> is_bypass_op op"
    and "list_all succeeding ((now, later, d, result) # cs)"
    and "cc_reset_timeout (cb_cfg b) \<le> now - cb_opened_at b"
    and "1 + int (length cs) \<le> cc_half_open_success (cb_cfg b)"
  shows "fst (call_seq op ((now, later, d, result) # cs) b) = map outcome_of ((now, later, d, result) # cs)
    \<and> cb_state (snd (call_seq op ((now, later, d, result) # cs) b)) =
        (if 1 + int (length cs) < cc_half_open_success (cb_cfg b) then CircuitHalfOpen else CircuitClosed)"
proof -
  have ok: "cb_half_open_ok b = 0" using assms(1,2) by (simp add: breaker_ok_def)
  have none: "result = None" using assms(5) by (simp add: succeeding_def)
  obtain n b1 where b1: "do_call now later d op None b = (Inr None, n, b1)" "cb_cfg b1 = cb_cfg b" "cb_in_flight b1 = 0"
    "if cc_half_open_success (cb_cfg b) \<le> 1 then cb_state b1 = CircuitClosed
     else cb_state b1 = CircuitHalfOpen \<and> cb_half_open_ok b1 = 1"
    using half_open_success [OF assms(4,3), of now later d] assms(2,6) ok by auto
  show ?thesis
  proof (cases "cs = []")
    case True
    with b1 none assms(7) show ?thesis by (simp add: outcome_of_def split: if_splits)
  next
    case False
    then have "0 < length cs" by simp
    then have "1 < cc_half_open_success (cb_cfg b)" using assms(7) by linarith
    with b1(4) have "cb_state b1 = CircuitHalfOpen" "cb_half_open_ok b1 = 1" by simp_all
    with half_open_successes [OF assms(4), of b1 cs] b1(2,3) assms(5,7) False show ?thesis
      by (simp only: none call_seq_step [OF b1(1)]) (simp add: outcome_of_def)
  qed
qed

theorem breaker_recovers_witness:
  "cb_state (snd (call_seq ''getValue'' [(20, 21, False, None)] ((new_circuit demo_circuit)\<lparr>cb_state := CircuitOpen\<rparr>)))
     = CircuitClosed"
  using breaker_recovers [of "(new_circuit demo_circuit)\<lparr>cb_state := CircuitOpen\<rparr>" "''getValue''" 20 21 False None "[]"]
  by (simp add: is_bypass_op_def demo_circuit_def new_circuit_def Let_def breaker_ok_def config_ok_def succeeding_def)

section \<open>A reset while a probe runs\<close>

definition demo_sys :: "circuit_state \<Rightarrow> int \<Rightarrow> int \<Rightarrow> int \<Rightarrow> circuit_state multiset \<Rightarrow> nat \<Rightarrow> bsys" where
  "demo_sys st err reqs slot running resets =
     \<lparr>bs_breaker = (new_circuit demo_circuit)\<lparr>cb_state := st, cb_consecutive_err := err, cb_total_requests := reqs,
        cb_in_flight := slot\<rparr>, bs_now = 0, bs_running = running, bs_returning = {#}, bs_resetting = resets\<rparr>"

lemma demo_failure:
  "bstep (demo_sys CircuitClosed err reqs slot running resets)
     (demo_sys (if 2 \<le> err + 1 then CircuitOpen else CircuitClosed) (err + 1) reqs slot running resets)"
proof -
  let ?s = "demo_sys CircuitClosed err reqs slot running resets"
  have "?s\<lparr>bs_breaker := snd (record_failure_external (bs_now ?s) (bs_breaker ?s))\<rparr> =
      demo_sys (if 2 \<le> err + 1 then CircuitOpen else CircuitClosed) (err + 1) reqs slot running resets"
    by (simp add: demo_sys_def record_failure_external_def record_outcome_def is_wire_failure_def plain_error_def
        is_semantic_fault_def is_caller_gone_def demo_circuit_def new_circuit_def Let_def)
  then show ?thesis using b_failure [of ?s] by simp
qed

lemma demo_probe:
  "bstep (demo_sys CircuitOpen err reqs 0 running resets)
     (demo_sys CircuitOpen err (reqs + 1) 1 (add_mset CircuitOpen running) resets)"
proof -
  let ?s = "demo_sys CircuitOpen err reqs 0 running resets"
  let ?b = "bs_breaker (demo_sys CircuitOpen err (reqs + 1) 1 running resets)"
  have "admit (bs_now ?s) ''setValue'' PriorityCritical (bs_breaker ?s) = (Admitted CircuitOpen, [], ?b)"
    by (simp add: demo_sys_def admit_def is_bypass_op_def refresh_locked_def demo_circuit_def new_circuit_def Let_def)
  from b_admitted [OF this] show ?thesis by (simp add: demo_sys_def)
qed

lemma demo_start:
  "bstart (demo_sys CircuitClosed 0 0 0 {#} 0)"
proof -
  have "demo_sys CircuitClosed 0 0 0 {#} 0 = \<lparr>bs_breaker = new_circuit demo_circuit, bs_now = 0, bs_running = {#},
      bs_returning = {#}, bs_resetting = 0\<rparr>"
    by (simp add: demo_sys_def new_circuit_def Let_def)
  then show ?thesis by (auto intro: bstart.intros)
qed

lemma bstep_reach: "reach bstart bstep s \<Longrightarrow> bstep s t \<Longrightarrow> reach bstart bstep t"
  by (rule reach_step)

lemma breset_reach: "reach bstart breset s \<Longrightarrow> breset s t \<Longrightarrow> reach bstart breset t"
  by (rule reach_step)

lemma demo_probing: "reach bstart bstep (demo_sys CircuitOpen 2 1 1 {#CircuitOpen#} 0)"
proof -
  have "reach bstart bstep (demo_sys CircuitClosed 0 0 0 {#} 0)" by (rule reach_start) (rule demo_start)
  from bstep_reach [OF bstep_reach [OF this demo_failure, simplified] demo_failure]
  have "reach bstart bstep (demo_sys CircuitOpen 2 0 0 {#} 0)" by simp
  from bstep_reach [OF this demo_probe] show ?thesis by simp
qed

lemma reach_breset: "reach bstart bstep s \<Longrightarrow> reach bstart breset s"
  by (induction rule: reach.induct) (auto intro: reach.intros b_step)

theorem breaker_bookkeeping_witness:
  "breaker_ok (bs_breaker (demo_sys CircuitOpen 2 1 1 {#CircuitOpen#} 0))"
  by (rule breaker_bookkeeping) (rule reach_breset [OF demo_probing])

theorem one_probe_at_a_time_witness:
  "size (filter_mset (\<lambda>c. c \<noteq> CircuitClosed) (bs_running (demo_sys CircuitOpen 2 1 1 {#CircuitOpen#} 0)
     + bs_returning (demo_sys CircuitOpen 2 1 1 {#CircuitOpen#} 0))) \<le> 1"
  using one_probe_at_a_time [OF demo_probing] by blast

lemma demo_reset:
  "breset (demo_sys st err reqs slot running 0) (demo_sys CircuitClosed 0 reqs slot running 1)"
  "breset (demo_sys st err reqs slot running 1) (demo_sys st err reqs 0 running 0)"
proof -
  let ?s = "demo_sys st err reqs slot running 0"
  have "?s\<lparr>bs_breaker := snd (reset_locked (bs_breaker ?s)), bs_resetting := bs_resetting ?s + 1\<rparr> =
      demo_sys CircuitClosed 0 reqs slot running 1"
    by (simp add: demo_sys_def reset_locked_def new_circuit_def Let_def)
  then show "breset (demo_sys st err reqs slot running 0) (demo_sys CircuitClosed 0 reqs slot running 1)"
    using b_reset [of ?s] by simp
  let ?t = "demo_sys st err reqs slot running 1"
  have "?t\<lparr>bs_breaker := reset_slot (bs_breaker ?t), bs_resetting := bs_resetting ?t - 1\<rparr> =
      demo_sys st err reqs 0 running 0"
    by (simp add: demo_sys_def reset_slot_def)
  then show "breset (demo_sys st err reqs slot running 1) (demo_sys st err reqs 0 running 0)"
    using b_reset_slot [of ?t] by (simp add: demo_sys_def)
qed

text \<open>
  C39. A manual reset while a probe is in flight gives the slot away: from then on a second probe can
  run next to the first, against the single-probe contract of \<open>DoWithPriority\<close>.
\<close>

theorem reset_admits_a_second_probe:
  "\<exists>s. reach bstart breset s \<and> bs_running s = {#CircuitOpen, CircuitOpen#} \<and> cb_state (bs_breaker s) = CircuitOpen"
proof -
  have "reach bstart breset (demo_sys CircuitOpen 2 1 1 {#CircuitOpen#} 0)" by (rule reach_breset [OF demo_probing])
  from breset_reach [OF breset_reach [OF this demo_reset(1)] demo_reset(2)]
  have "reach bstart breset (demo_sys CircuitClosed 0 1 0 {#CircuitOpen#} 0)" .
  from breset_reach [OF breset_reach [OF this b_step [OF demo_failure], simplified] b_step [OF demo_failure]]
  have "reach bstart breset (demo_sys CircuitOpen 2 1 0 {#CircuitOpen#} 0)" by simp
  from breset_reach [OF this b_step [OF demo_probe]] show ?thesis by (force simp: demo_sys_def)
qed

end
