(* ===== verification/Ring_Buffer.thy ===== *)
theory Ring_Buffer
  imports Main
begin

text \<open>
  Ring buffers as the code base writes them: a slice of slots, the index of the next write and the number
  of entries. The interface \<open>ring_buffer\<close> states what a component's push and read do to these three; the
  lemmas say that reading returns the end of the log of all pushes, in order.
\<close>

section \<open>Slots, head and length against the log\<close>

text \<open>Entry \<open>n\<close> of the log sits at \<open>n mod cap\<close> as long as it is among the last \<open>cap\<close>.\<close>

definition ring_holds :: "'a list \<Rightarrow> nat \<Rightarrow> nat \<Rightarrow> 'a list \<Rightarrow> bool" where
  "ring_holds xs h l ts \<longleftrightarrow> xs \<noteq> [] \<and> h = length ts mod length xs \<and> l = min (length ts) (length xs)
     \<and> (\<forall>n < length ts. length ts \<le> n + length xs \<longrightarrow> xs ! (n mod length xs) = ts ! n)"

lemma ring_holds_empty: "xs \<noteq> [] \<Longrightarrow> ring_holds xs 0 0 []"
  by (simp add: ring_holds_def)

lemma ring_holds_bounds: "ring_holds xs h l ts \<Longrightarrow> h < length xs \<and> l \<le> length xs"
  by (auto simp: ring_holds_def)

lemma ring_holds_push:
  assumes "ring_holds xs h l ts"
  shows "ring_holds (xs[h := e]) ((h + 1) mod length xs) (if l < length xs then l + 1 else l) (ts @ [e])"
proof -
  let ?k = "length xs" and ?n = "length ts"
  have k: "0 < ?k" "h = ?n mod ?k" "l = min ?n ?k"
    and old: "\<And>n. n < ?n \<Longrightarrow> ?n \<le> n + ?k \<Longrightarrow> xs ! (n mod ?k) = ts ! n"
    using assms by (simp_all add: ring_holds_def)
  have "xs[?n mod ?k := e] ! (n mod ?k) = (ts @ [e]) ! n" if "n < Suc ?n" "Suc ?n \<le> n + ?k" for n
  proof (cases "n = ?n")
    case True
    with k show ?thesis by simp
  next
    case False
    with that have n: "n < ?n" "?n - n < ?k" "0 < ?n - n" by simp_all
    then have "\<not> ?k dvd ?n - n" by (simp add: nat_dvd_not_less)
    then have "n mod ?k \<noteq> ?n mod ?k" using n(1) mod_eq_dvd_iff_nat [of n ?n ?k] by simp
    with old [of n] n that show ?thesis by (simp add: nth_append)
  qed
  with k show ?thesis by (auto simp: ring_holds_def mod_Suc_eq)
qed

lemma ring_holds_read:
  assumes "ring_holds xs h l ts"
  shows "map (\<lambda>i. xs ! ((h + length xs - l + i) mod length xs)) [0..<l] = drop (length ts - length xs) ts"
proof -
  let ?k = "length xs" and ?n = "length ts"
  have k: "0 < ?k" "h = ?n mod ?k" "l = min ?n ?k"
    and old: "\<And>n. n < ?n \<Longrightarrow> ?n \<le> n + ?k \<Longrightarrow> xs ! (n mod ?k) = ts ! n"
    using assms by (simp_all add: ring_holds_def)
  have s: "(h + ?k - l + i) mod ?k = (?n - l + i) mod ?k" for i
  proof (cases "?n < ?k")
    case True
    then show ?thesis using k by simp
  next
    case False
    then have "h + ?k - l = ?n mod ?k" "l = ?k" using k by simp_all
    moreover have "(?n - ?k) mod ?k = ?n mod ?k" using False by (simp add: le_mod_geq)
    ultimately show ?thesis by (metis mod_add_left_eq mod_mod_trivial)
  qed
  have "map (\<lambda>i. xs ! ((h + ?k - l + i) mod ?k)) [0..<l] = map (\<lambda>i. ts ! (?n - l + i)) [0..<l]"
    unfolding s by (rule map_cong [OF refl], rule old) (auto simp: k(3) min_def split: if_splits)
  also have "\<dots> = drop (?n - ?k) ts"
    by (rule nth_equalityI) (auto simp: k(3) min_def)
  finally show ?thesis .
qed

section \<open>The interface\<close>

locale ring_buffer =
  fixes ready :: "'s \<Rightarrow> bool"
    and slots :: "'s \<Rightarrow> 'a list"
    and head :: "'s \<Rightarrow> nat"
    and len :: "'s \<Rightarrow> nat"
    and push :: "'a \<Rightarrow> 's \<Rightarrow> 's"
    and read :: "'s \<Rightarrow> 'a list"
  assumes push_ready: "ready s \<Longrightarrow> ready (push e s)"
    and push_slots: "ready s \<Longrightarrow> slots (push e s) = (slots s)[head s := e]"
    and push_head: "ready s \<Longrightarrow> head (push e s) = (head s + 1) mod length (slots s)"
    and push_len: "ready s \<Longrightarrow> len (push e s) = (if len s < length (slots s) then len s + 1 else len s)"
    and read_slots: "ready s \<Longrightarrow> head s < length (slots s) \<Longrightarrow> len s \<le> length (slots s) \<Longrightarrow>
      read s = map (\<lambda>i. slots s ! ((head s + length (slots s) - len s + i) mod length (slots s))) [0..<len s]"
begin

lemma push_holds:
  "ready s \<Longrightarrow> ring_holds (slots s) (head s) (len s) ts \<Longrightarrow> ring_holds (slots (push e s)) (head (push e s)) (len (push e s)) (ts @ [e])"
  by (simp add: push_slots push_head push_len ring_holds_push[simplified])

lemma pushes_hold:
  "ready s \<Longrightarrow> ring_holds (slots s) (head s) (len s) ts \<Longrightarrow>
     ready (fold push es s) \<and> length (slots (fold push es s)) = length (slots s)
     \<and> ring_holds (slots (fold push es s)) (head (fold push es s)) (len (fold push es s)) (ts @ es)"
proof (induction es arbitrary: s ts)
  case (Cons e es)
  from Cons.IH[OF push_ready[OF Cons.prems(1)] push_holds[OF Cons.prems]] Cons.prems show ?case
    by (simp add: push_slots)
qed simp

lemma read_log:
  "ready s \<Longrightarrow> ring_holds (slots s) (head s) (len s) ts \<Longrightarrow> read s = drop (length ts - length (slots s)) ts"
  using ring_holds_read[of "slots s" "head s" "len s" ts] ring_holds_bounds[of "slots s" "head s" "len s" ts]
  by (simp add: read_slots)

end

end
