(* ===== verification/Central_Machine.thy ===== *)
theory Central_Machine
  imports Prelude Ring_Buffer
begin

text \<open>
  The lifecycle state machine of a central, \<open>internal/central/statemachine/central.go\<close>: the
  transition graph, validated and forced transitions with their failure metadata, the degraded
  interfaces, the ring buffer of past transitions and the events published on the bus.

  A log is the list of all transitions ever made; the properties relate the machine to it.
\<close>

section \<open>The machine\<close>

datatype central_state = CentralStarting | CentralInitializing | CentralRunning | CentralDegraded
  | CentralRecovering | CentralFailed | CentralStopped

datatype failure_reason = ReasonNone | ReasonAuth | ReasonNetwork | ReasonInternal | ReasonTimeout
  | ReasonCircuitBreaker | ReasonExhausted | ReasonUnknown

record central_transition =
  ct_from :: central_state
  ct_to :: central_state
  ct_reason :: failure_reason
  ct_at :: time_ns
  ct_forced :: bool

definition default_history_size :: nat where
  "default_history_size = 100"

fun central_transitions :: "central_state \<Rightarrow> central_state list" where
  "central_transitions CentralStarting = [CentralInitializing, CentralStopped]"
| "central_transitions CentralInitializing = [CentralRunning, CentralDegraded, CentralFailed, CentralStopped]"
| "central_transitions CentralRunning = [CentralDegraded, CentralFailed, CentralRecovering, CentralStopped]"
| "central_transitions CentralDegraded = [CentralRunning, CentralRecovering, CentralFailed, CentralStopped]"
| "central_transitions CentralRecovering = [CentralRunning, CentralDegraded, CentralFailed, CentralStopped]"
| "central_transitions CentralFailed = [CentralRecovering, CentralRunning, CentralDegraded, CentralStopped]"
| "central_transitions CentralStopped = []"

text \<open>The zero \<open>CentralTransition\<close> that fills the buffer, and the zero time as \<open>None\<close>.\<close>

definition zero_transition :: central_transition where
  "zero_transition = \<lparr>ct_from = CentralStarting, ct_to = CentralStarting, ct_reason = ReasonNone, ct_at = 0,
     ct_forced = False\<rparr>"

record central =
  cm_name :: string
  cm_cur :: central_state
  cm_why :: "failure_reason option"
  cm_bus :: bool
  cm_degraded :: "(string \<times> failure_reason) list"
  cm_failure_interface :: string
  cm_failure_msg :: string
  cm_last_change :: "time_ns option"
  cm_history :: "central_transition list"
  cm_history_cap :: nat
  cm_history_head :: nat
  cm_history_len :: nat

record central_event =
  ce_central :: string
  ce_from :: central_state
  ce_to :: central_state
  ce_reason :: failure_reason

definition new_central :: "string \<Rightarrow> bool \<Rightarrow> central" where
  "new_central name bus =
     \<lparr>cm_name = name, cm_cur = CentralStarting, cm_why = None, cm_bus = bus, cm_degraded = [],
      cm_failure_interface = '''', cm_failure_msg = '''', cm_last_change = None,
      cm_history = replicate default_history_size zero_transition, cm_history_cap = default_history_size,
      cm_history_head = 0, cm_history_len = 0\<rparr>"

text \<open>\<open>None\<close> is the nil map of degraded interfaces.\<close>

record transition_cfg =
  tc_failure_interface :: string
  tc_degraded :: "(string \<times> failure_reason) list option"

definition with_failure_interface :: "string \<Rightarrow> transition_cfg \<Rightarrow> transition_cfg" where
  "with_failure_interface i c = c\<lparr>tc_failure_interface := i\<rparr>"

definition with_degraded_interfaces :: "(string \<times> failure_reason) list option \<Rightarrow> transition_cfg \<Rightarrow> transition_cfg" where
  "with_degraded_interfaces m c = c\<lparr>tc_degraded := m\<rparr>"

definition apply_options :: "(transition_cfg \<Rightarrow> transition_cfg) list \<Rightarrow> transition_cfg" where
  "apply_options opts = fold (\<lambda>o' c. o' c) opts \<lparr>tc_failure_interface = '''', tc_degraded = None\<rparr>"

definition maps_copy :: "('k \<times> 'v) list \<Rightarrow> ('k \<times> 'v) list \<Rightarrow> ('k \<times> 'v) list" where
  "maps_copy dst src = fold (\<lambda>(k, v). AList.update k v) src dst"

definition can_transition_locked :: "central_state \<Rightarrow> central \<Rightarrow> bool" where
  "can_transition_locked target c \<longleftrightarrow> target \<in> set (central_transitions (cm_cur c))"

definition push_history :: "central_transition \<Rightarrow> central \<Rightarrow> central" where
  "push_history t c = c\<lparr>cm_history := (cm_history c)[cm_history_head c := t],
     cm_history_head := (cm_history_head c + 1) mod cm_history_cap c,
     cm_history_len := (if cm_history_len c < cm_history_cap c then cm_history_len c + 1 else cm_history_len c)\<rparr>"

definition central_events :: "central \<Rightarrow> central_state \<Rightarrow> central_state \<Rightarrow> failure_reason \<Rightarrow> central_event list" where
  "central_events c from target reason =
     (if cm_bus c then [\<lparr>ce_central = cm_name c, ce_from = from, ce_to = target, ce_reason = reason\<rparr>] else [])"

definition transition_to :: "time_ns \<Rightarrow> central_state \<Rightarrow> failure_reason \<Rightarrow> (transition_cfg \<Rightarrow> transition_cfg) list
    \<Rightarrow> central \<Rightarrow> (central_state \<times> central_state + unit) \<times> central_event list \<times> central" where
  "transition_to now target reason opts c =
     (let cfg = apply_options opts; from = cm_cur c in
      if \<not> can_transition_locked target c then (Inl (from, target), [], c)
      else let c1 = c\<lparr>cm_cur := target, cm_why := Some reason, cm_last_change := Some now\<rparr>;
               c2 = (if target = CentralRunning then c1\<lparr>cm_degraded := [], cm_failure_interface := ''''\<rparr>
                     else let c3 = (if tc_failure_interface cfg \<noteq> ''''
                                    then c1\<lparr>cm_failure_interface := tc_failure_interface cfg\<rparr> else c1)
                       in case tc_degraded cfg of None \<Rightarrow> c3
                          | Some m \<Rightarrow> c3\<lparr>cm_degraded := maps_copy [] m\<rparr>);
               c4 = push_history \<lparr>ct_from = from, ct_to = target, ct_reason = reason, ct_at = now, ct_forced = False\<rparr> c2
        in (Inr (), central_events c from target reason, c4))"

definition force_transition_to :: "time_ns \<Rightarrow> central_state \<Rightarrow> failure_reason \<Rightarrow> central \<Rightarrow> central_event list \<times> central" where
  "force_transition_to now target reason c =
     (let from = cm_cur c;
          c1 = c\<lparr>cm_cur := target, cm_why := Some reason, cm_last_change := Some now\<rparr>;
          c2 = push_history \<lparr>ct_from = from, ct_to = target, ct_reason = reason, ct_at = now, ct_forced = True\<rparr> c1
      in (central_events c from target reason, c2))"

definition history :: "central \<Rightarrow> central_transition list" where
  "history c =
     (if cm_history_len c = 0 then []
      else let d = int (cm_history_head c) - int (cm_history_len c);
               start = nat (if d < 0 then d + int (cm_history_cap c) else d)
        in map (\<lambda>i. cm_history c ! ((start + i) mod cm_history_cap c)) [0..<cm_history_len c])"

definition mark_interface_degraded :: "string \<Rightarrow> failure_reason \<Rightarrow> central \<Rightarrow> central" where
  "mark_interface_degraded i reason c =
     c\<lparr>cm_degraded := AList.update i reason (cm_degraded c), cm_failure_interface := i\<rparr>"

definition clear_interface_degraded :: "string \<Rightarrow> central \<Rightarrow> central" where
  "clear_interface_degraded i c =
     c\<lparr>cm_degraded := AList.delete i (cm_degraded c),
       cm_failure_interface := (if cm_failure_interface c = i then '''' else cm_failure_interface c)\<rparr>"

definition degraded_interfaces :: "central \<Rightarrow> (string \<times> failure_reason) list" where
  "degraded_interfaces c = (if cm_degraded c = [] then [] else maps_copy [] (cm_degraded c))"

definition set_failure_message :: "string \<Rightarrow> central \<Rightarrow> central" where
  "set_failure_message msg c = c\<lparr>cm_failure_msg := msg\<rparr>"

definition is_operational :: "central \<Rightarrow> bool" where
  "is_operational c \<longleftrightarrow> cm_cur c = CentralRunning \<or> cm_cur c = CentralDegraded"

section \<open>Operations and their log\<close>

datatype central_op =
    CoTransition central_state failure_reason "(transition_cfg \<Rightarrow> transition_cfg) list"
  | CoForce central_state failure_reason
  | CoMark string failure_reason
  | CoClear string
  | CoMessage string

fun apply_op :: "time_ns \<times> central_op \<Rightarrow> central \<Rightarrow> central" where
  "apply_op (now, CoTransition target reason opts) c = snd (snd (transition_to now target reason opts c))"
| "apply_op (now, CoForce target reason) c = snd (force_transition_to now target reason c)"
| "apply_op (now, CoMark i reason) c = mark_interface_degraded i reason c"
| "apply_op (now, CoClear i) c = clear_interface_degraded i c"
| "apply_op (now, CoMessage msg) c = set_failure_message msg c"

text \<open>The specification: the transition an operation makes in a state, if any.\<close>

fun logged :: "time_ns \<times> central_op \<Rightarrow> central_state \<Rightarrow> central_transition list" where
  "logged (now, CoTransition target reason opts) s =
     (if target \<in> set (central_transitions s)
      then [\<lparr>ct_from = s, ct_to = target, ct_reason = reason, ct_at = now, ct_forced = False\<rparr>] else [])"
| "logged (now, CoForce target reason) s =
     [\<lparr>ct_from = s, ct_to = target, ct_reason = reason, ct_at = now, ct_forced = True\<rparr>]"
| "logged _ s = []"

fun run_log :: "(time_ns \<times> central_op) list \<Rightarrow> central_state \<Rightarrow> central_transition list" where
  "run_log [] s = []"
| "run_log (op # ops) s =
     (let ts = logged op s in ts @ run_log ops (if ts = [] then s else ct_to (hd ts)))"

section \<open>The ring buffer\<close>

definition history_ready :: "central \<Rightarrow> bool" where
  "history_ready c \<longleftrightarrow> 0 < cm_history_cap c \<and> length (cm_history c) = cm_history_cap c"

interpretation history_ring: ring_buffer history_ready cm_history cm_history_head cm_history_len push_history history
proof
  fix c :: central
  let ?k = "length (cm_history c)" and ?h = "cm_history_head c" and ?l = "cm_history_len c"
  assume ready: "history_ready c" and b: "?h < ?k" "?l \<le> ?k"
  define s where "s = (let d = int ?h - int ?l in nat (if d < 0 then d + int ?k else d))"
  have eq: "(s + i) mod ?k = (?h + ?k - ?l + i) mod ?k" for i
  proof (cases "?h < ?l")
    case True
    then have "s = ?h + ?k - ?l" using b by (simp add: s_def Let_def)
    then show ?thesis by simp
  next
    case False
    then have "s = ?h - ?l" by (simp add: s_def Let_def)
    with False b(2) have "?h + ?k - ?l + i = s + i + ?k" by simp
    then show ?thesis by (metis mod_add_self2)
  qed
  have "history c = map (\<lambda>i. cm_history c ! ((s + i) mod ?k)) [0..<?l]"
    using ready by (simp add: history_def history_ready_def s_def Let_def)
  then show "history c = map (\<lambda>i. cm_history c ! ((?h + ?k - ?l + i) mod ?k)) [0..<?l]"
    unfolding eq .
qed (simp_all add: history_ready_def push_history_def)

text \<open>The buffer holds the end of the log \<open>ts\<close>.\<close>

definition ring_ok :: "central_transition list \<Rightarrow> central \<Rightarrow> bool" where
  "ring_ok ts c \<longleftrightarrow> history_ready c \<and> ring_holds (cm_history c) (cm_history_head c) (cm_history_len c) ts"

lemma ring_ok_push: "ring_ok ts c \<Longrightarrow> ring_ok (ts @ [t]) (push_history t c)"
  by (simp add: ring_ok_def history_ring.push_holds history_ring.push_ready)

lemma history_log: "ring_ok ts c \<Longrightarrow> history c = drop (length ts - cm_history_cap c) ts"
  using history_ring.read_log[of c ts] by (simp add: ring_ok_def history_ready_def)

section \<open>The machine and its log\<close>

definition machine_ok :: "central_transition list \<Rightarrow> central \<Rightarrow> bool" where
  "machine_ok ts c \<longleftrightarrow> ring_ok ts c \<and> cm_history_cap c = default_history_size
     \<and> cm_cur c = (if ts = [] then CentralStarting else ct_to (last ts))"

lemma new_central_ok: "machine_ok [] (new_central name bus)"
  by (simp add: machine_ok_def ring_ok_def history_ready_def ring_holds_empty new_central_def default_history_size_def)

lemma ring_frame [simp]:
  "ring_ok ts (c\<lparr>cm_cur := s\<rparr>) = ring_ok ts c" "ring_ok ts (c\<lparr>cm_why := w\<rparr>) = ring_ok ts c"
  "ring_ok ts (c\<lparr>cm_last_change := t\<rparr>) = ring_ok ts c" "ring_ok ts (c\<lparr>cm_degraded := d\<rparr>) = ring_ok ts c"
  "ring_ok ts (c\<lparr>cm_failure_interface := i\<rparr>) = ring_ok ts c" "ring_ok ts (c\<lparr>cm_failure_msg := m\<rparr>) = ring_ok ts c"
  by (simp_all add: ring_ok_def history_ready_def)

lemma push_history_frame [simp]:
  "cm_history_cap (push_history t c) = cm_history_cap c" "cm_cur (push_history t c) = cm_cur c"
  "cm_degraded (push_history t c) = cm_degraded c" "cm_failure_interface (push_history t c) = cm_failure_interface c"
  by (simp_all add: push_history_def)

lemma apply_op_ok: "machine_ok ts c \<Longrightarrow> machine_ok (ts @ logged op (cm_cur c)) (apply_op op c)"
proof -
  assume ok: "machine_ok ts c"
  obtain now o' where op: "op = (now, o')" by fastforce
  have ring: "ring_ok ts c" and cap: "cm_history_cap c = default_history_size"
    using ok by (simp_all add: machine_ok_def)
  show ?thesis
  proof (cases o')
    case (CoTransition target reason opts)
    with ok ring cap op show ?thesis
      by (auto simp: machine_ok_def transition_to_def can_transition_locked_def Let_def ring_ok_push ring_ok_push [of "[]", simplified]
          split: option.split)
  next
    case (CoForce target reason)
    with ring cap op show ?thesis by (simp add: machine_ok_def force_transition_to_def Let_def ring_ok_push)
  qed (use ok ring op in \<open>auto simp: machine_ok_def mark_interface_degraded_def clear_interface_degraded_def
      set_failure_message_def\<close>)
qed

lemma cur_after: "cm_cur (apply_op op c) = (if logged op (cm_cur c) = [] then cm_cur c else ct_to (hd (logged op (cm_cur c))))"
  by (cases "(op, cm_cur c)" rule: logged.cases)
    (auto simp: transition_to_def force_transition_to_def can_transition_locked_def Let_def mark_interface_degraded_def
      clear_interface_degraded_def set_failure_message_def split: option.split)

lemma run_ok: "machine_ok ts c \<Longrightarrow> machine_ok (ts @ run_log ops (cm_cur c)) (fold apply_op ops c)"
proof (induction ops arbitrary: ts c)
  case (Cons op ops)
  from Cons.IH [OF apply_op_ok [OF Cons.prems]] show ?case by (simp add: cur_after Let_def)
qed simp

text \<open>
  C39. The ring buffer is the log: after any sequence of operations on a new central, \<open>History\<close>
  returns the last hundred transitions that were made, oldest first, forced ones included, rejected
  ones left out.
\<close>

theorem history_is_the_recent_log:
  "let ts = run_log ops CentralStarting in
   history (fold apply_op ops (new_central name bus)) = drop (length ts - 100) ts"
proof -
  let ?c = "fold apply_op ops (new_central name bus)"
  have "cm_cur (new_central name bus) = CentralStarting" by (simp add: new_central_def)
  then have "machine_ok (run_log ops CentralStarting) ?c"
    using run_ok [OF new_central_ok, of ops name bus] by simp
  then have "ring_ok (run_log ops CentralStarting) ?c" "cm_history_cap ?c = 100"
    by (simp_all add: machine_ok_def default_history_size_def)
  then show ?thesis using history_log by simp
qed

text \<open>A log that leads from one state to another along edges of the graph or forced steps.\<close>

fun chained :: "central_state \<Rightarrow> central_transition list \<Rightarrow> central_state \<Rightarrow> bool" where
  "chained s [] s' \<longleftrightarrow> s = s'"
| "chained s (t # ts) s' \<longleftrightarrow> ct_from t = s \<and> (ct_forced t \<or> ct_to t \<in> set (central_transitions s)) \<and> chained (ct_to t) ts s'"

lemma logged_chained: "logged op s = [] \<or> (\<exists>t. logged op s = [t] \<and> chained s [t] (ct_to t))"
  by (cases "(op, s)" rule: logged.cases) auto

lemma run_chained: "chained (cm_cur c) (run_log ops (cm_cur c)) (cm_cur (fold apply_op ops c))"
proof (induction ops arbitrary: c)
  case (Cons op ops)
  show ?case
    using logged_chained [of op "cm_cur c"] Cons.IH [of "apply_op op c"] by (auto simp: cur_after Let_def)
qed simp

text \<open>
  The machine moves only along its graph: from the starting state, the transitions made chain up
  to the current state, and every step that is not marked as forced is an edge of the graph.
\<close>

theorem transitions_follow_the_graph:
  "chained CentralStarting (run_log ops CentralStarting) (cm_cur (fold apply_op ops (new_central name bus)))"
  using run_chained [of "new_central name bus" ops] by (simp add: new_central_def)

text \<open>
  Only a stopped central is stuck: it accepts no transition at all, and every other state can be
  stopped at once and can reach the running state along edges of the graph.
\<close>

theorem only_stopped_is_terminal:
  "(if cm_cur c = CentralStopped
    then fst (transition_to now target reason opts c) = Inl (CentralStopped, target)
      \<and> snd (snd (transition_to now target reason opts c)) = c
    else can_transition_locked CentralStopped c
      \<and> (\<lambda>s t. t \<in> set (central_transitions s))\<^sup>*\<^sup>* (cm_cur c) CentralRunning)"
proof (cases "cm_cur c = CentralStopped")
  case True
  then show ?thesis by (simp add: transition_to_def can_transition_locked_def)
next
  case False
  have "(\<lambda>s t. t \<in> set (central_transitions s))\<^sup>*\<^sup>* CentralStarting CentralRunning"
    by (rule converse_rtranclp_into_rtranclp [of _ _ CentralInitializing]) auto
  with False show ?thesis by (cases "cm_cur c") (auto simp: can_transition_locked_def)
qed

text \<open>
  Entering the running state by a validated transition clears the degraded interfaces and the
  failing interface; a forced transition keeps both, also into the running state.
\<close>

theorem forced_running_keeps_degraded:
  "(if can_transition_locked CentralRunning c
    then cm_degraded (snd (snd (transition_to now CentralRunning reason opts c))) = []
      \<and> cm_failure_interface (snd (snd (transition_to now CentralRunning reason opts c))) = ''''
    else fst (transition_to now CentralRunning reason opts c) = Inl (cm_cur c, CentralRunning))
   \<and> cm_cur (snd (force_transition_to now CentralRunning reason c)) = CentralRunning
   \<and> cm_degraded (snd (force_transition_to now CentralRunning reason c)) = cm_degraded c
   \<and> cm_failure_interface (snd (force_transition_to now CentralRunning reason c)) = cm_failure_interface c"
  by (simp add: transition_to_def force_transition_to_def Let_def)

end
