(* ===== verification/Command_Throttle.thy ===== *)
theory Command_Throttle
  imports Circuit_Breaker
begin

text \<open>
  The command throttle of \<open>internal/client/reliability/throttle.go\<close>: a semaphore with a priority queue,
  a burst window and a minimal gap between commands.

  \<^item> Each section the code runs under \<open>t.mu\<close> is one definition over the record \<open>throttle\<close>.
  \<^item> The queue is the contents of the heap. \<open>container/heap\<close> hands out the least element of
    \<open>waiterHeap.Less\<close>; sequence numbers are unique, so that element is determined.
  \<^item> A waiter is known by its sequence number. \<open>th_signals\<close> holds what its closed channel tells it.
  \<^item> \<open>tstep\<close> interleaves the sections of any number of callers with the clock; a sleep may end at any
    time, which covers timers that fire late.
\<close>

section \<open>The throttle\<close>

fun priority_rank :: "command_priority \<Rightarrow> int" where
  "priority_rank PriorityCritical = 0"
| "priority_rank PriorityHigh = 1"
| "priority_rank PriorityLow = 2"

datatype throttle_error = ErrThrottleClosed | ErrSuperseded | ErrThrottleQueueFull | ErrContextDone

record throttle_config =
  tc_max_in_flight :: int
  tc_burst_threshold :: int
  tc_burst_window :: duration
  tc_delay :: duration
  tc_max_queue :: int

record waiter =
  wt_prio :: command_priority
  wt_seq :: nat
  wt_addr :: string

datatype signal = SigAdmitted | SigPurged | SigClosedOut

record throttle =
  th_in_flight :: int
  th_capacity :: int
  th_waiters :: "waiter list"
  th_signals :: "(nat \<times> signal) list"
  th_closed :: bool
  th_next_seq :: nat
  th_burst_threshold :: int
  th_burst_window :: duration
  th_samples :: "time_ns list"
  th_max_queue :: int
  th_queue_rejected :: int
  th_delay :: duration
  th_last_at :: time_ns
  th_waited_burst :: int
  th_waited_delay :: int
  th_suspended :: int
  th_critical :: int
  th_purged :: int
  th_throttled :: int
  th_downgraded :: int

definition new_throttle :: "throttle_config \<Rightarrow> throttle" where
  "new_throttle cfg =
     (let burst = (tc_burst_threshold cfg > 0 \<and> tc_burst_window cfg > 0) in
      \<lparr>th_in_flight = 0, th_capacity = (if tc_max_in_flight cfg \<le> 0 then 1 else tc_max_in_flight cfg),
       th_waiters = [], th_signals = [], th_closed = False, th_next_seq = 0,
       th_burst_threshold = (if burst then tc_burst_threshold cfg else 0),
       th_burst_window = (if burst then tc_burst_window cfg else 0), th_samples = [],
       th_max_queue = tc_max_queue cfg, th_queue_rejected = 0, th_delay = tc_delay cfg, th_last_at = 0,
       th_waited_burst = 0, th_waited_delay = 0, th_suspended = 0, th_critical = 0, th_purged = 0,
       th_throttled = 0, th_downgraded = 0\<rparr>)"

text \<open>The key of \<open>waiterHeap.Less\<close>.\<close>

definition waiter_key :: "waiter \<Rightarrow> int \<times> nat" where
  "waiter_key w = (priority_rank (wt_prio w), wt_seq w)"

fun least_waiter :: "waiter \<Rightarrow> waiter list \<Rightarrow> waiter" where
  "least_waiter w [] = w"
| "least_waiter w (v # vs) = least_waiter (if waiter_key v < waiter_key w then v else w) vs"

definition pop_waiter :: "waiter list \<Rightarrow> (waiter \<times> waiter list) option" where
  "pop_waiter ws = (case ws of [] \<Rightarrow> None | w # vs \<Rightarrow> let x = least_waiter w vs in Some (x, remove1 x ws))"

definition wake_next :: "throttle \<Rightarrow> throttle" where
  "wake_next t =
     (if th_in_flight t \<ge> th_capacity t then t
      else case pop_waiter (th_waiters t) of None \<Rightarrow> t
        | Some (w, rest) \<Rightarrow> t\<lparr>th_waiters := rest, th_in_flight := th_in_flight t + 1,
            th_signals := (wt_seq w, SigAdmitted) # th_signals t\<rparr>)"

definition throttle_release :: "throttle \<Rightarrow> throttle" where
  "throttle_release t = wake_next (if th_in_flight t > 0 then t\<lparr>th_in_flight := th_in_flight t - 1\<rparr> else t)"

definition release_admitted_slot :: "throttle \<Rightarrow> throttle" where
  "release_admitted_slot t = wake_next (if th_in_flight t > 0 then t\<lparr>th_in_flight := th_in_flight t - 1\<rparr> else t)"

section \<open>Burst window and gap\<close>

definition prune_burst :: "time_ns \<Rightarrow> throttle \<Rightarrow> throttle" where
  "prune_burst now t = t\<lparr>th_samples := dropWhile (\<lambda>s. \<not> s > now - th_burst_window t) (th_samples t)\<rparr>"

definition record_burst :: "time_ns \<Rightarrow> command_priority \<Rightarrow> throttle \<Rightarrow> throttle" where
  "record_burst now prio t =
     (if prio = PriorityCritical then t
      else let t = t\<lparr>th_last_at := now\<rparr> in
        if th_burst_threshold t = 0 then t
        else let t = prune_burst now t in t\<lparr>th_samples := th_samples t @ [now]\<rparr>)"

datatype check = CheckClosed | CheckPass | CheckWait duration

text \<open>One turn of the loop of \<open>waitForBurstSlot\<close>.\<close>

definition burst_check :: "time_ns \<Rightarrow> command_priority \<Rightarrow> throttle \<Rightarrow> check \<times> throttle" where
  "burst_check now prio t =
     (if prio = PriorityCritical then (CheckPass, t)
      else if th_closed t then (CheckClosed, t)
      else if th_burst_threshold t = 0 then (CheckPass, t)
      else let t = prune_burst now t in
        if int (length (th_samples t)) < th_burst_threshold t then (CheckPass, t)
        else (CheckWait (hd (th_samples t) + th_burst_window t - now), t))"

definition note_burst_wait :: "command_priority \<Rightarrow> throttle \<Rightarrow> throttle" where
  "note_burst_wait prio t =
     (let t = t\<lparr>th_waited_burst := th_waited_burst t + 1\<rparr> in
      if prio = PriorityHigh then t\<lparr>th_downgraded := th_downgraded t + 1\<rparr> else t)"

definition note_suspended :: "throttle \<Rightarrow> throttle" where
  "note_suspended t = t\<lparr>th_suspended := th_suspended t + 1\<rparr>"

text \<open>One turn of the loop of \<open>waitForCommandDelay\<close>; the zero time is \<open>0\<close>.\<close>

definition delay_check :: "time_ns \<Rightarrow> command_priority \<Rightarrow> throttle \<Rightarrow> check" where
  "delay_check now prio t =
     (if prio = PriorityCritical \<or> th_delay t \<le> 0 then CheckPass
      else if th_closed t then CheckClosed
      else let elapsed = now - th_last_at t in
        if elapsed \<ge> th_delay t \<or> th_last_at t = 0 then CheckPass
        else CheckWait (th_delay t - elapsed))"

definition note_delay_wait :: "throttle \<Rightarrow> throttle" where
  "note_delay_wait t = t\<lparr>th_waited_delay := th_waited_delay t + 1\<rparr>"

section \<open>Acquire, purge, close, cancel\<close>

definition count_critical :: "command_priority \<Rightarrow> throttle \<Rightarrow> throttle" where
  "count_critical prio t = (if prio = PriorityCritical then t\<lparr>th_critical := th_critical t + 1\<rparr> else t)"

datatype queue_outcome = AdmRefused throttle_error | AdmPermit | AdmQueued nat

definition admit_or_queue :: "time_ns \<Rightarrow> command_priority \<Rightarrow> string \<Rightarrow> throttle \<Rightarrow> queue_outcome \<times> throttle" where
  "admit_or_queue now prio addr t =
     (if th_closed t then (AdmRefused ErrThrottleClosed, t)
      else if th_in_flight t < th_capacity t \<and> th_waiters t = []
        then (AdmPermit, record_burst now prio (t\<lparr>th_in_flight := th_in_flight t + 1\<rparr>))
      else let t = (if prio \<noteq> PriorityCritical then t\<lparr>th_throttled := th_throttled t + 1\<rparr> else t) in
        if th_max_queue t > 0 \<and> prio \<noteq> PriorityCritical \<and> int (length (th_waiters t)) \<ge> th_max_queue t
          then (AdmRefused ErrThrottleQueueFull, t\<lparr>th_queue_rejected := th_queue_rejected t + 1\<rparr>)
        else let w = \<lparr>wt_prio = prio, wt_seq = th_next_seq t, wt_addr = addr\<rparr> in
          (AdmQueued (wt_seq w), t\<lparr>th_next_seq := th_next_seq t + 1, th_waiters := w # th_waiters t\<rparr>))"

definition purge :: "string list \<Rightarrow> throttle \<Rightarrow> int \<times> throttle" where
  "purge addrs t =
     (let addr_set = filter (\<lambda>a. a \<noteq> '''') addrs in
      if addr_set = [] then (0, t)
      else let hit = filter (\<lambda>w. wt_addr w \<in> set addr_set) (th_waiters t); n = int (length hit) in
        (n, t\<lparr>th_waiters := filter (\<lambda>w. wt_addr w \<notin> set addr_set) (th_waiters t),
              th_signals := map (\<lambda>w. (wt_seq w, SigPurged)) hit @ th_signals t,
              th_purged := th_purged t + n\<rparr>))"

definition close_throttle :: "throttle \<Rightarrow> throttle" where
  "close_throttle t = t\<lparr>th_closed := True, th_waiters := [],
     th_suspended := th_suspended t + int (length (th_waiters t)),
     th_signals := map (\<lambda>w. (wt_seq w, SigClosedOut)) (th_waiters t) @ th_signals t\<rparr>"

text \<open>
  \<open>cancelWaiter\<close>: a waiter that still queues is taken out; one that was purged or closed out owns
  nothing; one that was admitted gives its permit back.
\<close>

definition cancel_waiter :: "nat \<Rightarrow> throttle \<Rightarrow> throttle" where
  "cancel_waiter seq t =
     (if seq \<in> set (map wt_seq (th_waiters t)) then t\<lparr>th_waiters := filter (\<lambda>w. wt_seq w \<noteq> seq) (th_waiters t)\<rparr>
      else case lookup (th_signals t) seq of
        Some SigAdmitted \<Rightarrow> wake_next (if th_in_flight t > 0 then t\<lparr>th_in_flight := th_in_flight t - 1\<rparr> else t)
      | _ \<Rightarrow> t)"

text \<open>The caller has read its closed channel: the signal is used up.\<close>

definition take_signal :: "nat \<Rightarrow> throttle \<Rightarrow> throttle" where
  "take_signal seq t = t\<lparr>th_signals := filter (\<lambda>(s, _). s \<noteq> seq) (th_signals t)\<rparr>"

section \<open>Callers\<close>

text \<open>The stage tells which of the two passes through the guards a caller is in: before it queues, or after it was woken.\<close>

datatype stage = Fresh | Woken

datatype phase =
    InBurst stage bool
  | BurstSleep stage
  | InDelay stage bool
  | DelaySleep stage
  | Admitting
  | Queued nat
  | Recording
  | Holding

record caller =
  ca_prio :: command_priority
  ca_addr :: string
  ca_phase :: phase

record tsys =
  ts_throttle :: throttle
  ts_now :: time_ns
  ts_callers :: "caller multiset"

text \<open>A caller that gives up after it was woken returns the permit it was handed.\<close>

fun give_up :: "stage \<Rightarrow> throttle \<Rightarrow> throttle" where
  "give_up Fresh t = t"
| "give_up Woken t = release_admitted_slot t"

fun after_guards :: "stage \<Rightarrow> phase" where
  "after_guards Fresh = Admitting"
| "after_guards Woken = Recording"

text \<open>The next phase of a caller after a guard; \<open>None\<close> when it returns an error.\<close>

definition burst_turn :: "time_ns \<Rightarrow> command_priority \<Rightarrow> stage \<Rightarrow> bool \<Rightarrow> throttle \<Rightarrow> phase option \<times> throttle" where
  "burst_turn now prio st waited t =
     (case burst_check now prio t of
        (CheckPass, t) \<Rightarrow> (Some (InDelay st False), t)
      | (CheckClosed, t) \<Rightarrow> (None, give_up st t)
      | (CheckWait d, t) \<Rightarrow>
          if d \<le> 0 then (Some (InBurst st waited), t)
          else (Some (BurstSleep st), if waited then t else note_burst_wait prio t))"

definition delay_turn :: "time_ns \<Rightarrow> command_priority \<Rightarrow> stage \<Rightarrow> bool \<Rightarrow> throttle \<Rightarrow> phase option \<times> throttle" where
  "delay_turn now prio st waited t =
     (case delay_check now prio t of
        CheckPass \<Rightarrow> (Some (after_guards st), t)
      | CheckClosed \<Rightarrow> (None, give_up st t)
      | CheckWait d \<Rightarrow> (Some (DelaySleep st), if waited then t else note_delay_wait t))"

definition admit_turn :: "time_ns \<Rightarrow> command_priority \<Rightarrow> string \<Rightarrow> throttle \<Rightarrow> phase option \<times> throttle" where
  "admit_turn now prio addr t =
     (case admit_or_queue now prio addr t of
        (AdmRefused e, t) \<Rightarrow> (None, t)
      | (AdmPermit, t) \<Rightarrow> (Some Holding, t)
      | (AdmQueued seq, t) \<Rightarrow> (Some (Queued seq), t))"

definition signal_turn :: "nat \<Rightarrow> signal \<Rightarrow> throttle \<Rightarrow> phase option \<times> throttle" where
  "signal_turn seq sig t = (if sig = SigAdmitted then Some (InBurst Woken False) else None, take_signal seq t)"

text \<open>What a caller can do on its own in its phase.\<close>

inductive cstep :: "time_ns \<Rightarrow> command_priority \<Rightarrow> string \<Rightarrow> phase \<Rightarrow> throttle \<Rightarrow> phase option \<times> throttle \<Rightarrow> bool"
  for now prio addr where
  c_burst: "cstep now prio addr (InBurst st waited) t (burst_turn now prio st waited t)"
| c_burst_woken: "cstep now prio addr (BurstSleep st) t (Some (InBurst st True), t)"
| c_burst_closed: "th_closed t \<Longrightarrow> cstep now prio addr (BurstSleep st) t (None, give_up st (note_suspended t))"
| c_burst_gone: "cstep now prio addr (BurstSleep st) t (None, give_up st t)"
| c_delay: "cstep now prio addr (InDelay st waited) t (delay_turn now prio st waited t)"
| c_delay_woken: "cstep now prio addr (DelaySleep st) t (Some (InDelay st True), t)"
| c_delay_closed: "th_closed t \<Longrightarrow> cstep now prio addr (DelaySleep st) t (None, give_up st t)"
| c_delay_gone: "cstep now prio addr (DelaySleep st) t (None, give_up st t)"
| c_admit: "cstep now prio addr Admitting t (admit_turn now prio addr t)"
| c_signal: "lookup (th_signals t) seq = Some sig \<Longrightarrow> cstep now prio addr (Queued seq) t (signal_turn seq sig t)"
| c_gone: "cstep now prio addr (Queued seq) t (None, take_signal seq (cancel_waiter seq t))"
| c_record: "cstep now prio addr Recording t (Some Holding, record_burst now prio t)"
| c_release: "cstep now prio addr Holding t (None, throttle_release t)"

definition rejoin :: "caller \<Rightarrow> phase option \<Rightarrow> caller multiset" where
  "rejoin c ph = (case ph of None \<Rightarrow> {#} | Some p \<Rightarrow> {#c\<lparr>ca_phase := p\<rparr>#})"

inductive tstep :: "tsys \<Rightarrow> tsys \<Rightarrow> bool" where
  t_arrive: "tstep s (s\<lparr>ts_throttle := count_critical prio (ts_throttle s),
      ts_callers := add_mset \<lparr>ca_prio = prio, ca_addr = addr, ca_phase = InBurst Fresh False\<rparr> (ts_callers s)\<rparr>)"
| t_caller: "ts_callers s = add_mset c rest \<Longrightarrow> cstep (ts_now s) (ca_prio c) (ca_addr c) (ca_phase c) (ts_throttle s) (ph, t)
    \<Longrightarrow> tstep s (s\<lparr>ts_throttle := t, ts_callers := rest + rejoin c ph\<rparr>)"
| t_purge: "tstep s (s\<lparr>ts_throttle := snd (purge addrs (ts_throttle s))\<rparr>)"
| t_close: "tstep s (s\<lparr>ts_throttle := close_throttle (ts_throttle s)\<rparr>)"
| t_tick: "ts_now s \<le> now \<Longrightarrow> tstep s (s\<lparr>ts_now := now\<rparr>)"

definition tstart :: "tsys \<Rightarrow> bool" where
  "tstart s \<longleftrightarrow> (\<exists>cfg now. 0 < now \<and> s = \<lparr>ts_throttle = new_throttle cfg, ts_now = now, ts_callers = {#}\<rparr>)"

section \<open>The invariant\<close>

fun stage_permit :: "stage \<Rightarrow> int" where
  "stage_permit Fresh = 0"
| "stage_permit Woken = 1"

fun phase_permit :: "phase \<Rightarrow> int" where
  "phase_permit (InBurst st _) = stage_permit st"
| "phase_permit (BurstSleep st) = stage_permit st"
| "phase_permit (InDelay st _) = stage_permit st"
| "phase_permit (DelaySleep st) = stage_permit st"
| "phase_permit Recording = 1"
| "phase_permit Holding = 1"
| "phase_permit _ = 0"

fun phase_queued :: "phase \<Rightarrow> nat multiset" where
  "phase_queued (Queued seq) = {#seq#}"
| "phase_queued _ = {#}"

definition held_permits :: "caller multiset \<Rightarrow> int" where
  "held_permits cs = sum_mset (image_mset (phase_permit \<circ> ca_phase) cs)"

definition queued :: "caller multiset \<Rightarrow> nat multiset" where
  "queued cs = sum_mset (image_mset (phase_queued \<circ> ca_phase) cs)"

definition handed_out :: "throttle \<Rightarrow> int" where
  "handed_out t = int (length (filter (\<lambda>(_, g). g = SigAdmitted) (th_signals t)))"

definition seqs :: "throttle \<Rightarrow> nat list" where
  "seqs t = map wt_seq (th_waiters t) @ map fst (th_signals t)"

definition deep :: "throttle \<Rightarrow> int" where
  "deep t = int (length (filter (\<lambda>w. wt_prio w \<noteq> PriorityCritical) (th_waiters t)))"

text \<open>\<open>slack\<close> is one between giving a permit back and waking the next waiter.\<close>

definition tcore :: "int \<Rightarrow> throttle \<Rightarrow> int \<Rightarrow> nat multiset \<Rightarrow> bool" where
  "tcore slack t p q \<longleftrightarrow> 0 < th_capacity t \<and> 0 \<le> p \<and> th_in_flight t = p + handed_out t \<and> th_in_flight t \<le> th_capacity t
     \<and> (th_waiters t \<noteq> [] \<longrightarrow> th_capacity t - slack \<le> th_in_flight t)
     \<and> mset (seqs t) = q \<and> distinct (seqs t) \<and> (\<forall>n \<in> set (seqs t). n < th_next_seq t)
     \<and> (0 < th_max_queue t \<longrightarrow> deep t \<le> th_max_queue t)"

definition tinv :: "tsys \<Rightarrow> bool" where
  "tinv s \<longleftrightarrow> tcore 0 (ts_throttle s) (held_permits (ts_callers s)) (queued (ts_callers s))"

lemma untouched [simp]:
  "seqs (t\<lparr>th_in_flight := n\<rparr>) = seqs t" "deep (t\<lparr>th_in_flight := n\<rparr>) = deep t" "handed_out (t\<lparr>th_in_flight := n\<rparr>) = handed_out t"
  by (simp_all add: seqs_def deep_def handed_out_def)

lemma least_waiter_in: "least_waiter w vs \<in> set (w # vs)"
  by (induction vs arbitrary: w) auto

lemma least_waiter_least: "v \<in> set (w # vs) \<Longrightarrow> waiter_key (least_waiter w vs) \<le> waiter_key v"
proof (induction vs arbitrary: w v)
  case (Cons u us)
  let ?x = "if waiter_key u < waiter_key w then u else w"
  have "waiter_key (least_waiter ?x us) \<le> waiter_key ?x" by (rule Cons.IH) simp
  with Cons.IH[of v ?x] Cons.prems show ?case by auto
qed simp

lemma pop_waiter_Some: "pop_waiter ws = Some (w, rest) \<Longrightarrow> w \<in> set ws \<and> rest = remove1 w ws"
  using least_waiter_in by (auto simp: pop_waiter_def Let_def split: list.splits if_splits)

lemma pop_waiter_None [simp]: "pop_waiter ws = None \<longleftrightarrow> ws = []"
  by (simp add: pop_waiter_def Let_def split: list.split)

text \<open>A change that only reorders the queued and signalled sequence numbers.\<close>

lemma tcore_requeue:
  assumes "tcore sl t p q" and m: "mset (seqs t') = mset (seqs t)"
    and "th_capacity t' = th_capacity t" "th_max_queue t' = th_max_queue t" "th_next_seq t' = th_next_seq t"
    and "0 \<le> p'" "th_in_flight t' = p' + handed_out t'" "th_in_flight t' \<le> th_capacity t"
    and "th_waiters t' \<noteq> [] \<longrightarrow> th_capacity t - sl' \<le> th_in_flight t'" and "deep t' \<le> deep t"
  shows "tcore sl' t' p' q"
  unfolding tcore_def
  using assms mset_eq_imp_distinct_iff[OF m] mset_eq_setD[OF m] by (auto simp: tcore_def)

lemma mset_map_remove1: "x \<in> set xs \<Longrightarrow> add_mset (f x) (mset (map f (remove1 x xs))) = mset (map f xs)"
  by (induction xs) auto

lemma length_filter_remove1: "length (filter P (remove1 x xs)) \<le> length (filter P xs)"
  by (induction xs) auto

lemma wake_next_core:
  assumes "tcore 1 t p q"
  shows "tcore 0 (wake_next t) p q"
proof (cases "th_in_flight t \<ge> th_capacity t \<or> th_waiters t = []")
  case True
  with assms show ?thesis by (auto simp: wake_next_def tcore_def pop_waiter_def)
next
  case False
  then obtain w rest where pop: "pop_waiter (th_waiters t) = Some (w, rest)"
    by (cases "pop_waiter (th_waiters t)") auto
  note w = pop_waiter_Some[OF pop]
  from False assms have full: "th_in_flight t + 1 = th_capacity t" by (auto simp: tcore_def)
  have wake: "wake_next t = t\<lparr>th_waiters := rest, th_in_flight := th_in_flight t + 1,
      th_signals := (wt_seq w, SigAdmitted) # th_signals t\<rparr>"
    using False pop by (simp add: wake_next_def)
  show ?thesis
    unfolding wake
    by (rule tcore_requeue[OF assms])
      (use full w assms mset_map_remove1[of w "th_waiters t" wt_seq] in
        \<open>auto simp: handed_out_def tcore_def seqs_def deep_def length_filter_remove1 simp del: mset_map\<close>)
qed

lemma core_give_back:
  assumes "tcore 0 t p q" and "0 < p"
  shows "tcore 0 (wake_next (if th_in_flight t > 0 then t\<lparr>th_in_flight := th_in_flight t - 1\<rparr> else t)) (p - 1) q"
proof -
  have pos: "th_in_flight t > 0" using assms by (simp add: tcore_def handed_out_def)
  have "tcore 1 (t\<lparr>th_in_flight := th_in_flight t - 1\<rparr>) (p - 1) q"
    by (rule tcore_requeue[OF assms(1)]) (use assms in \<open>auto simp: tcore_def handed_out_def seqs_def deep_def\<close>)
  with pos show ?thesis by (simp add: wake_next_core)
qed

lemma core_release: "tcore 0 t p q \<Longrightarrow> 0 < p \<Longrightarrow> tcore 0 (throttle_release t) (p - 1) q"
  unfolding throttle_release_def by (rule core_give_back)

lemma core_release_slot: "tcore 0 t p q \<Longrightarrow> 0 < p \<Longrightarrow> tcore 0 (release_admitted_slot t) (p - 1) q"
  unfolding release_admitted_slot_def by (rule core_give_back)

lemma core_give_up: "tcore 0 t p q \<Longrightarrow> stage_permit st \<le> p \<Longrightarrow> tcore 0 (give_up st t) (p - stage_permit st) q"
  by (cases st) (auto intro: core_release_slot)

lemma core_leave: "tcore 0 t (stage_permit st + p) q \<Longrightarrow> 0 \<le> p \<Longrightarrow> tcore 0 (give_up st t) p q"
  using core_give_up[of t "stage_permit st + p" q st] by simp

text \<open>Updates of the counters and of the burst window.\<close>

lemma tcore_frame:
  assumes "tcore 0 t p q" "th_in_flight t' = th_in_flight t" "th_capacity t' = th_capacity t" "th_waiters t' = th_waiters t"
    "th_signals t' = th_signals t" "th_next_seq t' = th_next_seq t" "th_max_queue t' = th_max_queue t"
  shows "tcore 0 t' p q"
  by (rule tcore_requeue[OF assms(1)]) (use assms in \<open>auto simp: tcore_def handed_out_def seqs_def deep_def\<close>)

lemma record_burst_frame [simp]:
  "th_in_flight (record_burst now prio t) = th_in_flight t" "th_capacity (record_burst now prio t) = th_capacity t"
  "th_waiters (record_burst now prio t) = th_waiters t" "th_signals (record_burst now prio t) = th_signals t"
  "th_next_seq (record_burst now prio t) = th_next_seq t" "th_max_queue (record_burst now prio t) = th_max_queue t"
  "th_closed (record_burst now prio t) = th_closed t"
  by (simp_all add: record_burst_def prune_burst_def Let_def)

lemma core_burst_check: "burst_check now prio t = (r, t') \<Longrightarrow> tcore 0 t p q \<Longrightarrow> tcore 0 t' p q"
  by (erule tcore_frame) (auto simp: burst_check_def prune_burst_def Let_def split: if_splits)

lemma core_counters:
  "tcore 0 t p q \<Longrightarrow> tcore 0 (count_critical prio t) p q"
  "tcore 0 t p q \<Longrightarrow> tcore 0 (note_burst_wait prio t) p q"
  "tcore 0 t p q \<Longrightarrow> tcore 0 (note_suspended t) p q"
  "tcore 0 t p q \<Longrightarrow> tcore 0 (note_delay_wait t) p q"
  "tcore 0 t p q \<Longrightarrow> tcore 0 (record_burst now prio t) p q"
  by (erule tcore_frame; simp add: count_critical_def note_burst_wait_def note_suspended_def note_delay_wait_def Let_def)+

section \<open>Every step keeps the invariant\<close>

lemma core_permit:
  assumes "tcore 0 t p q" and "th_in_flight t < th_capacity t" and "th_waiters t = []"
  shows "tcore 0 (record_burst now prio (t\<lparr>th_in_flight := th_in_flight t + 1\<rparr>)) (p + 1) q"
  by (rule core_counters) (use assms in \<open>simp add: tcore_def\<close>)

lemma core_push:
  assumes "tcore 0 t p q" and "\<not> (th_in_flight t < th_capacity t \<and> th_waiters t = [])"
    and "th_max_queue t > 0 \<and> wt_prio w \<noteq> PriorityCritical \<longrightarrow> int (length (th_waiters t)) < th_max_queue t"
    and "wt_seq w = th_next_seq t"
  shows "tcore 0 (t\<lparr>th_next_seq := th_next_seq t + 1, th_waiters := w # th_waiters t\<rparr>) p (add_mset (th_next_seq t) q)"
proof -
  let ?t = "t\<lparr>th_next_seq := th_next_seq t + 1, th_waiters := w # th_waiters t\<rparr>"
  have full: "th_capacity t = th_in_flight t" using assms(1,2) by (auto simp: tcore_def)
  have "seqs ?t = th_next_seq t # seqs t" using assms(4) by (simp add: seqs_def)
  moreover have "handed_out ?t = handed_out t" by (simp add: handed_out_def)
  moreover have "deep t \<le> int (length (th_waiters t))" "deep ?t = deep t + (if wt_prio w = PriorityCritical then 0 else 1)"
    by (simp_all add: deep_def)
  then have "0 < th_max_queue t \<longrightarrow> deep ?t \<le> th_max_queue t"
    using assms(1,3) by (auto simp: tcore_def)
  ultimately show ?thesis
    using assms(1) full by (auto simp: tcore_def less_Suc_eq)
qed

lemma core_admit:
  assumes "tcore 0 t p q" and "admit_or_queue now prio addr t = (r, t')"
  shows "case r of AdmRefused e \<Rightarrow> tcore 0 t' p q | AdmPermit \<Rightarrow> tcore 0 t' (p + 1) q
    | AdmQueued seq \<Rightarrow> tcore 0 t' p (add_mset seq q)"
proof -
  define t1 where "t1 = (if prio \<noteq> PriorityCritical then t\<lparr>th_throttled := th_throttled t + 1\<rparr> else t)"
  have "tcore 0 t1 p q" unfolding t1_def by (rule tcore_frame[OF assms(1)]) auto
  moreover have "tcore 0 (t1\<lparr>th_queue_rejected := n\<rparr>) p q" for n
    unfolding t1_def by (rule tcore_frame[OF assms(1)]) auto
  moreover have "th_in_flight t1 = th_in_flight t" "th_capacity t1 = th_capacity t" "th_waiters t1 = th_waiters t"
    by (auto simp: t1_def)
  ultimately show ?thesis
    using assms core_push[of t1 p q "\<lparr>wt_prio = prio, wt_seq = th_next_seq t1, wt_addr = addr\<rparr>"]
    unfolding admit_or_queue_def t1_def[symmetric]
    by (auto simp: Let_def core_permit t1_def[symmetric] split: if_splits)
qed

lemma mset_partition: "mset (map f (filter (\<lambda>x. \<not> P x) xs)) + mset (map f (filter P xs)) = mset (map f xs)"
  by (induction xs) auto

lemma length_filter_mono: "(\<And>x. P x \<Longrightarrow> Q x) \<Longrightarrow> length (filter P xs) \<le> length (filter Q xs)"
  by (induction xs) auto

lemma core_purge: "tcore 0 t p q \<Longrightarrow> tcore 0 (snd (purge addrs t)) p q"
proof (cases "filter (\<lambda>a. a \<noteq> '''') addrs = []")
  case False
  assume c: "tcore 0 t p q"
  let ?P = "\<lambda>w. wt_addr w \<in> set (filter (\<lambda>a. a \<noteq> '''') addrs)"
  have seqs: "mset (seqs (snd (purge addrs t))) = mset (seqs t)"
    using False mset_partition[of wt_seq ?P "th_waiters t"]
    by (simp add: purge_def Let_def seqs_def comp_def add.assoc [symmetric] del: mset_map)
  show ?thesis
    by (rule tcore_requeue[OF c seqs])
      (use c False in \<open>auto simp: purge_def Let_def tcore_def handed_out_def deep_def comp_def filter_map
        intro!: length_filter_mono\<close>)
qed (simp add: purge_def)

lemma core_close: "tcore 0 t p q \<Longrightarrow> tcore 0 (close_throttle t) p q"
  by (rule tcore_requeue)
    (auto simp: close_throttle_def seqs_def tcore_def handed_out_def deep_def comp_def filter_map)

text \<open>A caller that leaves the queue takes its sequence number along.\<close>

lemma mset_filter_neq: "distinct xs \<Longrightarrow> mset xs = add_mset x q \<Longrightarrow> mset (filter (\<lambda>y. y \<noteq> x) xs) = q"
proof (induction xs arbitrary: q)
  case (Cons y ys)
  show ?case
  proof (cases "y = x")
    case True
    with Cons.prems have "filter (\<lambda>y. y \<noteq> x) ys = ys" by (auto simp: filter_id_conv)
    with True Cons.prems show ?thesis by simp
  next
    case False
    with Cons.prems obtain q' where q: "q = add_mset y q'" and "mset ys = add_mset x q'"
      by (auto simp: add_eq_conv_ex)
    with Cons False show ?thesis by simp
  qed
qed simp

lemma handed_out_take:
  assumes "distinct (map fst sg)" and "lookup sg seq = Some g"
  shows "length (filter (\<lambda>(_, g). g = SigAdmitted) sg)
    = length (filter (\<lambda>(_, g). g = SigAdmitted) (filter (\<lambda>(s, _). s \<noteq> seq) sg)) + (if g = SigAdmitted then 1 else 0)"
  using assms
proof (induction sg)
  case (Cons a sg)
  obtain s g' where a: "a = (s, g')" by (cases a)
  show ?case
  proof (cases "s = seq")
    case True
    with Cons.prems a have "filter (\<lambda>(s, _). s \<noteq> seq) sg = sg"
      by (auto simp: filter_id_conv) force
    with True Cons.prems a show ?thesis by simp
  next
    case False
    with Cons a show ?thesis by simp
  qed
qed simp

lemma seqs_take: "seqs (take_signal seq t) = map wt_seq (th_waiters t) @ filter (\<lambda>n. n \<noteq> seq) (map fst (th_signals t))"
  by (simp add: seqs_def take_signal_def filter_map comp_def split_def)

lemma core_take:
  assumes c: "tcore sl t p (add_mset seq q)" and l: "lookup (th_signals t) seq = Some g"
  shows "tcore sl (take_signal seq t) (p + (if g = SigAdmitted then 1 else 0)) q"
proof -
  from c have d: "distinct (seqs t)" "mset (seqs t) = add_mset seq q" by (auto simp: tcore_def)
  from l have "seq \<in> fst ` set (th_signals t)" by (force dest: map_of_SomeD)
  with d(1) have "seq \<notin> wt_seq ` set (th_waiters t)" by (auto simp: seqs_def)
  then have "seqs (take_signal seq t) = filter (\<lambda>n. n \<noteq> seq) (seqs t)"
    by (simp add: seqs_take) (simp add: seqs_def, rule filter_id_conv[THEN iffD2, symmetric], auto)
  with mset_filter_neq[OF d] d(1) c have "mset (seqs (take_signal seq t)) = q" "distinct (seqs (take_signal seq t))"
      "\<forall>n \<in> set (seqs (take_signal seq t)). n < th_next_seq t"
    by (auto simp: tcore_def)
  moreover have "handed_out t = handed_out (take_signal seq t) + (if g = SigAdmitted then 1 else 0)"
    using handed_out_take[OF _ l] d(1) by (simp add: handed_out_def take_signal_def seqs_def)
  moreover have "th_waiters (take_signal seq t) = th_waiters t" "deep (take_signal seq t) = deep t"
      "th_in_flight (take_signal seq t) = th_in_flight t" "th_capacity (take_signal seq t) = th_capacity t"
      "th_next_seq (take_signal seq t) = th_next_seq t" "th_max_queue (take_signal seq t) = th_max_queue t"
    by (simp_all add: take_signal_def deep_def)
  ultimately show ?thesis using c by (auto simp: tcore_def)
qed

lemma take_wake:
  assumes "seq \<notin> wt_seq ` set (th_waiters t)"
  shows "take_signal seq (wake_next t) = wake_next (take_signal seq t)"
proof (cases "pop_waiter (th_waiters t)")
  case (Some x)
  obtain w rest where x: "x = (w, rest)" by (cases x)
  with Some assms have "wt_seq w \<noteq> seq" by (auto dest: pop_waiter_Some)
  with Some x show ?thesis by (simp add: wake_next_def take_signal_def)
qed (simp add: wake_next_def take_signal_def pop_waiter_def)

lemma take_in_flight [simp]:
  "th_in_flight (take_signal seq t) = th_in_flight t"
  "take_signal seq (t\<lparr>th_in_flight := n\<rparr>) = take_signal seq t\<lparr>th_in_flight := n\<rparr>"
  by (simp_all add: take_signal_def)

lemma core_cancel:
  assumes c: "tcore 0 t p (add_mset seq q)"
  shows "tcore 0 (take_signal seq (cancel_waiter seq t)) p q"
proof (cases "seq \<in> wt_seq ` set (th_waiters t)")
  case True
  let ?t = "t\<lparr>th_waiters := filter (\<lambda>w. wt_seq w \<noteq> seq) (th_waiters t)\<rparr>"
  from c have d: "distinct (seqs t)" "mset (seqs t) = add_mset seq q" by (auto simp: tcore_def)
  from True d(1) have "seq \<notin> fst ` set (th_signals t)" by (auto simp: seqs_def)
  then have sg: "filter (\<lambda>(s, _). s \<noteq> seq) (th_signals t) = th_signals t" by (force simp: filter_id_conv)
  then have t: "take_signal seq (cancel_waiter seq t) = ?t"
    using True by (simp add: cancel_waiter_def take_signal_def)
  from \<open>seq \<notin> fst ` set (th_signals t)\<close> have "filter (\<lambda>n. n \<noteq> seq) (map fst (th_signals t)) = map fst (th_signals t)"
    by (auto simp: filter_id_conv)
  then have "seqs ?t = filter (\<lambda>n. n \<noteq> seq) (seqs t)"
    by (simp add: seqs_def filter_map comp_def)
  with mset_filter_neq[OF d] d(1) c have "mset (seqs ?t) = q" "distinct (seqs ?t)" "\<forall>n \<in> set (seqs ?t). n < th_next_seq t"
    by (auto simp: tcore_def)
  moreover have "handed_out ?t = handed_out t" by (simp add: handed_out_def)
  moreover have "deep ?t \<le> deep t" by (auto simp: deep_def intro!: length_filter_mono)
  moreover have "th_waiters t \<noteq> []" using True by auto
  ultimately show ?thesis unfolding t using c by (auto simp: tcore_def)
next
  case False
  from c have "seq \<in> set (seqs t)" by (metis tcore_def union_single_eq_member set_mset_mset)
  with False have "seq \<in> fst ` set (th_signals t)" by (auto simp: seqs_def)
  then obtain g where l: "lookup (th_signals t) seq = Some g"
    by (metis map_of_eq_None_iff option.exhaust)
  note taken = core_take[OF c l]
  show ?thesis
  proof (cases "g = SigAdmitted")
    case True
    with l False taken have "take_signal seq (cancel_waiter seq t)
        = wake_next (if th_in_flight (take_signal seq t) > 0
            then take_signal seq t\<lparr>th_in_flight := th_in_flight (take_signal seq t) - 1\<rparr> else take_signal seq t)"
      by (auto simp: cancel_waiter_def take_wake)
    moreover from taken True have "tcore 0 (take_signal seq t) (p + 1) q" by simp
    moreover from c have "0 < p + 1" by (simp add: tcore_def)
    ultimately show ?thesis using core_give_back[of "take_signal seq t" "p + 1" q] by simp
  next
    case other: False
    with l False have "cancel_waiter seq t = t" by (cases g) (auto simp: cancel_waiter_def)
    with taken other show ?thesis by simp
  qed
qed

lemma permits_add [simp]: "held_permits (add_mset c cs) = phase_permit (ca_phase c) + held_permits cs" "held_permits {#} = 0"
  "held_permits (a + b) = held_permits a + held_permits b"
  by (simp_all add: held_permits_def)

lemma queued_add [simp]: "queued (add_mset c cs) = phase_queued (ca_phase c) + queued cs" "queued {#} = {#}"
  "queued (a + b) = queued a + queued b"
  by (simp_all add: queued_def)

lemma stage_permit_nonneg [simp]: "0 \<le> stage_permit st"
  by (cases st) auto

lemma phase_permit_nonneg [simp]: "0 \<le> phase_permit ph"
  by (cases ph) auto

lemma permits_nonneg [simp]: "0 \<le> held_permits cs"
  by (induction cs) auto

definition next_permit :: "phase option \<Rightarrow> int" where
  "next_permit ph = (case ph of None \<Rightarrow> 0 | Some p \<Rightarrow> phase_permit p)"

definition next_queued :: "phase option \<Rightarrow> nat multiset" where
  "next_queued ph = (case ph of None \<Rightarrow> {#} | Some p \<Rightarrow> phase_queued p)"

lemma rejoin_simps [simp]: "held_permits (rejoin c ph) = next_permit ph" "queued (rejoin c ph) = next_queued ph"
  by (simp_all add: rejoin_def next_permit_def next_queued_def split: option.split)

lemma next_simps [simp]: "next_permit None = 0" "next_permit (Some ph) = phase_permit ph"
  "next_queued None = {#}" "next_queued (Some ph) = phase_queued ph"
  by (simp_all add: next_permit_def next_queued_def)

lemma after_guards_permit [simp]: "phase_permit (after_guards st) = stage_permit st" "phase_queued (after_guards st) = {#}"
  by (cases st; simp)+

lemma cstep_core:
  assumes "cstep now prio addr ph t (ph', t')" and "tcore 0 t (phase_permit ph + p) (phase_queued ph + q)" and "0 \<le> p"
  shows "tcore 0 t' (next_permit ph' + p) (next_queued ph' + q)"
  using assms(1)
proof cases
  case (c_burst st waited)
  obtain r t1 where b: "burst_check now prio t = (r, t1)" by (cases "burst_check now prio t")
  from core_burst_check[OF b] assms(2) c_burst have c: "tcore 0 t1 (stage_permit st + p) q" by simp
  show ?thesis
    using c_burst b c core_leave[OF c assms(3)] by (auto simp: burst_turn_def core_counters split: check.splits if_splits)
next
  case (c_delay st waited)
  with assms(2) have c: "tcore 0 t (stage_permit st + p) q" by simp
  show ?thesis
    using c_delay c core_leave[OF c assms(3)] by (auto simp: delay_turn_def core_counters split: check.splits if_splits)
next
  case c_admit
  obtain r t1 where a: "admit_or_queue now prio addr t = (r, t1)" by (cases "admit_or_queue now prio addr t")
  from core_admit[OF _ a, of p q] assms(2) c_admit show ?thesis
    by (cases r) (auto simp: admit_turn_def a add.commute)
next
  case (c_signal seq sig)
  with assms(2) core_take[of 0 t p seq q sig] show ?thesis
    by (auto simp: signal_turn_def add.commute split: if_splits)
next
  case (c_gone seq)
  with assms(2) core_cancel[of t p seq q] show ?thesis by simp
next
  case c_release
  with assms(2,3) core_release[of t "1 + p" q] show ?thesis by simp
qed (use assms in \<open>auto intro: core_leave core_counters\<close>)

lemma tstep_inv: "tinv s \<Longrightarrow> tstep s s' \<Longrightarrow> tinv s'"
proof (erule tstep.cases, goal_cases)
  case (2 s c rest ph t)
  then show ?case
    using cstep_core[of "ts_now s" "ca_prio c" "ca_addr c" "ca_phase c" "ts_throttle s" ph t "held_permits rest" "queued rest"]
    by (simp add: tinv_def add.commute)
qed (simp_all add: tinv_def core_counters core_purge core_close)

interpretation throttle_system: invariant_system tstart tstep tinv
proof
  show "tinv s" if "tstart s" for s
    using that by (auto simp: tstart_def tinv_def tcore_def new_throttle_def Let_def seqs_def deep_def handed_out_def)
qed (rule tstep_inv)

section \<open>Guarantees\<close>

text \<open>
  C33. The throttle never hands out more permits than its capacity and never forgets a waiter. In every
  interleaving of arrivals, sleeps, cancellations, purges, releases and a close: the permits of the
  callers and those in the hands of woken waiters add up to the count, which stays within the capacity;
  while somebody queues, every permit is out; every caller that waits for its signal is in the queue or
  has been signalled, once; and the queue holds no more ordinary commands than its depth.
\<close>

theorem permits_are_conserved:
  assumes "reach tstart tstep s"
  shows "held_permits (ts_callers s) + handed_out (ts_throttle s) = th_in_flight (ts_throttle s)
    \<and> th_in_flight (ts_throttle s) \<le> th_capacity (ts_throttle s)
    \<and> (th_waiters (ts_throttle s) = [] \<or> th_in_flight (ts_throttle s) = th_capacity (ts_throttle s))
    \<and> queued (ts_callers s) = mset (seqs (ts_throttle s)) \<and> distinct (seqs (ts_throttle s))
    \<and> (th_max_queue (ts_throttle s) \<le> 0 \<or> deep (ts_throttle s) \<le> th_max_queue (ts_throttle s))"
  using throttle_system.reach_inv[OF assms] by (auto simp: tinv_def tcore_def)

lemma pop_waiter_sorted:
  assumes "pop_waiter ws = Some (w, rest)" and "distinct (map wt_seq ws)"
  shows "sort_key waiter_key ws = w # sort_key waiter_key rest"
proof (rule sort_key_inj_key_eq)
  from pop_waiter_Some[OF assms(1)] have w: "w \<in> set ws" "rest = remove1 w ws" by auto
  then show "mset ws = mset (w # sort_key waiter_key rest)" by simp
  show "inj_on waiter_key (set ws)"
    using assms(2) by (auto simp: inj_on_def waiter_key_def distinct_map)
  have "waiter_key w \<le> waiter_key v" if "v \<in> set ws" for v
    using assms(1) that least_waiter_least by (auto simp: pop_waiter_def Let_def split: list.splits)
  then show "sorted (map waiter_key (w # sort_key waiter_key rest))"
    using w(2) by (auto dest: notin_set_remove1 set_remove1_subset[THEN subsetD])
qed

lemma release_full:
  assumes "th_in_flight t = th_capacity t" and "0 < th_capacity t" and "th_waiters t \<noteq> []"
  obtains w rest where "pop_waiter (th_waiters t) = Some (w, rest)"
    and "throttle_release t = t\<lparr>th_waiters := rest, th_signals := (wt_seq w, SigAdmitted) # th_signals t\<rparr>"
proof -
  obtain w rest where pop: "pop_waiter (th_waiters t) = Some (w, rest)"
    using assms(3) by (cases "pop_waiter (th_waiters t)") auto
  with assms have "throttle_release t = t\<lparr>th_waiters := rest, th_signals := (wt_seq w, SigAdmitted) # th_signals t\<rparr>"
    by (simp add: throttle_release_def wake_next_def)
  with pop that show ?thesis by blast
qed

lemma releases_in_order:
  assumes "th_in_flight t = th_capacity t" and "0 < th_capacity t" and "distinct (map wt_seq (th_waiters t))"
    and "n \<le> length (th_waiters t)"
  shows "th_signals ((throttle_release ^^ n) t)
    = rev (map (\<lambda>w. (wt_seq w, SigAdmitted)) (take n (sort_key waiter_key (th_waiters t)))) @ th_signals t"
  using assms
proof (induction n arbitrary: t)
  case (Suc n)
  then have "th_waiters t \<noteq> []" by auto
  from release_full[OF Suc.prems(1,2) this] obtain w rest where pop: "pop_waiter (th_waiters t) = Some (w, rest)"
    and r: "throttle_release t = t\<lparr>th_waiters := rest, th_signals := (wt_seq w, SigAdmitted) # th_signals t\<rparr>" .
  note w = pop_waiter_Some[OF pop]
  have "distinct (map wt_seq rest)"
    using Suc.prems(3) w by (auto simp: distinct_map distinct_remove1 intro: inj_on_diff)
  then show ?case
    using Suc.IH[of "throttle_release t"] Suc.prems w pop_waiter_sorted[OF pop]
    by (simp add: r funpow_swap1 length_remove1)
qed simp

text \<open>
  C31. Priority order. From any reachable state, \<open>n\<close> releases wake the \<open>n\<close> first waiters in the order of
  priority and, within a priority, of arrival.
\<close>

theorem waiters_are_woken_in_order:
  assumes "reach tstart tstep s" and "n \<le> length (th_waiters (ts_throttle s))"
  shows "th_signals ((throttle_release ^^ n) (ts_throttle s))
    = rev (map (\<lambda>w. (wt_seq w, SigAdmitted)) (take n (sort_key waiter_key (th_waiters (ts_throttle s)))))
      @ th_signals (ts_throttle s)"
proof (cases "th_waiters (ts_throttle s) = []")
  case False
  with throttle_system.reach_inv[OF assms(1)] assms(2) show ?thesis
    by (intro releases_in_order) (auto simp: tinv_def tcore_def seqs_def)
qed (use assms(2) in simp)

section \<open>Two commands that overtake the burst window\<close>

definition demo_throttle :: "phase list \<Rightarrow> int \<Rightarrow> time_ns list \<Rightarrow> time_ns \<Rightarrow> tsys" where
  "demo_throttle phases n samples gap =
     \<lparr>ts_throttle = (new_throttle \<lparr>tc_max_in_flight = 1, tc_burst_threshold = 1, tc_burst_window = secs 60,
          tc_delay = secs 5, tc_max_queue = 0\<rparr>)\<lparr>th_in_flight := n, th_samples := samples, th_last_at := gap\<rparr>,
      ts_now = 1, ts_callers = mset (map (\<lambda>ph. \<lparr>ca_prio = PriorityLow, ca_addr = ''A'', ca_phase = ph\<rparr>) phases)\<rparr>"

lemma demo_arrive:
  "reach tstart tstep (demo_throttle phs n smp gap) \<Longrightarrow> reach tstart tstep (demo_throttle (InBurst Fresh False # phs) n smp gap)"
  by (erule reach_step) (use t_arrive[of "demo_throttle phs n smp gap" PriorityLow "''A''"] in
    \<open>simp add: demo_throttle_def count_critical_def\<close>)

lemma demo_step:
  assumes "reach tstart tstep (demo_throttle (ph # phs) n smp gap)"
    and "cstep 1 PriorityLow ''A'' ph (ts_throttle (demo_throttle [] n smp gap)) (ph', ts_throttle (demo_throttle [] n' smp' gap'))"
  shows "reach tstart tstep (demo_throttle (case ph' of None \<Rightarrow> phs | Some p \<Rightarrow> p # phs) n' smp' gap')"
proof (rule reach_step[OF assms(1)])
  let ?s = "demo_throttle (ph # phs) n smp gap"
  let ?c = "\<lparr>ca_prio = PriorityLow, ca_addr = ''A'', ca_phase = ph\<rparr>"
  have "tstep ?s (?s\<lparr>ts_throttle := ts_throttle (demo_throttle [] n' smp' gap'),
      ts_callers := ts_callers (demo_throttle phs n smp gap) + rejoin ?c ph'\<rparr>)"
    by (rule t_caller[where c = ?c]) (use assms(2) in \<open>simp_all add: demo_throttle_def\<close>)
  then show "tstep ?s (demo_throttle (case ph' of None \<Rightarrow> phs | Some p \<Rightarrow> p # phs) n' smp' gap')"
    by (cases ph') (simp_all add: demo_throttle_def rejoin_def)
qed

lemma demo_swap: "demo_throttle (a # b # phs) = demo_throttle (b # a # phs)"
  by (simp add: fun_eq_iff demo_throttle_def add_mset_commute)

lemma demo_burst:
  "cstep 1 PriorityLow ''A'' (InBurst Fresh False) (ts_throttle (demo_throttle [] n [] gap))
     (Some (InDelay Fresh False), ts_throttle (demo_throttle [] n [] gap))"
  using c_burst[of 1 PriorityLow "''A''" Fresh False "ts_throttle (demo_throttle [] n [] gap)"]
  by (simp add: burst_turn_def burst_check_def prune_burst_def demo_throttle_def new_throttle_def Let_def)

lemma demo_delay:
  "cstep 1 PriorityLow ''A'' (InDelay Fresh False) (ts_throttle (demo_throttle [] n smp 0))
     (Some Admitting, ts_throttle (demo_throttle [] n smp 0))"
  using c_delay[of 1 PriorityLow "''A''" Fresh False "ts_throttle (demo_throttle [] n smp 0)"]
  by (simp add: delay_turn_def delay_check_def demo_throttle_def new_throttle_def secs_def go_second_def Let_def)

lemma demo_admit:
  "set smp \<subseteq> {1} \<Longrightarrow> cstep 1 PriorityLow ''A'' Admitting (ts_throttle (demo_throttle [] 0 smp gap))
     (Some Holding, ts_throttle (demo_throttle [] 1 (smp @ [1]) 1))"
  using c_admit[of 1 PriorityLow "''A''" "ts_throttle (demo_throttle [] 0 smp gap)"]
  by (cases smp) (auto simp: admit_turn_def admit_or_queue_def record_burst_def prune_burst_def demo_throttle_def
    new_throttle_def secs_def go_second_def Let_def)

lemma demo_release:
  "cstep 1 PriorityLow ''A'' Holding (ts_throttle (demo_throttle [] 1 smp gap)) (None, ts_throttle (demo_throttle [] 0 smp gap))"
  using c_release[of 1 PriorityLow "''A''" "ts_throttle (demo_throttle [] 1 smp gap)"]
  by (simp add: throttle_release_def wake_next_def pop_waiter_def demo_throttle_def new_throttle_def Let_def)

lemma demo_idle: "reach tstart tstep (demo_throttle [] 0 [] 0)"
  by (rule reach_start) (auto simp: tstart_def demo_throttle_def new_throttle_def Let_def
    intro!: exI[of _ "\<lparr>tc_max_in_flight = 1, tc_burst_threshold = 1, tc_burst_window = secs 60, tc_delay = secs 5, tc_max_queue = 0\<rparr>"])

lemma demo_three_admitting: "reach tstart tstep (demo_throttle [Admitting, Admitting, Admitting] 0 [] 0)"
proof -
  let ?b = "InBurst Fresh False"
  have rot: "demo_throttle [a, b, c] = demo_throttle [b, c, a]" for a b c
    by (simp add: fun_eq_iff demo_throttle_def add_mset_commute)
  have "reach tstart tstep (demo_throttle [?b, ?b, ?b] 0 [] 0)" by (intro demo_arrive demo_idle)
  then have "reach tstart tstep (demo_throttle [Admitting, ?b, ?b] 0 [] 0)"
    using demo_step[OF demo_step[OF _ demo_burst, simplified option.case] demo_delay, simplified option.case] by blast
  then have "reach tstart tstep (demo_throttle [?b, ?b, Admitting] 0 [] 0)" by (simp only: rot)
  then have "reach tstart tstep (demo_throttle [Admitting, ?b, Admitting] 0 [] 0)"
    using demo_step[OF demo_step[OF _ demo_burst, simplified option.case] demo_delay, simplified option.case] by blast
  then have "reach tstart tstep (demo_throttle [?b, Admitting, Admitting] 0 [] 0)" by (simp only: demo_swap)
  then show ?thesis
    using demo_step[OF demo_step[OF _ demo_burst, simplified option.case] demo_delay, simplified option.case] by blast
qed

lemma demo_holding: "reach tstart tstep (demo_throttle [Holding, Admitting, Admitting] 1 [1] 1)"
  using demo_step[OF demo_three_admitting demo_admit] by simp

text \<open>
  The guards are checked before the permit is taken, in a critical section of their own: two
  commands that arrive together both pass the burst window and the gap, and run one right after the
  other although one command per minute and a gap of five seconds are configured.
\<close>

theorem burst_window_can_be_overtaken:
  "\<exists>s. reach tstart tstep s \<and> th_burst_threshold (ts_throttle s) = 1 \<and> th_burst_window (ts_throttle s) = secs 60
     \<and> th_delay (ts_throttle s) = secs 5 \<and> th_capacity (ts_throttle s) = 1 \<and> th_samples (ts_throttle s) = [1, 1]"
proof -
  from demo_step[OF demo_holding demo_release] have "reach tstart tstep (demo_throttle [Admitting, Admitting] 0 [1] 1)" by simp
  from demo_step[OF this demo_admit] have "reach tstart tstep (demo_throttle [Holding, Admitting] 1 [1, 1] 1)" by simp
  then show ?thesis
    by (intro exI[of _ "demo_throttle [Holding, Admitting] 1 [1, 1] 1"])
      (simp add: demo_throttle_def new_throttle_def Let_def)
qed

text \<open>One command holds the permit, two more queue behind it.\<close>

definition demo_queue :: tsys where
  "demo_queue = (let s = demo_throttle [Holding, Queued 0, Queued 1] 1 [1] 1 in
     s\<lparr>ts_throttle := (ts_throttle s)\<lparr>th_next_seq := 2, th_throttled := 2,
        th_waiters := [\<lparr>wt_prio = PriorityLow, wt_seq = 1, wt_addr = ''A''\<rparr>,
          \<lparr>wt_prio = PriorityLow, wt_seq = 0, wt_addr = ''A''\<rparr>]\<rparr>\<rparr>)"

lemma demo_queue_reach: "reach tstart tstep demo_queue"
proof -
  let ?c = "\<lambda>ph. \<lparr>ca_prio = PriorityLow, ca_addr = ''A'', ca_phase = ph\<rparr>"
  let ?s = "demo_throttle [Holding, Admitting, Admitting] 1 [1] 1"
  let ?a = "\<lambda>s. admit_turn 1 PriorityLow ''A'' (ts_throttle s)"
  let ?n = "\<lambda>s rest. s\<lparr>ts_throttle := snd (?a s), ts_callers := rest + rejoin (?c Admitting) (fst (?a s))\<rparr>"
  have step: "reach tstart tstep (?n s rest)"
    if "reach tstart tstep s" "ts_callers s = add_mset (?c Admitting) rest" "ts_now s = 1" for s rest
    by (rule reach_step[OF that(1) t_caller[OF that(2)]]) (use c_admit[of 1 PriorityLow "''A''" "ts_throttle s"] that(3) in simp)
  let ?s1 = "?n ?s {#?c Holding, ?c Admitting#}"
  have "reach tstart tstep ?s1"
    by (rule step[OF demo_holding]) (simp_all add: demo_throttle_def add_mset_commute)
  from step[OF this, of "{#?c Holding, ?c (Queued 0)#}"]
  have "reach tstart tstep (?n ?s1 {#?c Holding, ?c (Queued 0)#})"
    by (simp add: demo_throttle_def admit_turn_def admit_or_queue_def new_throttle_def rejoin_def add_mset_commute Let_def)
  then show ?thesis
    by (simp add: demo_queue_def demo_throttle_def admit_turn_def admit_or_queue_def new_throttle_def rejoin_def add_mset_commute Let_def numeral_2_eq_2)
qed

theorem permits_are_conserved_witness:
  "held_permits (ts_callers demo_queue) = 1 \<and> th_in_flight (ts_throttle demo_queue) = 1 \<and> queued (ts_callers demo_queue) = {#0, 1#}"
  using permits_are_conserved[OF demo_queue_reach]
  by (simp add: demo_queue_def demo_throttle_def new_throttle_def handed_out_def seqs_def Let_def)

theorem waiters_are_woken_in_order_witness:
  "th_signals ((throttle_release ^^ 2) (ts_throttle demo_queue)) = [(1, SigAdmitted), (0, SigAdmitted)]"
  using waiters_are_woken_in_order[OF demo_queue_reach, of 2]
  by (simp add: demo_queue_def demo_throttle_def new_throttle_def waiter_key_def Let_def)

end
