(* ===== verification/Command_Tracker.thy ===== *)
theory Command_Tracker
  imports Prelude "HOL-Library.Multiset"
begin

text \<open>
  The trackers of sent values: \<open>internal/client/reliability/command_tracker.go\<close> (values whose send
  returned, kept until a callback confirms them or they expire) and \<open>in_flight_tracker.go\<close> (values
  whose send is under way).

  \<^item> A tracker's map is an association list. Eviction sorts the entries by age; the map's iteration
    order and the freedom of \<open>sort.Slice\<close> among equal times are the parameter \<open>shuffle\<close>, about which
    only \<open>mset (shuffle m) = mset m\<close> is assumed where it matters.
  \<^item> Every operation takes the time its \<open>time.Now\<close> returns. A write reads the clock once here; in the
    code its stamp is read just before the lock and the time of the cleanup inside it. Log lines are
    not modelled.
\<close>

section \<open>Data point keys\<close>

record data_point_key =
  dpk_interface :: string
  dpk_channel :: string
  dpk_paramset :: string
  dpk_parameter :: string

section \<open>The command tracker\<close>

record tracker_config =
  tk_max_size :: int
  tk_warning_threshold :: int
  tk_ttl :: duration
  tk_cleanup_threshold :: int

definition apply_defaults :: "tracker_config \<Rightarrow> tracker_config" where
  "apply_defaults c =
     \<lparr>tk_max_size = (if tk_max_size c \<le> 0 then 1000 else tk_max_size c),
      tk_warning_threshold = (if tk_warning_threshold c \<le> 0 then 800 else tk_warning_threshold c),
      tk_ttl = (if tk_ttl c \<le> 0 then secs 60 else tk_ttl c),
      tk_cleanup_threshold = (if tk_cleanup_threshold c \<le> 0 then 500 else tk_cleanup_threshold c)\<rparr>"

type_synonym 'v entries = "(data_point_key \<times> 'v \<times> time_ns) list"

record 'v tracker =
  tr_cfg :: tracker_config
  tr_interface :: string
  tr_entries :: "'v entries"
  tr_warning_logged :: bool

definition new_command_tracker :: "string \<Rightarrow> tracker_config \<Rightarrow> 'v tracker" where
  "new_command_tracker iface cfg = \<lparr>tr_cfg = apply_defaults cfg, tr_interface = iface, tr_entries = [], tr_warning_logged = False\<rparr>"

abbreviation sent_at :: "data_point_key \<times> 'v \<times> time_ns \<Rightarrow> time_ns" where
  "sent_at e \<equiv> snd (snd e)"

definition tracker_size :: "'v tracker \<Rightarrow> int" where
  "tracker_size t = int (length (tr_entries t))"

definition cleanup_expired_locked :: "time_ns \<Rightarrow> 'v tracker \<Rightarrow> int \<times> 'v tracker" where
  "cleanup_expired_locked now t =
     (let cutoff = now - tk_ttl (tr_cfg t); kept = filter (\<lambda>e. \<not> sent_at e < cutoff) (tr_entries t) in
      (int (length (tr_entries t)) - int (length kept), t\<lparr>tr_entries := kept\<rparr>))"

definition lazy_cleanup :: "time_ns \<Rightarrow> 'v tracker \<Rightarrow> 'v tracker" where
  "lazy_cleanup now t =
     (if tracker_size t > tk_cleanup_threshold (tr_cfg t) then snd (cleanup_expired_locked now t) else t)"

definition enforce_size_limit :: "('v entries \<Rightarrow> 'v entries) \<Rightarrow> 'v tracker \<Rightarrow> 'v tracker" where
  "enforce_size_limit shuffle t =
     (let size = tracker_size t;
          t = (if size \<ge> tk_warning_threshold (tr_cfg t) \<and> \<not> tr_warning_logged t then t\<lparr>tr_warning_logged := True\<rparr>
               else if size < tk_warning_threshold (tr_cfg t) then t\<lparr>tr_warning_logged := False\<rparr> else t)
      in if size \<ge> tk_max_size (tr_cfg t)
         then let ordered = sort_key sent_at (shuffle (tr_entries t)); remove = max 1 (size div 5)
           in t\<lparr>tr_entries := fold AList.delete (map fst (take (nat remove) ordered)) (tr_entries t)\<rparr>
         else t)"

definition add_set_value ::
  "('v entries \<Rightarrow> 'v entries) \<Rightarrow> time_ns \<Rightarrow> string \<Rightarrow> string \<Rightarrow> string \<Rightarrow> 'v \<Rightarrow> 'v tracker
     \<Rightarrow> data_point_key option \<times> 'v tracker" where
  "add_set_value shuffle now ch param pk v t =
     (let dpk = \<lparr>dpk_interface = tr_interface t, dpk_channel = ch, dpk_paramset = pk, dpk_parameter = param\<rparr> in
      if dpk_interface dpk = [] \<or> dpk_channel dpk = [] \<or> dpk_paramset dpk = [] \<or> dpk_parameter dpk = [] then (None, t)
      else let t = enforce_size_limit shuffle (lazy_cleanup now t)
        in (Some dpk, t\<lparr>tr_entries := AList.update dpk (v, now) (tr_entries t)\<rparr>))"

definition add_put_paramset ::
  "('v entries \<Rightarrow> 'v entries) \<Rightarrow> time_ns \<Rightarrow> string \<Rightarrow> string \<Rightarrow> (string \<times> 'v) list \<Rightarrow> 'v tracker
     \<Rightarrow> data_point_key list \<times> 'v tracker" where
  "add_put_paramset shuffle now ch pk vals t =
     (if vals = [] then ([], t)
      else let t = enforce_size_limit shuffle (lazy_cleanup now t);
               dpk = \<lambda>param. \<lparr>dpk_interface = tr_interface t, dpk_channel = ch, dpk_paramset = pk, dpk_parameter = param\<rparr>
        in (map (dpk \<circ> fst) vals,
            t\<lparr>tr_entries := fold (\<lambda>(param, v). AList.update (dpk param) (v, now)) vals (tr_entries t)\<rparr>))"

definition get_last_sent_value :: "time_ns \<Rightarrow> data_point_key \<Rightarrow> 'v tracker \<Rightarrow> 'v option \<times> 'v tracker" where
  "get_last_sent_value now dpk t =
     (case lookup (tr_entries t) dpk of
        None \<Rightarrow> (None, t)
      | Some (v, at) \<Rightarrow>
          if now - at > tk_ttl (tr_cfg t) then (None, t\<lparr>tr_entries := AList.delete dpk (tr_entries t)\<rparr>) else (Some v, t))"

definition has_in_flight :: "time_ns \<Rightarrow> data_point_key \<Rightarrow> 'v tracker \<Rightarrow> bool \<times> 'v tracker" where
  "has_in_flight now dpk t = (case get_last_sent_value now dpk t of (r, t) \<Rightarrow> (r \<noteq> None, t))"

definition clear_for_key :: "data_point_key \<Rightarrow> 'v tracker \<Rightarrow> 'v tracker" where
  "clear_for_key dpk t = t\<lparr>tr_entries := AList.delete dpk (tr_entries t)\<rparr>"

definition cleanup_expired :: "time_ns \<Rightarrow> 'v tracker \<Rightarrow> int \<times> 'v tracker" where
  "cleanup_expired now t = cleanup_expired_locked now t"

definition clear_tracker :: "'v tracker \<Rightarrow> 'v tracker" where
  "clear_tracker t = t\<lparr>tr_entries := []\<rparr>"

section \<open>The in-flight tracker\<close>

type_synonym 'v in_flight = "(data_point_key \<times> 'v) list"

definition stage_value :: "data_point_key \<Rightarrow> 'v \<Rightarrow> 'v in_flight \<Rightarrow> 'v option \<times> 'v in_flight" where
  "stage_value k v m = (lookup m k, AList.update k v m)"

definition clear_staged :: "data_point_key \<Rightarrow> 'v in_flight \<Rightarrow> 'v in_flight" where
  "clear_staged k m = AList.delete k m"

definition is_in_flight :: "data_point_key \<Rightarrow> 'v in_flight \<Rightarrow> bool" where
  "is_in_flight k m = (lookup m k \<noteq> None)"

section \<open>Sequences of operations\<close>

datatype 'v tracker_op =
    OpSetValue string string string 'v
  | OpPutParamset string string "(string \<times> 'v) list"
  | OpGet data_point_key
  | OpClearKey data_point_key
  | OpCleanup
  | OpClear

text \<open>One operation with its time and the orders its eviction may meet.\<close>

type_synonym 'v tracker_event = "time_ns \<times> ('v entries \<Rightarrow> 'v entries) \<times> 'v tracker_op"

fun run_op :: "'v tracker_event \<Rightarrow> 'v tracker \<Rightarrow> 'v tracker" where
  "run_op (now, shuffle, OpSetValue ch param pk v) t = snd (add_set_value shuffle now ch param pk v t)"
| "run_op (now, shuffle, OpPutParamset ch pk vals) t = snd (add_put_paramset shuffle now ch pk vals t)"
| "run_op (now, shuffle, OpGet k) t = snd (get_last_sent_value now k t)"
| "run_op (now, shuffle, OpClearKey k) t = clear_for_key k t"
| "run_op (now, shuffle, OpCleanup) t = snd (cleanup_expired now t)"
| "run_op (now, shuffle, OpClear) t = clear_tracker t"

text \<open>The specification: the last value sent for a key since it was last cleared, with its time.\<close>

definition written :: "string \<Rightarrow> 'v tracker_op \<Rightarrow> data_point_key \<Rightarrow> 'v option" where
  "written iface x k =
     (case x of
        OpSetValue ch param pk v \<Rightarrow>
          if k = \<lparr>dpk_interface = iface, dpk_channel = ch, dpk_paramset = pk, dpk_parameter = param\<rparr>
             \<and> iface \<noteq> [] \<and> ch \<noteq> [] \<and> pk \<noteq> [] \<and> param \<noteq> [] then Some v else None
      | OpPutParamset ch pk vals \<Rightarrow>
          if dpk_interface k = iface \<and> dpk_channel k = ch \<and> dpk_paramset k = pk then lookup (rev vals) (dpk_parameter k) else None
      | _ \<Rightarrow> None)"

definition cleared :: "'v tracker_op \<Rightarrow> data_point_key \<Rightarrow> bool" where
  "cleared x k = (x = OpClear \<or> x = OpClearKey k)"

fun spec_op :: "string \<Rightarrow> 'v tracker_event \<Rightarrow> (data_point_key \<rightharpoonup> 'v \<times> time_ns) \<Rightarrow> (data_point_key \<rightharpoonup> 'v \<times> time_ns)" where
  "spec_op iface (now, shuffle, x) m =
     (\<lambda>k. case written iface x k of Some v \<Rightarrow> Some (v, now) | None \<Rightarrow> if cleared x k then None else m k)"

definition last_sent :: "string \<Rightarrow> 'v tracker_event list \<Rightarrow> (data_point_key \<rightharpoonup> 'v \<times> time_ns)" where
  "last_sent iface xs = fold (spec_op iface) xs Map.empty"

definition sent_keys :: "string \<Rightarrow> 'v tracker_event list \<Rightarrow> data_point_key set" where
  "sent_keys iface xs = {k. \<exists>x \<in> set xs. written iface (snd (snd x)) k \<noteq> None}"

section \<open>How each operation changes the map\<close>

lemma lookup_fold_update:
  "lookup (fold (\<lambda>(p, v). AList.update (f p) (v, now)) vals m) k
     = (case lookup (rev (map (\<lambda>(p, v). (f p, v)) vals)) k of Some v \<Rightarrow> Some (v, now) | None \<Rightarrow> lookup m k)"
  by (induction vals arbitrary: m) (auto simp: map_add_Some_iff map_of_append split: option.splits prod.splits)

lemma distinct_keys_fold_update:
  "distinct (keys m) \<Longrightarrow> distinct (keys (fold (\<lambda>(p, v). AList.update (f p) (v, now)) vals m))"
  by (induction vals arbitrary: m) (auto simp: distinct_keys_update)

lemma lookup_rev_inj:
  "inj f \<Longrightarrow> lookup (rev (map (\<lambda>(p, v). (f p, v)) vals)) (f p) = lookup (rev vals) p"
  by (induction vals) (auto simp: map_of_append map_add_def inj_eq split: option.splits)

definition prepared :: "time_ns \<Rightarrow> ('v entries \<Rightarrow> 'v entries) \<Rightarrow> 'v tracker \<Rightarrow> 'v tracker" where
  "prepared now shuffle t = enforce_size_limit shuffle (lazy_cleanup now t)"

lemma lazy_frame [simp]: "tr_cfg (lazy_cleanup now t) = tr_cfg t" "tr_interface (lazy_cleanup now t) = tr_interface t"
  by (simp_all add: lazy_cleanup_def cleanup_expired_locked_def Let_def)

lemma enforce_frame [simp]: "tr_cfg (enforce_size_limit sh t) = tr_cfg t" "tr_interface (enforce_size_limit sh t) = tr_interface t"
  by (simp_all add: enforce_size_limit_def Let_def)

lemma prepared_frame [simp]: "tr_cfg (prepared now sh t) = tr_cfg t" "tr_interface (prepared now sh t) = tr_interface t"
  by (simp_all add: prepared_def)

lemma lazy_entries:
  obtains P where "tr_entries (lazy_cleanup now t) = filter P (tr_entries t)"
    and "\<And>k v at. now \<le> at + tk_ttl (tr_cfg t) \<Longrightarrow> P (k, v, at)"
proof
  show "tr_entries (lazy_cleanup now t) = filter (\<lambda>e. tracker_size t > tk_cleanup_threshold (tr_cfg t)
      \<longrightarrow> \<not> sent_at e < now - tk_ttl (tr_cfg t)) (tr_entries t)"
    by (simp add: lazy_cleanup_def cleanup_expired_locked_def Let_def)
qed auto

lemma enforce_entries:
  obtains K where "tr_entries (enforce_size_limit sh t) = filter (\<lambda>e. fst e \<notin> K) (tr_entries t)"
    and "tracker_size t < tk_max_size (tr_cfg t) \<Longrightarrow> K = {}"
proof
  show "tr_entries (enforce_size_limit sh t) = filter (\<lambda>e. fst e \<notin> (if tracker_size t \<ge> tk_max_size (tr_cfg t)
      then fst ` set (take (nat (max 1 (tracker_size t div 5))) (sort_key sent_at (sh (tr_entries t)))) else {})) (tr_entries t)"
    by (cases "tracker_size t \<ge> tk_max_size (tr_cfg t)") (simp_all add: enforce_size_limit_def Let_def fold_delete)
qed auto

lemma prepared_entries:
  obtains P where "tr_entries (prepared now sh t) = filter P (tr_entries t)"
    and "\<And>k v at. tracker_size t < tk_max_size (tr_cfg t) \<Longrightarrow> now \<le> at + tk_ttl (tr_cfg t) \<Longrightarrow> P (k, v, at)"
proof -
  obtain P where P: "tr_entries (lazy_cleanup now t) = filter P (tr_entries t)"
    and keep: "\<And>k v at. now \<le> at + tk_ttl (tr_cfg t) \<Longrightarrow> P (k, v, at)" by (rule lazy_entries[of now t]) blast
  obtain K where K: "tr_entries (prepared now sh t) = filter (\<lambda>e. fst e \<notin> K) (tr_entries (lazy_cleanup now t))"
    and none: "tracker_size (lazy_cleanup now t) < tk_max_size (tr_cfg (lazy_cleanup now t)) \<Longrightarrow> K = {}"
    unfolding prepared_def by (rule enforce_entries[of sh "lazy_cleanup now t"]) blast

  have "length (filter P (tr_entries t)) \<le> length (tr_entries t)" by (rule length_filter_le)
  then have "tracker_size (lazy_cleanup now t) \<le> tracker_size t" using P by (simp add: tracker_size_def)
  with K P keep none show ?thesis
    by (intro that[of "\<lambda>e. P e \<and> fst e \<notin> K"]) (auto simp: conj_commute)
qed

text \<open>What an operation does to the map, up to entries that expired or were evicted.\<close>

lemma run_op_frame [simp]: "tr_cfg (run_op x t) = tr_cfg t" "tr_interface (run_op x t) = tr_interface t"
  by (cases "(x, t)" rule: run_op.cases;
      simp add: add_set_value_def add_put_paramset_def get_last_sent_value_def clear_for_key_def cleanup_expired_def
        cleanup_expired_locked_def clear_tracker_def Let_def prepared_def[symmetric] split: option.split prod.split)+

lemma run_op_distinct: "distinct (keys (tr_entries t)) \<Longrightarrow> distinct (keys (tr_entries (run_op x t)))"
proof (cases "(x, t)" rule: run_op.cases)
  case (1 now sh ch param pk v t')
  assume d: "distinct (keys (tr_entries t))"
  obtain P where "tr_entries (prepared now sh t) = filter P (tr_entries t)" by (rule prepared_entries[of now sh t])
  with 1 d show ?thesis
    by (simp add: add_set_value_def Let_def prepared_def[symmetric] distinct_keys_update distinct_keys_filter)
next
  case (2 now sh ch pk vals t')
  assume d: "distinct (keys (tr_entries t))"
  obtain P where "tr_entries (prepared now sh t) = filter P (tr_entries t)" by (rule prepared_entries[of now sh t])
  with 2 d show ?thesis
    by (simp add: add_put_paramset_def Let_def prepared_def[symmetric] distinct_keys_fold_update distinct_keys_filter)
qed (auto simp: get_last_sent_value_def clear_for_key_def cleanup_expired_def cleanup_expired_locked_def clear_tracker_def Let_def
      distinct_keys_delete distinct_keys_filter keys_def[of "[]"] split: option.split)

lemma run_op_lookup:
  assumes "distinct (keys (tr_entries t))" and "x = (now, sh, y)"
  obtains P where "\<And>k. lookup (tr_entries (run_op x t)) k
      = (case written (tr_interface t) y k of Some v \<Rightarrow> Some (v, now)
         | None \<Rightarrow> if cleared y k then None else case lookup (tr_entries t) k of
             None \<Rightarrow> None | Some e \<Rightarrow> if P (k, e) then Some e else None)"
    and "\<And>k v at. tracker_size t < tk_max_size (tr_cfg t) \<Longrightarrow> now \<le> at + tk_ttl (tr_cfg t) \<Longrightarrow> P (k, v, at)"
proof -
  obtain P where P: "tr_entries (prepared now sh t) = filter P (tr_entries t)"
    and keep: "\<And>k v at. tracker_size t < tk_max_size (tr_cfg t) \<Longrightarrow> now \<le> at + tk_ttl (tr_cfg t) \<Longrightarrow> P (k, v, at)"
    by (rule prepared_entries[of now sh t]) blast
  note simps = written_def cleared_def assms(2) Let_def prepared_def[symmetric] P lookup_filter_vals[OF assms(1)]
  show ?thesis
  proof (cases y)
    case (OpSetValue ch param pk v)
    show ?thesis
    proof (cases "tr_interface t = [] \<or> ch = [] \<or> pk = [] \<or> param = []")
      case True
      with OpSetValue show ?thesis by (intro that[of "\<lambda>_. True"]) (auto simp: add_set_value_def simps split: option.split)
    next
      case False
      with OpSetValue keep show ?thesis by (intro that[of P]) (auto simp: add_set_value_def simps split: option.split)
    qed
  next
    case (OpPutParamset ch pk vals)
    let ?f = "\<lambda>p. \<lparr>dpk_interface = tr_interface t, dpk_channel = ch, dpk_paramset = pk, dpk_parameter = p\<rparr>"
    have hit: "lookup (rev (map (\<lambda>(p, v). (?f p, v)) vals)) k
      = (if dpk_interface k = tr_interface t \<and> dpk_channel k = ch \<and> dpk_paramset k = pk then lookup (rev vals) (dpk_parameter k) else None)" for k
    proof (cases "dpk_interface k = tr_interface t \<and> dpk_channel k = ch \<and> dpk_paramset k = pk")
      case True
      then have "k = ?f (dpk_parameter k)" by simp
      with True show ?thesis using lookup_rev_inj[of ?f vals "dpk_parameter k"] by (metis (no_types, lifting) data_point_key.ext_inject injI)
    next
      case False
      then have "k \<notin> fst ` set (rev (map (\<lambda>(p, v). (?f p, v)) vals))" by auto
      then have "lookup (rev (map (\<lambda>(p, v). (?f p, v)) vals)) k = None" by (simp only: map_of_eq_None_iff) simp
      with False show ?thesis by auto
    qed
    show ?thesis
    proof (cases "vals = []")
      case True
      with OpPutParamset show ?thesis by (intro that[of "\<lambda>_. True"]) (auto simp: add_put_paramset_def simps split: option.split)
    next
      case False
      with OpPutParamset keep show ?thesis
        by (intro that[of P]) (auto simp: add_put_paramset_def lookup_fold_update hit simps split: option.split)
    qed
  next
    case (OpGet k)
    show ?thesis
      by (intro that[of "\<lambda>(k', v, at). k' = k \<longrightarrow> now - at \<le> tk_ttl (tr_cfg t)"])
        (auto simp: OpGet get_last_sent_value_def simps split: option.split)
  next
    case OpCleanup
    show ?thesis
      by (intro that[of "\<lambda>e. \<not> sent_at e < now - tk_ttl (tr_cfg t)"])
        (auto simp: OpCleanup cleanup_expired_def cleanup_expired_locked_def simps split: option.split)
  qed (intro that[of "\<lambda>_. True"]; auto simp: clear_for_key_def clear_tracker_def simps split: option.split)+
qed

section \<open>The tracker tells the last value sent\<close>

definition run_tracker :: "string \<Rightarrow> tracker_config \<Rightarrow> 'v tracker_event list \<Rightarrow> 'v tracker" where
  "run_tracker iface cfg xs = fold run_op xs (new_command_tracker iface cfg)"

lemma run_tracker_simps [simp]:
  "run_tracker iface cfg [] = new_command_tracker iface cfg"
  "run_tracker iface cfg (xs @ [x]) = run_op x (run_tracker iface cfg xs)"
  "last_sent iface [] = Map.empty"
  "last_sent iface (xs @ [x]) = spec_op iface x (last_sent iface xs)"
  by (simp_all add: run_tracker_def last_sent_def)

lemma run_tracker_frame [simp]:
  "tr_cfg (run_tracker iface cfg xs) = apply_defaults cfg" "tr_interface (run_tracker iface cfg xs) = iface"
  by (induction xs rule: rev_induct) (simp_all add: new_command_tracker_def)

lemma run_tracker_distinct: "distinct (keys (tr_entries (run_tracker iface cfg xs)))"
  by (induction xs rule: rev_induct) (simp_all add: new_command_tracker_def keys_def[of "[]"] run_op_distinct)

lemma tracked_was_sent:
  "lookup (tr_entries (run_tracker iface cfg xs)) k = Some e \<Longrightarrow> last_sent iface xs k = Some e"
proof (induction xs arbitrary: e rule: rev_induct)
  case (snoc x xs)
  obtain now sh y where x: "x = (now, sh, y)" by (cases x)
  obtain P where P: "\<And>k. lookup (tr_entries (run_op x (run_tracker iface cfg xs))) k
      = (case written iface y k of Some v \<Rightarrow> Some (v, now)
         | None \<Rightarrow> if cleared y k then None else case lookup (tr_entries (run_tracker iface cfg xs)) k of
             None \<Rightarrow> None | Some e \<Rightarrow> if P (k, e) then Some e else None)"
    by (rule run_op_lookup[OF run_tracker_distinct x, of iface cfg xs]) simp
  from snoc.prems show ?case
    by (auto simp: P[unfolded x] x snoc.IH split: option.splits if_splits)
qed (simp add: new_command_tracker_def)

lemma finite_sent_keys: "finite (sent_keys iface xs)"
proof -
  have "finite {k. written iface y k \<noteq> None}" for y :: "'v tracker_op"
  proof (cases y)
    case (OpPutParamset ch pk vals)
    have "{k. written iface y k \<noteq> None}
        \<subseteq> (\<lambda>p. \<lparr>dpk_interface = iface, dpk_channel = ch, dpk_paramset = pk, dpk_parameter = p\<rparr>) ` fst ` set vals"
    proof
      fix k assume "k \<in> {k. written iface y k \<noteq> None}"
      then have k: "dpk_interface k = iface" "dpk_channel k = ch" "dpk_paramset k = pk"
        and "dpk_parameter k \<in> dom (lookup (rev vals))"
        by (auto simp: OpPutParamset written_def split: if_splits)
      then have "dpk_parameter k \<in> fst ` set vals" by (simp add: dom_map_of_conv_image_fst)
      moreover from k have "k = \<lparr>dpk_interface = iface, dpk_channel = ch, dpk_paramset = pk, dpk_parameter = dpk_parameter k\<rparr>" by simp
      ultimately show "k \<in> (\<lambda>p. \<lparr>dpk_interface = iface, dpk_channel = ch, dpk_paramset = pk, dpk_parameter = p\<rparr>) ` fst ` set vals"
        by blast
    qed
    then show ?thesis by (rule finite_subset) simp
  qed (auto simp: written_def)
  moreover have "sent_keys iface xs = (\<Union>x \<in> set xs. {k. written iface (snd (snd x)) k \<noteq> None})"
    by (auto simp: sent_keys_def)
  ultimately show ?thesis by auto
qed

lemma sent_keys_append [simp]: "sent_keys iface (xs @ ys) = sent_keys iface xs \<union> sent_keys iface ys"
  by (auto simp: sent_keys_def)

lemma last_sent_keys: "dom (last_sent iface xs) \<subseteq> sent_keys iface xs"
proof (induction xs rule: rev_induct)
  case (snoc x xs)
  then show ?case by (cases x) (auto simp: sent_keys_def subset_iff dom_def split: option.splits if_splits)
qed simp

lemma tracker_size_le: "tracker_size (run_tracker iface cfg xs) \<le> int (card (sent_keys iface xs))"
proof -
  let ?m = "tr_entries (run_tracker iface cfg xs)"
  have "length ?m = card (dom (lookup ?m))"
    using run_tracker_distinct[of iface cfg xs] distinct_card[of "keys ?m"] by (simp add: keys_def[of ?m] dom_map_of_conv_image_fst)
  also have "\<dots> \<le> card (sent_keys iface xs)"
    using tracked_was_sent[of iface cfg xs] last_sent_keys[of iface xs] finite_sent_keys[of iface xs]
    by (intro card_mono) (auto simp: subset_iff dom_def)
  finally show ?thesis by (simp add: tracker_size_def)
qed

lemma sent_is_tracked:
  assumes "sorted (map fst xs)" and "int (card (sent_keys iface xs)) < tk_max_size (apply_defaults cfg)"
    and "\<And>x. x \<in> set xs \<Longrightarrow> fst x \<le> now"
    and "last_sent iface xs k = Some (v, at)" and "now \<le> at + tk_ttl (apply_defaults cfg)"
  shows "lookup (tr_entries (run_tracker iface cfg xs)) k = Some (v, at)"
  using assms
proof (induction xs rule: rev_induct)
  case (snoc x xs)
  obtain at' sh y where x: "x = (at', sh, y)" by (cases x)
  let ?t = "run_tracker iface cfg xs"
  have "card (sent_keys iface xs) \<le> card (sent_keys iface (xs @ [x]))"
    using finite_sent_keys by (intro card_mono) auto
  with snoc.prems(2) have few: "int (card (sent_keys iface xs)) < tk_max_size (apply_defaults cfg)" by linarith
  then have small: "tracker_size ?t < tk_max_size (tr_cfg ?t)" using tracker_size_le[of iface cfg xs] by simp
  obtain P where P: "\<And>k. lookup (tr_entries (run_op x ?t)) k
      = (case written iface y k of Some v \<Rightarrow> Some (v, at')
         | None \<Rightarrow> if cleared y k then None else case lookup (tr_entries ?t) k of
             None \<Rightarrow> None | Some e \<Rightarrow> if P (k, e) then Some e else None)"
    and keep: "\<And>k v at. at' \<le> at + tk_ttl (apply_defaults cfg) \<Longrightarrow> P (k, v, at)"
    using small by (rule_tac run_op_lookup[OF run_tracker_distinct x, of iface cfg xs]) simp
  have ordered: "sorted (map fst xs)" "\<And>x. x \<in> set xs \<Longrightarrow> fst x \<le> now" "at' \<le> now"
    using snoc.prems(1) snoc.prems(3)[of x] snoc.prems(3) x by (auto simp: sorted_append)
  show ?case
  proof (cases "written iface y k")
    case None
    with snoc.prems(4) have l: "last_sent iface xs k = Some (v, at)" and "\<not> cleared y k"
      by (auto simp: x split: if_splits)
    moreover have "at' \<le> at + tk_ttl (apply_defaults cfg)" using ordered(3) snoc.prems(5) by linarith
    ultimately show ?thesis
      using None keep snoc.IH[OF ordered(1) few ordered(2) l snoc.prems(5)] by (simp add: P[unfolded x] x)
  next
    case (Some w)
    with snoc.prems(4) P[of k] show ?thesis by (simp add: x)
  qed
qed simp

text \<open>
  C38. The tracker implements its specification. After any sequence of operations, whatever was evicted
  in between, \<open>GetLastSentValue\<close> answers only with the value last sent for that key and not cleared
  since, no older than the TTL; and as long as fewer keys than the size limit were sent, it answers with
  it whenever it is that young.
\<close>

theorem tracker_tells_the_last_value:
  assumes "t = run_tracker iface cfg xs"
  shows "(\<forall>v. fst (get_last_sent_value now k t) = Some v
            \<longrightarrow> (\<exists>at. last_sent iface xs k = Some (v, at) \<and> now - at \<le> tk_ttl (apply_defaults cfg)))
    \<and> (sorted (map fst xs @ [now]) \<and> int (card (sent_keys iface xs)) < tk_max_size (apply_defaults cfg)
         \<longrightarrow> fst (get_last_sent_value now k t)
           = (case last_sent iface xs k of None \<Rightarrow> None
              | Some (v, at) \<Rightarrow> if now - at \<le> tk_ttl (apply_defaults cfg) then Some v else None))"
proof (intro conjI allI impI)
  fix v assume "fst (get_last_sent_value now k t) = Some v"
  then show "\<exists>at. last_sent iface xs k = Some (v, at) \<and> now - at \<le> tk_ttl (apply_defaults cfg)"
    using tracked_was_sent[of iface cfg xs k] assms by (auto simp: get_last_sent_value_def split: option.splits if_splits)
next
  assume a: "sorted (map fst xs @ [now]) \<and> int (card (sent_keys iface xs)) < tk_max_size (apply_defaults cfg)"
  show "fst (get_last_sent_value now k t)
      = (case last_sent iface xs k of None \<Rightarrow> None
         | Some (v, at) \<Rightarrow> if now - at \<le> tk_ttl (apply_defaults cfg) then Some v else None)"
  proof (cases "lookup (tr_entries t) k")
    case (Some e)
    with tracked_was_sent[of iface cfg xs k e] assms show ?thesis by (cases e) (simp add: get_last_sent_value_def)
  next
    case None
    with a assms sent_is_tracked[of xs iface cfg now k] show ?thesis
      by (auto simp: get_last_sent_value_def sorted_append split: option.splits)
  qed
qed

section \<open>Size\<close>

lemma length_fold_update: "length (fold (\<lambda>(p, v). AList.update (f p) (v, now)) vals m) \<le> length m + length vals"
proof (induction vals arbitrary: m)
  case (Cons e vals)
  obtain p v where e: "e = (p, v)" by (cases e)
  show ?case using Cons.IH[of "AList.update (f p) (v, now) m"] length_update_le[of "f p" "(v, now)" m] by (simp add: e)
qed simp

lemma evicted_size:
  assumes "distinct (keys (tr_entries t))" and "mset (sh (tr_entries t)) = mset (tr_entries t)"
    and "tracker_size t \<ge> tk_max_size (tr_cfg t)" and "0 < tk_max_size (tr_cfg t)"
  shows "tracker_size (enforce_size_limit sh t) = tracker_size t - max 1 (tracker_size t div 5)"
proof -
  let ?m = "tr_entries t" and ?n = "nat (max 1 (tracker_size t div 5))"
  let ?ks = "map fst (take ?n (sort_key sent_at (sh ?m)))"
  have perm: "mset (sort_key sent_at (sh ?m)) = mset ?m" using assms(2) by simp
  then have "mset (map fst (sort_key sent_at (sh ?m))) = mset (keys ?m)" by (simp add: keys_def)
  then have "distinct (map fst (sort_key sent_at (sh ?m)))" using assms(1) mset_eq_imp_distinct_iff by blast
  then have d: "distinct ?ks" by (simp add: take_map[symmetric] distinct_take)
  have "set (sort_key sent_at (sh ?m)) = set ?m" using perm by (rule mset_eq_setD)
  then have sub: "set ?ks \<subseteq> set (keys ?m)" by (fastforce simp: keys_def dest: in_set_takeD)
  have "length (sort_key sent_at (sh ?m)) = length ?m" using perm by (rule mset_eq_length)
  moreover have "?n \<le> length ?m" using assms(3,4) by (simp add: tracker_size_def)
  ultimately have "length ?ks = ?n" by simp
  moreover have "tr_entries (enforce_size_limit sh t) = fold AList.delete ?ks ?m"
    using assms(3) by (simp add: enforce_size_limit_def Let_def)
  ultimately have "length (tr_entries (enforce_size_limit sh t)) + ?n = length ?m"
    using length_fold_delete[OF assms(1) d sub] by simp
  then have "tracker_size (enforce_size_limit sh t) + int ?n = tracker_size t"
    unfolding tracker_size_def by linarith
  then show ?thesis by linarith
qed

fun event_width :: "'v tracker_event \<Rightarrow> int" where
  "event_width (now, sh, OpSetValue ch param pk v) = 1"
| "event_width (now, sh, OpPutParamset ch pk vals) = int (length vals)"
| "event_width _ = 0"

lemma prepared_size:
  assumes "distinct (keys (tr_entries t))" and "\<And>m. mset (sh m) = mset m" and "0 < tk_max_size (tr_cfg t)"
    and "tracker_size t \<le> tk_max_size (tr_cfg t) - 1 + w" and "w \<le> max 1 (tk_max_size (tr_cfg t) div 5)"
  shows "tracker_size (prepared now sh t) \<le> tk_max_size (tr_cfg t) - 1"
proof -
  let ?l = "lazy_cleanup now t"
  obtain P where P: "tr_entries ?l = filter P (tr_entries t)" by (rule lazy_entries[of now t])
  then have le: "tracker_size ?l \<le> tracker_size t" by (simp add: tracker_size_def)
  have d: "distinct (keys (tr_entries ?l))" using assms(1) P by (simp add: distinct_keys_filter)

  show ?thesis
  proof (cases "tracker_size ?l < tk_max_size (tr_cfg ?l)")
    case True
    then have "tr_entries (enforce_size_limit sh ?l) = tr_entries ?l" by (simp add: enforce_size_limit_def Let_def)
    with True show ?thesis by (simp add: prepared_def tracker_size_def)
  next
    case False
    then have "tracker_size (prepared now sh t) = tracker_size ?l - max 1 (tracker_size ?l div 5)"
      unfolding prepared_def using evicted_size[OF d, of sh] assms(2,3) by simp
    moreover have "tk_max_size (tr_cfg t) div 5 \<le> tracker_size ?l div 5"
      using False by (intro zdiv_mono1) simp_all
    ultimately show ?thesis using le assms(4,5) by linarith
  qed
qed

lemma run_op_size:
  assumes "distinct (keys (tr_entries t))" and "\<And>m. mset (fst (snd x) m) = mset m" and "0 < tk_max_size (tr_cfg t)"
    and "tracker_size t \<le> tk_max_size (tr_cfg t) - 1 + w" and "w \<le> max 1 (tk_max_size (tr_cfg t) div 5)"
    and "event_width x \<le> w"
  shows "tracker_size (run_op x t) \<le> tk_max_size (tr_cfg t) - 1 + w"
proof -
  obtain now sh y where x: "x = (now, sh, y)" by (cases x)
  have p: "tracker_size (prepared now sh t) \<le> tk_max_size (tr_cfg t) - 1"
    using assms x by (intro prepared_size) auto
  have del: "length (AList.delete k m) \<le> length m" for k and m :: "'a entries" by (simp add: AList.delete_eq)
  show ?thesis
  proof (cases y)
    case (OpSetValue ch param pk v)
    have "int (length (AList.update k u (tr_entries (prepared now sh t)))) \<le> int (length (tr_entries (prepared now sh t))) + 1" for k u
      using length_update_le[of k u "tr_entries (prepared now sh t)"] by linarith
    then have "tracker_size (run_op x t) \<le> max (tracker_size t) (tracker_size (prepared now sh t) + 1)"
      by (simp add: x OpSetValue add_set_value_def Let_def prepared_def[symmetric] tracker_size_def le_max_iff_disj)
    with p assms(4,6) x OpSetValue show ?thesis by simp
  next
    case (OpPutParamset ch pk vals)
    have "tracker_size (run_op x t) \<le> max (tracker_size t) (tracker_size (prepared now sh t) + int (length vals))"
      using length_fold_update[of _ now vals "tr_entries (prepared now sh t)"]
      by (auto simp: x OpPutParamset add_put_paramset_def Let_def prepared_def[symmetric] tracker_size_def le_max_iff_disj
          simp flip: of_nat_add)
    with p assms(4,6) x OpPutParamset show ?thesis by simp
  next
    case (OpGet k)
    then have "tracker_size (run_op x t) \<le> tracker_size t"
      using del by (auto simp: x get_last_sent_value_def tracker_size_def split: option.split)
    with assms(4) show ?thesis by linarith
  next
    case OpClear
    then have "tracker_size (run_op x t) \<le> tracker_size t" by (simp add: x clear_tracker_def tracker_size_def)
    with assms(4) show ?thesis by linarith
  next
    case (OpClearKey k)
    then have "tracker_size (run_op x t) \<le> tracker_size t" using del by (simp add: x clear_for_key_def tracker_size_def)
    with assms(4) show ?thesis by linarith
  next
    case OpCleanup
    then have "tracker_size (run_op x t) \<le> tracker_size t"
      by (simp add: x cleanup_expired_def cleanup_expired_locked_def tracker_size_def Let_def)
    with assms(4) show ?thesis by linarith
  qed
qed

text \<open>
  Memory. When no single write sends more than \<open>w\<close> values, and \<open>w\<close> is at most a fifth of the limit
  (one, for a small limit), the tracker never holds more than the limit plus \<open>w\<close> less one entries. For
  \<open>w = 1\<close>, single values only, that is the configured limit itself.
\<close>

theorem tracker_size_bounded:
  assumes "\<And>x. x \<in> set xs \<Longrightarrow> event_width x \<le> w \<and> (\<forall>m. mset (fst (snd x) m) = mset m)"
    and "1 \<le> w" and "w \<le> max 1 (tk_max_size (apply_defaults cfg) div 5)"
  shows "tracker_size (run_tracker iface cfg xs) \<le> tk_max_size (apply_defaults cfg) - 1 + w"
  using assms(1)
proof (induction xs rule: rev_induct)
  case Nil
  with assms(2) show ?case by (simp add: new_command_tracker_def tracker_size_def apply_defaults_def)
next
  case (snoc x xs)
  then show ?case
    using run_op_size[OF run_tracker_distinct, of x iface cfg xs w] assms(3)
    by (simp add: apply_defaults_def[of cfg])
qed

section \<open>The in-flight tracker: overlapping writes\<close>

text \<open>
  Two writes to one data point that overlap: the second learns of the first, and the value of the
  second is the one reported. When the first finishes it removes the entry of the second as well.
\<close>

lemma overlapping_writes:
  assumes "stage_value k v m = (p, m1)" and "stage_value k w m1 = (q, m2)"
  shows "q = Some v \<and> lookup m2 k = Some w \<and> \<not> is_in_flight k (clear_staged k m2)"
  using assms by (auto simp: stage_value_def clear_staged_def is_in_flight_def)

section \<open>Witnesses\<close>

definition demo_key :: "string \<Rightarrow> data_point_key" where
  "demo_key p = \<lparr>dpk_interface = ''HmIP'', dpk_channel = ''C:1'', dpk_paramset = ''VALUES'', dpk_parameter = p\<rparr>"

definition demo_events :: "int tracker_event list" where
  "demo_events = [(0, id, OpSetValue ''C:1'' ''LEVEL'' ''VALUES'' 10), (secs 1, rev, OpSetValue ''C:1'' ''LEVEL'' ''VALUES'' 20),
     (secs 2, id, OpPutParamset ''C:1'' ''VALUES'' [(''STATE'', 1)])]"

definition demo_tracker_config :: tracker_config where
  "demo_tracker_config = \<lparr>tk_max_size = 0, tk_warning_threshold = 0, tk_ttl = 0, tk_cleanup_threshold = 0\<rparr>"

lemma demo_limits: "tk_max_size (apply_defaults demo_tracker_config) = 1000" "tk_ttl (apply_defaults demo_tracker_config) = secs 60"
  by (simp_all add: apply_defaults_def demo_tracker_config_def)

lemma demo_last_sent: "last_sent ''HmIP'' demo_events (demo_key ''LEVEL'') = Some (20, secs 1)"
  by (simp add: last_sent_def demo_events_def demo_key_def written_def cleared_def)

theorem tracker_tells_the_last_value_witness:
  "fst (get_last_sent_value (secs 30) (demo_key ''LEVEL'') (run_tracker ''HmIP'' demo_tracker_config demo_events)) = Some 20"
proof -
  have "sent_keys ''HmIP'' demo_events \<subseteq> {demo_key ''LEVEL'', demo_key ''STATE''}"
    by (auto simp: sent_keys_def demo_events_def written_def demo_key_def split: if_splits)
  then have "card (sent_keys ''HmIP'' demo_events) \<le> card {demo_key ''LEVEL'', demo_key ''STATE''}"
    by (intro card_mono) auto
  also have "\<dots> \<le> 2" by (simp add: card_insert_if)
  finally have "int (card (sent_keys ''HmIP'' demo_events)) < tk_max_size (apply_defaults demo_tracker_config)"
    by (simp add: demo_limits)
  moreover have "sorted (map fst demo_events @ [secs 30])"
    by (simp add: demo_events_def secs_def go_second_def)
  moreover have "secs 30 - secs 1 \<le> secs 60" by (simp add: secs_def go_second_def)
  ultimately show ?thesis
    using tracker_tells_the_last_value[OF refl, of "secs 30" "demo_key ''LEVEL''" "''HmIP''" demo_tracker_config demo_events,
        THEN conjunct2]
    unfolding demo_last_sent demo_limits(2) by (simp only: option.case prod.case if_True)
qed

theorem tracker_size_bounded_witness:
  "tracker_size (run_tracker ''HmIP'' demo_tracker_config demo_events) \<le> 1000"
proof -
  have "event_width x \<le> 1 \<and> (\<forall>m. mset (fst (snd x) m) = mset m)" if "x \<in> set demo_events" for x
    using that by (auto simp: demo_events_def)
  from tracker_size_bounded[of demo_events 1 demo_tracker_config "''HmIP''", OF this] show ?thesis
    by (simp add: demo_limits)
qed

end
