(* ===== verification/Command_Retry.thy ===== *)
theory Command_Retry
  imports Complex_Main Circuit_Breaker Command_Tracker
begin

text \<open>
  The retrier of \<open>internal/client/reliability/retry.go\<close>: retry chains with exponential backoff, fixed
  delays for two CCU faults, and one supersede slot per data point.

  \<^item> Each section the code runs under \<open>r.mu\<close> is one definition over the record \<open>retrier\<close>.
  \<^item> A chain is one call of \<open>Do\<close> or \<open>DoForKey\<close>; the two loops differ only in the supersede slot, so a
    chain of \<open>Do\<close> is one without a key. Its cancel channel is known by the chain's number;
    \<open>rt_closed\<close> lists the closed ones, and closing one twice, which panics in Go, sets \<open>rt_panicked\<close>.
  \<^item> Products of durations and floats are the parameter \<open>fmul\<close>; the jittered delay the random source
    yields is the parameter \<open>draw\<close>. Nothing is assumed about either unless a lemma says so.
  \<^item> \<open>rstep\<close> interleaves the chains with cancellations, the kill switch and contexts that end; the
    wrapped operation may answer anything, and a sleep may end at any time. A panic of the operation,
    which unwinds through the deferred removal of the slot and returns no result, is not modelled.
\<close>

section \<open>Configuration and errors\<close>

record retry_error = call_error +
  er_auth_failure :: bool
  er_permission_denied :: bool
  er_unsupported :: bool
  er_validation :: bool

record retry_config =
  rc_max_attempts :: int
  rc_initial :: duration
  rc_max :: duration
  rc_multiplier :: real
  rc_jitter :: real
  rc_duty_cycle_delay :: duration
  rc_pending_delay :: duration
  rc_has_waiter :: bool
  rc_recovery_wait :: duration
  rc_has_sink :: bool

record retry_metrics =
  rm_total :: int
  rm_successful :: int
  rm_exhausted :: int
  rm_recovery_waits :: int
  rm_cancelled :: int

record retrier =
  rt_cfg :: retry_config
  rt_active :: "(data_point_key \<times> nat) list"
  rt_metrics :: retry_metrics
  rt_enabled :: bool
  rt_reports :: "retry_error list"
  rt_closed :: "nat list"
  rt_panicked :: bool

definition retry_defaults :: "retry_config \<Rightarrow> retry_config" where
  "retry_defaults c = c\<lparr>
     rc_max_attempts := (if rc_max_attempts c \<le> 0 then 3 else rc_max_attempts c),
     rc_initial := (if rc_initial c \<le> 0 then secs 2 else rc_initial c),
     rc_max := (if rc_max c \<le> 0 then secs 30 else rc_max c),
     rc_multiplier := (if rc_multiplier c \<le> 1 then 2 else rc_multiplier c),
     rc_jitter := (if rc_jitter c < 0 then 0 else if rc_jitter c = 0 then 1 / 5 else rc_jitter c),
     rc_duty_cycle_delay := (if rc_duty_cycle_delay c \<le> 0 then secs 40 else rc_duty_cycle_delay c),
     rc_pending_delay := (if rc_pending_delay c \<le> 0 then secs 5 else rc_pending_delay c)\<rparr>"

definition new_retrier :: "retry_config \<Rightarrow> retrier" where
  "new_retrier c = \<lparr>rt_cfg = retry_defaults c, rt_active = [],
     rt_metrics = \<lparr>rm_total = 0, rm_successful = 0, rm_exhausted = 0, rm_recovery_waits = 0, rm_cancelled = 0\<rparr>,
     rt_enabled = True, rt_reports = [], rt_closed = [], rt_panicked = False\<rparr>"

section \<open>Classification and delays\<close>

definition special_delay_for :: "retry_config \<Rightarrow> retry_error \<Rightarrow> duration" where
  "special_delay_for c err =
     (case er_fault err of None \<Rightarrow> 0
      | Some f \<Rightarrow> if xf_code f = -8 then rc_duty_cycle_delay c else if xf_code f = -10 then rc_pending_delay c else 0)"

definition is_non_retryable :: "retry_error \<Rightarrow> bool" where
  "is_non_retryable err =
     (er_auth_failure err \<or> er_permission_denied err \<or> er_breaker_open err \<or> er_unsupported err \<or> er_validation err
      \<or> (case er_fault err of None \<Rightarrow> False | Some f \<Rightarrow> \<not> fault_is_retryable f))"

definition is_non_retryable_under_config :: "retry_config \<Rightarrow> retry_error \<Rightarrow> bool" where
  "is_non_retryable_under_config c err = (if rc_has_waiter c \<and> er_breaker_open err then False else is_non_retryable err)"

definition should_wait_for_recovery :: "retry_error \<Rightarrow> bool" where
  "should_wait_for_recovery err =
     (er_breaker_open err \<or> (case er_fault err of None \<Rightarrow> False | Some f \<Rightarrow> xf_code f = -1))"

definition recovery_deadline :: "retry_config \<Rightarrow> duration \<Rightarrow> duration" where
  "recovery_deadline c wait =
     (let recovery = (if rc_recovery_wait c \<le> 0 then secs 120 else rc_recovery_wait c) in
      if wait > recovery then wait else recovery)"

definition next_delay :: "(duration \<Rightarrow> real \<Rightarrow> duration) \<Rightarrow> duration \<Rightarrow> real \<Rightarrow> duration \<Rightarrow> duration" where
  "next_delay fmul cur factor limit = (let nxt = fmul cur factor in if nxt > limit then limit else nxt)"

definition apply_jitter :: "duration \<Rightarrow> real \<Rightarrow> duration \<Rightarrow> duration" where
  "apply_jitter d fraction draw = (if fraction \<le> 0 then d else if draw < 0 then d else draw)"

definition wait_after :: "retry_config \<Rightarrow> retry_error \<Rightarrow> duration \<Rightarrow> duration \<Rightarrow> duration" where
  "wait_after c err delay draw =
     (let wait = special_delay_for c err in if wait > 0 then wait else apply_jitter delay (rc_jitter c) draw)"

definition advance_schedule :: "(duration \<Rightarrow> real \<Rightarrow> duration) \<Rightarrow> retry_config \<Rightarrow> retry_error \<Rightarrow> duration \<Rightarrow> duration" where
  "advance_schedule fmul c err delay =
     (if special_delay_for c err > 0 then delay else next_delay fmul delay (rc_multiplier c) (rc_max c))"

section \<open>The supersede slots\<close>

definition close_channel :: "nat \<Rightarrow> retrier \<Rightarrow> retrier" where
  "close_channel ch r = r\<lparr>rt_panicked := (rt_panicked r \<or> ch \<in> set (rt_closed r)), rt_closed := ch # rt_closed r\<rparr>"

definition count_cancelled :: "int \<Rightarrow> retrier \<Rightarrow> retrier" where
  "count_cancelled n r = r\<lparr>rt_metrics := (rt_metrics r)\<lparr>rm_cancelled := rm_cancelled (rt_metrics r) + n\<rparr>\<rparr>"

definition register_chain :: "data_point_key \<Rightarrow> nat \<Rightarrow> retrier \<Rightarrow> retrier" where
  "register_chain key ch r =
     (let r = (case lookup (rt_active r) key of None \<Rightarrow> r | Some prev \<Rightarrow> count_cancelled 1 (close_channel prev r))
      in r\<lparr>rt_active := AList.update key ch (rt_active r)\<rparr>)"

definition unregister_chain :: "data_point_key \<Rightarrow> nat \<Rightarrow> retrier \<Rightarrow> retrier" where
  "unregister_chain key ch r =
     (if lookup (rt_active r) key = Some ch then r\<lparr>rt_active := AList.delete key (rt_active r)\<rparr> else r)"

definition cancel_key :: "data_point_key \<Rightarrow> retrier \<Rightarrow> retrier" where
  "cancel_key key r =
     (case lookup (rt_active r) key of None \<Rightarrow> r
      | Some ch \<Rightarrow> count_cancelled 1 ((close_channel ch r)\<lparr>rt_active := AList.delete key (rt_active r)\<rparr>))"

definition cancel_interface :: "retrier \<Rightarrow> int \<times> retrier" where
  "cancel_interface r =
     (let n = int (length (rt_active r)) in
      (n, count_cancelled n ((fold (\<lambda>(key, ch). close_channel ch) (rt_active r) r)\<lparr>rt_active := []\<rparr>)))"

definition set_enabled :: "bool \<Rightarrow> retrier \<Rightarrow> retrier" where
  "set_enabled on r = r\<lparr>rt_enabled := on\<rparr>"

definition active_retry_count :: "retrier \<Rightarrow> int" where
  "active_retry_count r = int (length (rt_active r))"

section \<open>Chains\<close>

datatype retry_result = RetOk | RetErr retry_error | RetExhausted int retry_error | RetSuperseded

definition returned_error :: "retry_error option \<Rightarrow> retry_result" where
  "returned_error err = (case err of None \<Rightarrow> RetOk | Some e \<Rightarrow> RetErr e)"

datatype chain_phase =
    PSingle
  | PRegister
  | PTop
  | PCalling
  | PSleep retry_error duration
  | PRecover retry_error duration
  | PLeaving retry_result

text \<open>\<open>cn_gone\<close>: the caller's context is done. \<open>cn_outcomes\<close> records what the operation answered, oldest first.\<close>

record chain =
  cn_key :: "data_point_key option"
  cn_phase :: chain_phase
  cn_attempt :: int
  cn_delay :: duration
  cn_err :: "retry_error option"
  cn_gone :: bool
  cn_single :: bool
  cn_outcomes :: "retry_error option list"

text \<open>What the loop does with the answer of an attempt.\<close>

definition attempt_returned :: "duration \<Rightarrow> chain \<Rightarrow> retry_error option \<Rightarrow> retrier \<Rightarrow> chain_phase \<times> retrier" where
  "attempt_returned draw c res r =
     (let cfg = rt_cfg r; m = rt_metrics r in
      case res of
        None \<Rightarrow> (PLeaving RetOk, if cn_attempt c > 1 then r\<lparr>rt_metrics := m\<lparr>rm_successful := rm_successful m + 1\<rparr>\<rparr> else r)
      | Some err \<Rightarrow>
          if cn_gone c then (PLeaving (RetErr err), r)
          else if is_non_retryable_under_config cfg err then (PLeaving (RetErr err), r)
          else if cn_attempt c = rc_max_attempts cfg
            then (PLeaving (RetExhausted (cn_attempt c) err),
                  r\<lparr>rt_metrics := m\<lparr>rm_exhausted := rm_exhausted m + 1\<rparr>,
                    rt_reports := (if rc_has_sink cfg then err # rt_reports r else rt_reports r)\<rparr>)
          else let m = m\<lparr>rm_total := rm_total m + 1\<rparr>; wait = wait_after cfg err (cn_delay c) draw in
            if rc_has_waiter cfg \<and> should_wait_for_recovery err
              then (PRecover err (recovery_deadline cfg wait), r\<lparr>rt_metrics := m\<lparr>rm_recovery_waits := rm_recovery_waits m + 1\<rparr>\<rparr>)
              else (PSleep err wait, r\<lparr>rt_metrics := m\<rparr>))"

definition next_round :: "(duration \<Rightarrow> real \<Rightarrow> duration) \<Rightarrow> retry_config \<Rightarrow> retry_error \<Rightarrow> chain \<Rightarrow> chain" where
  "next_round fmul cfg err c =
     c\<lparr>cn_phase := PTop, cn_attempt := cn_attempt c + 1, cn_delay := advance_schedule fmul cfg err (cn_delay c)\<rparr>"

definition superseded :: "nat \<Rightarrow> chain \<Rightarrow> retrier \<Rightarrow> bool" where
  "superseded i c r = (cn_key c \<noteq> None \<and> i \<in> set (rt_closed r))"

text \<open>The steps of chain \<open>i\<close>; \<open>None\<close> when it returns.\<close>

inductive kstep ::
  "(duration \<Rightarrow> real \<Rightarrow> duration) \<Rightarrow> nat \<Rightarrow> chain \<Rightarrow> retrier \<Rightarrow> chain option \<Rightarrow> retrier \<Rightarrow> bool" for fmul i where
  k_single: "cn_phase c = PSingle \<Longrightarrow>
    kstep fmul i c r (Some (c\<lparr>cn_phase := PLeaving (returned_error res), cn_outcomes := cn_outcomes c @ [res]\<rparr>)) r"
| k_register: "cn_phase c = PRegister \<Longrightarrow> cn_key c = Some key \<Longrightarrow>
    kstep fmul i c r (Some (c\<lparr>cn_phase := PTop\<rparr>)) (register_chain key i r)"
| k_end: "cn_phase c = PTop \<Longrightarrow> cn_attempt c > rc_max_attempts (rt_cfg r) \<Longrightarrow>
    kstep fmul i c r (Some (c\<lparr>cn_phase := PLeaving (returned_error (cn_err c))\<rparr>)) r"
| k_top: "cn_phase c = PTop \<Longrightarrow> cn_attempt c \<le> rc_max_attempts (rt_cfg r) \<Longrightarrow>
    kstep fmul i c r (Some (c\<lparr>cn_phase := (if superseded i c r then PLeaving RetSuperseded else PCalling)\<rparr>)) r"
| k_call: "cn_phase c = PCalling \<Longrightarrow> attempt_returned draw c res r = (ph, r') \<Longrightarrow>
    kstep fmul i c r (Some (c\<lparr>cn_phase := ph, cn_err := res, cn_outcomes := cn_outcomes c @ [res]\<rparr>)) r'"
| k_timer: "cn_phase c = PSleep err wait \<Longrightarrow> kstep fmul i c r (Some (next_round fmul (rt_cfg r) err c)) r"
| k_sleep_gone: "cn_phase c = PSleep err wait \<Longrightarrow> cn_gone c \<Longrightarrow>
    kstep fmul i c r (Some (c\<lparr>cn_phase := PLeaving (RetErr err)\<rparr>)) r"
| k_sleep_superseded: "cn_phase c = PSleep err wait \<Longrightarrow> superseded i c r \<Longrightarrow>
    kstep fmul i c r (Some (c\<lparr>cn_phase := PLeaving RetSuperseded\<rparr>)) r"
| k_recovered: "cn_phase c = PRecover err wait \<Longrightarrow>
    kstep fmul i c r (Some (if cn_gone c then c\<lparr>cn_phase := PLeaving (RetErr err)\<rparr> else next_round fmul (rt_cfg r) err c)) r"
| k_leave: "cn_phase c = PLeaving res \<Longrightarrow>
    kstep fmul i c r None (case cn_key c of None \<Rightarrow> r | Some key \<Rightarrow> unregister_chain key i r)"

record rsys =
  rs_retrier :: retrier
  rs_chains :: "nat \<Rightarrow> chain option"
  rs_next :: nat
  rs_done :: "(nat \<times> chain) list"

text \<open>A call of \<open>Do\<close> (no key) or \<open>DoForKey\<close>: the kill switch is read first.\<close>

definition new_chain :: "data_point_key option \<Rightarrow> retrier \<Rightarrow> chain" where
  "new_chain key r =
     \<lparr>cn_key = (if rt_enabled r then key else None),
      cn_phase = (if \<not> rt_enabled r then PSingle else if key = None then PTop else PRegister),
      cn_attempt = 1, cn_delay = rc_initial (rt_cfg r), cn_err = None, cn_gone = False, cn_single = (\<not> rt_enabled r),
      cn_outcomes = []\<rparr>"

inductive rstep :: "(duration \<Rightarrow> real \<Rightarrow> duration) \<Rightarrow> rsys \<Rightarrow> rsys \<Rightarrow> bool" for fmul where
  r_do: "rstep fmul s (s\<lparr>rs_chains := (rs_chains s)(rs_next s \<mapsto> new_chain key (rs_retrier s)), rs_next := rs_next s + 1\<rparr>)"
| r_chain: "rs_chains s i = Some c \<Longrightarrow> kstep fmul i c (rs_retrier s) (Some c') r \<Longrightarrow>
    rstep fmul s (s\<lparr>rs_retrier := r, rs_chains := (rs_chains s)(i \<mapsto> c')\<rparr>)"
| r_return: "rs_chains s i = Some c \<Longrightarrow> kstep fmul i c (rs_retrier s) None r \<Longrightarrow>
    rstep fmul s (s\<lparr>rs_retrier := r, rs_chains := (rs_chains s)(i := None), rs_done := (i, c) # rs_done s\<rparr>)"
| r_gone: "rs_chains s i = Some c \<Longrightarrow> rstep fmul s (s\<lparr>rs_chains := (rs_chains s)(i \<mapsto> c\<lparr>cn_gone := True\<rparr>)\<rparr>)"
| r_cancel_key: "rstep fmul s (s\<lparr>rs_retrier := cancel_key key (rs_retrier s)\<rparr>)"
| r_cancel_interface: "rstep fmul s (s\<lparr>rs_retrier := snd (cancel_interface (rs_retrier s))\<rparr>)"
| r_enable: "rstep fmul s (s\<lparr>rs_retrier := set_enabled on (rs_retrier s)\<rparr>)"

definition rstart :: "retry_config \<Rightarrow> rsys \<Rightarrow> bool" where
  "rstart cfg s \<longleftrightarrow> s = \<lparr>rs_retrier = new_retrier cfg, rs_chains = (\<lambda>_. None), rs_next = 0, rs_done = []\<rparr>"

section \<open>The slots\<close>

text \<open>
  The slots in terms of the chains: the slot of a key names the live chain of that key whose channel is
  open. Channels are closed at most once, and each closing is counted.
\<close>

definition slot_owner :: "(nat \<rightharpoonup> chain) \<Rightarrow> nat \<Rightarrow> data_point_key option" where
  "slot_owner cs i = (case cs i of None \<Rightarrow> None | Some c \<Rightarrow> if cn_phase c = PRegister then None else cn_key c)"

definition registering :: "(nat \<rightharpoonup> chain) \<Rightarrow> nat set" where
  "registering cs = {i. \<exists>c. cs i = Some c \<and> cn_phase c = PRegister}"

definition slot_core :: "(data_point_key \<rightharpoonup> nat) \<Rightarrow> nat set \<Rightarrow> (nat \<rightharpoonup> data_point_key) \<Rightarrow> nat set \<Rightarrow> bool" where
  "slot_core A C own pend \<longleftrightarrow>
     (\<forall>key i. A key = Some i \<longleftrightarrow> own i = Some key \<and> i \<notin> C) \<and> pend \<inter> C = {} \<and> pend \<inter> dom own = {}"

definition slots_ok :: "rsys \<Rightarrow> bool" where
  "slots_ok s \<longleftrightarrow> (let r = rs_retrier s in
     slot_core (lookup (rt_active r)) (set (rt_closed r)) (slot_owner (rs_chains s)) (registering (rs_chains s))
   \<and> dom (rs_chains s) \<subseteq> {..< rs_next s} \<and> set (rt_closed r) \<subseteq> {..< rs_next s}
   \<and> distinct (keys (rt_active r)) \<and> distinct (rt_closed r) \<and> \<not> rt_panicked r
   \<and> rm_cancelled (rt_metrics r) = int (length (rt_closed r)))"

lemma core_register:
  assumes "slot_core A C own pend" and "i \<in> pend"
  shows "slot_core (A(key \<mapsto> i)) (C \<union> set_option (A key)) (own(i \<mapsto> key)) (pend - {i})"
proof -
  have "own i = None" "i \<notin> C" using assms by (auto simp: slot_core_def)
  with assms show ?thesis unfolding slot_core_def
    by (auto simp: elem_set split: if_splits)
qed

lemma core_unregister:
  assumes "slot_core A C own pend" and "own i = Some key"
  shows "slot_core (if A key = Some i then A(key := None) else A) C (own(i := None)) pend"
proof (cases "i \<in> C")
  case False
  with assms have A: "A key = Some i" by (auto simp: slot_core_def)
  have "j = i" if "own j = Some key" "j \<notin> C" for j
  proof -
    from that assms(1) have "A key = Some j" by (auto simp: slot_core_def)
    with A show ?thesis by simp
  qed
  note uniq = this
  have "(A(key := None)) k = Some j \<longleftrightarrow> (own(i := None)) j = Some k \<and> j \<notin> C" for k j
  proof (cases "k = key")
    case True
    with uniq[of j] show ?thesis by auto
  next
    case False
    with assms show ?thesis by (auto simp: slot_core_def)
  qed
  with A assms(1) show ?thesis by (auto simp: slot_core_def)
qed (use assms in \<open>auto simp: slot_core_def\<close>)

lemma core_cancel_slot:
  assumes "slot_core A C own pend"
  shows "slot_core (A(key := None)) (C \<union> set_option (A key)) own pend"
  using assms unfolding slot_core_def by (auto simp: elem_set)

lemma core_cancel_all:
  assumes "slot_core A C own pend"
  shows "slot_core Map.empty (C \<union> ran A) own pend"
  using assms unfolding slot_core_def by (auto simp: ran_def)

lemma core_new:
  assumes "slot_core A C own pend" and "n \<notin> C" and "own n = None"
  shows "slot_core A C own (insert n pend)"
  using assms unfolding slot_core_def by auto

lemma slot_owner_simps [simp]:
  "slot_owner (cs(i \<mapsto> c)) = (slot_owner cs)(i := (if cn_phase c = PRegister then None else cn_key c))"
  "slot_owner (cs(i := None)) = (slot_owner cs)(i := None)"
  by (auto simp: slot_owner_def fun_eq_iff)

lemma registering_simps [simp]:
  "registering (cs(i \<mapsto> c)) = (if cn_phase c = PRegister then insert i (registering cs) else registering cs - {i})"
  "registering (cs(i := None)) = registering cs - {i}"
  by (auto simp: registering_def)

definition same_slots :: "retrier \<Rightarrow> retrier \<Rightarrow> bool" where
  "same_slots r r' \<longleftrightarrow> rt_active r' = rt_active r \<and> rt_closed r' = rt_closed r \<and> rt_panicked r' = rt_panicked r
     \<and> rm_cancelled (rt_metrics r') = rm_cancelled (rt_metrics r)"

lemma attempt_frame: "attempt_returned draw c res r = (ph, r') \<Longrightarrow> same_slots r r' \<and> rt_cfg r' = rt_cfg r \<and> ph \<noteq> PRegister"
  by (auto simp: attempt_returned_def same_slots_def Let_def split: option.splits if_splits)

lemma slots_stay:
  assumes "slots_ok s" and "rs_chains s i = Some c" and "same_slots (rs_retrier s) r"
    and "cn_key c' = cn_key c" and "cn_phase c' = PRegister \<longleftrightarrow> cn_phase c = PRegister"
  shows "slots_ok (s\<lparr>rs_retrier := r, rs_chains := (rs_chains s)(i \<mapsto> c')\<rparr>)"
proof -
  let ?cs = "(rs_chains s)(i \<mapsto> c')"
  have "slot_owner ?cs = slot_owner (rs_chains s)" using assms(2,4,5) by (auto simp: slot_owner_def fun_eq_iff)
  moreover have "registering ?cs = registering (rs_chains s)" using assms(2,5) by (auto simp: registering_def)
  ultimately show ?thesis using assms(1-3) by (auto simp: slots_ok_def same_slots_def Let_def simp del: slot_owner_simps registering_simps)
qed

lemma slots_register:
  assumes "slots_ok s" and "rs_chains s i = Some c" and "cn_phase c = PRegister" and "cn_key c = Some key"
  shows "slots_ok (s\<lparr>rs_retrier := register_chain key i (rs_retrier s), rs_chains := (rs_chains s)(i \<mapsto> c\<lparr>cn_phase := PTop\<rparr>)\<rparr>)"
proof -
  let ?r = "rs_retrier s"
  have core: "slot_core (lookup (rt_active ?r)) (set (rt_closed ?r)) (slot_owner (rs_chains s)) (registering (rs_chains s))"
    using assms(1) by (simp add: slots_ok_def Let_def)
  have i: "i \<in> registering (rs_chains s)" using assms by (simp add: registering_def)
  note new = core_register[OF core i, of key]
  have map: "lookup (AList.update key i (rt_active ?r)) = (lookup (rt_active ?r))(key \<mapsto> i)" by (simp add: fun_eq_iff)
  show ?thesis
  proof (cases "lookup (rt_active ?r) key")
    case None
    with new assms show ?thesis
      by (auto simp: slots_ok_def register_chain_def Let_def distinct_keys_update map)
  next
    case (Some p)
    with core have p: "p \<notin> set (rt_closed ?r)" and own: "slot_owner (rs_chains s) p = Some key" by (auto simp: slot_core_def)
    from own have "p \<in> dom (rs_chains s)" by (auto simp: slot_owner_def split: option.splits)
    with Some p new assms show ?thesis
      by (auto simp: slots_ok_def register_chain_def count_cancelled_def close_channel_def Let_def distinct_keys_update map)
  qed
qed

lemma slots_unregister:
  assumes "slots_ok s" and "rs_chains s i = Some c" and "cn_phase c \<noteq> PRegister"
  shows "slots_ok (s\<lparr>rs_retrier := (case cn_key c of None \<Rightarrow> rs_retrier s | Some key \<Rightarrow> unregister_chain key i (rs_retrier s)),
     rs_chains := (rs_chains s)(i := None), rs_done := d\<rparr>)"
proof -
  let ?r = "rs_retrier s"
  have core: "slot_core (lookup (rt_active ?r)) (set (rt_closed ?r)) (slot_owner (rs_chains s)) (registering (rs_chains s))"
    using assms(1) by (simp add: slots_ok_def Let_def)
  have own: "slot_owner (rs_chains s) i = cn_key c" and "i \<notin> registering (rs_chains s)"
    using assms(2,3) by (auto simp: slot_owner_def registering_def)
  then have reg: "registering (rs_chains s) - {i} = registering (rs_chains s)" by simp
  show ?thesis
  proof (cases "cn_key c")
    case None
    with own have "(slot_owner (rs_chains s))(i := None) = slot_owner (rs_chains s)" by auto
    with assms None reg show ?thesis by (auto simp: slots_ok_def Let_def)
  next
    case (Some key)
    have "lookup (AList.delete key (rt_active ?r)) = (lookup (rt_active ?r))(key := None)" by (simp add: fun_eq_iff)
    with core_unregister[OF core own[unfolded Some]] assms(1) Some reg show ?thesis
      by (auto simp: slots_ok_def unregister_chain_def Let_def distinct_keys_delete)
  qed
qed

lemma slots_cancel_key: "slots_ok s \<Longrightarrow> slots_ok (s\<lparr>rs_retrier := cancel_key key (rs_retrier s)\<rparr>)"
proof -
  let ?r = "rs_retrier s"
  assume s: "slots_ok s"
  then have core: "slot_core (lookup (rt_active ?r)) (set (rt_closed ?r)) (slot_owner (rs_chains s)) (registering (rs_chains s))"
    by (simp add: slots_ok_def Let_def)
  have map: "lookup (AList.delete key (rt_active ?r)) = (lookup (rt_active ?r))(key := None)" by (simp add: fun_eq_iff)
  show ?thesis
  proof (cases "lookup (rt_active ?r) key")
    case (Some p)
    with core have p: "p \<notin> set (rt_closed ?r)" and "slot_owner (rs_chains s) p = Some key" by (auto simp: slot_core_def)
    then have "p \<in> dom (rs_chains s)" by (auto simp: slot_owner_def split: option.splits)
    with Some p s core_cancel_slot[OF core, of key] show ?thesis
      by (auto simp: slots_ok_def cancel_key_def count_cancelled_def close_channel_def Let_def distinct_keys_delete map)
  qed (use s in \<open>simp add: cancel_key_def\<close>)
qed

lemma fold_close:
  assumes "distinct (map snd m)" and "snd ` set m \<inter> set (rt_closed r) = {}"
  shows "fold (\<lambda>(key, ch). close_channel ch) m r = r\<lparr>rt_closed := rev (map snd m) @ rt_closed r\<rparr>"
  using assms
proof (induction m arbitrary: r)
  case (Cons e m)
  obtain key ch where e: "e = (key, ch)" by (cases e)
  from Cons.prems e have "close_channel ch r = r\<lparr>rt_closed := ch # rt_closed r\<rparr>" by (auto simp: close_channel_def)
  with Cons.IH[of "close_channel ch r"] Cons.prems e show ?case by auto
qed simp

lemma slots_cancel_interface: "slots_ok s \<Longrightarrow> slots_ok (s\<lparr>rs_retrier := snd (cancel_interface (rs_retrier s))\<rparr>)"
proof -
  let ?r = "rs_retrier s" and ?m = "rt_active (rs_retrier s)"
  assume s: "slots_ok s"
  then have core: "slot_core (lookup ?m) (set (rt_closed ?r)) (slot_owner (rs_chains s)) (registering (rs_chains s))"
    and d: "distinct (keys ?m)" by (simp_all add: slots_ok_def Let_def)
  have own: "slot_owner (rs_chains s) i = Some key \<and> i \<notin> set (rt_closed ?r)" if "(key, i) \<in> set ?m" for key i
    using map_of_is_SomeI[of ?m key i] d that core by (auto simp: keys_def slot_core_def)
  have "inj_on snd (set ?m)"
  proof (rule inj_onI)
    fix a b assume "a \<in> set ?m" "b \<in> set ?m" "snd a = snd b"
    with own[of "fst a" "snd a"] own[of "fst b" "snd b"] have "Some (fst a) = Some (fst b)" by (metis prod.collapse)
    with \<open>snd a = snd b\<close> show "a = b" by (simp add: prod_eq_iff)
  qed
  moreover have "distinct ?m" using d by (simp add: keys_def distinct_map)
  ultimately have dist: "distinct (map snd ?m)" by (simp add: distinct_map)
  have disj: "snd ` set ?m \<inter> set (rt_closed ?r) = {}" using own by force
  have sub: "snd ` set ?m \<subseteq> dom (rs_chains s)" using own by (force simp: slot_owner_def split: option.splits)
  have ran: "ran (lookup ?m) = snd ` set ?m" using d by (simp add: ran_distinct keys_def)
  from core_cancel_all[OF core] have "slot_core Map.empty (snd ` set ?m \<union> set (rt_closed ?r)) (slot_owner (rs_chains s)) (registering (rs_chains s))"
    unfolding ran by (simp add: Un_commute)
  with s dist disj sub show ?thesis
    by (auto simp: slots_ok_def cancel_interface_def count_cancelled_def fold_close[OF dist disj] Let_def keys_def[of "[]"])
qed

lemma slots_new:
  assumes "slots_ok s"
  shows "slots_ok (s\<lparr>rs_chains := (rs_chains s)(rs_next s \<mapsto> new_chain key (rs_retrier s)), rs_next := Suc (rs_next s)\<rparr>)"
proof -
  let ?r = "rs_retrier s" and ?n = "rs_next s"
  have core: "slot_core (lookup (rt_active ?r)) (set (rt_closed ?r)) (slot_owner (rs_chains s)) (registering (rs_chains s))"
    and fresh: "?n \<notin> set (rt_closed ?r)" "rs_chains s ?n = None"
    using assms by (auto simp: slots_ok_def Let_def subset_iff domIff)
  from fresh have own: "slot_owner (rs_chains s) ?n = None" and reg: "?n \<notin> registering (rs_chains s)"
    by (auto simp: slot_owner_def registering_def)
  then have same: "(slot_owner (rs_chains s))(?n := None) = slot_owner (rs_chains s)" "registering (rs_chains s) - {?n} = registering (rs_chains s)"
    by auto
  from core_new[OF core fresh(1) own] core have
    "slot_core (lookup (rt_active ?r)) (set (rt_closed ?r)) (slot_owner ((rs_chains s)(?n \<mapsto> new_chain key ?r)))
       (registering ((rs_chains s)(?n \<mapsto> new_chain key ?r)))"
    using same by (auto simp: new_chain_def)
  with assms show ?thesis by (auto simp: slots_ok_def Let_def subset_iff less_SucI)
qed

inductive_cases kstepE: "kstep fmul i c r oc r'"

lemma kstep_slots:
  assumes "kstep fmul i c (rs_retrier s) (Some c') r" and "slots_ok s" and "rs_chains s i = Some c"
  shows "slots_ok (s\<lparr>rs_retrier := r, rs_chains := (rs_chains s)(i \<mapsto> c')\<rparr>)"
  using assms(1)
proof cases
  case (k_register key)
  with slots_register[OF assms(2,3)] show ?thesis by simp
next
  case (k_call draw res ph)
  with attempt_frame[of draw c res "rs_retrier s" ph r] show ?thesis
    by (intro slots_stay[OF assms(2,3)]) auto
qed (rule slots_stay[OF assms(2,3)]; auto simp: same_slots_def next_round_def)+

lemma rstep_slots: "slots_ok s \<Longrightarrow> rstep fmul s s' \<Longrightarrow> slots_ok s'"
proof (erule rstep.cases, goal_cases)
  case (2 s i c c' r)
  then show ?case using kstep_slots by metis
next
  case (3 s i c r)
  from 3(5) show ?case
    by cases (use 3 slots_unregister[of s i c] in auto)
next
  case (4 s i c)
  with slots_stay[of s i c "rs_retrier s" "c\<lparr>cn_gone := True\<rparr>"] show ?case by (simp add: same_slots_def)
next
  case (7 s on)
  then show ?case by (simp add: slots_ok_def set_enabled_def Let_def)
qed (auto simp: slots_new slots_cancel_key slots_cancel_interface)

section \<open>What a chain does\<close>

definition retried :: "retry_config \<Rightarrow> retry_error option \<Rightarrow> bool" where
  "retried cfg res = (case res of None \<Rightarrow> False | Some e \<Rightarrow> \<not> is_non_retryable_under_config cfg e)"

text \<open>The position in the backoff sequence after some failures.\<close>

definition backoff_after :: "(duration \<Rightarrow> real \<Rightarrow> duration) \<Rightarrow> retry_config \<Rightarrow> retry_error option list \<Rightarrow> duration" where
  "backoff_after fmul cfg rs = fold (\<lambda>res d. case res of None \<Rightarrow> d | Some e \<Rightarrow> advance_schedule fmul cfg e d) rs (rc_initial cfg)"

definition result_ok :: "retry_config \<Rightarrow> nat set \<Rightarrow> nat \<Rightarrow> chain \<Rightarrow> retry_result \<Rightarrow> bool" where
  "result_ok cfg C i c res \<longleftrightarrow>
     (case res of
        RetOk \<Rightarrow> cn_outcomes c \<noteq> [] \<and> last (cn_outcomes c) = None
      | RetErr e \<Rightarrow> cn_outcomes c \<noteq> [] \<and> last (cn_outcomes c) = Some e \<and> (cn_gone c \<or> is_non_retryable_under_config cfg e)
      | RetExhausted n e \<Rightarrow> n = rc_max_attempts cfg \<and> int (length (cn_outcomes c)) = n
          \<and> last (cn_outcomes c) = Some e \<and> \<not> is_non_retryable_under_config cfg e
      | RetSuperseded \<Rightarrow> cn_key c \<noteq> None \<and> i \<in> C
          \<and> int (length (cn_outcomes c)) < rc_max_attempts cfg \<and> list_all (retried cfg) (cn_outcomes c))"

definition phase_ok :: "(duration \<Rightarrow> real \<Rightarrow> duration) \<Rightarrow> retry_config \<Rightarrow> nat set \<Rightarrow> nat \<Rightarrow> chain \<Rightarrow> bool" where
  "phase_ok fmul cfg C i c \<longleftrightarrow>
     (let os = cn_outcomes c; n = int (length os) in
      case cn_phase c of
        PSingle \<Rightarrow> False
      | PRegister \<Rightarrow> cn_key c \<noteq> None \<and> os = [] \<and> cn_attempt c = 1 \<and> cn_delay c = backoff_after fmul cfg os
      | PTop \<Rightarrow> n = cn_attempt c - 1 \<and> list_all (retried cfg) os \<and> cn_delay c = backoff_after fmul cfg os
      | PCalling \<Rightarrow> n = cn_attempt c - 1 \<and> list_all (retried cfg) os \<and> cn_delay c = backoff_after fmul cfg os
      | PSleep e w \<Rightarrow> n = cn_attempt c \<and> n < rc_max_attempts cfg \<and> list_all (retried cfg) os \<and> last os = Some e
          \<and> cn_delay c = backoff_after fmul cfg (butlast os) \<and> (\<exists>draw. w = wait_after cfg e (cn_delay c) draw)
      | PRecover e w \<Rightarrow> n = cn_attempt c \<and> n < rc_max_attempts cfg \<and> list_all (retried cfg) os \<and> last os = Some e
          \<and> cn_delay c = backoff_after fmul cfg (butlast os) \<and> (\<exists>draw. w = recovery_deadline cfg (wait_after cfg e (cn_delay c) draw))
      | PLeaving res \<Rightarrow> n \<le> rc_max_attempts cfg \<and> list_all (retried cfg) (butlast os) \<and> result_ok cfg C i c res)"

definition single_ok :: "chain \<Rightarrow> bool" where
  "single_ok c \<longleftrightarrow> cn_key c = None \<and>
     (cn_phase c = PSingle \<and> cn_outcomes c = []
      \<or> (\<exists>res. cn_phase c = PLeaving (returned_error res) \<and> cn_outcomes c = [res]))"

definition chain_ok :: "(duration \<Rightarrow> real \<Rightarrow> duration) \<Rightarrow> retry_config \<Rightarrow> nat set \<Rightarrow> nat \<Rightarrow> chain \<Rightarrow> bool" where
  "chain_ok fmul cfg C i c \<longleftrightarrow>
     (if cn_single c then single_ok c else 1 \<le> cn_attempt c \<and> cn_attempt c \<le> rc_max_attempts cfg \<and> phase_ok fmul cfg C i c)"

lemma chain_ok_mono: "chain_ok fmul cfg C i c \<Longrightarrow> C \<subseteq> D \<Longrightarrow> chain_ok fmul cfg D i c"
proof -
  assume "C \<subseteq> D"
  then have "result_ok cfg C i c res \<Longrightarrow> result_ok cfg D i c res" for res
    by (auto simp: result_ok_def split: retry_result.splits)
  then show "chain_ok fmul cfg C i c \<Longrightarrow> chain_ok fmul cfg D i c"
    by (cases "cn_single c"; cases "cn_phase c") (auto simp: chain_ok_def phase_ok_def Let_def)
qed

lemma chain_ok_gone: "chain_ok fmul cfg C i c \<Longrightarrow> chain_ok fmul cfg C i (c\<lparr>cn_gone := True\<rparr>)"
proof -
  have "result_ok cfg C i c res \<Longrightarrow> result_ok cfg C i (c\<lparr>cn_gone := True\<rparr>) res" for res
    by (auto simp: result_ok_def split: retry_result.splits)
  then show "chain_ok fmul cfg C i c \<Longrightarrow> chain_ok fmul cfg C i (c\<lparr>cn_gone := True\<rparr>)"
    by (cases "cn_single c"; cases "cn_phase c") (auto simp: chain_ok_def single_ok_def phase_ok_def Let_def)
qed

lemma backoff_after_snoc [simp]:
  "backoff_after fmul cfg [] = rc_initial cfg"
  "backoff_after fmul cfg (rs @ [Some e]) = advance_schedule fmul cfg e (backoff_after fmul cfg rs)"
  by (simp_all add: backoff_after_def)

lemma next_round_ok:
  assumes "1 \<le> cn_attempt c" and "int (length (cn_outcomes c)) = cn_attempt c" and "cn_attempt c < rc_max_attempts cfg"
    and "list_all (retried cfg) (cn_outcomes c)" and "last (cn_outcomes c) = Some e"
    and "cn_delay c = backoff_after fmul cfg (butlast (cn_outcomes c))" and "\<not> cn_single c"
  shows "chain_ok fmul cfg C i (next_round fmul cfg e c)"
proof -
  have "cn_outcomes c \<noteq> []" using assms(1,2) by auto
  then have "backoff_after fmul cfg (cn_outcomes c) = advance_schedule fmul cfg e (cn_delay c)"
    using assms(5,6) backoff_after_snoc(2)[of fmul cfg "butlast (cn_outcomes c)" e] by (metis append_butlast_last_id)
  with assms show ?thesis by (simp add: chain_ok_def phase_ok_def next_round_def Let_def)
qed

lemma attempt_ok:
  assumes "attempt_returned draw c res r = (ph, r')" and "rt_cfg r = cfg" and "cn_phase c = PCalling"
    and "chain_ok fmul cfg C i c"
  shows "chain_ok fmul cfg C i (c\<lparr>cn_phase := ph, cn_err := res, cn_outcomes := cn_outcomes c @ [res]\<rparr>)"
proof -
  from assms(3,4) have c: "\<not> cn_single c" "1 \<le> cn_attempt c" "cn_attempt c \<le> rc_max_attempts cfg"
    "int (length (cn_outcomes c)) = cn_attempt c - 1" "list_all (retried cfg) (cn_outcomes c)"
    "cn_delay c = backoff_after fmul cfg (cn_outcomes c)"
    by (auto simp: chain_ok_def single_ok_def phase_ok_def Let_def split: if_splits)
  show ?thesis
  proof (cases res)
    case None
    with assms(1) c show ?thesis
      by (auto simp: attempt_returned_def Let_def chain_ok_def phase_ok_def result_ok_def split: if_splits)
  next
    case (Some e)
    with assms(1,2) c show ?thesis
      by (auto simp: attempt_returned_def Let_def chain_ok_def phase_ok_def result_ok_def retried_def split: if_splits)
  qed
qed

lemma waiting:
  assumes "chain_ok fmul cfg C i c" and "cn_phase c = PSleep e w \<or> cn_phase c = PRecover e w"
  shows "chain_ok fmul cfg C i (next_round fmul cfg e c)"
    and "cn_gone c \<Longrightarrow> chain_ok fmul cfg C i (c\<lparr>cn_phase := PLeaving (RetErr e)\<rparr>)"
    and "cn_key c \<noteq> None \<Longrightarrow> i \<in> C \<Longrightarrow> chain_ok fmul cfg C i (c\<lparr>cn_phase := PLeaving RetSuperseded\<rparr>)"
proof -
  from assms have c: "\<not> cn_single c" "1 \<le> cn_attempt c" "cn_attempt c < rc_max_attempts cfg"
    "int (length (cn_outcomes c)) = cn_attempt c" "list_all (retried cfg) (cn_outcomes c)" "last (cn_outcomes c) = Some e"
    "cn_delay c = backoff_after fmul cfg (butlast (cn_outcomes c))"
    by (auto simp: chain_ok_def single_ok_def phase_ok_def Let_def split: if_splits)
  then show "chain_ok fmul cfg C i (next_round fmul cfg e c)" by (intro next_round_ok) auto
  have "list_all (retried cfg) (butlast (cn_outcomes c))" "cn_outcomes c \<noteq> []"
    using c by (auto simp: list_all_iff dest: in_set_butlastD)
  with c show "cn_gone c \<Longrightarrow> chain_ok fmul cfg C i (c\<lparr>cn_phase := PLeaving (RetErr e)\<rparr>)"
    and "cn_key c \<noteq> None \<Longrightarrow> i \<in> C \<Longrightarrow> chain_ok fmul cfg C i (c\<lparr>cn_phase := PLeaving RetSuperseded\<rparr>)"
    by (auto simp: chain_ok_def phase_ok_def result_ok_def Let_def)
qed

lemma at_top:
  assumes "chain_ok fmul cfg C i c" and "cn_phase c = PTop"
  shows "cn_attempt c \<le> rc_max_attempts cfg" and "chain_ok fmul cfg C i (c\<lparr>cn_phase := PCalling\<rparr>)"
    and "cn_key c \<noteq> None \<Longrightarrow> i \<in> C \<Longrightarrow> chain_ok fmul cfg C i (c\<lparr>cn_phase := PLeaving RetSuperseded\<rparr>)"
proof -
  from assms have c: "\<not> cn_single c" "1 \<le> cn_attempt c" "cn_attempt c \<le> rc_max_attempts cfg"
    "int (length (cn_outcomes c)) = cn_attempt c - 1" "list_all (retried cfg) (cn_outcomes c)"
    "cn_delay c = backoff_after fmul cfg (cn_outcomes c)"
    by (auto simp: chain_ok_def single_ok_def phase_ok_def Let_def split: if_splits)
  then show "cn_attempt c \<le> rc_max_attempts cfg" "chain_ok fmul cfg C i (c\<lparr>cn_phase := PCalling\<rparr>)"
    by (simp_all add: chain_ok_def phase_ok_def Let_def)
  from c show "cn_key c \<noteq> None \<Longrightarrow> i \<in> C \<Longrightarrow> chain_ok fmul cfg C i (c\<lparr>cn_phase := PLeaving RetSuperseded\<rparr>)"
    by (auto simp: chain_ok_def phase_ok_def result_ok_def Let_def list_all_iff dest: in_set_butlastD)
qed

lemma kstep_chain_ok:
  assumes "kstep fmul i c r (Some c') r'" and "chain_ok fmul cfg (set (rt_closed r)) i c" and "rt_cfg r = cfg"
  shows "chain_ok fmul cfg (set (rt_closed r)) i c'"
  using assms(1)
proof cases
  case (k_single res)
  with assms(2) show ?thesis by (auto simp: chain_ok_def single_ok_def phase_ok_def split: if_splits)
next
  case (k_register key)
  with assms(2) show ?thesis by (auto simp: chain_ok_def single_ok_def phase_ok_def Let_def split: if_splits)
next
  case k_end
  with at_top(1)[OF assms(2)] assms(3) show ?thesis by simp
next
  case k_top
  with at_top[OF assms(2)] show ?thesis by (simp add: superseded_def)
next
  case (k_call draw res ph)
  with attempt_ok[of draw c res r ph r' cfg] assms show ?thesis by simp
next
  case (k_timer e w)
  with waiting(1)[OF assms(2)] assms(3) show ?thesis by simp
next
  case (k_sleep_gone e w)
  with waiting(2)[OF assms(2)] show ?thesis by simp
next
  case (k_sleep_superseded e w)
  with waiting(3)[OF assms(2)] show ?thesis by (simp add: superseded_def)
next
  case (k_recovered e w)
  with waiting(1,2)[OF assms(2)] assms(3) show ?thesis by simp
qed

section \<open>The whole retrier\<close>

definition rinv :: "(duration \<Rightarrow> real \<Rightarrow> duration) \<Rightarrow> retry_config \<Rightarrow> rsys \<Rightarrow> bool" where
  "rinv fmul cfg s \<longleftrightarrow> slots_ok s \<and> rt_cfg (rs_retrier s) = retry_defaults cfg
     \<and> (\<forall>i c. rs_chains s i = Some c \<longrightarrow> chain_ok fmul (retry_defaults cfg) (set (rt_closed (rs_retrier s))) i c)
     \<and> (\<forall>(i, c) \<in> set (rs_done s). chain_ok fmul (retry_defaults cfg) (set (rt_closed (rs_retrier s))) i c
          \<and> (\<exists>res. cn_phase c = PLeaving res))"

definition grows :: "retrier \<Rightarrow> retrier \<Rightarrow> bool" where
  "grows r r' \<longleftrightarrow> rt_cfg r' = rt_cfg r \<and> set (rt_closed r) \<subseteq> set (rt_closed r')"

lemma grows_ops [simp, intro]:
  "grows r r" "grows r (register_chain key i r)" "grows r (unregister_chain key i r)" "grows r (cancel_key key r)"
  "grows r (set_enabled on r)"
  by (auto simp: grows_def register_chain_def unregister_chain_def cancel_key_def count_cancelled_def close_channel_def
      set_enabled_def Let_def split: option.split)

lemma grows_cancel_interface [simp]: "grows r (snd (cancel_interface r))"
proof -
  have "rt_cfg (fold (\<lambda>(key, ch). close_channel ch) m r) = rt_cfg r
      \<and> set (rt_closed r) \<subseteq> set (rt_closed (fold (\<lambda>(key, ch). close_channel ch) m r))" for m :: "(data_point_key \<times> nat) list"
  proof (induction m arbitrary: r)
    case (Cons e m)
    from Cons.IH[of "close_channel (snd e) r"] show ?case by (cases e) (auto simp: close_channel_def)
  qed simp
  then show ?thesis by (simp add: grows_def cancel_interface_def count_cancelled_def Let_def)
qed

lemma kstep_grows: "kstep fmul i c r oc r' \<Longrightarrow> grows r r'"
  by (erule kstepE) (auto simp: same_slots_def grows_def[of _ r'] dest!: attempt_frame split: option.split)

lemma rinv_grows:
  assumes "rinv fmul cfg s" and "grows (rs_retrier s) r" and "slots_ok s'" and "rs_retrier s' = r"
    and "\<And>i c. rs_chains s' i = Some c \<Longrightarrow> rs_chains s i = Some c \<or> chain_ok fmul (retry_defaults cfg) (set (rt_closed r)) i c"
    and "\<And>i c. (i, c) \<in> set (rs_done s') \<Longrightarrow> (i, c) \<in> set (rs_done s)
           \<or> (chain_ok fmul (retry_defaults cfg) (set (rt_closed r)) i c \<and> (\<exists>res. cn_phase c = PLeaving res))"
  shows "rinv fmul cfg s'"
  unfolding rinv_def
proof (intro conjI allI impI ballI)
  have mono: "chain_ok fmul (retry_defaults cfg) (set (rt_closed (rs_retrier s))) i c
      \<Longrightarrow> chain_ok fmul (retry_defaults cfg) (set (rt_closed r)) i c" for i c
    using assms(2) by (auto simp: grows_def intro: chain_ok_mono)
  show "slots_ok s'" by fact
  show "rt_cfg (rs_retrier s') = retry_defaults cfg" using assms(1,2,4) by (simp add: rinv_def grows_def)
  show "chain_ok fmul (retry_defaults cfg) (set (rt_closed (rs_retrier s'))) i c" if "rs_chains s' i = Some c" for i c
    using assms(5)[OF that] mono assms(1,4) by (auto simp: rinv_def)
  fix x assume "x \<in> set (rs_done s')"
  with assms(6)[of "fst x" "snd x"] mono assms(1,4)
  show "case x of (i, c) \<Rightarrow> chain_ok fmul (retry_defaults cfg) (set (rt_closed (rs_retrier s'))) i c \<and> (\<exists>res. cn_phase c = PLeaving res)"
    by (cases x) (auto simp: rinv_def)
qed

lemma new_chain_ok: "rt_cfg r = retry_defaults cfg \<Longrightarrow> chain_ok fmul (retry_defaults cfg) C i (new_chain key r)"
  by (auto simp: new_chain_def chain_ok_def single_ok_def phase_ok_def retry_defaults_def Let_def)

lemma rstep_rinv:
  assumes "rinv fmul cfg s" and "rstep fmul s s'"
  shows "rinv fmul cfg s'"
proof -
  from assms(1) have ok: "slots_ok s" and cfg: "rt_cfg (rs_retrier s) = retry_defaults cfg"
    and chain: "\<And>i c. rs_chains s i = Some c \<Longrightarrow> chain_ok fmul (retry_defaults cfg) (set (rt_closed (rs_retrier s))) i c"
    by (auto simp: rinv_def)
  note slots = rstep_slots[OF ok assms(2)]
  from assms(2) show ?thesis
  proof cases
    case (r_do key)
    show ?thesis
      by (rule rinv_grows[OF assms(1) _ slots]) (auto simp: r_do new_chain_ok cfg split: if_splits)
  next
    case (r_chain i c c' r)
    note g = kstep_grows[OF r_chain(3)]
    have "chain_ok fmul (retry_defaults cfg) (set (rt_closed r)) i c'"
      using chain_ok_mono[OF kstep_chain_ok[OF r_chain(3) chain[OF r_chain(2)] cfg]] g by (simp add: grows_def)
    then show ?thesis
      by (intro rinv_grows[OF assms(1) g slots]) (auto simp: r_chain(1) split: if_splits)
  next
    case (r_return i c r)
    note g = kstep_grows[OF r_return(3)]
    have "\<exists>res. cn_phase c = PLeaving res" using r_return(3) by cases auto
    moreover have "chain_ok fmul (retry_defaults cfg) (set (rt_closed r)) i c"
      using chain_ok_mono[OF chain[OF r_return(2)]] g by (simp add: grows_def)
    ultimately show ?thesis
      by (intro rinv_grows[OF assms(1) g slots]) (auto simp: r_return(1) split: if_splits)
  next
    case (r_gone i c)
    show ?thesis
      by (rule rinv_grows[OF assms(1) _ slots]) (auto simp: r_gone(1) chain_ok_gone chain[OF r_gone(2)] split: if_splits)
  qed (rule rinv_grows[OF assms(1) _ slots]; simp)+
qed

interpretation retries: invariant_system "rstart cfg" "rstep fmul" "rinv fmul cfg" for fmul cfg
proof
  show "rinv fmul cfg s" if "rstart cfg s" for s
    using that by (auto simp: rstart_def rinv_def slots_ok_def slot_core_def slot_owner_def registering_def new_retrier_def
      keys_def Let_def)
qed (rule rstep_rinv)

text \<open>
  C34. One chain per data point. In every interleaving of chains, supersedes, cancellations, interface
  shutdowns and the kill switch: no cancel channel is closed twice, so the retrier does not panic;
  of all live chains of a data point that have registered, the one in the slot is the only one not
  cancelled; and the cancellation counter is the number of chains cancelled.
\<close>

theorem one_live_chain_per_key:
  assumes "reach (rstart cfg) (rstep fmul) s"
  shows "\<not> rt_panicked (rs_retrier s)
    \<and> (\<forall>key i. lookup (rt_active (rs_retrier s)) key = Some i \<longleftrightarrow>
         (\<exists>c. rs_chains s i = Some c \<and> cn_key c = Some key \<and> cn_phase c \<noteq> PRegister \<and> \<not> superseded i c (rs_retrier s)))
    \<and> rm_cancelled (rt_metrics (rs_retrier s)) = int (card (set (rt_closed (rs_retrier s))))"
proof -
  from retries.reach_inv[OF assms] have ok: "slots_ok s" by (simp add: rinv_def)
  then have "lookup (rt_active (rs_retrier s)) key = Some i \<longleftrightarrow>
      slot_owner (rs_chains s) i = Some key \<and> i \<notin> set (rt_closed (rs_retrier s))" for key i
    by (simp add: slots_ok_def slot_core_def Let_def)
  moreover have "slot_owner (rs_chains s) i = Some key \<longleftrightarrow>
      (\<exists>c. rs_chains s i = Some c \<and> cn_key c = Some key \<and> cn_phase c \<noteq> PRegister)" for key i
    by (auto simp: slot_owner_def split: option.split)
  ultimately show ?thesis
    using ok by (auto simp: slots_ok_def superseded_def Let_def distinct_card)
qed


text \<open>The rank of a chain: what is left of it, in steps of its own.\<close>

definition chain_rank :: "retry_config \<Rightarrow> chain \<Rightarrow> nat" where
  "chain_rank cfg c =
     (let left = nat (rc_max_attempts cfg - cn_attempt c) in
      case cn_phase c of PLeaving _ \<Rightarrow> 1 | PSingle \<Rightarrow> 2 | PSleep _ _ \<Rightarrow> 3 * left + 2 | PRecover _ _ \<Rightarrow> 3 * left + 2
        | PCalling \<Rightarrow> 3 * left + 3 | PTop \<Rightarrow> 3 * left + 4 | PRegister \<Rightarrow> 3 * left + 5)"

lemma kstep_rank:
  assumes "kstep fmul i c r (Some c') r'" and "chain_ok fmul cfg C i c" and "rt_cfg r = cfg"
  shows "chain_rank cfg c' < chain_rank cfg c"
  using assms(1)
proof cases
  case (k_call draw res ph)
  then show ?thesis
    by (auto simp: chain_rank_def attempt_returned_def Let_def split: option.splits if_splits)
next
  case (k_timer e w)
  with assms(2) have "cn_attempt c < rc_max_attempts cfg"
    by (auto simp: chain_ok_def single_ok_def phase_ok_def Let_def split: if_splits)
  with k_timer show ?thesis by (simp add: chain_rank_def next_round_def Let_def)
next
  case (k_recovered e w)
  with assms(2) have "cn_attempt c < rc_max_attempts cfg"
    by (auto simp: chain_ok_def single_ok_def phase_ok_def Let_def split: if_splits)
  with k_recovered show ?thesis by (cases "cn_gone c") (auto simp: chain_rank_def next_round_def Let_def)
qed (auto simp: chain_rank_def Let_def)

lemma kstep_enabled:
  assumes "chain_ok fmul cfg C i c"
  shows "\<exists>oc r'. kstep fmul i c r oc r'"
proof (cases "cn_phase c")
  case PRegister
  with assms have "cn_key c \<noteq> None" by (auto simp: chain_ok_def single_ok_def phase_ok_def Let_def split: if_splits)
  with PRegister show ?thesis by (blast intro: k_register)
next
  case PTop
  then show ?thesis by (meson k_end k_top not_le)
next
  case PCalling
  then show ?thesis by (metis k_call surj_pair)
qed (blast intro: k_single k_timer k_recovered k_leave)+

text \<open>
  C36. Every chain ends. A chain that has not returned can always take a step of its own (the operation
  answers, a timer runs out, the recovery waiter returns), whatever the other chains do, and each such
  step but the last lowers its rank, which is at no time more than three times the number of attempts plus
  two: after that many steps of its own it has returned, whatever the operation answers.
\<close>

theorem retry_chains_end:
  assumes "reach (rstart cfg) (rstep fmul) s" and "rs_chains s i = Some c"
  shows "(\<exists>oc r. kstep fmul i c (rs_retrier s) oc r)
    \<and> (\<forall>c' r. kstep fmul i c (rs_retrier s) (Some c') r \<longrightarrow> chain_rank (retry_defaults cfg) c' < chain_rank (retry_defaults cfg) c)
    \<and> int (chain_rank (retry_defaults cfg) c) \<le> 3 * rc_max_attempts (retry_defaults cfg) + 2"
proof -
  from retries.reach_inv[OF assms(1)] assms(2) have
    ok: "chain_ok fmul (retry_defaults cfg) (set (rt_closed (rs_retrier s))) i c" and cfg: "rt_cfg (rs_retrier s) = retry_defaults cfg"
    by (auto simp: rinv_def)
  have "0 < rc_max_attempts (retry_defaults cfg)" by (simp add: retry_defaults_def)
  moreover have "\<not> cn_single c \<Longrightarrow> 1 \<le> cn_attempt c" using ok by (simp add: chain_ok_def)
  moreover have "cn_single c \<Longrightarrow> cn_phase c = PSingle \<or> (\<exists>res. cn_phase c = PLeaving res)" using ok by (auto simp: chain_ok_def single_ok_def)
  ultimately have "int (chain_rank (retry_defaults cfg) c) \<le> 3 * rc_max_attempts (retry_defaults cfg) + 2"
    by (cases "cn_single c"; cases "cn_phase c") (auto simp: chain_rank_def Let_def)
  with kstep_enabled[OF ok] kstep_rank[OF _ ok cfg] show ?thesis by blast
qed

lemma regular_failures:
  "list_all (\<lambda>res. res \<noteq> None) rs \<Longrightarrow> backoff_after fmul cfg rs
     = ((\<lambda>d. next_delay fmul d (rc_multiplier cfg) (rc_max cfg))
         ^^ length (filter (\<lambda>res. special_delay_for cfg (the res) \<le> 0) rs)) (rc_initial cfg)"
proof (induction rs rule: rev_induct)
  case (snoc res rs)
  then obtain e where "res = Some e" by auto
  with snoc show ?case by (simp add: advance_schedule_def)
qed simp

text \<open>
  The backoff. A chain that sleeps after a failure waits the fixed delay of that fault, or else the
  jittered delay of the exponential sequence, whose position is the number of its earlier failures
  without a fixed delay: a fault with a fixed delay does not use up a step. From the second position
  on the delay before jitter is capped.
\<close>

theorem backoff_follows_the_schedule:
  assumes "reach (rstart cfg) (rstep fmul) s" and "rs_chains s i = Some c" and "cn_phase c = PSleep e w"
    and "k = length (filter (\<lambda>res. special_delay_for (retry_defaults cfg) (the res) \<le> 0) (butlast (cn_outcomes c)))"
    and "d = ((\<lambda>d. next_delay fmul d (rc_multiplier (retry_defaults cfg)) (rc_max (retry_defaults cfg))) ^^ k) (rc_initial (retry_defaults cfg))"
  shows "(\<exists>draw. w = (if special_delay_for (retry_defaults cfg) e > 0 then special_delay_for (retry_defaults cfg) e
            else apply_jitter d (rc_jitter (retry_defaults cfg)) draw))
    \<and> (k = 0 \<or> d \<le> rc_max (retry_defaults cfg))"
proof -
  from retries.reach_inv[OF assms(1)] assms(2) have
    ok: "chain_ok fmul (retry_defaults cfg) (set (rt_closed (rs_retrier s))) i c" by (simp add: rinv_def)
  with assms(3) have os: "list_all (retried (retry_defaults cfg)) (cn_outcomes c)"
    and delay: "cn_delay c = backoff_after fmul (retry_defaults cfg) (butlast (cn_outcomes c))"
    and wait: "\<exists>draw. w = wait_after (retry_defaults cfg) e (cn_delay c) draw"
    by (auto simp: chain_ok_def single_ok_def phase_ok_def Let_def split: if_splits)
  from os have "list_all (\<lambda>res. res \<noteq> None) (butlast (cn_outcomes c))"
    by (auto simp: list_all_iff retried_def dest!: in_set_butlastD split: option.splits)
  from regular_failures[OF this] delay assms(4,5) have "cn_delay c = d" by simp
  with wait have "\<exists>draw. w = (if special_delay_for (retry_defaults cfg) e > 0 then special_delay_for (retry_defaults cfg) e
      else apply_jitter d (rc_jitter (retry_defaults cfg)) draw)" by (simp add: wait_after_def Let_def)
  moreover have "k = 0 \<or> d \<le> rc_max (retry_defaults cfg)"
    unfolding assms(5) by (cases k) (auto simp: next_delay_def Let_def)
  ultimately show ?thesis by blast
qed

section \<open>The recovery waiter\<close>

text \<open>
  \<open>circuitRecoveryWaiter\<close>: a wait registers a channel unless the breaker is no longer open, and the
  breaker's listener closes all registered channels when the breaker leaves the open state. Channels are
  numbers; \<open>rw_woken\<close> are the closed ones. Looking at the breaker and registering are separate steps.
\<close>

record recovery_waiter =
  rw_wired :: bool
  rw_wakers :: "nat list"
  rw_woken :: "nat set"

definition ensure_hook :: "recovery_waiter \<Rightarrow> bool \<times> recovery_waiter" where
  "ensure_hook w = (\<not> rw_wired w, w\<lparr>rw_wired := True\<rparr>)"

definition must_wait :: "circuit_state \<Rightarrow> bool" where
  "must_wait st = (st = CircuitOpen)"

definition register_waker :: "nat \<Rightarrow> recovery_waiter \<Rightarrow> recovery_waiter" where
  "register_waker ch w = w\<lparr>rw_wakers := rw_wakers w @ [ch]\<rparr>"

definition on_breaker_change :: "circuit_state \<Rightarrow> recovery_waiter \<Rightarrow> recovery_waiter" where
  "on_breaker_change to w =
     (if to = CircuitOpen \<or> \<not> rw_wired w then w
      else w\<lparr>rw_woken := rw_woken w \<union> set (rw_wakers w), rw_wakers := []\<rparr>)"

text \<open>A channel registered before the breaker leaves the open state is closed by that change, and only once.\<close>

lemma registered_waker_is_woken:
  assumes "rw_wired w" and "ch \<in> set (rw_wakers w)" and "to \<noteq> CircuitOpen"
  shows "ch \<in> rw_woken (on_breaker_change to w) \<and> rw_wakers (on_breaker_change to w) = []"
  using assms by (simp add: on_breaker_change_def)

text \<open>
  The breaker may leave the open state between the look at it and the registration: that wait is not cut
  short, and lasts until its deadline.
\<close>

lemma recovery_signal_can_be_missed:
  assumes "must_wait st" and "ch \<notin> rw_woken w" and "ch \<notin> set (rw_wakers w)"
  shows "ch \<notin> rw_woken (register_waker ch (on_breaker_change CircuitHalfOpen w))"
  using assms by (simp add: register_waker_def on_breaker_change_def)

section \<open>Witnesses\<close>

text \<open>A chain for one data point whose first attempt meets a duty-cycle fault and whose second succeeds.\<close>

definition demo_retry_config :: retry_config where
  "demo_retry_config = \<lparr>rc_max_attempts = 3, rc_initial = secs 2, rc_max = secs 30, rc_multiplier = 2, rc_jitter = -1,
     rc_duty_cycle_delay = secs 40, rc_pending_delay = secs 5, rc_has_waiter = False, rc_recovery_wait = 0, rc_has_sink = False\<rparr>"

definition demo_fault :: retry_error where
  "demo_fault = \<lparr>er_breaker_open = False, er_fault = Some \<lparr>xf_code = -8, xf_message = ''busy''\<rparr>, er_scope_missing = False,
     er_canceled = False, er_deadline = False, er_queue_full = False, er_throttle_closed = False, er_superseded = False,
     er_auth_failure = False, er_permission_denied = False, er_unsupported = False, er_validation = False\<rparr>"

definition demo_mul :: "duration \<Rightarrow> real \<Rightarrow> duration" where
  "demo_mul d x = 2 * d"

definition demo_chain :: "chain_phase \<Rightarrow> int \<Rightarrow> retry_error option list \<Rightarrow> chain" where
  "demo_chain ph n os = \<lparr>cn_key = Some (demo_key ''LEVEL''), cn_phase = ph, cn_attempt = n, cn_delay = secs 2,
     cn_err = (if os = [] then None else last os), cn_gone = False, cn_single = False, cn_outcomes = os\<rparr>"

definition demo_retrier :: "int \<Rightarrow> int \<Rightarrow> retrier" where
  "demo_retrier tot good = (new_retrier demo_retry_config)\<lparr>rt_active := [(demo_key ''LEVEL'', 0)],
     rt_metrics := \<lparr>rm_total = tot, rm_successful = good, rm_exhausted = 0, rm_recovery_waits = 0, rm_cancelled = 0\<rparr>\<rparr>"

definition demo_live :: "retrier \<Rightarrow> chain \<Rightarrow> rsys" where
  "demo_live r c = \<lparr>rs_retrier = r, rs_chains = [0 \<mapsto> c], rs_next = 1, rs_done = []\<rparr>"

lemma demo_move:
  assumes "reach (rstart cfg) (rstep fmul) (demo_live r c)" and "kstep fmul 0 c r (Some c') r'"
  shows "reach (rstart cfg) (rstep fmul) (demo_live r' c')"
proof (rule reach_step[OF assms(1)])
  show "rstep fmul (demo_live r c) (demo_live r' c')"
    using r_chain[of "demo_live r c" 0 c fmul c' r'] assms(2) by (simp add: demo_live_def)
qed

lemma demo_defaults [simp]:
  "rc_max_attempts (retry_defaults demo_retry_config) = 3" "rc_initial (retry_defaults demo_retry_config) = secs 2"
  "rc_jitter (retry_defaults demo_retry_config) = 0" "rc_duty_cycle_delay (retry_defaults demo_retry_config) = secs 40"
  "rc_has_waiter (retry_defaults demo_retry_config) = False"
  by (simp_all add: retry_defaults_def demo_retry_config_def)

lemma demo_fault_retried: "\<not> is_non_retryable_under_config (retry_defaults demo_retry_config) demo_fault"
  "special_delay_for (retry_defaults demo_retry_config) demo_fault = secs 40"
  by (simp_all add: demo_fault_def is_non_retryable_under_config_def is_non_retryable_def
      special_delay_for_def fault_is_retryable_def fault_code_retryable_def is_permanent_fault_message_def
      permanent_fault_message_markers_def lower_char_def)

lemma demo_calling: "reach (rstart demo_retry_config) (rstep demo_mul) (demo_live (demo_retrier 0 0) (demo_chain PCalling 1 []))"
proof -
  let ?k = "demo_key ''LEVEL''"
  let ?s = "\<lparr>rs_retrier = new_retrier demo_retry_config, rs_chains = (\<lambda>_. None), rs_next = 0, rs_done = []\<rparr>"
  have "reach (rstart demo_retry_config) (rstep demo_mul) ?s"
    by (rule reach_start) (simp add: rstart_def)
  from reach_step[where step = "rstep demo_mul", OF this r_do[of demo_mul ?s "Some ?k"]]
  have "reach (rstart demo_retry_config) (rstep demo_mul) (demo_live (new_retrier demo_retry_config) (demo_chain PRegister 1 []))"
    by (simp add: demo_live_def new_chain_def demo_chain_def new_retrier_def)
  from demo_move[OF this k_register[of _ ?k]]
  have "reach (rstart demo_retry_config) (rstep demo_mul) (demo_live (demo_retrier 0 0) (demo_chain PTop 1 []))"
    by (simp add: demo_chain_def register_chain_def demo_retrier_def new_retrier_def)
  from demo_move[OF this k_top] show ?thesis
    by (simp add: demo_chain_def superseded_def demo_retrier_def new_retrier_def)
qed

lemma demo_sleeping: "reach (rstart demo_retry_config) (rstep demo_mul)
    (demo_live (demo_retrier 1 0) (demo_chain (PSleep demo_fault (secs 40)) 1 [Some demo_fault]))"
proof -
  have "attempt_returned 0 (demo_chain PCalling 1 []) (Some demo_fault) (demo_retrier 0 0)
      = (PSleep demo_fault (secs 40), demo_retrier 1 0)"
    using demo_fault_retried
    by (simp add: attempt_returned_def demo_retrier_def new_retrier_def demo_chain_def wait_after_def Let_def)
  from demo_move[OF demo_calling k_call[OF _ this]] show ?thesis by (simp add: demo_chain_def)
qed


theorem one_live_chain_per_key_witness:
  "\<not> rt_panicked (demo_retrier 1 0) \<and> rm_cancelled (rt_metrics (demo_retrier 1 0)) = int (card (set (rt_closed (demo_retrier 1 0))))"
  using one_live_chain_per_key[OF demo_sleeping] by (simp add: demo_live_def)


theorem retry_chains_end_witness:
  "\<exists>oc r. kstep demo_mul 0 (demo_chain PCalling 1 []) (demo_retrier 0 0) oc r"
  using retry_chains_end[OF demo_calling, of 0] by (simp add: demo_live_def)

theorem backoff_follows_the_schedule_witness:
  "\<exists>draw. secs 40 = (if special_delay_for (retry_defaults demo_retry_config) demo_fault > 0
     then special_delay_for (retry_defaults demo_retry_config) demo_fault
     else apply_jitter (secs 2) (rc_jitter (retry_defaults demo_retry_config)) draw)"
proof -
  let ?c = "demo_chain (PSleep demo_fault (secs 40)) 1 [Some demo_fault]"
  have c: "rs_chains (demo_live (demo_retrier 1 0) ?c) 0 = Some ?c" "cn_phase ?c = PSleep demo_fault (secs 40)"
    by (simp_all add: demo_live_def demo_chain_def)
  show ?thesis
    by (rule backoff_follows_the_schedule[OF demo_sleeping c, where k = 0, THEN conjunct1]) (simp_all add: demo_chain_def)
qed

end
