(* ===== verification/Request_Coalescer.thy ===== *)
theory Request_Coalescer
  imports Prelude
begin

text \<open>
  The request coalescer of \<open>internal/client/reliability/coalesce.go\<close>: concurrent calls with one key
  share one execution.

  \<^item> A shared call is known by a number; \<open>co_calls\<close> is the Go map from keys to calls and \<open>co_objects\<close>
    the call objects, which live on while a participant or the running function holds them.
  \<^item> Each section under \<open>c.mu\<close> or \<open>call.mu\<close> is one definition. \<open>costep\<close> interleaves participants, the
    goroutines of the shared calls and \<open>Clear\<close>, which settles the calls it removed one after the
    other outside the lock.
  \<^item> The wrapped function may answer anything; a panic is turned into the error \<open>CallPanicked\<close>.
  \<^item> The context of a shared call drops the cancellation of the caller that started it and keeps its
    deadline. Whether there is one is an argument of \<open>join_or_start\<close>; the deadline may pass at any
    time, also while callers wait. The function alone decides what it makes of an ended context.
  \<^item> The hook is told the number of followers and returns; a hook that panics, which would leave its
    caller counted as waiting, is not modelled.
\<close>

section \<open>The coalescer\<close>

datatype 'e co_error = Cleared | CallPanicked | CallFailed 'e | OwnContextDone

type_synonym ('v, 'e) outcome = "'e co_error + 'v"

record ('v, 'e) shared_call =
  sc_followers :: int
  sc_active :: int
  sc_cancelled :: bool
  sc_deadline :: bool
  sc_expired :: bool
  sc_settled :: "('v, 'e) outcome option"

record ('v, 'e) coalescer =
  co_calls :: "string \<rightharpoonup> nat"
  co_objects :: "nat \<rightharpoonup> ('v, 'e) shared_call"
  co_next :: nat
  co_total :: int
  co_executed :: int
  co_coalesced :: int
  co_failed :: int

definition new_coalescer :: "('v, 'e) coalescer" where
  "new_coalescer = \<lparr>co_calls = Map.empty, co_objects = Map.empty, co_next = 0, co_total = 0, co_executed = 0, co_coalesced = 0, co_failed = 0\<rparr>"

definition update_call :: "nat \<Rightarrow> (('v, 'e) shared_call \<Rightarrow> ('v, 'e) shared_call) \<Rightarrow> ('v, 'e) coalescer \<Rightarrow> ('v, 'e) coalescer" where
  "update_call n f c = c\<lparr>co_objects := (co_objects c)(n := map_option f (co_objects c n))\<rparr>"

text \<open>\<open>settle\<close>: the first settlement wins.\<close>

definition settle :: "nat \<Rightarrow> ('v, 'e) outcome \<Rightarrow> ('v, 'e) coalescer \<Rightarrow> ('v, 'e) coalescer" where
  "settle n out = update_call n (\<lambda>call. if sc_settled call \<noteq> None then call else call\<lparr>sc_settled := Some out\<rparr>)"

definition cancel_call :: "nat \<Rightarrow> ('v, 'e) coalescer \<Rightarrow> ('v, 'e) coalescer" where
  "cancel_call n = update_call n (\<lambda>call. call\<lparr>sc_cancelled := True\<rparr>)"

text \<open>The shared context reaches the deadline it kept.\<close>

definition expire_call :: "nat \<Rightarrow> ('v, 'e) coalescer \<Rightarrow> ('v, 'e) coalescer" where
  "expire_call n = update_call n (\<lambda>call. if sc_deadline call then call\<lparr>sc_expired := True\<rparr> else call)"

text \<open>\<open>sharedContext\<close>: the call a caller with or without a deadline starts. The context of the call has
  ended once it is cancelled or its deadline has passed.\<close>

definition shared_context :: "bool \<Rightarrow> ('v, 'e) shared_call" where
  "shared_context deadline =
     \<lparr>sc_followers = 0, sc_active = 1, sc_cancelled = False, sc_deadline = deadline, sc_expired = False, sc_settled = None\<rparr>"

definition context_done :: "('v, 'e) shared_call \<Rightarrow> bool" where
  "context_done call = (sc_cancelled call \<or> sc_expired call)"

text \<open>The locked section of \<open>Do\<close>: join the call of the key, or start a new one. The result tells the
  call, whether it is a new one, and what the hook is told.\<close>

definition join_or_start :: "string \<Rightarrow> bool \<Rightarrow> ('v, 'e) coalescer \<Rightarrow> (nat \<times> int option) \<times> ('v, 'e) coalescer" where
  "join_or_start key deadline c =
     (let c = c\<lparr>co_total := co_total c + 1\<rparr>;
          fresh = (let n = co_next c in
            ((n, None), c\<lparr>co_calls := (co_calls c)(key \<mapsto> n), co_executed := co_executed c + 1, co_next := n + 1,
               co_objects := (co_objects c)(n \<mapsto> shared_context deadline)\<rparr>))
      in case co_calls c key of
           Some n \<Rightarrow> (case co_objects c n of
               Some call \<Rightarrow> if sc_active call > 0
                 then ((n, Some (sc_followers call + 1)),
                       update_call n (\<lambda>call. call\<lparr>sc_followers := sc_followers call + 1, sc_active := sc_active call + 1\<rparr>)
                         (c\<lparr>co_coalesced := co_coalesced c + 1\<rparr>))
                 else fresh
             | None \<Rightarrow> fresh)
         | None \<Rightarrow> fresh)"

text \<open>The locked section of \<open>run\<close>, after the function returned.\<close>

definition drop_entry :: "string \<Rightarrow> nat \<Rightarrow> ('v, 'e) outcome \<Rightarrow> ('v, 'e) coalescer \<Rightarrow> ('v, 'e) coalescer" where
  "drop_entry key n out c =
     (let c = (if co_calls c key = Some n then c\<lparr>co_calls := (co_calls c)(key := None)\<rparr> else c)
      in if isl out then c\<lparr>co_failed := co_failed c + 1\<rparr> else c)"

text \<open>\<open>leave\<close>: the last participant cancels the shared call.\<close>

definition leave :: "nat \<Rightarrow> ('v, 'e) coalescer \<Rightarrow> ('v, 'e) coalescer" where
  "leave n c =
     (let c = update_call n (\<lambda>call. call\<lparr>sc_active := sc_active call - 1\<rparr>) c
      in case co_objects c n of
           Some call \<Rightarrow> if sc_active call \<le> 0 then cancel_call n c else c
         | None \<Rightarrow> c)"

text \<open>The locked section of \<open>Clear\<close>; the calls it returns are settled and cancelled afterwards.\<close>

definition take_all :: "('v, 'e) coalescer \<Rightarrow> nat set \<times> ('v, 'e) coalescer" where
  "take_all c = (ran (co_calls c), c\<lparr>co_calls := Map.empty\<rparr>)"

definition coalescer_in_flight :: "('v, 'e) coalescer \<Rightarrow> nat" where
  "coalescer_in_flight c = card (dom (co_calls c))"

text \<open>\<open>MakeCoalesceKey\<close>; the arguments are given as \<open>fmt.Sprint\<close> prints them.\<close>

definition make_coalesce_key :: "string \<Rightarrow> string list \<Rightarrow> string" where
  "make_coalesce_key method args = (if args = [] then method else method @ concat (map (\<lambda>a. CHR '':'' # a) args))"

section \<open>Participants and runs\<close>

text \<open>
  A participant waits for its call or has returned with a result. A run is the goroutine of a shared
  call: the function is running, or has answered and the entry is dropped, and then the call is settled.
\<close>

datatype ('v, 'e) participant = Waits nat | Got nat "('v, 'e) outcome"

datatype ('v, 'e) run = Running string | Answered "('v, 'e) outcome"

record ('v, 'e) cosys =
  cs_coalescer :: "('v, 'e) coalescer"
  cs_participants :: "nat \<rightharpoonup> ('v, 'e) participant"
  cs_runs :: "nat \<rightharpoonup> ('v, 'e) run"
  cs_abandoned :: "nat set"

text \<open>What the function answered; \<open>None\<close> when it panicked.\<close>

definition invoke_coalesced :: "('e + 'v) option \<Rightarrow> ('v, 'e) outcome" where
  "invoke_coalesced answer =
     (case answer of None \<Rightarrow> Inl CallPanicked | Some (Inl e) \<Rightarrow> Inl (CallFailed e) | Some (Inr v) \<Rightarrow> Inr v)"

inductive costep :: "('v, 'e) cosys \<Rightarrow> ('v, 'e) cosys \<Rightarrow> bool" where
  o_do: "cs_participants s p = None \<Longrightarrow> join_or_start key deadline (cs_coalescer s) = ((n, told), c) \<Longrightarrow>
    costep s (s\<lparr>cs_coalescer := c, cs_participants := (cs_participants s)(p \<mapsto> Waits n),
       cs_runs := (if told = None then (cs_runs s)(n \<mapsto> Running key) else cs_runs s)\<rparr>)"
| o_answer: "cs_runs s n = Some (Running key) \<Longrightarrow> out = invoke_coalesced answer \<Longrightarrow>
    costep s (s\<lparr>cs_coalescer := drop_entry key n out (cs_coalescer s), cs_runs := (cs_runs s)(n \<mapsto> Answered out)\<rparr>)"
| o_settle: "cs_runs s n = Some (Answered out) \<Longrightarrow>
    costep s (s\<lparr>cs_coalescer := cancel_call n (settle n out (cs_coalescer s)), cs_runs := (cs_runs s)(n := None)\<rparr>)"
| o_result: "cs_participants s p = Some (Waits n) \<Longrightarrow> co_objects (cs_coalescer s) n = Some call \<Longrightarrow> sc_settled call = Some out \<Longrightarrow>
    costep s (s\<lparr>cs_coalescer := leave n (cs_coalescer s), cs_participants := (cs_participants s)(p \<mapsto> Got n out)\<rparr>)"
| o_gone: "cs_participants s p = Some (Waits n) \<Longrightarrow>
    costep s (s\<lparr>cs_coalescer := leave n (cs_coalescer s), cs_participants := (cs_participants s)(p \<mapsto> Got n (Inl OwnContextDone))\<rparr>)"
| o_clear: "take_all (cs_coalescer s) = (ns, c) \<Longrightarrow>
    costep s (s\<lparr>cs_coalescer := c, cs_abandoned := cs_abandoned s \<union> ns\<rparr>)"
| o_abandon: "n \<in> cs_abandoned s \<Longrightarrow>
    costep s (s\<lparr>cs_coalescer := cancel_call n (settle n (Inl Cleared) (cs_coalescer s)), cs_abandoned := cs_abandoned s - {n}\<rparr>)"
| o_deadline: "costep s (s\<lparr>cs_coalescer := expire_call n (cs_coalescer s)\<rparr>)"

definition costart :: "('v, 'e) cosys \<Rightarrow> bool" where
  "costart s \<longleftrightarrow> s = \<lparr>cs_coalescer = new_coalescer, cs_participants = Map.empty, cs_runs = Map.empty, cs_abandoned = {}\<rparr>"

section \<open>The fields of a shared call\<close>

definition settled :: "('v, 'e) coalescer \<Rightarrow> nat \<Rightarrow> ('v, 'e) outcome option" where
  "settled c n = (case co_objects c n of None \<Rightarrow> None | Some call \<Rightarrow> sc_settled call)"

definition active :: "('v, 'e) coalescer \<Rightarrow> nat \<Rightarrow> int" where
  "active c n = (case co_objects c n of None \<Rightarrow> 0 | Some call \<Rightarrow> sc_active call)"

definition cancelled :: "('v, 'e) coalescer \<Rightarrow> nat \<Rightarrow> bool" where
  "cancelled c n = (case co_objects c n of None \<Rightarrow> False | Some call \<Rightarrow> sc_cancelled call)"

lemmas call_fields = settled_def active_def cancelled_def update_call_def

lemma settle_fields [simp]:
  "settled (settle n out c) m = (if m = n \<and> settled c n = None \<and> n \<in> dom (co_objects c) then Some out else settled c m)"
  "active (settle n out c) = active c" "cancelled (settle n out c) = cancelled c"
  "dom (co_objects (settle n out c)) = dom (co_objects c)" "co_calls (settle n out c) = co_calls c" "co_next (settle n out c) = co_next c"
  by (auto simp: settle_def call_fields fun_eq_iff dom_def split: option.splits)

lemma cancel_fields [simp]:
  "settled (cancel_call n c) = settled c" "active (cancel_call n c) = active c"
  "cancelled (cancel_call n c) m = (if m = n then n \<in> dom (co_objects c) else cancelled c m)"
  "dom (co_objects (cancel_call n c)) = dom (co_objects c)" "co_calls (cancel_call n c) = co_calls c" "co_next (cancel_call n c) = co_next c"
  by (auto simp: cancel_call_def call_fields fun_eq_iff dom_def split: option.splits)

lemma expire_fields [simp]:
  "settled (expire_call n c) = settled c" "active (expire_call n c) = active c" "cancelled (expire_call n c) = cancelled c"
  "dom (co_objects (expire_call n c)) = dom (co_objects c)" "co_calls (expire_call n c) = co_calls c" "co_next (expire_call n c) = co_next c"
  by (auto simp: expire_call_def call_fields fun_eq_iff dom_def split: option.splits)

lemma drop_fields [simp]:
  "settled (drop_entry key n out c) = settled c" "active (drop_entry key n out c) = active c" "cancelled (drop_entry key n out c) = cancelled c"
  "co_objects (drop_entry key n out c) = co_objects c" "co_next (drop_entry key n out c) = co_next c"
  "co_calls (drop_entry key n out c) = (if co_calls c key = Some n then (co_calls c)(key := None) else co_calls c)"
  by (simp_all add: drop_entry_def call_fields Let_def fun_eq_iff)

lemma leave_fields [simp]:
  "settled (leave n c) = settled c"
  "n \<in> dom (co_objects c) \<Longrightarrow> active (leave n c) m = (if m = n then active c n - 1 else active c m)"
  "n \<in> dom (co_objects c) \<Longrightarrow> cancelled (leave n c) m = (if m = n then cancelled c n \<or> active c n \<le> 1 else cancelled c m)"
  "dom (co_objects (leave n c)) = dom (co_objects c)" "co_calls (leave n c) = co_calls c" "co_next (leave n c) = co_next c"
  by (auto simp: leave_def cancel_call_def call_fields fun_eq_iff dom_def Let_def split: option.splits if_splits)

lemma take_fields:
  assumes "take_all c = (ns, d)"
  shows "settled d = settled c" "active d = active c" "cancelled d = cancelled c" "co_objects d = co_objects c"
    "co_calls d = Map.empty" "co_next d = co_next c" "ns = ran (co_calls c)"
  using assms by (auto simp: take_all_def call_fields fun_eq_iff)

text \<open>A context reaches a deadline only if the call was started with one.\<close>

definition deadlines_ok :: "('v, 'e) coalescer \<Rightarrow> bool" where
  "deadlines_ok c \<longleftrightarrow> (\<forall>n call. co_objects c n = Some call \<and> sc_expired call \<longrightarrow> sc_deadline call)"

lemma deadlines_update:
  assumes "deadlines_ok c" and "\<And>call. (sc_expired call \<longrightarrow> sc_deadline call) \<Longrightarrow> sc_expired (f call) \<longrightarrow> sc_deadline (f call)"
  shows "deadlines_ok (update_call n f c)"
  using assms by (auto simp: deadlines_ok_def update_call_def)

lemma deadlines_step [simp]:
  assumes "deadlines_ok c"
  shows "deadlines_ok (settle n out c)" "deadlines_ok (cancel_call n c)" "deadlines_ok (expire_call n c)"
    "deadlines_ok (drop_entry key n out c)" "deadlines_ok (leave n c)"
  unfolding settle_def cancel_call_def expire_call_def drop_entry_def leave_def Let_def
  using assms by (auto intro!: deadlines_update split: option.split) (simp_all add: deadlines_ok_def split: if_splits)

lemma deadlines_join:
  assumes "deadlines_ok c" and "join_or_start key deadline c = (res, d)"
  shows "deadlines_ok d"
  using assms by (auto simp: join_or_start_def Let_def shared_context_def update_call_def deadlines_ok_def split: option.splits if_splits)

lemma join_cases:
  assumes "join_or_start key deadline c = ((n, told), d)" and "dom (co_objects c) = {..< co_next c}"
  obtains (joined) "told \<noteq> None" "co_calls c key = Some n" "0 < active c n" "co_calls d = co_calls c" "co_next d = co_next c"
      "dom (co_objects d) = dom (co_objects c)" "settled d = settled c" "cancelled d = cancelled c"
      "\<And>m. active d m = (if m = n then active c n + 1 else active c m)"
      "co_executed d = co_executed c" "co_coalesced d = co_coalesced c + 1" "co_total d = co_total c + 1"
  | (started) "told = None" "n = co_next c" "\<And>m. co_calls c key = Some m \<Longrightarrow> active c m \<le> 0"
      "co_calls d = (co_calls c)(key \<mapsto> n)" "co_next d = n + 1" "dom (co_objects d) = {..< n + 1}"
      "\<And>m. settled d m = (if m = n then None else settled c m)" "\<And>m. cancelled d m = (if m = n then False else cancelled c m)"
      "\<And>m. active d m = (if m = n then 1 else active c m)"
      "co_executed d = co_executed c + 1" "co_coalesced d = co_coalesced c" "co_total d = co_total c + 1"
proof -
  have fresh: "co_objects c (co_next c) = None" using assms(2) by (metis domIff lessThan_iff nat_neq_iff)
  show ?thesis
  proof (cases "\<exists>m call. co_calls c key = Some m \<and> co_objects c m = Some call \<and> sc_active call > 0")
    case True
    then obtain m call where m: "co_calls c key = Some m" "co_objects c m = Some call" "sc_active call > 0" by blast
    with assms(1) show ?thesis
      by (intro joined) (auto simp: join_or_start_def call_fields fun_eq_iff dom_def Let_def split: if_splits option.splits)
  next
    case False
    then have start: "((n, told), d) = ((co_next c, None), c\<lparr>co_total := co_total c + 1, co_calls := (co_calls c)(key \<mapsto> co_next c),
        co_executed := co_executed c + 1, co_next := co_next c + 1,
        co_objects := (co_objects c)(co_next c \<mapsto> shared_context deadline)\<rparr>)"
      using assms(1) by (auto simp: join_or_start_def Let_def split: option.splits if_splits)
    have "active c m \<le> 0" if "co_calls c key = Some m" for m
      using False that by (auto simp: active_def split: option.split intro: leI)
    with start fresh assms(2) show ?thesis
      by (intro started) (auto simp: call_fields shared_context_def lessThan_Suc)
  qed
qed

section \<open>The invariant\<close>

definition waits :: "('v, 'e) cosys \<Rightarrow> nat \<Rightarrow> nat set" where
  "waits s n = {p. cs_participants s p = Some (Waits n)}"

text \<open>The calls \<open>Clear\<close> took out of the map.\<close>

definition was_cleared :: "('v, 'e) cosys \<Rightarrow> nat \<Rightarrow> bool" where
  "was_cleared s n \<longleftrightarrow> n \<in> cs_abandoned s \<or> settled (cs_coalescer s) n = Some (Inl Cleared)"

definition calls_ok :: "('v, 'e) cosys \<Rightarrow> bool" where
  "calls_ok s \<longleftrightarrow> (let c = cs_coalescer s in
     dom (co_objects c) = {..< co_next c} \<and> dom (cs_runs s) \<subseteq> {..< co_next c} \<and> cs_abandoned s \<subseteq> {..< co_next c}
   \<and> (\<forall>key n. co_calls c key = Some n \<longrightarrow> cs_runs s n = Some (Running key))
   \<and> (\<forall>n < co_next c. cs_runs s n = None \<longrightarrow> settled c n \<noteq> None)
   \<and> (\<forall>n key. cs_runs s n = Some (Running key) \<longrightarrow> 0 < active c n \<longrightarrow> co_calls c key = Some n \<or> was_cleared s n)
   \<and> (\<forall>n \<in> dom (cs_runs s). settled c n = None \<or> settled c n = Some (Inl Cleared))
   \<and> (\<forall>n. cancelled c n \<longrightarrow> active c n = 0 \<or> settled c n \<noteq> None))"

definition callers_ok :: "('v, 'e) cosys \<Rightarrow> bool" where
  "callers_ok s \<longleftrightarrow> (let c = cs_coalescer s in
     finite (dom (cs_participants s))
   \<and> (\<forall>n. active c n = int (card (waits s n)))
   \<and> (\<forall>p n out. cs_participants s p = Some (Got n out) \<longrightarrow> out = Inl OwnContextDone \<or> settled c n = Some out))"

lemma callers_got:
  "callers_ok s \<Longrightarrow> cs_participants s p = Some (Got n out) \<Longrightarrow> out = Inl OwnContextDone \<or> settled (cs_coalescer s) n = Some out"
  unfolding callers_ok_def Let_def by blast

lemma calls_entry:
  "calls_ok s \<Longrightarrow> co_calls (cs_coalescer s) key = Some n \<Longrightarrow> cs_runs s n = Some (Running key) \<and> n < co_next (cs_coalescer s)"
  unfolding calls_ok_def Let_def by blast

lemma calls_bounds:
  "calls_ok s \<Longrightarrow> dom (co_objects (cs_coalescer s)) = {..< co_next (cs_coalescer s)}"
  "calls_ok s \<Longrightarrow> dom (cs_runs s) \<subseteq> {..< co_next (cs_coalescer s)}" "calls_ok s \<Longrightarrow> cs_abandoned s \<subseteq> {..< co_next (cs_coalescer s)}"
  "calls_ok s \<Longrightarrow> n < co_next (cs_coalescer s) \<Longrightarrow> cs_runs s n = None \<Longrightarrow> settled (cs_coalescer s) n \<noteq> None"
  "calls_ok s \<Longrightarrow> cancelled (cs_coalescer s) n \<Longrightarrow> active (cs_coalescer s) n = 0 \<or> settled (cs_coalescer s) n \<noteq> None"
  by (simp_all add: calls_ok_def Let_def)

lemma calls_okI:
  assumes "dom (co_objects (cs_coalescer s)) = {..< co_next (cs_coalescer s)}"
    and "dom (cs_runs s) \<subseteq> {..< co_next (cs_coalescer s)}" and "cs_abandoned s \<subseteq> {..< co_next (cs_coalescer s)}"
    and "\<And>key n. co_calls (cs_coalescer s) key = Some n \<Longrightarrow> cs_runs s n = Some (Running key)"
    and "\<And>n. n < co_next (cs_coalescer s) \<Longrightarrow> cs_runs s n = None \<Longrightarrow> settled (cs_coalescer s) n \<noteq> None"
    and "\<And>n key. cs_runs s n = Some (Running key) \<Longrightarrow> 0 < active (cs_coalescer s) n \<Longrightarrow>
           co_calls (cs_coalescer s) key = Some n \<or> n \<in> cs_abandoned s \<or> settled (cs_coalescer s) n = Some (Inl Cleared)"
    and "\<And>n x. cs_runs s n = Some x \<Longrightarrow> settled (cs_coalescer s) n = None \<or> settled (cs_coalescer s) n = Some (Inl Cleared)"
    and "\<And>n. cancelled (cs_coalescer s) n \<Longrightarrow> active (cs_coalescer s) n = 0 \<or> settled (cs_coalescer s) n \<noteq> None"
  shows "calls_ok s"
  unfolding calls_ok_def Let_def was_cleared_def using assms by blast

lemma calls_live:
  "calls_ok s \<Longrightarrow> cs_runs s n = Some (Running key) \<Longrightarrow> 0 < active (cs_coalescer s) n \<Longrightarrow>
     co_calls (cs_coalescer s) key = Some n \<or> n \<in> cs_abandoned s \<or> settled (cs_coalescer s) n = Some (Inl Cleared)"
  unfolding calls_ok_def Let_def was_cleared_def by blast

lemma calls_unsettled:
  "calls_ok s \<Longrightarrow> cs_runs s n = Some x \<Longrightarrow> settled (cs_coalescer s) n = None \<or> settled (cs_coalescer s) n = Some (Inl Cleared)"
  unfolding calls_ok_def Let_def by blast

lemma waits_finite: "callers_ok s \<Longrightarrow> finite (waits s n)"
  by (rule finite_subset[of _ "dom (cs_participants s)"]) (auto simp: waits_def callers_ok_def Let_def)

lemma waits_update:
  "waits (s\<lparr>cs_coalescer := c, cs_participants := (cs_participants s)(p \<mapsto> x), cs_runs := r\<rparr>) n
     = (if x = Waits n then insert p (waits s n) else waits s n - {p})"
  "waits (s\<lparr>cs_coalescer := c, cs_participants := (cs_participants s)(p \<mapsto> x)\<rparr>) n
     = (if x = Waits n then insert p (waits s n) else waits s n - {p})"
  by (auto simp: waits_def)

lemma waits_frame [simp]:
  "waits (s\<lparr>cs_coalescer := c, cs_runs := r\<rparr>) = waits s" "waits (s\<lparr>cs_coalescer := c, cs_abandoned := a\<rparr>) = waits s"
  by (auto simp: waits_def fun_eq_iff)

lemma callers_do:
  assumes "callers_ok s" and "dom (co_objects (cs_coalescer s)) = {..< co_next (cs_coalescer s)}"
    and "cs_participants s p = None" and j: "join_or_start key deadline (cs_coalescer s) = ((n, told), c)"
  shows "callers_ok (s\<lparr>cs_coalescer := c, cs_participants := (cs_participants s)(p \<mapsto> Waits n), cs_runs := r\<rparr>)"
proof -
  note fin = waits_finite[OF assms(1)]
  have p: "p \<notin> waits s m" for m using assms(3) by (simp add: waits_def)
  from j assms(2) show ?thesis
  proof (cases rule: join_cases)
    case joined
    with assms(1) fin p show ?thesis by (auto simp: callers_ok_def Let_def waits_update card_insert_if)
  next
    case started
    have "co_objects (cs_coalescer s) n = None" using assms(2) started(2) by (metis domIff lessThan_iff nat_neq_iff)
    then have none: "settled (cs_coalescer s) n = None" "active (cs_coalescer s) n = 0" by (simp_all add: settled_def active_def)
    with assms(1) fin[of n] have "waits s n = {}" by (auto simp: callers_ok_def Let_def)
    moreover have "out = Inl OwnContextDone" if "cs_participants s q = Some (Got n out)" for q out
      using callers_got[OF assms(1) that] none by simp
    ultimately show ?thesis using started none assms(1) fin p
      by (auto simp: callers_ok_def Let_def waits_update card_insert_if)
  qed
qed

lemma callers_leave:
  assumes "callers_ok s" and "cs_participants s p = Some (Waits n)" and "n \<in> dom (co_objects (cs_coalescer s))"
    and "out = Inl OwnContextDone \<or> settled (cs_coalescer s) n = Some out"
  shows "callers_ok (s\<lparr>cs_coalescer := leave n (cs_coalescer s), cs_participants := (cs_participants s)(p \<mapsto> Got n out)\<rparr>)"
proof -
  have fin: "finite (waits s n)" by (rule waits_finite[OF assms(1)])
  have p: "p \<in> waits s n" "\<And>m. m \<noteq> n \<Longrightarrow> p \<notin> waits s m" using assms(2) by (auto simp: waits_def)
  have "int (card (waits s n - {p})) = int (card (waits s n)) - 1" using card_Suc_Diff1[OF fin p(1)] by linarith
  moreover have "\<And>m. m \<noteq> n \<Longrightarrow> waits s m - {p} = waits s m" using p(2) by auto
  ultimately show ?thesis using assms by (auto simp: callers_ok_def Let_def waits_update)
qed

definition coinv :: "('v, 'e) cosys \<Rightarrow> bool" where
  "coinv s \<longleftrightarrow> calls_ok s \<and> callers_ok s \<and> deadlines_ok (cs_coalescer s)
     \<and> co_total (cs_coalescer s) = co_executed (cs_coalescer s) + co_coalesced (cs_coalescer s)
     \<and> co_executed (cs_coalescer s) = int (co_next (cs_coalescer s))"

lemma active_nonneg: "callers_ok s \<Longrightarrow> 0 \<le> active (cs_coalescer s) n"
  by (simp add: callers_ok_def Let_def)

lemma calls_do:
  assumes "calls_ok s" and "callers_ok s" and "join_or_start key deadline (cs_coalescer s) = ((n, told), c)"
  shows "calls_ok (s\<lparr>cs_coalescer := c, cs_participants := ps, cs_runs := (if told = None then (cs_runs s)(n \<mapsto> Running key) else cs_runs s)\<rparr>)"
proof -
  have d: "dom (co_objects (cs_coalescer s)) = {..< co_next (cs_coalescer s)}" using assms(1) by (simp add: calls_ok_def Let_def)
  from assms(3) d show ?thesis
  proof (cases rule: join_cases)
    case joined
    have "\<not> cancelled (cs_coalescer s) n \<or> settled (cs_coalescer s) n \<noteq> None"
      using assms(1) joined(3) by (auto simp: calls_ok_def Let_def)
    with joined assms(1) show ?thesis
      unfolding calls_ok_def Let_def was_cleared_def by (auto split: if_splits)
  next
    case started
    have n: "n \<notin> cs_abandoned s" "cs_runs s n = None" "\<And>k. co_calls (cs_coalescer s) k \<noteq> Some n"
      using assms(1) started(2) calls_entry[OF assms(1)] by (auto simp: calls_ok_def Let_def subset_iff domIff)
    have other: "active (cs_coalescer s) m = 0" if "co_calls (cs_coalescer s) key = Some m" for m
      using started(3)[OF that] active_nonneg[OF assms(2), of m] by linarith
    show ?thesis
      unfolding calls_ok_def Let_def was_cleared_def
      using started n other assms(1)[unfolded calls_ok_def Let_def was_cleared_def]
      by (simp add: less_Suc_eq domIff subset_iff) (smt (verit) map_upd_Some_unfold)
  qed
qed

lemma counters [simp]:
  "co_total (drop_entry key n out c) = co_total c" "co_executed (drop_entry key n out c) = co_executed c"
  "co_coalesced (drop_entry key n out c) = co_coalesced c"
  "co_total (settle n out c) = co_total c" "co_executed (settle n out c) = co_executed c" "co_coalesced (settle n out c) = co_coalesced c"
  "co_total (cancel_call n c) = co_total c" "co_executed (cancel_call n c) = co_executed c" "co_coalesced (cancel_call n c) = co_coalesced c"
  "co_total (leave n c) = co_total c" "co_executed (leave n c) = co_executed c" "co_coalesced (leave n c) = co_coalesced c"
  "co_total (expire_call n c) = co_total c" "co_executed (expire_call n c) = co_executed c" "co_coalesced (expire_call n c) = co_coalesced c"
  by (simp_all add: drop_entry_def settle_def cancel_call_def leave_def expire_call_def update_call_def Let_def split: option.split)

lemma calls_answer:
  assumes "calls_ok s" and "cs_runs s n = Some (Running key)"
  shows "calls_ok (s\<lparr>cs_coalescer := drop_entry key n out (cs_coalescer s), cs_runs := (cs_runs s)(n \<mapsto> Answered out)\<rparr>)"
proof -
  note facts = calls_entry[OF assms(1)] calls_unsettled[OF assms(1)] calls_bounds[OF assms(1)]
  have "n < co_next (cs_coalescer s)" using assms(2) facts by auto
  moreover have "m \<noteq> n" if "co_calls (cs_coalescer s) k = Some m" "k \<noteq> key" for k m
    using facts(1)[OF that(1)] assms(2) that(2) by auto
  moreover have "co_calls (cs_coalescer s) k \<noteq> Some n" if "co_calls (cs_coalescer s) key \<noteq> Some n" for k
    using facts(1)[of k n] assms(2) that by auto
  ultimately show ?thesis
    by (intro calls_okI) (use assms(2) facts in \<open>auto split: if_splits dest: calls_live[OF assms(1)]\<close>)
qed

lemma calls_settle:
  assumes "calls_ok s" and "cs_runs s n = Some (Answered out)"
  shows "calls_ok (s\<lparr>cs_coalescer := cancel_call n (settle n out (cs_coalescer s)), cs_runs := (cs_runs s)(n := None)\<rparr>)"
proof -
  have "n \<in> dom (co_objects (cs_coalescer s))" using assms(1,2) by (auto simp: calls_ok_def Let_def)
  moreover have "m \<noteq> n" if "co_calls (cs_coalescer s) k = Some m" for k m
    using calls_entry[OF assms(1) that(1)] assms(2) by auto
  ultimately show ?thesis
    using assms unfolding calls_ok_def Let_def was_cleared_def by (auto split: if_splits)
qed

lemma calls_leave:
  assumes "calls_ok s" and "callers_ok s" and "n \<in> dom (co_objects (cs_coalescer s))" and "cs_participants s p = Some (Waits n)"
  shows "calls_ok (s\<lparr>cs_coalescer := leave n (cs_coalescer s), cs_participants := ps\<rparr>)"
proof -
  have "p \<in> waits s n" using assms(4) by (simp add: waits_def)
  then have "0 < card (waits s n)" using waits_finite[OF assms(2)] by (auto simp: card_gt_0_iff)
  then have "0 < active (cs_coalescer s) n" using assms(2) by (simp add: callers_ok_def Let_def)
  with assms(1,3) show ?thesis
    unfolding calls_ok_def Let_def was_cleared_def by (auto split: if_splits)
qed

lemma calls_clear:
  assumes "calls_ok s" and "take_all (cs_coalescer s) = (ns, c)"
  shows "calls_ok (s\<lparr>cs_coalescer := c, cs_abandoned := cs_abandoned s \<union> ns\<rparr>)"
proof -
  note facts = calls_entry[OF assms(1)] calls_unsettled[OF assms(1)] calls_bounds[OF assms(1)]
  show ?thesis
    by (rule calls_okI) (use facts in \<open>auto simp: take_fields[OF assms(2)] ran_def dest: calls_live[OF assms(1)]\<close>)
qed

lemma calls_abandon:
  assumes "calls_ok s" and "n \<in> cs_abandoned s"
  shows "calls_ok (s\<lparr>cs_coalescer := cancel_call n (settle n (Inl Cleared) (cs_coalescer s)), cs_abandoned := cs_abandoned s - {n}\<rparr>)"
proof -
  have "n \<in> dom (co_objects (cs_coalescer s))" using assms by (auto simp: calls_ok_def Let_def)
  then show ?thesis
    using assms calls_unsettled[OF assms(1), of n] unfolding calls_ok_def Let_def was_cleared_def by (auto split: if_splits)
qed

lemma calls_expire: "calls_ok s \<Longrightarrow> calls_ok (s\<lparr>cs_coalescer := expire_call n (cs_coalescer s)\<rparr>)"
  by (simp add: calls_ok_def was_cleared_def Let_def)

lemma callers_frame:
  assumes "callers_ok s" and "active c = active (cs_coalescer s)"
    and "\<And>n out. settled (cs_coalescer s) n = Some out \<Longrightarrow> settled c n = Some out"
  shows "callers_ok (s\<lparr>cs_coalescer := c, cs_runs := r\<rparr>)" and "callers_ok (s\<lparr>cs_coalescer := c, cs_abandoned := a\<rparr>)"
proof -
  have "out = Inl OwnContextDone \<or> settled c n = Some out" if "cs_participants s p = Some (Got n out)" for p n out
    using callers_got[OF assms(1) that] assms(3) by blast
  with assms(1,2) show "callers_ok (s\<lparr>cs_coalescer := c, cs_runs := r\<rparr>)" and "callers_ok (s\<lparr>cs_coalescer := c, cs_abandoned := a\<rparr>)"
    by (auto simp: callers_ok_def Let_def)
qed

lemma callers_settle:
  assumes "callers_ok s"
  shows "callers_ok (s\<lparr>cs_coalescer := cancel_call n (settle n out (cs_coalescer s)), cs_runs := r\<rparr>)"
    and "callers_ok (s\<lparr>cs_coalescer := cancel_call n (settle n out (cs_coalescer s)), cs_abandoned := a\<rparr>)"
  by (rule callers_frame[OF assms]; auto)+

lemma costep_coinv: "coinv s \<Longrightarrow> costep s t \<Longrightarrow> coinv t"
proof (erule costep.cases, goal_cases)
  case (1 s p key deadline n told c)
  then have ok: "calls_ok s" "callers_ok s" by (simp_all add: coinv_def)
  have d: "dom (co_objects (cs_coalescer s)) = {..< co_next (cs_coalescer s)}" by (rule calls_bounds[OF ok(1)])
  from 1(5) d have "co_total c = co_executed c + co_coalesced c \<and> co_executed c = int (co_next c)"
    by (cases rule: join_cases) (use 1(1,2) in \<open>auto simp: coinv_def\<close>)
  with 1 calls_do[OF ok 1(5)] callers_do[OF ok(2) d 1(4,5)] deadlines_join[OF _ 1(5)] show ?case by (simp add: coinv_def)
next
  case (2 s n key out answer)
  then show ?case
    using calls_answer[of s n key out] callers_frame(1)[of s "drop_entry key n out (cs_coalescer s)"] by (simp add: coinv_def)
next
  case (3 s n out)
  then show ?case
    using calls_settle[of s n out] callers_settle(1)[of s _ n out] by (simp add: coinv_def)
next
  case (4 s p n call out)
  then have "n \<in> dom (co_objects (cs_coalescer s))" and "settled (cs_coalescer s) n = Some out" by (auto simp: settled_def)
  with 4 calls_leave[of s n p] callers_leave[of s p n out] show ?case by (simp add: coinv_def)
next
  case (5 s p n)
  then have ok: "calls_ok s" "callers_ok s" by (simp_all add: coinv_def)
  have "p \<in> waits s n" using 5 by (simp add: waits_def)
  then have "active (cs_coalescer s) n \<noteq> 0" using ok(2) waits_finite[OF ok(2), of n] by (auto simp: callers_ok_def Let_def)
  then have "n \<in> dom (co_objects (cs_coalescer s))" by (auto simp: active_def split: option.splits)
  with 5 calls_leave[of s n p] callers_leave[of s p n "Inl OwnContextDone"] show ?case by (simp add: coinv_def)
next
  case (6 s ns c)
  then have "co_total c = co_total (cs_coalescer s)" "co_executed c = co_executed (cs_coalescer s)" "co_coalesced c = co_coalesced (cs_coalescer s)"
    by (auto simp: take_all_def)
  with 6 calls_clear[of s ns c] callers_frame(2)[of s c] take_fields[OF 6(4)] show ?case by (auto simp: coinv_def deadlines_ok_def)
next
  case (7 n s)
  then show ?case
    using calls_abandon[of s n] callers_settle(2)[of s _ n "Inl Cleared"] by (simp add: coinv_def)
next
  case (8 s n)
  then show ?case
    using calls_expire[of s n] callers_frame(1)[of s "expire_call n (cs_coalescer s)" "cs_runs s"] by (simp add: coinv_def)
qed

interpretation coalescing: invariant_system costart costep coinv
proof
  show "coinv s" if "costart s" for s
    using that by (auto simp: costart_def coinv_def calls_ok_def callers_ok_def deadlines_ok_def new_coalescer_def settled_def active_def cancelled_def waits_def Let_def)
qed (rule costep_coinv)

section \<open>Guarantees\<close>

text \<open>
  C37. Callers of one shared call agree. In every interleaving, two callers that came back with an outcome
  of the same shared call, and not with the error of their own context, came back with the same one; a
  caller still waiting finds the call settled or its function under way, so nobody is forgotten. A shared
  call is cancelled only when nobody waits for it any more or its outcome is already settled: a caller
  that disconnects does not take the others down. Its context may also end at the deadline of the caller
  that started it, while others wait; if that caller had no deadline, the context ends only by
  cancellation, so never under a caller that still waits for an outcome.
\<close>

theorem coalesced_callers_agree:
  assumes "reach costart costep s"
  shows "(\<forall>p q n x y. cs_participants s p = Some (Got n x) \<and> cs_participants s q = Some (Got n y)
            \<and> x \<noteq> Inl OwnContextDone \<and> y \<noteq> Inl OwnContextDone \<longrightarrow> x = y)
    \<and> (\<forall>p n. cs_participants s p = Some (Waits n) \<longrightarrow> settled (cs_coalescer s) n \<noteq> None \<or> n \<in> dom (cs_runs s))
    \<and> (\<forall>n call. co_objects (cs_coalescer s) n = Some call \<and> (sc_cancelled call \<or> context_done call \<and> \<not> sc_deadline call)
            \<longrightarrow> waits s n = {} \<or> sc_settled call \<noteq> None)"
proof -
  from coalescing.reach_inv[OF assms] have ok: "calls_ok s" "callers_ok s" "deadlines_ok (cs_coalescer s)" by (simp_all add: coinv_def)
  have waiting: "n < co_next (cs_coalescer s)" if "cs_participants s p = Some (Waits n)" for p n
  proof -
    have "p \<in> waits s n" using that by (simp add: waits_def)
    then have "active (cs_coalescer s) n \<noteq> 0" using ok(2) waits_finite[OF ok(2), of n] by (auto simp: callers_ok_def Let_def)
    then have "n \<in> dom (co_objects (cs_coalescer s))" by (auto simp: active_def split: option.splits)
    then show ?thesis using calls_bounds(1)[OF ok(1)] by simp
  qed
  have quiet: "waits s n = {} \<or> settled (cs_coalescer s) n \<noteq> None" if "cancelled (cs_coalescer s) n" for n
    using calls_bounds(5)[OF ok(1) that] ok(2) waits_finite[OF ok(2), of n] by (auto simp: callers_ok_def Let_def)
  have "waits s n = {} \<or> sc_settled call \<noteq> None" if "co_objects (cs_coalescer s) n = Some call"
      and "sc_cancelled call \<or> context_done call \<and> \<not> sc_deadline call" for n call
    using quiet[of n] that ok(3) by (auto simp: cancelled_def settled_def context_done_def deadlines_ok_def)
  moreover have "settled (cs_coalescer s) n \<noteq> None \<or> n \<in> dom (cs_runs s)" if "cs_participants s p = Some (Waits n)" for p n
    using calls_bounds(4)[OF ok(1) waiting[OF that]] by auto
  moreover have "x = y" if "cs_participants s p = Some (Got n x)" "cs_participants s q = Some (Got n y)"
      "x \<noteq> Inl OwnContextDone" "y \<noteq> Inl OwnContextDone" for p q n x y
    using callers_got[OF ok(2) that(1)] callers_got[OF ok(2) that(2)] that(3,4) by auto
  ultimately show ?thesis by blast
qed

text \<open>
  One execution per key. Of two shared calls of the same key whose functions are running, one has no
  caller left waiting or was taken out by \<open>Clear\<close>. Every call of \<open>Do\<close> is counted once, as an execution
  or as coalesced, and the executions counted are the shared calls started.
\<close>

theorem one_execution_per_key:
  assumes "reach costart costep s" and "cs_runs s m = Some (Running key)" and "cs_runs s n = Some (Running key)" and "m \<noteq> n"
  shows "(waits s m = {} \<or> was_cleared s m \<or> waits s n = {} \<or> was_cleared s n)
    \<and> co_total (cs_coalescer s) = co_executed (cs_coalescer s) + co_coalesced (cs_coalescer s)
    \<and> co_executed (cs_coalescer s) = int (co_next (cs_coalescer s))"
proof -
  from coalescing.reach_inv[OF assms(1)] have inv: "coinv s" .
  then have ok: "calls_ok s" "callers_ok s" by (simp_all add: coinv_def)
  have "0 < active (cs_coalescer s) i" if "waits s i \<noteq> {}" for i
    using that ok(2) waits_finite[OF ok(2), of i] by (simp add: callers_ok_def Let_def card_gt_0_iff)
  from this[of m] this[of n] calls_live[OF ok(1) assms(2)] calls_live[OF ok(1) assms(3)] assms(4)
  have "waits s m = {} \<or> was_cleared s m \<or> waits s n = {} \<or> was_cleared s n"
    unfolding was_cleared_def by fastforce
  with inv show ?thesis by (simp add: coinv_def)
qed

text \<open>
  Keys tell calls apart as long as neither the method nor an argument contains the separator; with it two
  different argument lists share a key.
\<close>

lemma coalesce_keys_differ:
  assumes "make_coalesce_key m as = make_coalesce_key n bs" and "\<forall>x \<in> {m, n} \<union> set as \<union> set bs. CHR '':'' \<notin> set x"
  shows "m = n \<and> as = bs"
proof -
  have head: "x = y \<and> xs = ys" if "x @ xs = y @ ys" "CHR '':'' \<notin> set x" "CHR '':'' \<notin> set y"
    "xs = [] \<or> hd xs = CHR '':''" "ys = [] \<or> hd ys = CHR '':''" for x y xs ys :: string
    using that
  proof (induction x arbitrary: y)
    case Nil
    then show ?case by (cases y) auto
  next
    case (Cons c x)
    then show ?case by (cases y) auto
  qed
  have tail: "concat (map (\<lambda>a. CHR '':'' # a) zs) = [] \<or> hd (concat (map (\<lambda>a. CHR '':'' # a) zs)) = CHR '':''" for zs :: "string list"
    by (cases zs) auto
  have args: "as = bs" if "concat (map (\<lambda>a. CHR '':'' # a) as) = concat (map (\<lambda>a. CHR '':'' # a) bs)" "\<forall>x \<in> set as \<union> set bs. CHR '':'' \<notin> set x"
    using that
  proof (induction as arbitrary: bs)
    case Nil
    then show ?case by (cases bs) auto
  next
    case (Cons a as)
    then obtain b bs' where bs: "bs = b # bs'" by (cases bs) auto
    with Cons.prems have "a = b \<and> concat (map (\<lambda>a. CHR '':'' # a) as) = concat (map (\<lambda>a. CHR '':'' # a) bs')"
      using tail[of as] tail[of bs'] by (intro head) auto
    with Cons.IH[of bs'] Cons.prems(2) bs show ?case by auto
  qed
  have key: "make_coalesce_key x zs = x @ concat (map (\<lambda>a. CHR '':'' # a) zs)" for x zs by (simp add: make_coalesce_key_def)
  from assms have "m = n \<and> concat (map (\<lambda>a. CHR '':'' # a) as) = concat (map (\<lambda>a. CHR '':'' # a) bs)"
    unfolding key using tail[of as] tail[of bs] by (intro head) auto
  with args assms(2) show ?thesis by blast
qed

lemma coalesce_keys_collide: "make_coalesce_key ''get'' [''A:1''] = make_coalesce_key ''get'' [''A'', ''1'']"
  by (simp add: make_coalesce_key_def)

section \<open>Witnesses\<close>

text \<open>The first caller leaves before the function answers, and a second one starts a fresh call of the same key.\<close>

definition demo_no_calls :: "(int, unit) cosys" where
  "demo_no_calls = \<lparr>cs_coalescer = new_coalescer, cs_participants = Map.empty, cs_runs = Map.empty, cs_abandoned = {}\<rparr>"

definition demo_abandoned_call :: "(int, unit) cosys" where
  "demo_abandoned_call = (let c = snd (join_or_start ''K'' False new_coalescer) in
     \<lparr>cs_coalescer = leave 0 c, cs_participants = [0 \<mapsto> Got 0 (Inl OwnContextDone)],
      cs_runs = [0 \<mapsto> Running ''K''], cs_abandoned = {}\<rparr>)"

definition demo_fresh_call :: "(int, unit) cosys" where
  "demo_fresh_call = demo_abandoned_call\<lparr>cs_coalescer := snd (join_or_start ''K'' False (cs_coalescer demo_abandoned_call)),
     cs_participants := (cs_participants demo_abandoned_call)(1 \<mapsto> Waits 1), cs_runs := (cs_runs demo_abandoned_call)(1 \<mapsto> Running ''K'')\<rparr>"

lemma demo_abandoned_call_reach: "reach costart costep demo_abandoned_call"
proof -
  let ?c = "snd (join_or_start ''K'' False new_coalescer)"
  let ?s = "\<lparr>cs_coalescer = ?c, cs_participants = [0 \<mapsto> Waits 0], cs_runs = [0 \<mapsto> Running ''K''], cs_abandoned = {}\<rparr> :: (int, unit) cosys"
  have "reach costart costep demo_no_calls" by (rule reach_start) (simp add: costart_def demo_no_calls_def)
  moreover have "costep demo_no_calls ?s"
    using o_do[of demo_no_calls 0 "''K''" False 0 None ?c] by (simp add: demo_no_calls_def join_or_start_def shared_context_def new_coalescer_def Let_def)
  ultimately have "reach costart costep ?s" by (rule reach_step)
  moreover have "costep ?s demo_abandoned_call"
    using o_gone[of ?s 0 0] by (simp add: demo_abandoned_call_def Let_def)
  ultimately show ?thesis by (rule reach_step)
qed

lemma demo_fresh_call_reach: "reach costart costep demo_fresh_call"
proof (rule reach_step[OF demo_abandoned_call_reach])
  let ?c = "snd (join_or_start ''K'' False (cs_coalescer demo_abandoned_call))"
  have "join_or_start ''K'' False (cs_coalescer demo_abandoned_call) = ((1, None), ?c)"
    by (simp add: demo_abandoned_call_def join_or_start_def shared_context_def new_coalescer_def leave_def cancel_call_def update_call_def Let_def)
  from o_do[OF _ this, of 1] show "costep demo_abandoned_call demo_fresh_call"
    by (simp add: demo_fresh_call_def demo_abandoned_call_def Let_def)
qed

theorem one_execution_per_key_witness:
  "waits demo_fresh_call 0 = {} \<or> was_cleared demo_fresh_call 0 \<or> waits demo_fresh_call 1 = {} \<or> was_cleared demo_fresh_call 1"
  using one_execution_per_key[OF demo_fresh_call_reach, of 0 "''K''" 1]
  by (simp add: demo_fresh_call_def demo_abandoned_call_def Let_def)

theorem coalesced_callers_agree_witness:
  "(\<exists>out. settled (cs_coalescer demo_fresh_call) 1 = Some out) \<or> 1 \<in> dom (cs_runs demo_fresh_call)"
proof -
  have "cs_participants demo_fresh_call 1 = Some (Waits 1)" by (simp add: demo_fresh_call_def)
  with coalesced_callers_agree[OF demo_fresh_call_reach] show ?thesis by blast
qed

end
