(* ===== verification/Ping_Pong.thy ===== *)
theory Ping_Pong
  imports Prelude Ring_Buffer "HOL-Library.Multiset"
begin

text \<open>
  The ping-pong tracker of \<open>internal/client/reliability/pingpong.go\<close>: outbound pings and inbound pongs
  are correlated; what stays unmatched is reported when it expires.

  \<^item> The two tables are association lists in the order their Go maps happen to be iterated in. An
    operation that iterates a map takes the permutation of the runtime as the parameter \<open>shuffle\<close>.
  \<^item> The journal is the ring buffer of the code: the slots, the head and the length.
  \<^item> The hooks are the return value of each operation: the mismatches and the publications in order.
\<close>

section \<open>State\<close>

record pingpong_config =
  pc_pending_ttl :: duration
  pc_unknown_ttl :: duration
  pc_max_entries :: int
  pc_threshold :: int
  pc_journal_size :: int

datatype journal_kind = JournalSent | JournalMatched | JournalUnknown | JournalExpired | JournalEvicted

record ping_journal_entry =
  je_when :: time_ns
  je_kind :: journal_kind
  je_id :: string
  je_rtt :: duration

type_synonym table = "(string \<times> time_ns) list"

record pingpong =
  pp_cfg :: pingpong_config
  pp_pending :: table
  pp_unknown :: table
  pp_matched :: int
  pp_mismatch :: int
  pp_sent :: int
  pp_received :: int
  pp_rtt_sum :: duration
  pp_rtt_count :: int
  pp_rtt_min :: duration
  pp_rtt_max :: duration
  pp_journal :: "ping_journal_entry list"
  pp_head :: nat
  pp_len :: nat
  pp_retry_at :: "string list"

datatype mismatch_kind = MismatchPending | MismatchUnknown

definition pingpong_defaults :: "pingpong_config \<Rightarrow> pingpong_config" where
  "pingpong_defaults c =
     c\<lparr>pc_pending_ttl := (if pc_pending_ttl c = 0 then secs 300 else pc_pending_ttl c),
       pc_unknown_ttl := (if pc_unknown_ttl c = 0 then secs 300 else pc_unknown_ttl c),
       pc_threshold := (if pc_threshold c = 0 then 15 else pc_threshold c),
       pc_max_entries := (if pc_max_entries c \<le> 0 then 100 else pc_max_entries c)\<rparr>"

definition blank_entry :: ping_journal_entry where
  "blank_entry = \<lparr>je_when = 0, je_kind = JournalSent, je_id = '''', je_rtt = 0\<rparr>"

definition new_pingpong :: "pingpong_config \<Rightarrow> pingpong" where
  "new_pingpong c =
     \<lparr>pp_cfg = pingpong_defaults c, pp_pending = [], pp_unknown = [], pp_matched = 0, pp_mismatch = 0, pp_sent = 0, pp_received = 0,
      pp_rtt_sum = 0, pp_rtt_count = 0, pp_rtt_min = 0, pp_rtt_max = 0,
      pp_journal = (if pc_journal_size c > 0 then replicate (nat (pc_journal_size c)) blank_entry else []),
      pp_head = 0, pp_len = 0, pp_retry_at = []\<rparr>"

section \<open>Journal\<close>

definition append_journal :: "ping_journal_entry \<Rightarrow> pingpong \<Rightarrow> pingpong" where
  "append_journal e t =
     (if pp_journal t = [] then t
      else t\<lparr>pp_journal := (pp_journal t)[pp_head t := e], pp_head := (pp_head t + 1) mod length (pp_journal t),
             pp_len := (if pp_len t < length (pp_journal t) then pp_len t + 1 else pp_len t)\<rparr>)"

definition journal :: "pingpong \<Rightarrow> ping_journal_entry list" where
  "journal t =
     (if pp_len t = 0 then []
      else let cap = length (pp_journal t); start = (pp_head t + cap - pp_len t) mod cap
        in map (\<lambda>i. pp_journal t ! ((start + i) mod cap)) [0..<pp_len t])"

definition jot :: "time_ns \<Rightarrow> journal_kind \<Rightarrow> string \<Rightarrow> duration \<Rightarrow> pingpong \<Rightarrow> pingpong" where
  "jot now kind i rtt = append_journal \<lparr>je_when = now, je_kind = kind, je_id = i, je_rtt = rtt\<rparr>"

section \<open>Capacity\<close>

text \<open>
  The selection loop of \<open>enforceCap\<close>: for each of the first \<open>n\<close> places the oldest of the rest is swapped
  to the front and dropped. \<open>oldest\<close> is the index the inner scan ends with.
\<close>

function oldest :: "(string \<times> time_ns) list \<Rightarrow> nat \<Rightarrow> nat \<Rightarrow> nat" where
  "oldest es best j =
     (if j < length es then oldest es (if snd (es ! j) < snd (es ! best) then j else best) (j + 1) else best)"
  by auto
termination
  by (relation "measure (\<lambda>(es, best, j). length es - j)") auto

declare oldest.simps [simp del]

definition swap :: "nat \<Rightarrow> nat \<Rightarrow> 'a list \<Rightarrow> 'a list" where
  "swap i j xs = xs[i := xs ! j, j := xs ! i]"

fun select_oldest :: "nat \<Rightarrow> nat \<Rightarrow> (string \<times> time_ns) list \<Rightarrow> string list" where
  "select_oldest 0 i es = []"
| "select_oldest (Suc n) i es = (let es = swap i (oldest es i (i + 1)) es in fst (es ! i) # select_oldest n (i + 1) es)"

definition cap_victims :: "(table \<Rightarrow> table) \<Rightarrow> int \<Rightarrow> table \<Rightarrow> string list" where
  "cap_victims shuffle limit m =
     (if int (length m) \<le> limit then [] else select_oldest (length m div 5) 0 (shuffle m))"

definition evict :: "string list \<Rightarrow> table \<Rightarrow> table" where
  "evict ks m = fold AList.delete ks m"

definition jot_all :: "time_ns \<Rightarrow> journal_kind \<Rightarrow> string list \<Rightarrow> pingpong \<Rightarrow> pingpong" where
  "jot_all now kind ks t = fold (\<lambda>k. jot now kind k 0) ks t"

definition enforce_cap_pending :: "(table \<Rightarrow> table) \<Rightarrow> time_ns \<Rightarrow> pingpong \<Rightarrow> pingpong" where
  "enforce_cap_pending shuffle now t =
     (let ks = cap_victims shuffle (pc_max_entries (pp_cfg t)) (pp_pending t)
      in jot_all now JournalEvicted ks (t\<lparr>pp_pending := evict ks (pp_pending t)\<rparr>))"

definition enforce_cap_unknown :: "(table \<Rightarrow> table) \<Rightarrow> time_ns \<Rightarrow> pingpong \<Rightarrow> pingpong" where
  "enforce_cap_unknown shuffle now t =
     (let ks = cap_victims shuffle (pc_max_entries (pp_cfg t)) (pp_unknown t)
      in jot_all now JournalEvicted ks (t\<lparr>pp_unknown := evict ks (pp_unknown t)\<rparr>))"

section \<open>Operations\<close>

definition over_threshold :: "pingpong \<Rightarrow> int \<Rightarrow> bool" where
  "over_threshold t n = (pc_threshold (pp_cfg t) > 0 \<and> n > pc_threshold (pp_cfg t))"

definition clear_pingpong :: "pingpong \<Rightarrow> pingpong" where
  "clear_pingpong t = t\<lparr>pp_pending := [], pp_unknown := [], pp_matched := 0, pp_mismatch := 0, pp_sent := 0, pp_received := 0,
     pp_rtt_sum := 0, pp_rtt_count := 0, pp_rtt_min := 0, pp_rtt_max := 0\<rparr>"

text \<open>\<open>gate\<close> is what the connection-issue gate answers, \<open>hook\<close> whether a publish hook is installed.\<close>

definition record_ping :: "(table \<Rightarrow> table) \<Rightarrow> bool \<Rightarrow> bool \<Rightarrow> time_ns \<Rightarrow> string \<Rightarrow> pingpong \<Rightarrow> (mismatch_kind \<times> int) list \<times> pingpong" where
  "record_ping shuffle gate hook now i t =
     (if gate then ([], t)
      else let t = enforce_cap_pending shuffle now (jot now JournalSent i 0
                 (t\<lparr>pp_pending := AList.update i now (pp_pending t), pp_sent := pp_sent t + 1\<rparr>));
               n = int (length (pp_pending t))
        in (if hook \<and> over_threshold t n \<and> (n mod 2 = 0 \<or> n = pc_threshold (pp_cfg t) + 1) then [(MismatchPending, n)] else [], t))"

definition record_rtt :: "duration \<Rightarrow> pingpong \<Rightarrow> pingpong" where
  "record_rtt rtt t =
     t\<lparr>pp_matched := pp_matched t + 1, pp_rtt_sum := pp_rtt_sum t + rtt, pp_rtt_count := pp_rtt_count t + 1,
       pp_rtt_min := (if pp_rtt_min t = 0 \<or> rtt < pp_rtt_min t then rtt else pp_rtt_min t),
       pp_rtt_max := (if rtt > pp_rtt_max t then rtt else pp_rtt_max t)\<rparr>"

definition record_pong ::
  "(table \<Rightarrow> table) \<Rightarrow> bool \<Rightarrow> time_ns \<Rightarrow> string \<Rightarrow> pingpong \<Rightarrow> (bool \<times> duration) \<times> (mismatch_kind \<times> int) list \<times> pingpong" where
  "record_pong shuffle hook now i t =
     (let t = t\<lparr>pp_received := pp_received t + 1\<rparr> in
      case lookup (pp_pending t) i of
        Some sent \<Rightarrow>
          (let rtt = now - sent;
               t = jot now JournalMatched i rtt (record_rtt rtt (t\<lparr>pp_pending := AList.delete i (pp_pending t)\<rparr>));
               n = int (length (pp_pending t))
           in ((True, rtt), if hook \<and> over_threshold t n then [(MismatchPending, n)] else [], t))
      | None \<Rightarrow>
          (let t = enforce_cap_unknown shuffle now (jot now JournalUnknown i 0 (t\<lparr>pp_unknown := AList.update i now (pp_unknown t)\<rparr>));
               n = int (length (pp_unknown t))
           in ((False, 0), if hook \<and> over_threshold t n then [(MismatchUnknown, n)] else [], t)))"

definition expired :: "duration \<Rightarrow> time_ns \<Rightarrow> string \<times> time_ns \<Rightarrow> bool" where
  "expired ttl now e = (now - snd e \<ge> ttl)"

text \<open>The two loops that drop expired entries, pending ones first.\<close>

definition expire_pending :: "(table \<Rightarrow> table) \<Rightarrow> time_ns \<Rightarrow> pingpong \<Rightarrow> table \<times> pingpong" where
  "expire_pending shuffle now t =
     (let out = filter (expired (pc_pending_ttl (pp_cfg t)) now) (shuffle (pp_pending t)) in
      (out, jot_all now JournalExpired (map fst out)
         (t\<lparr>pp_pending := evict (map fst out) (pp_pending t), pp_mismatch := pp_mismatch t + int (length out)\<rparr>)))"

definition expire_unknown :: "(table \<Rightarrow> table) \<Rightarrow> time_ns \<Rightarrow> pingpong \<Rightarrow> table \<times> pingpong" where
  "expire_unknown shuffle now t =
     (let out = filter (expired (pc_unknown_ttl (pp_cfg t)) now) (shuffle (pp_unknown t)) in
      (out, jot_all now JournalExpired (map fst out)
         (t\<lparr>pp_unknown := evict (map fst out) (pp_unknown t), pp_mismatch := pp_mismatch t + int (length out)\<rparr>)))"

record mismatch =
  mm_id :: string
  mm_kind :: mismatch_kind
  mm_when :: time_ns

definition sweep_pings :: "(table \<Rightarrow> table) \<Rightarrow> time_ns \<Rightarrow> pingpong \<Rightarrow> mismatch list \<times> pingpong" where
  "sweep_pings shuffle now t =
     (let (ps, t) = expire_pending shuffle now t; (us, t) = expire_unknown shuffle now t in
      (map (\<lambda>(i, w). \<lparr>mm_id = i, mm_kind = MismatchPending, mm_when = w\<rparr>) ps
       @ map (\<lambda>(i, w). \<lparr>mm_id = i, mm_kind = MismatchUnknown, mm_when = w\<rparr>) us, t))"

definition retry_reconcile_pong :: "(table \<Rightarrow> table) \<Rightarrow> bool \<Rightarrow> time_ns \<Rightarrow> string \<Rightarrow> pingpong \<Rightarrow> (mismatch_kind \<times> int) list \<times> pingpong" where
  "retry_reconcile_pong shuffle hook now token t =
     (let t = snd (expire_unknown shuffle now (snd (expire_pending shuffle now t)));
          t = (if lookup (pp_pending t) token \<noteq> None
               then jot now JournalMatched token 0 (t\<lparr>pp_pending := AList.delete token (pp_pending t),
                 pp_unknown := AList.delete token (pp_unknown t), pp_matched := pp_matched t + 1\<rparr>)
               else t);
          th = pc_threshold (pp_cfg t); p = int (length (pp_pending t)); u = int (length (pp_unknown t))
      in ((if hook \<and> th > 0 \<and> p > th then [(MismatchPending, p)] else [])
          @ (if hook \<and> th > 0 \<and> u > th then [(MismatchUnknown, u)] else []), t))"

text \<open>\<open>ScheduleUnknownPongRetry\<close> returns whether a retry is scheduled; its callback ends with \<open>retry_done\<close>.\<close>

definition schedule_unknown_pong_retry :: "string \<Rightarrow> pingpong \<Rightarrow> bool \<times> pingpong" where
  "schedule_unknown_pong_retry token t =
     (if token \<in> set (pp_retry_at t) then (False, t) else (True, t\<lparr>pp_retry_at := token # pp_retry_at t\<rparr>))"

definition retry_done :: "string \<Rightarrow> pingpong \<Rightarrow> pingpong" where
  "retry_done token t = t\<lparr>pp_retry_at := removeAll token (pp_retry_at t)\<rparr>"

datatype severity = SeverityOk | SeverityDegraded | SeverityCritical

definition stats_severity :: "pingpong \<Rightarrow> severity" where
  "stats_severity t =
     (if pc_threshold (pp_cfg t) > 0
      then let over = (if over_threshold t (int (length (pp_pending t))) then 1 else 0 :: int)
                    + (if over_threshold t (int (length (pp_unknown t))) then 1 else 0)
        in if over = 1 then SeverityDegraded else if over = 2 then SeverityCritical else SeverityOk
      else SeverityOk)"

definition average_rtt :: "pingpong \<Rightarrow> duration" where
  "average_rtt t = (if pp_rtt_count t > 0 then sgn (pp_rtt_sum t) * (\<bar>pp_rtt_sum t\<bar> div pp_rtt_count t) else 0)"

section \<open>The journal\<close>

interpretation journal_ring: ring_buffer "\<lambda>t. pp_journal t \<noteq> []" pp_journal pp_head pp_len append_journal journal
proof
  fix t :: pingpong
  assume "pp_journal t \<noteq> []" "pp_len t \<le> length (pp_journal t)"
  then show "journal t = map (\<lambda>i. pp_journal t ! ((pp_head t + length (pp_journal t) - pp_len t + i) mod length (pp_journal t))) [0..<pp_len t]"
    by (simp add: journal_def Let_def mod_add_left_eq)
qed (simp_all add: append_journal_def)

lemma journal_keeps_the_last:
  assumes "0 < pc_journal_size c"
  shows "journal (fold append_journal es (new_pingpong c)) = drop (length es - nat (pc_journal_size c)) es"
proof -
  let ?t = "new_pingpong c"
  have "pp_journal ?t \<noteq> []" "length (pp_journal ?t) = nat (pc_journal_size c)" using assms by (simp_all add: new_pingpong_def)
  moreover have "ring_holds (pp_journal ?t) (pp_head ?t) (pp_len ?t) []"
    using calculation by (simp add: new_pingpong_def ring_holds_empty)
  ultimately show ?thesis
    using journal_ring.pushes_hold[of ?t "[]" es] journal_ring.read_log[of "fold append_journal es ?t" es] by simp
qed

lemma jot_frame [simp]:
  "pp_cfg (jot now k i r t) = pp_cfg t" "pp_pending (jot now k i r t) = pp_pending t" "pp_unknown (jot now k i r t) = pp_unknown t"
  "pp_matched (jot now k i r t) = pp_matched t" "pp_mismatch (jot now k i r t) = pp_mismatch t"
  "pp_sent (jot now k i r t) = pp_sent t" "pp_received (jot now k i r t) = pp_received t"
  by (simp_all add: jot_def append_journal_def)

lemma jot_all_frame [simp]:
  "pp_cfg (jot_all now k ks t) = pp_cfg t" "pp_pending (jot_all now k ks t) = pp_pending t" "pp_unknown (jot_all now k ks t) = pp_unknown t"
  "pp_matched (jot_all now k ks t) = pp_matched t" "pp_mismatch (jot_all now k ks t) = pp_mismatch t"
  "pp_sent (jot_all now k ks t) = pp_sent t" "pp_received (jot_all now k ks t) = pp_received t"
  by (induction ks arbitrary: t) (simp_all add: jot_all_def)

section \<open>The selection loop drops the oldest\<close>

lemma oldest_spec:
  assumes "best < length es"
  shows "(oldest es best j = best \<or> (j \<le> oldest es best j \<and> oldest es best j < length es))
    \<and> snd (es ! oldest es best j) \<le> snd (es ! best) \<and> (\<forall>m. j \<le> m \<longrightarrow> m < length es \<longrightarrow> snd (es ! oldest es best j) \<le> snd (es ! m))"
  using assms
proof (induction es best j rule: oldest.induct)
  case (1 es best j)
  show ?case
  proof (cases "j < length es")
    case True
    let ?b = "if snd (es ! j) < snd (es ! best) then j else best"
    from 1(1)[OF True] True 1(2)
    have ih: "oldest es ?b (j + 1) = ?b \<or> (j + 1 \<le> oldest es ?b (j + 1) \<and> oldest es ?b (j + 1) < length es)"
      "snd (es ! oldest es ?b (j + 1)) \<le> snd (es ! ?b)"
      "\<And>m. j + 1 \<le> m \<Longrightarrow> m < length es \<Longrightarrow> snd (es ! oldest es ?b (j + 1)) \<le> snd (es ! m)"
      by auto
    have eq: "oldest es best j = oldest es ?b (j + 1)" using True by (simp add: oldest.simps[of es best j])
    have b: "snd (es ! ?b) \<le> snd (es ! best)" "snd (es ! ?b) \<le> snd (es ! j)" "?b = best \<or> ?b = j" by auto
    show ?thesis unfolding eq
    proof (intro conjI allI impI)
      show "oldest es ?b (j + 1) = best \<or> j \<le> oldest es ?b (j + 1) \<and> oldest es ?b (j + 1) < length es"
        using ih(1) b(3) True by auto
      show "snd (es ! oldest es ?b (j + 1)) \<le> snd (es ! best)" using ih(2) b(1) by linarith
      fix m assume "j \<le> m" "m < length es"
      then show "snd (es ! oldest es ?b (j + 1)) \<le> snd (es ! m)" using ih(2,3) b(2) by (cases "m = j") (auto intro: order_trans)
    qed
  qed (simp add: oldest.simps[of es best j])
qed

lemma swap_front:
  assumes "i < length es" and "es' = swap i (oldest es i (i + 1)) es"
  shows "mset (drop i es') = mset (drop i es)" and "length es' = length es" and "\<forall>y \<in> set (drop i es). snd (es' ! i) \<le> snd y"
proof -
  let ?j = "oldest es i (i + 1)"
  note spec = oldest_spec[OF assms(1), of "i + 1"]
  then have j: "i \<le> ?j" "?j < length es" using assms(1) by auto
  show "length es' = length es" by (simp add: assms(2) swap_def)
  have "drop i es' = (drop i es)[0 := drop i es ! (?j - i), ?j - i := drop i es ! 0]"
    using assms j by (simp add: swap_def drop_update_swap)
  then show "mset (drop i es') = mset (drop i es)"
    using mset_swap[of "?j - i" "drop i es" 0] j assms(1) by simp
  have front: "es' ! i = es ! ?j" using assms j by (auto simp: swap_def nth_list_update)
  show "\<forall>y \<in> set (drop i es). snd (es' ! i) \<le> snd y"
  proof
    fix y assume "y \<in> set (drop i es)"
    then obtain k where k: "y = es ! (i + k)" "i + k < length es" by (auto simp: in_set_conv_nth)
    then show "snd (es' ! i) \<le> snd y" unfolding front using spec by (cases k) auto
  qed
qed

lemma select_oldest_spec:
  assumes "i + n \<le> length es"
  shows "\<exists>zs. mset zs = mset (drop i es) \<and> select_oldest n i es = map fst (take n zs)
    \<and> (\<forall>x \<in> set (take n zs). \<forall>y \<in> set (drop n zs). snd x \<le> snd y)"
  using assms
proof (induction n arbitrary: i es)
  case (Suc n)
  define es' where "es' = swap i (oldest es i (i + 1)) es"
  have i: "i < length es" using Suc.prems by simp
  note sw = swap_front[OF i es'_def]
  from Suc.IH[of "i + 1" es'] Suc.prems sw(2) obtain zs where zs: "mset zs = mset (drop (i + 1) es')"
    "select_oldest n (i + 1) es' = map fst (take n zs)" "\<forall>x \<in> set (take n zs). \<forall>y \<in> set (drop n zs). snd x \<le> snd y"
    by auto
  have split: "drop i es' = es' ! i # drop (i + 1) es'" using i sw(2) by (simp add: Cons_nth_drop_Suc)
  have "set zs \<subseteq> set (drop i es)"
    using mset_eq_setD[OF zs(1)] mset_eq_setD[OF sw(1)] split by auto
  then have "\<forall>y \<in> set (drop n zs). snd (es' ! i) \<le> snd y" using sw(3) by (auto dest: in_set_dropD)
  moreover have "mset (es' ! i # zs) = mset (drop i es)" using zs(1) sw(1) split by simp
  moreover have "select_oldest (Suc n) i es = fst (es' ! i) # select_oldest n (i + 1) es'" by (simp add: es'_def Let_def)
  ultimately show ?case
    using zs(2,3) by (intro exI[of _ "es' ! i # zs"]) auto
qed auto

text \<open>The entries an overfull table loses: a fifth of them, none younger than one that stays.\<close>

lemma cap_victims_oldest:
  assumes "\<And>m. mset (shuffle m) = mset m" and "distinct (keys m)" and "int (length m) > limit"
  shows "length (cap_victims shuffle limit m) = length m div 5" and "distinct (cap_victims shuffle limit m)"
    and "set (cap_victims shuffle limit m) \<subseteq> set (keys m)"
    and "\<And>k w k' w'. (k, w) \<in> set m \<Longrightarrow> k \<in> set (cap_victims shuffle limit m) \<Longrightarrow> (k', w') \<in> set (evict (cap_victims shuffle limit m) m) \<Longrightarrow> w \<le> w'"
proof -
  let ?n = "length m div 5" and ?ks = "cap_victims shuffle limit m"
  have len: "length (shuffle m) = length m" using assms(1) by (rule mset_eq_length)
  then have "0 + ?n \<le> length (shuffle m)" by simp
  from select_oldest_spec[OF this] obtain zs where zs: "mset zs = mset (shuffle m)" "select_oldest ?n 0 (shuffle m) = map fst (take ?n zs)"
    "\<forall>x \<in> set (take ?n zs). \<forall>y \<in> set (drop ?n zs). snd x \<le> snd y" by auto
  have ks: "?ks = map fst (take ?n zs)" using zs(2) assms(3) by (simp add: cap_victims_def)
  have m: "mset zs = mset m" using zs(1) assms(1) by simp
  then have "mset (map fst zs) = mset (keys m)" by (simp add: keys_def)
  then have d: "distinct (map fst zs)" using assms(2) mset_eq_imp_distinct_iff by blast
  have set: "set zs = set m" using m by (rule mset_eq_setD)
  show "length ?ks = ?n" using mset_eq_length[OF m] by (simp add: ks)
  show "distinct ?ks" using d by (simp add: ks take_map[symmetric] distinct_take)
  show "set ?ks \<subseteq> set (keys m)" using set by (fastforce simp: ks keys_def dest: in_set_takeD)
  fix k w k' w' assume a: "(k, w) \<in> set m" "k \<in> set ?ks" "(k', w') \<in> set (evict ?ks m)"
  from a(2) obtain e where e: "e \<in> set (take ?n zs)" "fst e = k" by (auto simp: ks)
  then have "(k, snd e) \<in> set m" using set by (metis in_set_takeD prod.collapse)
  then have "e = (k, w)" using a(1) e(2) assms(2) eq_key_imp_eq_value[of m k w "snd e"] by (auto simp: keys_def)
  from a(3) have "(k', w') \<in> set zs" "k' \<notin> set ?ks" by (auto simp: evict_def fold_delete set)
  moreover have "set zs = set (take ?n zs) \<union> set (drop ?n zs)" by (metis append_take_drop_id set_append)
  ultimately have "(k', w') \<in> set (drop ?n zs)" by (force simp: ks)
  with zs(3) e(1) \<open>e = (k, w)\<close> show "w \<le> w'" by force
qed

section \<open>Runs of operations\<close>

datatype pp_op = PpPing bool string | PpPong string | PpSweep | PpReconcile string | PpClear | PpSchedule string | PpRetryDone string

text \<open>Each operation with its time, the map orders it meets and whether the publish hook is installed.\<close>

type_synonym pp_event = "time_ns \<times> (table \<Rightarrow> table) \<times> bool \<times> pp_op"

fun pp_step :: "pp_event \<Rightarrow> pingpong \<Rightarrow> pingpong" where
  "pp_step (now, sh, hook, PpPing gate i) t = snd (record_ping sh gate hook now i t)"
| "pp_step (now, sh, hook, PpPong i) t = snd (snd (record_pong sh hook now i t))"
| "pp_step (now, sh, hook, PpSweep) t = snd (sweep_pings sh now t)"
| "pp_step (now, sh, hook, PpReconcile i) t = snd (retry_reconcile_pong sh hook now i t)"
| "pp_step (now, sh, hook, PpClear) t = clear_pingpong t"
| "pp_step (now, sh, hook, PpSchedule i) t = snd (schedule_unknown_pong_retry i t)"
| "pp_step (now, sh, hook, PpRetryDone i) t = retry_done i t"

definition pp_ok :: "int \<Rightarrow> pingpong \<Rightarrow> bool" where
  "pp_ok limit t \<longleftrightarrow> distinct (keys (pp_pending t)) \<and> distinct (keys (pp_unknown t)) \<and> pc_max_entries (pp_cfg t) = limit
     \<and> int (length (pp_pending t)) \<le> max limit 4 \<and> int (length (pp_unknown t)) \<le> max limit 4
     \<and> 0 \<le> pp_matched t \<and> pp_matched t + int (length (pp_pending t)) \<le> pp_sent t \<and> int (length (pp_unknown t)) \<le> pp_received t"

lemma evict_shrinks: "length (evict ks m) \<le> length m" "distinct (keys m) \<Longrightarrow> distinct (keys (evict ks m))"
  by (simp_all add: evict_def fold_delete distinct_keys_filter)

lemma capped_size:
  assumes "\<And>m. mset (sh m) = mset m" and "distinct (keys m)" and "int (length m) \<le> max limit 4 + 1"
  shows "int (length (evict (cap_victims sh limit m) m)) \<le> max limit 4"
proof (cases "int (length m) \<le> limit")
  case True
  then show ?thesis by (simp add: cap_victims_def evict_def)
next
  case False
  then have over: "int (length m) > limit" by simp
  note v = cap_victims_oldest(1-3)[OF assms(1,2) over]
  have "length (evict (cap_victims sh limit m) m) + length m div 5 = length m"
    using length_fold_delete[OF assms(2) v(2,3)] v(1) by (simp add: evict_def)
  moreover have "length m div 5 \<ge> 1 \<or> length m \<le> 4" by linarith
  ultimately show ?thesis using assms(3) by linarith
qed

lemma length_update_int: "int (length (AList.update k w m)) \<le> int (length m) + 1"
  using length_update_le[of k w m] by linarith

lemma expire_ok:
  assumes "pp_ok limit t"
  shows "pp_ok limit (snd (expire_pending sh now t))" and "pp_ok limit (snd (expire_unknown sh now t))"
proof -
  let ?p = "evict (map fst (filter (expired (pc_pending_ttl (pp_cfg t)) now) (sh (pp_pending t)))) (pp_pending t)"
  let ?u = "evict (map fst (filter (expired (pc_unknown_ttl (pp_cfg t)) now) (sh (pp_unknown t)))) (pp_unknown t)"
  have "int (length ?p) \<le> int (length (pp_pending t))" "int (length ?u) \<le> int (length (pp_unknown t))"
    by (simp_all add: evict_shrinks)
  with assms show "pp_ok limit (snd (expire_pending sh now t))" and "pp_ok limit (snd (expire_unknown sh now t))"
    by (auto simp: pp_ok_def expire_pending_def expire_unknown_def Let_def evict_shrinks(2))
qed

lemma reconcile_ok:
  assumes "pp_ok limit t"
  shows "pp_ok limit (snd (retry_reconcile_pong sh hook now i t))"
proof -
  define t1 where "t1 = snd (expire_unknown sh now (snd (expire_pending sh now t)))"
  have ok: "pp_ok limit t1" unfolding t1_def by (intro expire_ok assms)
  have "length (AList.delete i (pp_unknown t1)) \<le> length (pp_unknown t1)" by (simp add: AList.delete_eq)
  moreover have "length (AList.delete i (pp_pending t1)) + 1 = length (pp_pending t1)" if "lookup (pp_pending t1) i = Some w" for w
    using ok that by (intro length_delete) (auto simp: pp_ok_def)
  ultimately show ?thesis
    using ok by (cases "lookup (pp_pending t1) i")
      (force simp: retry_reconcile_pong_def t1_def[symmetric] Let_def pp_ok_def distinct_keys_delete)+
qed

lemma pp_step_ok:
  assumes "pp_ok limit t" and "\<And>m. mset (fst (snd x) m) = mset m"
  shows "pp_ok limit (pp_step x t)"
proof -
  obtain now sh hook y where x: "x = (now, sh, hook, y)" by (cases x)
  have sh: "\<And>m. mset (sh m) = mset m" using assms(2) x by simp
  note [simp] = x pp_ok_def Let_def
  show ?thesis
  proof (cases y)
    case (PpPing gate i)
    let ?m = "AList.update i now (pp_pending t)"
    have d: "distinct (keys ?m)" using assms(1) by (simp add: distinct_keys_update)
    have "int (length ?m) \<le> int (length (pp_pending t)) + 1" by (rule length_update_int)
    moreover have "int (length (evict (cap_victims sh limit ?m) ?m)) \<le> max limit 4"
      using assms(1) calculation by (intro capped_size[OF sh d]) simp
    ultimately show ?thesis
      using assms(1) d evict_shrinks(1)[of "cap_victims sh limit ?m" ?m] evict_shrinks(2)[of ?m "cap_victims sh limit ?m"] PpPing
      by (auto simp: record_ping_def enforce_cap_pending_def)
  next
    case (PpPong i)
    show ?thesis
    proof (cases "lookup (pp_pending t) i")
      case None
      let ?m = "AList.update i now (pp_unknown t)"
      have d: "distinct (keys ?m)" using assms(1) by (simp add: distinct_keys_update)
      have "int (length ?m) \<le> int (length (pp_unknown t)) + 1" by (rule length_update_int)
      moreover have "int (length (evict (cap_victims sh limit ?m) ?m)) \<le> max limit 4"
        using assms(1) calculation by (intro capped_size[OF sh d]) simp
      ultimately show ?thesis
        using assms(1) d evict_shrinks(1)[of "cap_victims sh limit ?m" ?m] evict_shrinks(2)[of ?m "cap_victims sh limit ?m"] PpPong None
        by (auto simp: record_pong_def enforce_cap_unknown_def)
    next
      case (Some w)
      have "length (AList.delete i (pp_pending t)) + 1 = length (pp_pending t)"
        using assms(1) Some by (intro length_delete) auto
      with assms(1) PpPong Some show ?thesis
        by (auto simp: record_pong_def record_rtt_def distinct_keys_delete)
    qed
  next
    case PpSweep
    then have "pp_step x t = snd (expire_unknown sh now (snd (expire_pending sh now t)))"
      by (simp add: sweep_pings_def split: prod.split)
    then show ?thesis using expire_ok assms(1) by (simp del: pp_ok_def)
  next
    case (PpReconcile i)
    then show ?thesis using reconcile_ok[OF assms(1)] by (simp del: pp_ok_def)
  qed (use assms(1) in \<open>auto simp: clear_pingpong_def schedule_unknown_pong_retry_def retry_done_def keys_def[of "[]"]\<close>)
qed

text \<open>
  C39. Bounds and accounting. Over any run of pings, pongs, sweeps, reconciliations and clears: neither table
  ever holds more than the configured number of entries (four, for a smaller limit, since the eviction
  rounds a fifth down); no ping is matched twice, so the pongs matched and the pings outstanding are at
  most the pings sent, and the success rate is at most one; the orphan pongs are at most the pongs received.
\<close>

theorem pingpong_accounting:
  assumes "\<And>x. x \<in> set xs \<Longrightarrow> \<forall>m. mset (fst (snd x) m) = mset m" and "t = fold pp_step xs (new_pingpong cfg)"
  shows "int (length (pp_pending t)) \<le> max (pc_max_entries (pingpong_defaults cfg)) 4
    \<and> int (length (pp_unknown t)) \<le> max (pc_max_entries (pingpong_defaults cfg)) 4
    \<and> pp_matched t + int (length (pp_pending t)) \<le> pp_sent t \<and> int (length (pp_unknown t)) \<le> pp_received t"
proof -
  have "pp_ok (pc_max_entries (pingpong_defaults cfg)) (fold pp_step xs (new_pingpong cfg))"
    using assms(1)
  proof (induction xs rule: rev_induct)
    case Nil
    show ?case by (simp add: pp_ok_def new_pingpong_def keys_def)
  next
    case (snoc x xs)
    then show ?case using pp_step_ok[of _ "fold pp_step xs (new_pingpong cfg)" x] by simp
  qed
  with assms(2) show ?thesis by (simp add: pp_ok_def)
qed

lemma evict_expired:
  assumes "distinct (keys m)" and "mset (sh m) = mset m"
  shows "set (evict (map fst (filter P (sh m))) m) = {e \<in> set m. \<not> P e}"
proof -
  have "set (sh m) = set m" using assms(2) by (rule mset_eq_setD)
  moreover have "fst e \<in> fst ` {e \<in> set m. P e} \<longleftrightarrow> P e" if "e \<in> set m" for e
  proof
    assume "fst e \<in> fst ` {e \<in> set m. P e}"
    then obtain e' where "e' \<in> set m" "P e'" "fst e' = fst e" by auto
    with that assms(1) eq_key_imp_eq_value[of m "fst e" "snd e" "snd e'"] show "P e"
      by (metis keys_def prod.collapse)
  qed (use that in auto)
  ultimately show ?thesis by (auto simp: evict_def fold_delete)
qed

text \<open>
  A sweep reports exactly what it drops: the mismatches are the entries whose age has reached their
  lifetime, pending and unknown; these and only these leave the tables, and the mismatch counter grows by
  their number. A second sweep at the same time reports nothing.
\<close>

theorem sweep_reports_the_expired:
  assumes "pp_ok limit t" and "\<And>m. mset (sh m) = mset m" and "sweep_pings sh now t = (out, t')"
  shows "set out = {\<lparr>mm_id = i, mm_kind = MismatchPending, mm_when = w\<rparr> | i w. (i, w) \<in> set (pp_pending t) \<and> now - w \<ge> pc_pending_ttl (pp_cfg t)}
      \<union> {\<lparr>mm_id = i, mm_kind = MismatchUnknown, mm_when = w\<rparr> | i w. (i, w) \<in> set (pp_unknown t) \<and> now - w \<ge> pc_unknown_ttl (pp_cfg t)}
    \<and> set (pp_pending t') = {(i, w) \<in> set (pp_pending t). now - w < pc_pending_ttl (pp_cfg t)}
    \<and> set (pp_unknown t') = {(i, w) \<in> set (pp_unknown t). now - w < pc_unknown_ttl (pp_cfg t)}
    \<and> pp_mismatch t' = pp_mismatch t + int (length out) \<and> fst (sweep_pings sh now t') = []"
proof -
  let ?P = "expired (pc_pending_ttl (pp_cfg t)) now" and ?U = "expired (pc_unknown_ttl (pp_cfg t)) now"
  have d: "distinct (keys (pp_pending t))" "distinct (keys (pp_unknown t))" using assms(1) by (simp_all add: pp_ok_def)
  have set: "set (sh m) = set m" for m using assms(2) by (rule mset_eq_setD)
  have out: "out = map (\<lambda>(i, w). \<lparr>mm_id = i, mm_kind = MismatchPending, mm_when = w\<rparr>) (filter ?P (sh (pp_pending t)))
      @ map (\<lambda>(i, w). \<lparr>mm_id = i, mm_kind = MismatchUnknown, mm_when = w\<rparr>) (filter ?U (sh (pp_unknown t)))"
    and tables: "pp_pending t' = evict (map fst (filter ?P (sh (pp_pending t)))) (pp_pending t)"
      "pp_unknown t' = evict (map fst (filter ?U (sh (pp_unknown t)))) (pp_unknown t)" "pp_cfg t' = pp_cfg t"
      "pp_mismatch t' = pp_mismatch t + int (length out)"
    using assms(3) by (auto simp: sweep_pings_def expire_pending_def expire_unknown_def Let_def)
  have left: "set (pp_pending t') = {e \<in> set (pp_pending t). \<not> ?P e}" "set (pp_unknown t') = {e \<in> set (pp_unknown t). \<not> ?U e}"
    unfolding tables using evict_expired[of "pp_pending t" sh, OF d(1) assms(2)] evict_expired[of "pp_unknown t" sh, OF d(2) assms(2)] by simp_all
  then have "filter ?P (sh (pp_pending t')) = []" "filter ?U (sh (pp_unknown t')) = []"
    by (auto simp: filter_empty_conv set)
  then have "fst (sweep_pings sh now t') = []"
    by (simp add: sweep_pings_def expire_pending_def expire_unknown_def Let_def tables(3))
  moreover have "set out = {\<lparr>mm_id = i, mm_kind = MismatchPending, mm_when = w\<rparr> | i w. (i, w) \<in> set (pp_pending t) \<and> now - w \<ge> pc_pending_ttl (pp_cfg t)}
      \<union> {\<lparr>mm_id = i, mm_kind = MismatchUnknown, mm_when = w\<rparr> | i w. (i, w) \<in> set (pp_unknown t) \<and> now - w \<ge> pc_unknown_ttl (pp_cfg t)}"
    by (force simp: out set expired_def)
  ultimately show ?thesis using left tables(4) by (auto simp: expired_def)
qed

section \<open>Witnesses\<close>

definition demo_pingpong_config :: pingpong_config where
  "demo_pingpong_config = \<lparr>pc_pending_ttl = 0, pc_unknown_ttl = 0, pc_max_entries = 0, pc_threshold = 0, pc_journal_size = 2\<rparr>"

definition demo_pings :: "pp_event list" where
  "demo_pings = [(0, id, True, PpPing False ''a''), (1, rev, True, PpPong ''a''), (2, id, True, PpPing False ''b''), (3, id, True, PpPong ''x'')]"

theorem pingpong_accounting_witness:
  "pp_matched (fold pp_step demo_pings (new_pingpong demo_pingpong_config))
     + int (length (pp_pending (fold pp_step demo_pings (new_pingpong demo_pingpong_config))))
   \<le> pp_sent (fold pp_step demo_pings (new_pingpong demo_pingpong_config))"
proof -
  have "\<forall>m. mset (fst (snd x) m) = mset m" if "x \<in> set demo_pings" for x using that by (auto simp: demo_pings_def)
  from pingpong_accounting[OF this refl] show ?thesis by blast
qed

definition demo_swept :: pingpong where
  "demo_swept = (new_pingpong demo_pingpong_config)\<lparr>pp_pending := [(''a'', 0), (''b'', secs 200)], pp_sent := 2\<rparr>"

theorem sweep_reports_the_expired_witness:
  "set (fst (sweep_pings id (secs 300) demo_swept)) = {\<lparr>mm_id = ''a'', mm_kind = MismatchPending, mm_when = 0\<rparr>}"
proof -
  have ok: "pp_ok 100 demo_swept"
    by (simp add: pp_ok_def demo_swept_def new_pingpong_def pingpong_defaults_def demo_pingpong_config_def keys_def)
  have m: "\<And>m. mset (id m) = mset m" by simp
  have fields: "pp_pending demo_swept = [(''a'', 0), (''b'', secs 200)]" "pp_unknown demo_swept = []"
    "pc_pending_ttl (pp_cfg demo_swept) = secs 300"
    by (simp_all add: demo_swept_def new_pingpong_def pingpong_defaults_def demo_pingpong_config_def)
  have late: "\<not> secs 300 \<le> secs 300 - secs 200" by (simp add: secs_def go_second_def)
  have "(i, w) \<in> set [(''a'', 0), (''b'', secs 200)] \<and> secs 300 \<le> secs 300 - w \<longleftrightarrow> i = ''a'' \<and> w = 0" for i w
    using late by auto
  moreover have "(i, w) \<in> set ([] :: table) \<longleftrightarrow> False" for i w by simp
  ultimately show ?thesis
    using sweep_reports_the_expired[OF ok m surjective_pairing, of "secs 300", THEN conjunct1]
    unfolding fields by (simp only: simp_thms) blast
qed

end
