(* ===== verification/Connection_Recovery.thy ===== *)
theory Connection_Recovery
  imports Central_Machine Circuit_Breaker
begin

text \<open>
  The connection recovery coordinator of a central, \<open>internal/central/coordinators/connection_recovery.go\<close>,
  with the stages of \<open>recovery_stages.go\<close> and the manual reconnect of \<open>adapter/reconnector.go\<close>.

  \<^item> The first part is the coordinator and one definition per section under \<open>mu\<close> or \<open>subMu\<close>. What leaves
    the coordinator (events on the bus, requests to the optional state machine and breaker resetter,
    counters) is appended to \<open>rc_trace\<close>.
  \<^item> A run of a pipeline is a goroutine: it waits for the interface's slot, passes the attempt cap, walks
    the stages and then works off a list of closing actions, one section under the lock each.
    \<open>vstep\<close> interleaves runs, event handlers, the heartbeat and the public operations at that grain.
  \<^item> A stage's \<open>Run\<close> is injected code. It is the set of answers it may give, as a predicate on what
    happened while it ran. An error is known by its text.
\<close>

section \<open>Stages and pipelines\<close>

text \<open>\<open>StageUnset\<close> is the zero value of the string type, \<open>StageReinit\<close> the literal of the reconnector.\<close>

datatype recovery_stage = StageUnset | StageIdle | StageDetecting | StageCooldown | StageTCPChecking
  | StageRPCChecking | StageWarmingUp | StageStabilityCheck | StageReconnecting | StageDataLoading
  | StageSyncHubData | StageRecovered | StageFailed | StageHeartbeat | StageReinit

datatype recovery_result = ResultSuccess | ResultPartial | ResultFailed | ResultMaxRetries | ResultCancelled

text \<open>What happened while a stage ran: how long it took, and \<open>ctx.Err()\<close> at its end.\<close>

record stage_env =
  se_elapsed :: duration
  se_ctx_err :: "string option"

type_synonym recovery_step = "stage_env \<Rightarrow> string option \<Rightarrow> bool"

record pipeline_stage =
  ps_stage :: recovery_stage
  ps_run :: recovery_step
  ps_classify :: "(string \<Rightarrow> failure_reason option) option"

type_synonym pipeline = "pipeline_stage list"

record recovery_stage_deps =
  sd_cooldown :: duration
  sd_warmup :: duration
  sd_tcp_probe :: "recovery_step option"
  sd_rpc_probe :: "recovery_step option"
  sd_stability_probe :: "recovery_step option"
  sd_reconnect :: "recovery_step option"
  sd_load_data :: "recovery_step option"

definition noop_stage :: recovery_step where
  "noop_stage = (\<lambda>env answer. answer = None)"

definition probe_stage :: "recovery_step option \<Rightarrow> recovery_step" where
  "probe_stage probe = (case probe of None \<Rightarrow> noop_stage | Some p \<Rightarrow> p)"

text \<open>The timer and the context race; when both are ready the select takes either.\<close>

definition cooldown_stage :: "duration \<Rightarrow> recovery_step" where
  "cooldown_stage d =
     (if d \<le> 0 then noop_stage
      else (\<lambda>env answer. d \<le> se_elapsed env \<and> answer = None \<or> se_ctx_err env \<noteq> None \<and> answer = se_ctx_err env))"

definition plain_stage :: "recovery_stage \<Rightarrow> recovery_step \<Rightarrow> pipeline_stage" where
  "plain_stage stage step = \<lparr>ps_stage = stage, ps_run = step, ps_classify = None\<rparr>"

definition default_recovery_pipeline :: "recovery_stage_deps \<Rightarrow> pipeline" where
  "default_recovery_pipeline deps =
     [plain_stage StageCooldown (cooldown_stage (sd_cooldown deps)),
      plain_stage StageTCPChecking (probe_stage (sd_tcp_probe deps)),
      plain_stage StageRPCChecking (probe_stage (sd_rpc_probe deps)),
      plain_stage StageWarmingUp (cooldown_stage (sd_warmup deps)),
      plain_stage StageStabilityCheck (probe_stage (sd_stability_probe deps)),
      plain_stage StageReconnecting (probe_stage (sd_reconnect deps)),
      plain_stage StageDataLoading (probe_stage (sd_load_data deps)),
      plain_stage StageRecovered noop_stage]"

section \<open>The coordinator\<close>

record history_entry =
  he_started_at :: time_ns
  he_duration :: duration
  he_result :: recovery_result
  he_reason :: "failure_reason option"

record interface_state =
  is_attempts :: int
  is_consecutive_failures :: int
  is_last_attempt :: "time_ns option"
  is_last_success :: "time_ns option"
  is_current_stage :: recovery_stage

record incident_entry =
  ie_timestamp :: "time_ns option"
  ie_interface :: string
  ie_stage :: recovery_stage
  ie_reason :: failure_reason
  ie_message :: string

datatype recovery_event =
    RecoveryStarted string
  | RecoveryStageChanged string recovery_stage recovery_stage int
  | RecoveryAttempted string int int recovery_stage bool string
  | RecoveryFailed string failure_reason int recovery_stage bool
  | RecoveryCompleted string recovery_result int
  | HeartbeatTimerFired "string list"

datatype recovery_output = Published string recovery_event | Transitioned central_state | BreakersReset string
  | Counted recovery_result

record recovery =
  rc_central :: string
  rc_max_attempts :: int
  rc_base_delay :: duration
  rc_max_delay :: duration
  rc_heartbeat_interval :: duration
  rc_active :: "string \<rightharpoonup> nat"
  rc_attempts :: "string \<rightharpoonup> int"
  rc_state :: "string \<rightharpoonup> interface_state"
  rc_history :: "string \<rightharpoonup> history_entry list"
  rc_armed :: "string set"
  rc_default_pipeline :: pipeline
  rc_pipelines :: "string \<rightharpoonup> pipeline"
  rc_machine :: bool
  rc_resetter :: bool
  rc_subscribed :: bool
  rc_unsubscribers :: nat
  rc_listening :: nat
  rc_heartbeats :: nat
  rc_stopped :: bool
  rc_run_cancelled :: bool
  rc_incidents :: "incident_entry list"
  rc_hub :: bool
  rc_session_clearer :: bool
  rc_trace :: "recovery_output list"

definition default_max_recovery_attempts :: int where
  "default_max_recovery_attempts = 8"

definition default_heartbeat_interval :: duration where
  "default_heartbeat_interval = secs 60"

definition default_base_retry_delay :: duration where
  "default_base_retry_delay = secs 2"

definition default_max_retry_delay :: duration where
  "default_max_retry_delay = secs 120"

definition recovery_history_size :: nat where
  "recovery_history_size = 20"

definition incident_ring_size :: nat where
  "incident_ring_size = 100"

definition new_recovery_with_limit :: "string \<Rightarrow> int \<Rightarrow> recovery" where
  "new_recovery_with_limit name max_attempts =
     \<lparr>rc_central = name, rc_max_attempts = max_attempts, rc_base_delay = default_base_retry_delay,
      rc_max_delay = default_max_retry_delay, rc_heartbeat_interval = default_heartbeat_interval,
      rc_active = Map.empty, rc_attempts = Map.empty, rc_state = Map.empty, rc_history = Map.empty, rc_armed = {},
      rc_default_pipeline = [], rc_pipelines = Map.empty, rc_machine = False, rc_resetter = False,
      rc_subscribed = False, rc_unsubscribers = 0, rc_listening = 0, rc_heartbeats = 0, rc_stopped = False, rc_run_cancelled = False,
      rc_incidents = [], rc_hub = False, rc_session_clearer = False, rc_trace = []\<rparr>"

definition new_recovery :: "string \<Rightarrow> recovery" where
  "new_recovery name = new_recovery_with_limit name default_max_recovery_attempts"

text \<open>Reading a Go map of counters or slices gives the zero value for a missing key.\<close>

definition attempt_count :: "string \<Rightarrow> recovery \<Rightarrow> int" where
  "attempt_count i c = (case rc_attempts c i of None \<Rightarrow> 0 | Some n \<Rightarrow> n)"

definition recovery_history :: "string \<Rightarrow> recovery \<Rightarrow> history_entry list" where
  "recovery_history i c = (case rc_history c i of None \<Rightarrow> [] | Some h \<Rightarrow> h)"

subsection \<open>Wiring\<close>

definition with_heartbeat_interval :: "duration \<Rightarrow> recovery \<Rightarrow> recovery" where
  "with_heartbeat_interval d c = (if 0 < d then c\<lparr>rc_heartbeat_interval := d\<rparr> else c)"

definition set_backoff :: "duration \<Rightarrow> duration \<Rightarrow> recovery \<Rightarrow> recovery" where
  "set_backoff base maximum c =
     (let c = (if 0 < base then c\<lparr>rc_base_delay := base\<rparr> else c)
      in if 0 < maximum then c\<lparr>rc_max_delay := maximum\<rparr> else c)"

definition with_state_machine :: "bool \<Rightarrow> recovery \<Rightarrow> recovery" where
  "with_state_machine wired c = c\<lparr>rc_machine := wired\<rparr>"

definition with_circuit_breaker_resetter :: "bool \<Rightarrow> recovery \<Rightarrow> recovery" where
  "with_circuit_breaker_resetter wired c = c\<lparr>rc_resetter := wired\<rparr>"

definition with_default_pipeline :: "pipeline \<Rightarrow> recovery \<Rightarrow> recovery" where
  "with_default_pipeline p c = c\<lparr>rc_default_pipeline := p\<rparr>"

definition with_pipeline_for :: "string \<Rightarrow> pipeline \<Rightarrow> recovery \<Rightarrow> recovery" where
  "with_pipeline_for i p c = c\<lparr>rc_pipelines := (rc_pipelines c)(i := (if p = [] then None else Some p))\<rparr>"

definition arm_interface :: "string \<Rightarrow> recovery \<Rightarrow> recovery" where
  "arm_interface i c = (if i = '''' then c else c\<lparr>rc_armed := insert i (rc_armed c)\<rparr>)"

definition set_hub_refresher :: "bool \<Rightarrow> recovery \<Rightarrow> recovery" where
  "set_hub_refresher wired c = c\<lparr>rc_hub := wired\<rparr>"

definition with_json_rpc_session_clearer :: "bool \<Rightarrow> recovery \<Rightarrow> recovery" where
  "with_json_rpc_session_clearer wired c = c\<lparr>rc_session_clearer := wired\<rparr>"

subsection \<open>Reads\<close>

definition registered_pipeline :: "string \<Rightarrow> recovery \<Rightarrow> pipeline" where
  "registered_pipeline i c = (case rc_pipelines c i of None \<Rightarrow> [] | Some p \<Rightarrow> p)"

definition pipeline_for :: "string \<Rightarrow> recovery \<Rightarrow> pipeline option" where
  "pipeline_for i c =
     (if registered_pipeline i c \<noteq> [] then Some (registered_pipeline i c)
      else if rc_default_pipeline c \<noteq> [] then Some (rc_default_pipeline c) else None)"

definition interface_ids :: "recovery \<Rightarrow> string set" where
  "interface_ids c = dom (rc_pipelines c) \<union> dom (rc_active c)"

definition in_recovery_for :: "string \<Rightarrow> recovery \<Rightarrow> bool" where
  "in_recovery_for i c \<longleftrightarrow> rc_active c i \<noteq> None"

definition in_recovery :: "recovery \<Rightarrow> bool" where
  "in_recovery c \<longleftrightarrow> rc_active c \<noteq> Map.empty"

definition current_stage :: "string \<Rightarrow> recovery \<Rightarrow> recovery_stage" where
  "current_stage i c = (case rc_state c i of None \<Rightarrow> StageIdle | Some s \<Rightarrow> is_current_stage s)"

text \<open>The doubling loop of \<open>nextRetryDelayLocked\<close>, in 64-bit arithmetic: \<open>n\<close> rounds are left.\<close>

definition wrap64 :: "int \<Rightarrow> int" where
  "wrap64 x = signed_take_bit 63 x"

fun double_delay :: "duration \<Rightarrow> nat \<Rightarrow> duration \<Rightarrow> duration" where
  "double_delay maximum 0 delay = (if maximum < delay then maximum else delay)"
| "double_delay maximum (Suc n) delay =
     (if maximum \<le> wrap64 (delay * 2) then maximum else double_delay maximum n (wrap64 (delay * 2)))"

definition next_retry_delay :: "string \<Rightarrow> recovery \<Rightarrow> duration" where
  "next_retry_delay i c =
     (case rc_state c i of
        None \<Rightarrow> rc_base_delay c
      | Some s \<Rightarrow> if is_consecutive_failures s = 0 then rc_base_delay c
                  else double_delay (rc_max_delay c) (nat (is_consecutive_failures s - 1)) (rc_base_delay c))"

definition next_retry_after :: "string \<Rightarrow> recovery \<Rightarrow> time_ns option" where
  "next_retry_after i c =
     (case rc_state c i of None \<Rightarrow> None
      | Some s \<Rightarrow> (case is_last_attempt s of None \<Rightarrow> None | Some t \<Rightarrow> Some (t + next_retry_delay i c)))"

definition zero_interface_state :: interface_state where
  "zero_interface_state = \<lparr>is_attempts = 0, is_consecutive_failures = 0, is_last_attempt = None,
     is_last_success = None, is_current_stage = StageUnset\<rparr>"

definition state_snapshot :: "string \<Rightarrow> recovery \<Rightarrow> interface_state \<times> time_ns option" where
  "state_snapshot i c =
     (case rc_state c i of Some s \<Rightarrow> (s, next_retry_after i c) | None \<Rightarrow> (zero_interface_state, None))"

record recovery_view =
  rv_attempts :: int
  rv_consecutive_failures :: int
  rv_can_retry :: bool

definition metrics_recovery_states :: "recovery \<Rightarrow> (string \<rightharpoonup> recovery_view)" where
  "metrics_recovery_states c i =
     map_option (\<lambda>s. \<lparr>rv_attempts = is_attempts s, rv_consecutive_failures = is_consecutive_failures s,
        rv_can_retry = \<not> (0 < rc_max_attempts c \<and> rc_max_attempts c \<le> attempt_count i c)\<rparr>) (rc_state c i)"

subsection \<open>Sections under the lock\<close>

definition ensure_state :: "string \<Rightarrow> recovery \<Rightarrow> interface_state" where
  "ensure_state i c = (case rc_state c i of None \<Rightarrow> zero_interface_state | Some s \<Rightarrow> s)"

definition set_current_stage :: "string \<Rightarrow> recovery_stage \<Rightarrow> recovery \<Rightarrow> recovery" where
  "set_current_stage i stage c = c\<lparr>rc_state := (rc_state c)(i \<mapsto> (ensure_state i c)\<lparr>is_current_stage := stage\<rparr>)\<rparr>"

definition keep_last :: "nat \<Rightarrow> 'a list \<Rightarrow> 'a list" where
  "keep_last n xs = (if n < length xs then drop (length xs - n) xs else xs)"

definition append_history :: "string \<Rightarrow> history_entry \<Rightarrow> recovery \<Rightarrow> recovery" where
  "append_history i e c =
     c\<lparr>rc_history := (rc_history c)(i \<mapsto> keep_last recovery_history_size (recovery_history i c @ [e]))\<rparr>"

definition bump_attempt :: "string \<Rightarrow> recovery \<Rightarrow> recovery" where
  "bump_attempt i c = c\<lparr>rc_attempts := (rc_attempts c)(i \<mapsto> attempt_count i c + 1)\<rparr>"

definition reset_attempts_raw :: "string \<Rightarrow> recovery \<Rightarrow> recovery" where
  "reset_attempts_raw i c = c\<lparr>rc_attempts := (rc_attempts c)(i := None)\<rparr>"

definition clear_failures :: "string \<Rightarrow> recovery \<Rightarrow> recovery" where
  "clear_failures i c =
     (case rc_state c i of None \<Rightarrow> c
      | Some s \<Rightarrow> c\<lparr>rc_state := (rc_state c)(i \<mapsto> s\<lparr>is_consecutive_failures := 0\<rparr>)\<rparr>)"

definition allow_one_recovery_attempt :: "string \<Rightarrow> recovery \<Rightarrow> recovery" where
  "allow_one_recovery_attempt i c =
     (if rc_max_attempts c = 0 then c
      else if rc_max_attempts c - 1 < attempt_count i c
      then c\<lparr>rc_attempts := (rc_attempts c)(i \<mapsto> rc_max_attempts c - 1)\<rparr> else c)"

definition record_outcome_of :: "time_ns \<Rightarrow> string \<Rightarrow> time_ns \<Rightarrow> duration \<Rightarrow> recovery_result \<Rightarrow> failure_reason \<Rightarrow> recovery \<Rightarrow> recovery" where
  "record_outcome_of now i started dur result reason c =
     (let s = ensure_state i c
      in append_history i \<lparr>he_started_at = started, he_duration = dur, he_result = result, he_reason = Some reason\<rparr>
           (c\<lparr>rc_state := (rc_state c)(i \<mapsto> s\<lparr>is_attempts := is_attempts s + 1,
               is_consecutive_failures := is_consecutive_failures s + 1, is_last_attempt := Some now\<rparr>)\<rparr>))"

definition record_success_of :: "time_ns \<Rightarrow> string \<Rightarrow> time_ns \<Rightarrow> duration \<Rightarrow> recovery \<Rightarrow> recovery" where
  "record_success_of now i started dur c =
     (let c = reset_attempts_raw i c; s = ensure_state i c
      in append_history i \<lparr>he_started_at = started, he_duration = dur, he_result = ResultSuccess, he_reason = None\<rparr>
           (c\<lparr>rc_state := (rc_state c)(i \<mapsto> s\<lparr>is_attempts := is_attempts s + 1, is_consecutive_failures := 0,
               is_last_attempt := Some now, is_last_success := Some now\<rparr>)\<rparr>))"

definition publish_recovery :: "recovery_event \<Rightarrow> recovery \<Rightarrow> recovery" where
  "publish_recovery e c = c\<lparr>rc_trace := rc_trace c @ [Published (rc_central c) e]\<rparr>"

definition request_transition :: "central_state \<Rightarrow> recovery \<Rightarrow> recovery" where
  "request_transition s c = (if rc_machine c then c\<lparr>rc_trace := rc_trace c @ [Transitioned s]\<rparr> else c)"

definition reset_circuit_breakers :: "string \<Rightarrow> recovery \<Rightarrow> recovery" where
  "reset_circuit_breakers i c = (if rc_resetter c then c\<lparr>rc_trace := rc_trace c @ [BreakersReset i]\<rparr> else c)"

definition append_incident :: "time_ns \<Rightarrow> incident_entry \<Rightarrow> recovery \<Rightarrow> recovery" where
  "append_incident now e c =
     (let e = (if ie_timestamp e = None then e\<lparr>ie_timestamp := Some now\<rparr> else e)
      in c\<lparr>rc_incidents := keep_last incident_ring_size (rc_incidents c @ [e])\<rparr>)"

text \<open>The three reloads of \<open>RefreshHubDataAfterRecovery\<close>: the step's answer and what it called and warned of.\<close>

definition best_effort_hub_refresh :: "string \<Rightarrow> string option \<Rightarrow> string list" where
  "best_effort_hub_refresh op answer = (case answer of None \<Rightarrow> [] | Some err \<Rightarrow> [op])"

definition refresh_hub_data_after_recovery :: "(string \<Rightarrow> string option) \<Rightarrow> recovery \<Rightarrow> string option \<times> string list \<times> string list" where
  "refresh_hub_data_after_recovery answer c =
     (if rc_hub c
      then (let ops = [''system_update'', ''sysvars'', ''programs'']
            in (None, ops, concat (map (\<lambda>op. best_effort_hub_refresh op (answer op)) ops)))
      else (None, [], []))"

definition clear_json_rpc_session_before_recovery :: "recovery \<Rightarrow> string option \<times> nat" where
  "clear_json_rpc_session_before_recovery c = (None, if rc_session_clearer c then 1 else 0)"

subsection \<open>Triggers and handlers\<close>

datatype skip_reason = CoordinatorStopped | BringupPending | NoPipelineRegistered | AlreadyActive

text \<open>\<open>triggerRecovery\<close> up to the decision, and the final check under \<open>subMu\<close> that registers the run.\<close>

definition trigger_gate :: "string \<Rightarrow> recovery \<Rightarrow> skip_reason + pipeline" where
  "trigger_gate i c =
     (let p = (if registered_pipeline i c = [] then rc_default_pipeline c else registered_pipeline i c)
      in if rc_stopped c then Inl CoordinatorStopped
         else if i \<notin> rc_armed c then Inl BringupPending
         else if p = [] then Inl NoPipelineRegistered
         else if rc_active c i \<noteq> None then Inl AlreadyActive
         else Inr p)"

definition trigger_commit :: "recovery \<Rightarrow> bool" where
  "trigger_commit c \<longleftrightarrow> \<not> rc_stopped c"

datatype bus_event = ConnectionLost string string
  | BreakerChanged string string circuit_state circuit_state
  | HeartbeatFired string "string list"
  | CentralChanged string central_state

datatype handler_op = HAllow string | HTrigger string | HCommit string pipeline | HReset string | HClearFailures string

text \<open>The four handlers of \<open>Subscribe\<close>; \<open>ids\<close> is the order in which \<open>interfaceIDs\<close> lists the interfaces.\<close>

fun handler_ops :: "bus_event \<Rightarrow> string list \<Rightarrow> recovery \<Rightarrow> handler_op list" where
  "handler_ops (ConnectionLost name i) ids c = (if name \<noteq> rc_central c then [] else [HTrigger i])"
| "handler_ops (BreakerChanged name i from target) ids c =
     (if name \<noteq> rc_central c then []
      else (case target of
              CircuitOpen \<Rightarrow> [HTrigger i]
            | CircuitClosed \<Rightarrow> if from = CircuitHalfOpen then [HTrigger i] else []
            | CircuitHalfOpen \<Rightarrow> []))"
| "handler_ops (HeartbeatFired name is) ids c =
     (if name \<noteq> rc_central c then [] else concat (map (\<lambda>i. [HAllow i, HTrigger i]) is))"
| "handler_ops (CentralChanged name target) ids c =
     (if name \<noteq> rc_central c then [] else if target = CentralFailed then map HTrigger ids else [])"

text \<open>\<open>ResetAttempts\<close> locks twice.\<close>

definition reset_attempts_ops :: "string \<Rightarrow> handler_op list" where
  "reset_attempts_ops i = [HReset i, HClearFailures i]"

definition subscribe_begin :: "recovery \<Rightarrow> recovery option" where
  "subscribe_begin c =
     (if rc_stopped c \<or> rc_subscribed c then None
      else Some (c\<lparr>rc_subscribed := True, rc_listening := rc_listening c + 1\<rparr>))"

definition subscribe_finish :: "recovery \<Rightarrow> recovery" where
  "subscribe_finish c = c\<lparr>rc_unsubscribers := rc_unsubscribers c + 1, rc_heartbeats := rc_heartbeats c + 1\<rparr>"

definition stop_coordinator :: "recovery \<Rightarrow> recovery" where
  "stop_coordinator c =
     (if rc_stopped c then c
      else c\<lparr>rc_stopped := True, rc_subscribed := False, rc_unsubscribers := 0,
             rc_listening := rc_listening c - rc_unsubscribers c\<rparr>)"

definition cancel_runs :: "recovery \<Rightarrow> recovery" where
  "cancel_runs c = c\<lparr>rc_run_cancelled := True\<rparr>"

definition exhausted_interfaces :: "recovery \<Rightarrow> string set" where
  "exhausted_interfaces c = {i \<in> dom (rc_state c). rc_max_attempts c \<le> attempt_count i c}"

definition fire_heartbeat_if_exhausted :: "string list \<Rightarrow> recovery \<Rightarrow> recovery" where
  "fire_heartbeat_if_exhausted exhausted c =
     (if rc_max_attempts c = 0 \<or> exhausted = [] then c else publish_recovery (HeartbeatTimerFired exhausted) c)"

section \<open>Runs\<close>

text \<open>
  What is left of a run once its outcome is known. The last three are the deferred function of
  \<open>runInternal\<close> (give the slot back, close the channel) and the counter of \<open>Run\<close>.
\<close>

datatype closing =
    CSetStage recovery_stage
  | CBump
  | CRecord "time_ns option" recovery_result failure_reason
  | CSuccess time_ns
  | CTransition central_state
  | CResetBreakers
  | CAttempted int int recovery_stage bool string
  | CFailed "time_ns option" failure_reason recovery_stage bool
  | CCompleted time_ns
  | CRelease
  | CClose
  | CCount recovery_result

definition leaving :: "recovery_result \<Rightarrow> closing list" where
  "leaving r = [CRelease, CClose, CCount r]"

definition exhausted_closing :: "closing list" where
  "exhausted_closing = [CRecord None ResultFailed ReasonExhausted, CTransition CentralFailed,
     CFailed None ReasonExhausted StageFailed True] @ leaving ResultFailed"

record walk =
  wk_start :: time_ns
  wk_entered_at :: time_ns
  wk_from :: recovery_stage
  wk_attempt :: int
  wk_max_attempts :: int

definition classify_failure :: "pipeline_stage \<Rightarrow> string \<Rightarrow> failure_reason" where
  "classify_failure step err =
     (case ps_classify step of None \<Rightarrow> ReasonInternal
      | Some f \<Rightarrow> (case f err of None \<Rightarrow> ReasonInternal | Some r \<Rightarrow> r))"

definition failed_closing :: "pipeline_stage \<Rightarrow> string \<Rightarrow> walk \<Rightarrow> closing list" where
  "failed_closing step err w =
     (let reason = classify_failure step err
      in [CSetStage StageFailed, CBump, CRecord (Some (wk_start w)) ResultFailed reason, CTransition CentralFailed,
          CAttempted (wk_attempt w) (wk_max_attempts w) (ps_stage step) False err,
          CFailed (Some (wk_start w)) reason (ps_stage step) (reason = ReasonExhausted)] @ leaving ResultFailed)"

definition cancelled_closing :: "pipeline_stage \<Rightarrow> walk \<Rightarrow> closing list" where
  "cancelled_closing step w =
     [CBump, CRecord (Some (wk_start w)) ResultCancelled ReasonTimeout,
      CFailed (Some (wk_start w)) ReasonTimeout (ps_stage step) False] @ leaving ResultCancelled"

definition success_closing :: "walk \<Rightarrow> closing list" where
  "success_closing w =
     [CSetStage StageIdle, CResetBreakers, CSuccess (wk_start w), CTransition CentralRunning,
      CAttempted (wk_attempt w) (wk_max_attempts w) StageRecovered True '''',
      CCompleted (wk_start w)] @ leaving ResultSuccess"

fun perform :: "time_ns \<Rightarrow> nat \<Rightarrow> string \<Rightarrow> closing \<Rightarrow> recovery \<Rightarrow> recovery" where
  "perform now n i (CSetStage stage) c = set_current_stage i stage c"
| "perform now n i CBump c = bump_attempt i c"
| "perform now n i (CRecord started result reason) c =
     (case started of None \<Rightarrow> record_outcome_of now i now 0 result reason c
      | Some start \<Rightarrow> record_outcome_of now i start (now - start) result reason c)"
| "perform now n i (CSuccess start) c = record_success_of now i start (now - start) c"
| "perform now n i (CTransition s) c = request_transition s c"
| "perform now n i CResetBreakers c = reset_circuit_breakers i c"
| "perform now n i (CAttempted attempt maximum stage ok err) c =
     publish_recovery (RecoveryAttempted i attempt maximum stage ok err) c"
| "perform now n i (CFailed started reason stage manual) c =
     publish_recovery (RecoveryFailed i reason (case started of None \<Rightarrow> 0 | Some start \<Rightarrow> (now - start) div go_millisecond)
       stage manual) c"
| "perform now n i (CCompleted start) c =
     publish_recovery (RecoveryCompleted i ResultSuccess ((now - start) div go_millisecond)) c"
| "perform now n i CRelease c =
     (if rc_active c i = Some n then c\<lparr>rc_active := (rc_active c)(i := None)\<rparr> else c)"
| "perform now n i CClose c = c"
| "perform now n i (CCount r) c = c\<lparr>rc_trace := rc_trace c @ [Counted r]\<rparr>"

datatype run_phase =
    RAtLock
  | RBlocked nat
  | REntered
  | RStarting
  | RWalking pipeline walk
  | RInStage pipeline_stage pipeline walk
  | RAfterStage pipeline_stage pipeline walk
  | RClosing "closing list" recovery_result
  | RReturned recovery_result

text \<open>\<open>ru_answers\<close> is a history variable: the stages that ended, with their answers.\<close>

record recovery_run =
  ru_interface :: string
  ru_pipeline :: pipeline
  ru_background :: bool
  ru_cancelled :: bool
  ru_phase :: run_phase
  ru_answers :: "(pipeline_stage \<times> string option) list"

definition fresh_run :: "string \<Rightarrow> pipeline \<Rightarrow> bool \<Rightarrow> recovery_run" where
  "fresh_run i p background = \<lparr>ru_interface = i, ru_pipeline = p, ru_background = background, ru_cancelled = False,
     ru_phase = RAtLock, ru_answers = []\<rparr>"

definition ctx_done :: "recovery \<Rightarrow> recovery_run \<Rightarrow> bool" where
  "ctx_done c r \<longleftrightarrow> (if ru_background r then rc_run_cancelled c else ru_cancelled r)"

text \<open>The first section of \<open>runInternal\<close>: take the slot, or the channel to wait for.\<close>

definition enter_or_block :: "nat \<Rightarrow> string \<Rightarrow> recovery \<Rightarrow> run_phase \<times> recovery" where
  "enter_or_block n i c =
     (case rc_active c i of Some existing \<Rightarrow> (RBlocked existing, c)
      | None \<Rightarrow> (REntered, c\<lparr>rc_active := (rc_active c)(i \<mapsto> n)\<rparr>))"

definition attempts_exhausted :: "string \<Rightarrow> recovery \<Rightarrow> bool" where
  "attempts_exhausted i c \<longleftrightarrow> 0 < rc_max_attempts c \<and> rc_max_attempts c \<le> attempt_count i c"

definition begin_run :: "time_ns \<Rightarrow> string \<Rightarrow> recovery \<Rightarrow> walk \<times> recovery" where
  "begin_run now i c =
     (\<lparr>wk_start = now, wk_entered_at = now, wk_from = StageIdle, wk_attempt = attempt_count i c + 1,
       wk_max_attempts = rc_max_attempts c\<rparr>,
      publish_recovery (RecoveryStarted i) (request_transition CentralRecovering c))"

definition enter_stage :: "time_ns \<Rightarrow> string \<Rightarrow> pipeline_stage \<Rightarrow> walk \<Rightarrow> recovery \<Rightarrow> walk \<times> recovery" where
  "enter_stage now i step w c =
     (w\<lparr>wk_from := ps_stage step, wk_entered_at := now\<rparr>,
      publish_recovery (RecoveryStageChanged i (wk_from w) (ps_stage step) ((now - wk_entered_at w) div go_millisecond))
        (set_current_stage i (ps_stage step) c))"

text \<open>The manual reconnect: the pipeline it runs, if there is one, and how it reads the result.\<close>

definition reconnect_pipeline :: "recovery_step option \<Rightarrow> string \<Rightarrow> recovery \<Rightarrow> pipeline option" where
  "reconnect_pipeline step i c =
     (case step of Some run \<Rightarrow> Some [plain_stage StageReinit run] | None \<Rightarrow> pipeline_for i c)"

definition reconnect_result :: "recovery_result \<Rightarrow> recovery_result + unit" where
  "reconnect_result r = (if r \<noteq> ResultSuccess then Inl r else Inr ())"

section \<open>The system\<close>

datatype wiring_op =
    WBackoff duration duration
  | WHeartbeat duration
  | WMachine bool
  | WResetter bool
  | WDefaultPipeline pipeline
  | WPipelineFor string pipeline
  | WArm string
  | WHub bool
  | WSessionClearer bool
  | WIncident incident_entry

fun apply_wiring :: "time_ns \<Rightarrow> wiring_op \<Rightarrow> recovery \<Rightarrow> recovery" where
  "apply_wiring now (WBackoff base maximum) c = set_backoff base maximum c"
| "apply_wiring now (WHeartbeat d) c = with_heartbeat_interval d c"
| "apply_wiring now (WMachine w) c = with_state_machine w c"
| "apply_wiring now (WResetter w) c = with_circuit_breaker_resetter w c"
| "apply_wiring now (WDefaultPipeline p) c = with_default_pipeline p c"
| "apply_wiring now (WPipelineFor i p) c = with_pipeline_for i p c"
| "apply_wiring now (WArm i) c = arm_interface i c"
| "apply_wiring now (WHub w) c = set_hub_refresher w c"
| "apply_wiring now (WSessionClearer w) c = with_json_rpc_session_clearer w c"
| "apply_wiring now (WIncident e) c = append_incident now e c"

text \<open>
  \<open>rs_ledger\<close> is a history variable: the pipelines started, the attempts counted, the successes, the
  manual resets and the attempts the heartbeat granted, per interface.
\<close>

datatype ledger_entry = LStarted | LBumped | LSucceeded | LReset | LGranted

record vsys =
  rs_coord :: recovery
  rs_runs :: "nat \<rightharpoonup> recovery_run"
  rs_next :: nat
  rs_done :: "nat set"
  rs_handlers :: "nat \<rightharpoonup> handler_op list"
  rs_subscribing :: nat
  rs_ledger :: "(string \<times> ledger_entry) list"

definition set_phase :: "nat \<Rightarrow> recovery_run \<Rightarrow> run_phase \<Rightarrow> vsys \<Rightarrow> vsys" where
  "set_phase n r ph s = s\<lparr>rs_runs := (rs_runs s)(n \<mapsto> r\<lparr>ru_phase := ph\<rparr>)\<rparr>"

definition spawn_run :: "recovery_run \<Rightarrow> vsys \<Rightarrow> vsys" where
  "spawn_run r s = s\<lparr>rs_runs := (rs_runs s)(rs_next s \<mapsto> r), rs_next := rs_next s + 1\<rparr>"

definition log_entry :: "string \<Rightarrow> ledger_entry \<Rightarrow> vsys \<Rightarrow> vsys" where
  "log_entry i e s = s\<lparr>rs_ledger := rs_ledger s @ [(i, e)]\<rparr>"

definition closing_entries :: "string \<Rightarrow> closing \<Rightarrow> (string \<times> ledger_entry) list" where
  "closing_entries i a = (case a of CBump \<Rightarrow> [(i, LBumped)] | CSuccess start \<Rightarrow> [(i, LSucceeded)] | _ \<Rightarrow> [])"

definition granted_entries :: "string \<Rightarrow> recovery \<Rightarrow> (string \<times> ledger_entry) list" where
  "granted_entries i c =
     (if rc_max_attempts c \<noteq> 0 \<and> rc_max_attempts c - 1 < attempt_count i c then [(i, LGranted)] else [])"

inductive vstep :: "vsys \<Rightarrow> vsys \<Rightarrow> bool" where
  s_wire: "vstep s (s\<lparr>rs_coord := apply_wiring now w (rs_coord s)\<rparr>)"
| s_subscribe: "subscribe_begin (rs_coord s) = Some c \<Longrightarrow> vstep s (s\<lparr>rs_coord := c, rs_subscribing := rs_subscribing s + 1\<rparr>)"
| s_subscribed: "0 < rs_subscribing s \<Longrightarrow>
    vstep s (s\<lparr>rs_coord := subscribe_finish (rs_coord s), rs_subscribing := rs_subscribing s - 1\<rparr>)"
| s_stop: "vstep s (s\<lparr>rs_coord := stop_coordinator (rs_coord s)\<rparr>)"
| s_cancel_runs: "rc_stopped (rs_coord s) \<Longrightarrow> vstep s (s\<lparr>rs_coord := cancel_runs (rs_coord s)\<rparr>)"
| s_tick: "0 < rc_heartbeats (rs_coord s) \<Longrightarrow> distinct ids \<Longrightarrow> set ids = exhausted_interfaces (rs_coord s) \<Longrightarrow>
    vstep s (s\<lparr>rs_coord := fire_heartbeat_if_exhausted ids (rs_coord s)\<rparr>)"
| s_loop_exit: "rc_stopped (rs_coord s) \<Longrightarrow> 0 < rc_heartbeats (rs_coord s) \<Longrightarrow>
    vstep s (s\<lparr>rs_coord := (rs_coord s)\<lparr>rc_heartbeats := rc_heartbeats (rs_coord s) - 1\<rparr>\<rparr>)"
| s_event: "0 < rc_listening (rs_coord s) \<Longrightarrow> rs_handlers s h = None \<Longrightarrow>
    distinct ids \<Longrightarrow> set ids = interface_ids (rs_coord s) \<Longrightarrow>
    vstep s (s\<lparr>rs_handlers := (rs_handlers s)(h \<mapsto> handler_ops e ids (rs_coord s))\<rparr>)"
| s_handled: "rs_handlers s h = Some [] \<Longrightarrow> vstep s (s\<lparr>rs_handlers := (rs_handlers s)(h := None)\<rparr>)"
| s_allow: "rs_handlers s h = Some (HAllow i # ops) \<Longrightarrow>
    vstep s (s\<lparr>rs_handlers := (rs_handlers s)(h \<mapsto> ops), rs_coord := allow_one_recovery_attempt i (rs_coord s),
       rs_ledger := rs_ledger s @ granted_entries i (rs_coord s)\<rparr>)"
| s_skip: "rs_handlers s h = Some (HTrigger i # ops) \<Longrightarrow> trigger_gate i (rs_coord s) = Inl why \<Longrightarrow>
    vstep s (s\<lparr>rs_handlers := (rs_handlers s)(h \<mapsto> ops)\<rparr>)"
| s_decide: "rs_handlers s h = Some (HTrigger i # ops) \<Longrightarrow> trigger_gate i (rs_coord s) = Inr p \<Longrightarrow>
    vstep s (s\<lparr>rs_handlers := (rs_handlers s)(h \<mapsto> HCommit i p # ops)\<rparr>)"
| s_commit: "rs_handlers s h = Some (HCommit i p # ops) \<Longrightarrow> trigger_commit (rs_coord s) \<Longrightarrow>
    vstep s (spawn_run (fresh_run i p True) (s\<lparr>rs_handlers := (rs_handlers s)(h \<mapsto> ops)\<rparr>))"
| s_too_late: "rs_handlers s h = Some (HCommit i p # ops) \<Longrightarrow> \<not> trigger_commit (rs_coord s) \<Longrightarrow>
    vstep s (s\<lparr>rs_handlers := (rs_handlers s)(h \<mapsto> ops)\<rparr>)"
| s_reconnect: "reconnect_pipeline step i (rs_coord s) = Some p \<Longrightarrow> vstep s (spawn_run (fresh_run i p False) s)"
| s_reset_attempts: "rs_handlers s h = None \<Longrightarrow> vstep s (s\<lparr>rs_handlers := (rs_handlers s)(h \<mapsto> reset_attempts_ops i)\<rparr>)"
| s_reset: "rs_handlers s h = Some (HReset i # ops) \<Longrightarrow>
    vstep s (log_entry i LReset (s\<lparr>rs_handlers := (rs_handlers s)(h \<mapsto> ops), rs_coord := reset_attempts_raw i (rs_coord s)\<rparr>))"
| s_clear_failures: "rs_handlers s h = Some (HClearFailures i # ops) \<Longrightarrow>
    vstep s (s\<lparr>rs_coord := clear_failures i (rs_coord s), rs_handlers := (rs_handlers s)(h \<mapsto> ops)\<rparr>)"
| s_cancel: "rs_runs s n = Some r \<Longrightarrow> vstep s (s\<lparr>rs_runs := (rs_runs s)(n \<mapsto> r\<lparr>ru_cancelled := True\<rparr>)\<rparr>)"
| s_enter: "rs_runs s n = Some r \<Longrightarrow> ru_phase r = RAtLock \<Longrightarrow> enter_or_block n (ru_interface r) (rs_coord s) = (ph, c) \<Longrightarrow>
    vstep s (set_phase n r ph (s\<lparr>rs_coord := c\<rparr>))"
| s_wake: "rs_runs s n = Some r \<Longrightarrow> ru_phase r = RBlocked m \<Longrightarrow> m \<in> rs_done s \<Longrightarrow> vstep s (set_phase n r RAtLock s)"
| s_exhausted: "rs_runs s n = Some r \<Longrightarrow> ru_phase r = REntered \<Longrightarrow> attempts_exhausted (ru_interface r) (rs_coord s) \<Longrightarrow>
    vstep s (set_phase n r (RClosing exhausted_closing ResultFailed) s)"
| s_pass: "rs_runs s n = Some r \<Longrightarrow> ru_phase r = REntered \<Longrightarrow> \<not> attempts_exhausted (ru_interface r) (rs_coord s) \<Longrightarrow>
    vstep s (set_phase n r RStarting s)"
| s_begin: "rs_runs s n = Some r \<Longrightarrow> ru_phase r = RStarting \<Longrightarrow> begin_run now (ru_interface r) (rs_coord s) = (w, c) \<Longrightarrow>
    vstep s (log_entry (ru_interface r) LStarted (set_phase n r (RWalking (ru_pipeline r) w) (s\<lparr>rs_coord := c\<rparr>)))"
| s_stage: "rs_runs s n = Some r \<Longrightarrow> ru_phase r = RWalking (step # steps) w \<Longrightarrow>
    enter_stage now (ru_interface r) step w (rs_coord s) = (w', c) \<Longrightarrow>
    vstep s (set_phase n r (RInStage step steps w') (s\<lparr>rs_coord := c\<rparr>))"
| s_stage_ok: "rs_runs s n = Some r \<Longrightarrow> ru_phase r = RInStage step steps w \<Longrightarrow> ps_run step env None \<Longrightarrow>
    (se_ctx_err env \<noteq> None) = ctx_done (rs_coord s) r \<Longrightarrow>
    vstep s (set_phase n (r\<lparr>ru_answers := ru_answers r @ [(step, None)]\<rparr>) (RAfterStage step steps w) s)"
| s_stage_failed: "rs_runs s n = Some r \<Longrightarrow> ru_phase r = RInStage step steps w \<Longrightarrow> ps_run step env (Some err) \<Longrightarrow>
    (se_ctx_err env \<noteq> None) = ctx_done (rs_coord s) r \<Longrightarrow>
    vstep s (set_phase n (r\<lparr>ru_answers := ru_answers r @ [(step, Some err)]\<rparr>)
       (RClosing (failed_closing step err w) ResultFailed) s)"
| s_stage_cancelled: "rs_runs s n = Some r \<Longrightarrow> ru_phase r = RAfterStage step steps w \<Longrightarrow> ctx_done (rs_coord s) r \<Longrightarrow>
    vstep s (set_phase n r (RClosing (cancelled_closing step w) ResultCancelled) s)"
| s_next: "rs_runs s n = Some r \<Longrightarrow> ru_phase r = RAfterStage step steps w \<Longrightarrow> \<not> ctx_done (rs_coord s) r \<Longrightarrow>
    vstep s (set_phase n r (RWalking steps w) s)"
| s_success: "rs_runs s n = Some r \<Longrightarrow> ru_phase r = RWalking [] w \<Longrightarrow>
    vstep s (set_phase n r (RClosing (success_closing w) ResultSuccess) s)"
| s_close: "rs_runs s n = Some r \<Longrightarrow> ru_phase r = RClosing (a # as) res \<Longrightarrow>
    vstep s (set_phase n r (RClosing as res)
      (s\<lparr>rs_coord := perform now n (ru_interface r) a (rs_coord s),
         rs_done := (if a = CClose then insert n (rs_done s) else rs_done s),
         rs_ledger := rs_ledger s @ closing_entries (ru_interface r) a\<rparr>))"
| s_return: "rs_runs s n = Some r \<Longrightarrow> ru_phase r = RClosing [] res \<Longrightarrow> vstep s (set_phase n r (RReturned res) s)"

definition recovery_start :: "vsys \<Rightarrow> bool" where
  "recovery_start s \<longleftrightarrow> (\<exists>name limit. s = \<lparr>rs_coord = new_recovery_with_limit name limit, rs_runs = Map.empty, rs_next = 0,
     rs_done = {}, rs_handlers = Map.empty, rs_subscribing = 0, rs_ledger = []\<rparr>)"

end
