(* ===== verification/Recovery_Laws.thy ===== *)
theory Recovery_Laws
  imports Connection_Recovery
begin

text \<open>
  What the recovery coordinator guarantees in every interleaving: one run per interface, a waiter that is
  always woken, attempts that stay within the cap, stages that are walked in order, and interfaces that
  the heartbeat brings back.
\<close>

section \<open>What the sections leave alone\<close>

lemma set_phase_fields [simp]:
  "rs_runs (set_phase n r ph s) = (rs_runs s)(n \<mapsto> r\<lparr>ru_phase := ph\<rparr>)" "rs_coord (set_phase n r ph s) = rs_coord s"
  "rs_next (set_phase n r ph s) = rs_next s" "rs_done (set_phase n r ph s) = rs_done s"
  "rs_handlers (set_phase n r ph s) = rs_handlers s" "rs_ledger (set_phase n r ph s) = rs_ledger s"
  by (simp_all add: set_phase_def)

lemma spawn_run_fields [simp]:
  "rs_runs (spawn_run r s) = (rs_runs s)(rs_next s \<mapsto> r)" "rs_coord (spawn_run r s) = rs_coord s"
  "rs_next (spawn_run r s) = rs_next s + 1" "rs_done (spawn_run r s) = rs_done s"
  "rs_handlers (spawn_run r s) = rs_handlers s" "rs_ledger (spawn_run r s) = rs_ledger s"
  by (simp_all add: spawn_run_def)

lemma log_entry_fields [simp]:
  "rs_runs (log_entry i e s) = rs_runs s" "rs_coord (log_entry i e s) = rs_coord s" "rs_next (log_entry i e s) = rs_next s"
  "rs_done (log_entry i e s) = rs_done s" "rs_handlers (log_entry i e s) = rs_handlers s"
  "rs_ledger (log_entry i e s) = rs_ledger s @ [(i, e)]"
  by (simp_all add: log_entry_def)

lemma attempt_count_upd [simp]:
  "attempt_count i (c\<lparr>rc_attempts := m\<rparr>) = (case m i of None \<Rightarrow> 0 | Some n \<Rightarrow> n)"
  "attempt_count i (c\<lparr>rc_active := a\<rparr>) = attempt_count i c" "attempt_count i (c\<lparr>rc_state := st\<rparr>) = attempt_count i c"
  "attempt_count i (c\<lparr>rc_history := h\<rparr>) = attempt_count i c" "attempt_count i (c\<lparr>rc_trace := tr\<rparr>) = attempt_count i c"
  "attempt_count i (c\<lparr>rc_heartbeats := k\<rparr>) = attempt_count i c" "attempt_count i (c\<lparr>rc_unsubscribers := u\<rparr>) = attempt_count i c"
  by (simp_all add: attempt_count_def)

lemmas section_defs = set_current_stage_def append_history_def bump_attempt_def reset_attempts_raw_def clear_failures_def
  allow_one_recovery_attempt_def record_outcome_of_def record_success_of_def publish_recovery_def request_transition_def
  reset_circuit_breakers_def append_incident_def set_backoff_def with_heartbeat_interval_def with_state_machine_def
  with_circuit_breaker_resetter_def with_default_pipeline_def with_pipeline_for_def arm_interface_def set_hub_refresher_def
  with_json_rpc_session_clearer_def subscribe_finish_def stop_coordinator_def cancel_runs_def
  fire_heartbeat_if_exhausted_def

text \<open>The fields the invariants speak of.\<close>

definition slots_kept :: "recovery \<Rightarrow> recovery \<Rightarrow> bool" where
  "slots_kept c d \<longleftrightarrow> rc_active d = rc_active c \<and> rc_max_attempts d = rc_max_attempts c"

definition same_counts :: "recovery \<Rightarrow> recovery \<Rightarrow> bool" where
  "same_counts c d \<longleftrightarrow> slots_kept c d \<and> rc_attempts d = rc_attempts c \<and> dom (rc_state c) \<subseteq> dom (rc_state d)"

lemma slots_kept_refl [simp]: "slots_kept c c" by (simp add: slots_kept_def)

lemma same_counts_refl [simp]: "same_counts c c" by (simp add: same_counts_def)

lemma wiring_counts [simp]: "same_counts c (apply_wiring now w c)"
  by (cases w) (simp_all add: same_counts_def slots_kept_def section_defs Let_def)

lemma life_cycle_counts [simp]:
  "same_counts c (subscribe_finish c)" "same_counts c (stop_coordinator c)" "same_counts c (cancel_runs c)"
  "same_counts c (fire_heartbeat_if_exhausted ids c)" "same_counts c (clear_failures i c)"
  "same_counts c (c\<lparr>rc_heartbeats := k\<rparr>)" "subscribe_begin c = Some d \<Longrightarrow> same_counts c d"
  by (auto simp: same_counts_def slots_kept_def section_defs subscribe_begin_def Let_def split: option.split if_splits)

lemma begin_counts: "begin_run now i c = (w, d) \<Longrightarrow> same_counts c d"
  by (auto simp: begin_run_def same_counts_def slots_kept_def section_defs)

lemma stage_counts: "enter_stage now i step w c = (w', d) \<Longrightarrow> same_counts c d \<and> i \<in> dom (rc_state d)"
  by (auto simp: enter_stage_def same_counts_def slots_kept_def section_defs)

lemma counters_slots [simp]: "slots_kept c (allow_one_recovery_attempt i c)" "slots_kept c (reset_attempts_raw i c)"
  by (simp_all add: slots_kept_def section_defs)

lemma perform_slots: "a \<noteq> CRelease \<Longrightarrow> slots_kept c (perform now n i a c)"
  by (cases a) (simp_all add: slots_kept_def section_defs Let_def split: option.split)

lemma perform_counts: "a \<noteq> CRelease \<Longrightarrow> a \<noteq> CBump \<Longrightarrow> (\<forall>t. a \<noteq> CSuccess t) \<Longrightarrow> same_counts c (perform now n i a c)"
  by (cases a) (auto simp: same_counts_def slots_kept_def section_defs Let_def split: option.split)

section \<open>One run per interface\<close>

text \<open>An attempt or a success is counted once, before the slot is given back, and that before the channel is closed.\<close>

fun is_count :: "closing \<Rightarrow> bool" where
  "is_count CBump = True"
| "is_count (CSuccess start) = True"
| "is_count a = False"

fun closing_ok :: "closing list \<Rightarrow> bool" where
  "closing_ok [] = True"
| "closing_ok (a # as) \<longleftrightarrow>
     (a = CRelease \<longrightarrow> CClose \<in> set as \<and> CRelease \<notin> set as) \<and> (a = CClose \<longrightarrow> CClose \<notin> set as)
     \<and> (is_count a \<longrightarrow> CRelease \<in> set as) \<and> (is_count a \<or> a = CRelease \<longrightarrow> \<not> list_ex is_count as) \<and> closing_ok as"

fun holds_slot :: "run_phase \<Rightarrow> bool" where
  "holds_slot RAtLock = False"
| "holds_slot (RBlocked m) = False"
| "holds_slot (RClosing as res) = (CRelease \<in> set as)"
| "holds_slot (RReturned res) = False"
| "holds_slot ph = True"

fun close_ahead :: "run_phase \<Rightarrow> bool" where
  "close_ahead RAtLock = False"
| "close_ahead (RBlocked m) = False"
| "close_ahead (RClosing as res) = (CClose \<in> set as)"
| "close_ahead (RReturned res) = False"
| "close_ahead ph = True"

fun run_phase_ok :: "run_phase \<Rightarrow> bool" where
  "run_phase_ok (RClosing as res) \<longleftrightarrow> closing_ok as \<and> length as \<le> 9"
| "run_phase_ok ph = True"

lemma closings_ok [simp]:
  "closing_ok exhausted_closing" "closing_ok (failed_closing step err w)" "closing_ok (cancelled_closing step w)"
  "closing_ok (success_closing w)"
  by (simp_all add: exhausted_closing_def failed_closing_def cancelled_closing_def success_closing_def leaving_def Let_def)

lemma closing_lengths [simp]:
  "length exhausted_closing = 6" "length (failed_closing step err w) = 9" "length (cancelled_closing step w) = 6"
  "length (success_closing w) = 9"
  by (simp_all add: exhausted_closing_def failed_closing_def cancelled_closing_def success_closing_def leaving_def Let_def)

lemma closings_leave [simp]:
  "CRelease \<in> set exhausted_closing" "CRelease \<in> set (failed_closing step err w)"
  "CRelease \<in> set (cancelled_closing step w)" "CRelease \<in> set (success_closing w)"
  "CClose \<in> set exhausted_closing" "CClose \<in> set (failed_closing step err w)"
  "CClose \<in> set (cancelled_closing step w)" "CClose \<in> set (success_closing w)"
  by (simp_all add: exhausted_closing_def failed_closing_def cancelled_closing_def success_closing_def leaving_def Let_def)

lemma closing_ok_close: "closing_ok as \<Longrightarrow> CRelease \<in> set as \<Longrightarrow> CClose \<in> set as"
  by (induction as) auto

lemma holder_closes: "run_phase_ok ph \<Longrightarrow> holds_slot ph \<Longrightarrow> close_ahead ph"
  by (cases ph) (auto dest: closing_ok_close)

text \<open>Who holds the slot of an interface, whom a run waits for, and whose channel is or will be closed.\<close>

definition holder :: "(nat \<rightharpoonup> recovery_run) \<Rightarrow> string \<Rightarrow> nat \<Rightarrow> bool" where
  "holder runs i n \<longleftrightarrow> (case runs n of None \<Rightarrow> False | Some r \<Rightarrow> ru_interface r = i \<and> holds_slot (ru_phase r))"

fun waits_on :: "run_phase \<Rightarrow> nat option" where
  "waits_on (RBlocked m) = Some m"
| "waits_on ph = None"

definition waits_for :: "(nat \<rightharpoonup> recovery_run) \<Rightarrow> nat \<Rightarrow> nat option" where
  "waits_for runs n = (case runs n of None \<Rightarrow> None | Some r \<Rightarrow> waits_on (ru_phase r))"

definition closes :: "(nat \<rightharpoonup> recovery_run) \<Rightarrow> nat set \<Rightarrow> nat \<Rightarrow> bool" where
  "closes runs fin m \<longleftrightarrow> m \<in> fin \<or> (case runs m of None \<Rightarrow> False | Some q \<Rightarrow> close_ahead (ru_phase q))"

definition slot_inv :: "(string \<rightharpoonup> nat) \<Rightarrow> (nat \<rightharpoonup> recovery_run) \<Rightarrow> nat \<Rightarrow> nat set \<Rightarrow> bool" where
  "slot_inv act runs nxt fin \<longleftrightarrow>
     (\<forall>i n. act i = Some n \<longleftrightarrow> holder runs i n)
     \<and> (\<forall>n m. waits_for runs n = Some m \<longrightarrow> closes runs fin m)
     \<and> (\<forall>n r. runs n = Some r \<longrightarrow> n < nxt \<and> run_phase_ok (ru_phase r))"

definition recovery_slots :: "vsys \<Rightarrow> bool" where
  "recovery_slots s \<longleftrightarrow> slot_inv (rc_active (rs_coord s)) (rs_runs s) (rs_next s) (rs_done s)"

lemma holder_live:
  assumes "slot_inv act runs nxt fin" and "act i = Some n"
  obtains r where "runs n = Some r" "ru_interface r = i" "holds_slot (ru_phase r)" "close_ahead (ru_phase r)"
proof -
  have "holder runs i n" using assms by (simp add: slot_inv_def)
  then obtain r where r: "runs n = Some r" "ru_interface r = i" "holds_slot (ru_phase r)"
    by (auto simp: holder_def split: option.splits)
  moreover have "run_phase_ok (ru_phase r)" using assms(1) r(1) by (simp add: slot_inv_def)
  ultimately show thesis using that holder_closes by blast
qed

lemma run_views_upd:
  "holder (runs(n \<mapsto> r)) i m = (if m = n then ru_interface r = i \<and> holds_slot (ru_phase r) else holder runs i m)"
  "waits_for (runs(n \<mapsto> r)) m = (if m = n then waits_on (ru_phase r) else waits_for runs m)"
  "closes (runs(n \<mapsto> r)) fin m = (m \<in> fin \<or> (if m = n then close_ahead (ru_phase r) else closes runs fin m))"
  by (auto simp: holder_def waits_for_def closes_def)

lemma slot_inv_move:
  assumes inv: "slot_inv act runs nxt fin" and n: "runs n = Some r" "ru_interface r' = ru_interface r"
    and act: "act' = (if holds_slot (ru_phase r') then act(ru_interface r \<mapsto> n)
        else if holds_slot (ru_phase r) then act(ru_interface r := None) else act)"
    and free: "holds_slot (ru_phase r') \<Longrightarrow> \<not> holds_slot (ru_phase r) \<Longrightarrow> act (ru_interface r) = None"
    and close: "close_ahead (ru_phase r) \<Longrightarrow> close_ahead (ru_phase r') \<or> n \<in> fin'"
    and fin: "fin \<subseteq> fin'" and ok: "run_phase_ok (ru_phase r')"
    and waits: "\<And>m. waits_on (ru_phase r') = Some m \<Longrightarrow> closes runs fin m"
  shows "slot_inv act' (runs(n \<mapsto> r')) nxt fin'"
proof -
  have own: "\<And>i m. act i = Some m \<longleftrightarrow> holder runs i m" and old: "\<And>k m. waits_for runs k = Some m \<Longrightarrow> closes runs fin m"
    and ids: "\<And>k q. runs k = Some q \<Longrightarrow> k < nxt \<and> run_phase_ok (ru_phase q)"
    using inv by (auto simp: slot_inv_def)
  have h: "holder runs i n \<longleftrightarrow> ru_interface r = i \<and> holds_slot (ru_phase r)" for i
    using n by (simp add: holder_def)
  have live: "closes (runs(n \<mapsto> r')) fin' m" if "closes runs fin m" for m
    using that close fin n by (auto simp: closes_def split: if_splits)
  have "act' i = Some m \<longleftrightarrow> holder (runs(n \<mapsto> r')) i m" for i m
    using own [of i m] own [of i n] own [of "ru_interface r" n] own [of "ru_interface r" m] h [of i] h [of "ru_interface r"] free n(2)
    by (auto simp: act run_views_upd)
  then show ?thesis
    using old waits live ids n(1) ok by (auto simp: slot_inv_def run_views_upd split: if_splits)
qed

lemma slot_inv_spawn:
  assumes inv: "slot_inv act runs nxt fin" and r: "ru_phase r = RAtLock"
  shows "slot_inv act (runs(nxt \<mapsto> r)) (nxt + 1) fin"
proof -
  have new: "runs nxt = None" using inv by (cases "runs nxt") (auto simp: slot_inv_def)
  have "closes (runs(nxt \<mapsto> r)) fin m" if "closes runs fin m" for m
    using that new by (auto simp: closes_def split: if_splits)
  moreover have "holder runs i nxt = False" for i using new by (simp add: holder_def)
  ultimately show ?thesis
    using inv r by (auto simp: slot_inv_def run_views_upd less_Suc_eq split: if_splits)
qed

lemma slot_inv_phase:
  assumes "slot_inv act runs nxt fin" and "runs n = Some r" and "ru_interface r' = ru_interface r"
    and "holds_slot (ru_phase r') = holds_slot (ru_phase r)" and "close_ahead (ru_phase r') = close_ahead (ru_phase r)"
    and "run_phase_ok (ru_phase r')" and "waits_on (ru_phase r') = None \<or> waits_on (ru_phase r') = waits_on (ru_phase r)"
  shows "slot_inv act (runs(n \<mapsto> r')) nxt fin"
proof (rule slot_inv_move [OF assms(1-3)])
  show "closes runs fin m" if "waits_on (ru_phase r') = Some m" for m
  proof -
    have "waits_for runs n = Some m" using that assms(2,7) by (simp add: waits_for_def)
    then show ?thesis using assms(1) by (auto simp: slot_inv_def)
  qed
  have "holder runs (ru_interface r) n" if "holds_slot (ru_phase r)" using that assms(2) by (simp add: holder_def)
  then show "act = (if holds_slot (ru_phase r') then act(ru_interface r \<mapsto> n)
      else if holds_slot (ru_phase r) then act(ru_interface r := None) else act)"
    using assms(1,4) by (auto simp: slot_inv_def)
qed (use assms in auto)

lemma slot_inv_start: "recovery_start s \<Longrightarrow> recovery_slots s"
  by (auto simp: recovery_start_def recovery_slots_def slot_inv_def holder_def waits_for_def new_recovery_with_limit_def)

lemma same_slots_active: "slots_kept c d \<Longrightarrow> rc_active d = rc_active c" by (simp add: slots_kept_def)

lemma same_counts_active: "same_counts c d \<Longrightarrow> rc_active d = rc_active c" by (simp add: same_counts_def slots_kept_def)

lemmas active_frame = same_counts_active [OF wiring_counts] same_counts_active [OF life_cycle_counts(1)]
  same_counts_active [OF life_cycle_counts(2)] same_counts_active [OF life_cycle_counts(3)]
  same_counts_active [OF life_cycle_counts(4)] same_counts_active [OF life_cycle_counts(5)]
  same_counts_active [OF life_cycle_counts(6)] same_counts_active [OF life_cycle_counts(7)]
  same_slots_active [OF counters_slots(1)] same_slots_active [OF counters_slots(2)]

lemma slots_ok_close:
  assumes inv: "slot_inv (rc_active c) runs nxt fin" and n: "runs n = Some r" "ru_phase r = RClosing (a # as) res"
  shows "slot_inv (rc_active (perform now n (ru_interface r) a c)) (runs(n \<mapsto> r\<lparr>ru_phase := RClosing as res\<rparr>)) nxt
     (if a = CClose then insert n fin else fin)"
proof (rule slot_inv_move [OF inv n(1)])
  have "run_phase_ok (ru_phase r)" using inv n(1) by (simp add: slot_inv_def)
  then have ok: "closing_ok (a # as)" "length as \<le> 9" using n(2) by simp_all
  have own: "CRelease \<in> set (a # as) \<Longrightarrow> rc_active c (ru_interface r) = Some n"
    using inv n by (auto simp: slot_inv_def holder_def)
  show "rc_active (perform now n (ru_interface r) a c) =
      (if holds_slot (ru_phase (r\<lparr>ru_phase := RClosing as res\<rparr>)) then (rc_active c)(ru_interface r \<mapsto> n)
       else if holds_slot (ru_phase r) then (rc_active c)(ru_interface r := None) else rc_active c)"
  proof (cases "a = CRelease")
    case True
    with ok own n(2) show ?thesis by simp
  next
    case False
    then have "rc_active (perform now n (ru_interface r) a c) = rc_active c" by (simp add: perform_slots same_slots_active)
    with False own n(2) show ?thesis by (simp add: fun_upd_idem)
  qed
  show "run_phase_ok (ru_phase (r\<lparr>ru_phase := RClosing as res\<rparr>))" using ok by simp
qed (use n in auto)

lemma fresh_run_phase [simp]: "ru_phase (fresh_run i p b) = RAtLock" "ru_interface (fresh_run i p b) = i"
  by (simp_all add: fresh_run_def)

lemma slots_ok_frame [simp]:
  "recovery_slots (s\<lparr>rs_handlers := h\<rparr>) = recovery_slots s" "recovery_slots (s\<lparr>rs_ledger := l\<rparr>) = recovery_slots s"
  "recovery_slots (s\<lparr>rs_subscribing := k\<rparr>) = recovery_slots s" "recovery_slots (log_entry i e s) = recovery_slots s"
  by (simp_all add: recovery_slots_def)

lemma slots_ok_coord: "rc_active c = rc_active (rs_coord s) \<Longrightarrow> recovery_slots (s\<lparr>rs_coord := c\<rparr>) = recovery_slots s"
  by (simp add: recovery_slots_def)

lemma slots_ok_spawn: "recovery_slots s \<Longrightarrow> recovery_slots (spawn_run (fresh_run i p b) s)"
  unfolding recovery_slots_def spawn_run_fields by (rule slot_inv_spawn) simp_all

lemma slots_ok_phase:
  assumes "recovery_slots s" and "rs_runs s n = Some r" and "ru_interface q = ru_interface r"
    and "holds_slot ph = holds_slot (ru_phase r)" and "close_ahead ph = close_ahead (ru_phase r)"
    and "run_phase_ok ph" and "waits_on ph = None"
  shows "recovery_slots (set_phase n q ph s)"
  using slot_inv_phase [of "rc_active (rs_coord s)" "rs_runs s" "rs_next s" "rs_done s" n r "q\<lparr>ru_phase := ph\<rparr>"] assms
  by (simp add: recovery_slots_def)

lemma slots_ok_enter:
  assumes ok: "recovery_slots s" and n: "rs_runs s n = Some r" "ru_phase r = RAtLock"
    and enter: "enter_or_block n (ru_interface r) (rs_coord s) = (ph, c)"
  shows "recovery_slots (set_phase n r ph (s\<lparr>rs_coord := c\<rparr>))"
proof (cases "rc_active (rs_coord s) (ru_interface r)")
  case None
  with enter have ph: "ph = REntered" "c = (rs_coord s)\<lparr>rc_active := (rc_active (rs_coord s))(ru_interface r \<mapsto> n)\<rparr>"
    by (auto simp: enter_or_block_def)
  have "slot_inv ((rc_active (rs_coord s))(ru_interface r \<mapsto> n)) ((rs_runs s)(n \<mapsto> r\<lparr>ru_phase := REntered\<rparr>)) (rs_next s) (rs_done s)"
    by (rule slot_inv_move [OF ok [unfolded recovery_slots_def] n(1)]) (use n(2) None in simp_all)
  with ph show ?thesis by (simp add: recovery_slots_def)
next
  case (Some m)
  with enter have ph: "ph = RBlocked m" "c = rs_coord s" by (auto simp: enter_or_block_def)
  have "closes (rs_runs s) (rs_done s) m" by (rule holder_live [OF ok [unfolded recovery_slots_def] Some]) (simp add: closes_def)
  then have "slot_inv (rc_active (rs_coord s)) ((rs_runs s)(n \<mapsto> r\<lparr>ru_phase := RBlocked m\<rparr>)) (rs_next s) (rs_done s)"
    by (intro slot_inv_move [OF ok [unfolded recovery_slots_def] n(1)]) (use n(2) in simp_all)
  with ph show ?thesis by (simp add: recovery_slots_def)
qed

lemma slots_ok_cancel:
  assumes ok: "recovery_slots s" and n: "rs_runs s n = Some r"
  shows "recovery_slots (s\<lparr>rs_runs := (rs_runs s)(n \<mapsto> r\<lparr>ru_cancelled := b\<rparr>)\<rparr>)"
proof -
  have inv: "slot_inv (rc_active (rs_coord s)) (rs_runs s) (rs_next s) (rs_done s)" using ok by (simp add: recovery_slots_def)
  moreover have "run_phase_ok (ru_phase r)" using inv n by (simp add: slot_inv_def)
  ultimately have "slot_inv (rc_active (rs_coord s)) ((rs_runs s)(n \<mapsto> r\<lparr>ru_cancelled := b\<rparr>)) (rs_next s) (rs_done s)"
    by (intro slot_inv_phase [OF inv n]) simp_all
  then show ?thesis by (simp add: recovery_slots_def)
qed

lemma slots_ok_step: "vstep s t \<Longrightarrow> recovery_slots s \<Longrightarrow> recovery_slots t"
proof (induction rule: vstep.induct)
  case (s_enter s n r ph c)
  then show ?case by (simp add: slots_ok_enter)
next
  case (s_close s n r a as res now)
  from slots_ok_close [OF s_close.prems [unfolded recovery_slots_def] s_close(1,2), of now] show ?case
    by (simp add: recovery_slots_def)
next
  case (s_begin s n r now w c)
  then have "recovery_slots (s\<lparr>rs_coord := c\<rparr>)"
    by (simp add: slots_ok_coord same_counts_active [OF begin_counts])
  with s_begin show ?case by (simp add: slots_ok_phase [where r = r])
next
  case (s_stage s n r step steps w now w' c)
  then have "recovery_slots (s\<lparr>rs_coord := c\<rparr>)"
    by (simp add: slots_ok_coord same_counts_active [OF conjunct1 [OF stage_counts]])
  with s_stage show ?case by (simp add: slots_ok_phase [where r = r])
qed (simp_all add: slots_ok_coord slots_ok_spawn slots_ok_cancel active_frame slots_ok_phase)

interpretation slots: invariant_system recovery_start vstep recovery_slots
  by unfold_locales (auto intro: slot_inv_start slots_ok_step)

lemma one_run_per_interface_raw:
  assumes "recovery_slots s" and "rs_runs s n = Some r" "rs_runs s m = Some q" "ru_interface r = ru_interface q"
    and "holds_slot (ru_phase r)" "holds_slot (ru_phase q)"
  shows "n = m"
proof -
  have "holder (rs_runs s) (ru_interface r) n" "holder (rs_runs s) (ru_interface r) m"
    using assms by (simp_all add: holder_def)
  then show ?thesis using assms(1) by (metis recovery_slots_def slot_inv_def option.inject)
qed

section \<open>Attempts are rationed\<close>

definition entry_count :: "string \<Rightarrow> ledger_entry \<Rightarrow> (string \<times> ledger_entry) list \<Rightarrow> int" where
  "entry_count i e l = int (count_list l (i, e))"

definition current_phase :: "vsys \<Rightarrow> string \<Rightarrow> run_phase option" where
  "current_phase s i = (case rc_active (rs_coord s) i of None \<Rightarrow> None | Some n \<Rightarrow> map_option ru_phase (rs_runs s n))"

text \<open>A started run whose end is not counted yet; a run that passed the cap and may still be counted; a run
  whose interface has a state.\<close>

fun run_paying :: "run_phase \<Rightarrow> bool" where
  "run_paying (RWalking steps w) = True"
| "run_paying (RInStage step steps w) = True"
| "run_paying (RAfterStage step steps w) = True"
| "run_paying (RClosing as res) = list_ex is_count as"
| "run_paying ph = False"

fun below_cap :: "run_phase \<Rightarrow> bool" where
  "below_cap RStarting = True"
| "below_cap (RClosing as res) = (CBump \<in> set as)"
| "below_cap ph = run_paying ph"

fun staged :: "run_phase \<Rightarrow> bool" where
  "staged (RInStage step steps w) = True"
| "staged (RAfterStage step steps w) = True"
| "staged (RClosing as res) = (CBump \<in> set as)"
| "staged ph = False"

definition of_phase :: "(run_phase \<Rightarrow> bool) \<Rightarrow> run_phase option \<Rightarrow> bool" where
  "of_phase P p = (case p of None \<Rightarrow> False | Some ph \<Rightarrow> P ph)"

lemma of_phase_simps [simp]: "of_phase P None = False" "of_phase P (Some ph) = P ph"
  by (simp_all add: of_phase_def)

definition account_ok :: "string \<Rightarrow> int \<Rightarrow> int \<Rightarrow> bool \<Rightarrow> (string \<times> ledger_entry) list \<Rightarrow> run_phase option \<Rightarrow> bool" where
  "account_ok i M a known l p \<longleftrightarrow>
     entry_count i LStarted l = entry_count i LBumped l + entry_count i LSucceeded l + (if of_phase run_paying p then 1 else 0)
     \<and> (0 < M \<longrightarrow> 0 \<le> a \<and> a \<le> M \<and> (of_phase below_cap p \<longrightarrow> a < M)
         \<and> entry_count i LBumped l \<le> M * (entry_count i LSucceeded l + entry_count i LReset l) + entry_count i LGranted l + a)
     \<and> (0 < a \<longrightarrow> known) \<and> (of_phase staged p \<longrightarrow> known)"

abbreviation account_at :: "string \<Rightarrow> vsys \<Rightarrow> bool" where
  "account_at i s \<equiv> account_ok i (rc_max_attempts (rs_coord s)) (attempt_count i (rs_coord s)) (i \<in> dom (rc_state (rs_coord s)))
     (rs_ledger s) (current_phase s i)"

definition accounts_ok :: "vsys \<Rightarrow> bool" where
  "accounts_ok s \<longleftrightarrow> recovery_slots s \<and> (\<forall>i. account_at i s)"

lemma entry_count_append [simp]:
  "entry_count i e [] = 0" "entry_count i e (l @ m) = entry_count i e l + entry_count i e m"
  "entry_count i e [(j, f)] = (if i = j \<and> e = f then 1 else 0)" "0 \<le> entry_count i e l"
  by (auto simp: entry_count_def)

lemma account_weaken:
  assumes "account_ok i M a k l p" and "of_phase run_paying q = of_phase run_paying p" and "of_phase below_cap q \<Longrightarrow> of_phase below_cap p"
    and "of_phase staged q \<Longrightarrow> of_phase staged p \<or> k'" and "k \<Longrightarrow> k'"
  shows "account_ok i M a k' l q"
  using assms by (auto simp: account_ok_def)

lemma current_phase_upd:
  "current_phase (set_phase n r ph s) i = (if rc_active (rs_coord s) i = Some n then Some ph else current_phase s i)"
  "current_phase (log_entry j e s) i = current_phase s i"
  "current_phase (s\<lparr>rs_handlers := h\<rparr>) i = current_phase s i" "current_phase (s\<lparr>rs_ledger := l\<rparr>) i = current_phase s i"
  "current_phase (s\<lparr>rs_subscribing := k\<rparr>) i = current_phase s i" "current_phase (s\<lparr>rs_done := d\<rparr>) i = current_phase s i"
  "rc_active c = rc_active (rs_coord s) \<Longrightarrow> current_phase (s\<lparr>rs_coord := c\<rparr>) i = current_phase s i"
  by (auto simp: current_phase_def split: option.split)

lemma current_phase_holder:
  assumes "recovery_slots s" and "rs_runs s n = Some r" and "holds_slot (ru_phase r)"
  shows "rc_active (rs_coord s) i = Some n \<longleftrightarrow> i = ru_interface r" "current_phase s (ru_interface r) = Some (ru_phase r)"
proof -
  have own: "rc_active (rs_coord s) i = Some n \<longleftrightarrow> holder (rs_runs s) i n" for i
    using assms(1) by (simp add: recovery_slots_def slot_inv_def)
  show "rc_active (rs_coord s) i = Some n \<longleftrightarrow> i = ru_interface r" using own assms(2,3) by (auto simp: holder_def)
  with own [of "ru_interface r"] assms(2,3) show "current_phase s (ru_interface r) = Some (ru_phase r)"
    by (simp add: current_phase_def holder_def)
qed

lemma not_holder:
  assumes "recovery_slots s" and "rs_runs s n = Some r" and "\<not> holds_slot (ru_phase r)"
  shows "rc_active (rs_coord s) i \<noteq> Some n"
proof -
  have "rc_active (rs_coord s) i = Some n \<longleftrightarrow> holder (rs_runs s) i n" using assms(1) by (simp add: recovery_slots_def slot_inv_def)
  then show ?thesis using assms(2,3) by (simp add: holder_def)
qed

lemma accounts_coord:
  assumes "accounts_ok s" and "same_counts (rs_coord s) c"
  shows "accounts_ok (s\<lparr>rs_coord := c\<rparr>)"
proof -
  have c: "rc_active c = rc_active (rs_coord s)" "rc_max_attempts c = rc_max_attempts (rs_coord s)"
      "attempt_count i c = attempt_count i (rs_coord s)" "i \<in> dom (rc_state (rs_coord s)) \<Longrightarrow> i \<in> dom (rc_state c)" for i
    using assms(2) by (auto simp: same_counts_def slots_kept_def attempt_count_def)
  have "account_at i s" for i using assms(1) by (simp add: accounts_ok_def)
  then have "account_ok i (rc_max_attempts (rs_coord s)) (attempt_count i (rs_coord s)) (i \<in> dom (rc_state c)) (rs_ledger s)
      (current_phase s i)" for i
    by (rule account_weaken) (use c(4) in auto)
  then show ?thesis using assms(1) c(1-3) by (simp add: accounts_ok_def slots_ok_coord current_phase_upd)
qed

lemma accounts_ok_frame [simp]:
  "accounts_ok (s\<lparr>rs_handlers := h\<rparr>) = accounts_ok s" "accounts_ok (s\<lparr>rs_subscribing := k\<rparr>) = accounts_ok s"
  by (simp_all add: accounts_ok_def current_phase_upd)

lemma accounts_phase:
  assumes ok: "accounts_ok s" and n: "rs_runs s n = Some r" "ru_interface q = ru_interface r"
    and slots: "recovery_slots (set_phase n q ph s)"
    and old: "ru_phase r = was" "holds_slot was"
    and new: "run_paying ph = run_paying was" "below_cap ph \<Longrightarrow> below_cap was \<or> \<not> attempts_exhausted (ru_interface r) (rs_coord s)"
      "staged ph \<Longrightarrow> staged was \<or> ru_interface r \<in> dom (rc_state (rs_coord s))"
  shows "accounts_ok (set_phase n q ph s)"
proof -
  have "account_at i (set_phase n q ph s)" for i
  proof (cases "i = ru_interface r")
    case True
    have "current_phase s i = Some was" "rc_active (rs_coord s) i = Some n"
      using True current_phase_holder [of s n r] ok n old by (auto simp: accounts_ok_def)
    moreover have "account_at i s" using ok by (simp add: accounts_ok_def)
    ultimately show ?thesis
      using new True by (auto simp: account_ok_def current_phase_upd attempts_exhausted_def)
  next
    case False
    then have "rc_active (rs_coord s) i \<noteq> Some n"
      using current_phase_holder(1) [of s n r i] ok n old by (auto simp: accounts_ok_def)
    then show ?thesis using ok by (simp add: accounts_ok_def current_phase_upd)
  qed
  then show ?thesis using slots by (simp add: accounts_ok_def)
qed

lemma accounts_begin:
  assumes ok: "accounts_ok s" and n: "rs_runs s n = Some r" "ru_phase r = RStarting"
    and slots: "recovery_slots (set_phase n r (RWalking p w) s)"
  shows "accounts_ok (log_entry (ru_interface r) LStarted (set_phase n r (RWalking p w) s))"
proof -
  have "account_at i (log_entry (ru_interface r) LStarted (set_phase n r (RWalking p w) s))" for i
    using ok current_phase_holder(1) [of s n r i] current_phase_holder(2) [of s n r] n
    by (auto simp: accounts_ok_def account_ok_def current_phase_upd split: if_splits)
  then show ?thesis using slots by (simp add: accounts_ok_def)
qed

lemma accounts_enter:
  assumes ok: "accounts_ok s" and n: "rs_runs s n = Some r" "ru_phase r = RAtLock"
    and enter: "enter_or_block n (ru_interface r) (rs_coord s) = (ph, c)"
  shows "accounts_ok (set_phase n r ph (s\<lparr>rs_coord := c\<rparr>))"
proof -
  have slots: "recovery_slots (set_phase n r ph (s\<lparr>rs_coord := c\<rparr>))"
    using ok n enter by (auto simp: accounts_ok_def intro: slots_ok_enter)
  have free: "rc_active (rs_coord s) i \<noteq> Some n" for i
    using not_holder [of s n r i] ok n by (simp add: accounts_ok_def)
  have "account_at i (set_phase n r ph (s\<lparr>rs_coord := c\<rparr>))" for i
  proof (cases "rc_active (rs_coord s) (ru_interface r)")
    case None
    with enter have ph: "ph = REntered" "c = (rs_coord s)\<lparr>rc_active := (rc_active (rs_coord s))(ru_interface r \<mapsto> n)\<rparr>"
      by (auto simp: enter_or_block_def)
    have "current_phase (set_phase n r ph (s\<lparr>rs_coord := c\<rparr>)) i = (if i = ru_interface r then Some REntered else current_phase s i)"
      "current_phase s (ru_interface r) = None"
      using None free [of i] ph by (auto simp: current_phase_def split: option.split)
    moreover have "account_at i s" using ok by (simp add: accounts_ok_def)
    ultimately show ?thesis using ph by (auto simp: account_ok_def split: if_splits)
  next
    case (Some m)
    with enter have "ph = RBlocked m" "c = rs_coord s" by (auto simp: enter_or_block_def)
    with free [of i] ok show ?thesis by (simp add: accounts_ok_def current_phase_upd)
  qed
  with slots show ?thesis by (simp add: accounts_ok_def)
qed

lemma accounts_idle_move:
  assumes ok: "accounts_ok s" and n: "rs_runs s n = Some r" "\<not> holds_slot (ru_phase r)" and slots: "recovery_slots (set_phase n q ph s)"
  shows "accounts_ok (set_phase n q ph s)"
proof -
  have "rc_active (rs_coord s) i \<noteq> Some n" for i using not_holder [of s n r i] ok n by (simp add: accounts_ok_def)
  then show ?thesis using ok slots by (simp add: accounts_ok_def current_phase_upd)
qed

lemma accounts_spawn:
  assumes ok: "accounts_ok s"
  shows "accounts_ok (spawn_run (fresh_run i p b) s)"
proof -
  have "rc_active (rs_coord s) j \<noteq> Some (rs_next s)" for j
  proof
    assume "rc_active (rs_coord s) j = Some (rs_next s)"
    moreover have inv: "slot_inv (rc_active (rs_coord s)) (rs_runs s) (rs_next s) (rs_done s)"
      using ok by (simp add: accounts_ok_def recovery_slots_def)
    ultimately obtain r where "rs_runs s (rs_next s) = Some r" by (blast elim: holder_live)
    then show False using ok by (auto simp: accounts_ok_def recovery_slots_def slot_inv_def)
  qed
  then have "current_phase (spawn_run (fresh_run i p b) s) j = current_phase s j" for j
    by (simp add: current_phase_def split: option.split)
  with ok show ?thesis by (simp add: accounts_ok_def slots_ok_spawn)
qed

lemma accounts_cancel:
  assumes ok: "accounts_ok s" and n: "rs_runs s n = Some r"
  shows "accounts_ok (s\<lparr>rs_runs := (rs_runs s)(n \<mapsto> r\<lparr>ru_cancelled := b\<rparr>)\<rparr>)"
proof -
  have "current_phase (s\<lparr>rs_runs := (rs_runs s)(n \<mapsto> r\<lparr>ru_cancelled := b\<rparr>)\<rparr>) i = current_phase s i" for i
    using n by (simp add: current_phase_def split: option.split)
  with ok n show ?thesis by (simp add: accounts_ok_def slots_ok_cancel)
qed

text \<open>Grants, resets, counted attempts and successes, on one account.\<close>

lemma account_other:
  "i \<noteq> j \<Longrightarrow> account_ok i M a k (l @ [(j, e)]) p = account_ok i M a k l p"
  by (simp add: account_ok_def)

lemma account_granted:
  "account_ok i M a k l p \<Longrightarrow> M - 1 < a \<Longrightarrow> account_ok i M (M - 1) k (l @ [(i, LGranted)]) p"
  by (auto simp: account_ok_def)

lemma account_cleared:
  "account_ok i M a k l p \<Longrightarrow> account_ok i M 0 k (l @ [(i, LReset)]) p"
  by (auto simp: account_ok_def distrib_left)

lemma account_bumped:
  "account_ok i M a k l (Some ph) \<Longrightarrow> run_paying ph \<Longrightarrow> below_cap ph \<Longrightarrow> staged ph \<Longrightarrow> \<not> of_phase run_paying p \<Longrightarrow> \<not> of_phase below_cap p \<Longrightarrow>
     account_ok i M (a + 1) True (l @ [(i, LBumped)]) p"
  by (auto simp: account_ok_def)

lemma account_succeeded:
  "account_ok i M a k l (Some ph) \<Longrightarrow> run_paying ph \<Longrightarrow> \<not> of_phase run_paying p \<Longrightarrow> \<not> of_phase below_cap p \<Longrightarrow>
     account_ok i M 0 True (l @ [(i, LSucceeded)]) p"
  by (auto simp: account_ok_def distrib_left)

lemma accounts_allow:
  assumes "accounts_ok s"
  shows "accounts_ok (s\<lparr>rs_coord := allow_one_recovery_attempt i (rs_coord s), rs_ledger := rs_ledger s @ granted_entries i (rs_coord s)\<rparr>)"
    (is "accounts_ok ?t")
proof -
  let ?M = "rc_max_attempts (rs_coord s)"
  have at: "account_at j s" for j using assms by (simp add: accounts_ok_def)
  have "account_at j ?t" for j
  proof (cases "?M \<noteq> 0 \<and> ?M - 1 < attempt_count i (rs_coord s)")
    case True
    then show ?thesis
      using at [of j] account_granted [OF at [of i]]
      by (cases "j = i") (simp_all add: current_phase_upd allow_one_recovery_attempt_def granted_entries_def account_other
        attempt_count_def)
  next
    case False
    with at [of j] show ?thesis by (auto simp: current_phase_upd allow_one_recovery_attempt_def granted_entries_def)
  qed
  with assms show ?thesis by (simp add: accounts_ok_def slots_ok_coord active_frame)
qed

lemma accounts_reset:
  assumes "accounts_ok s"
  shows "accounts_ok (log_entry i LReset (s\<lparr>rs_coord := reset_attempts_raw i (rs_coord s)\<rparr>))" (is "accounts_ok ?t")
proof -
  have at: "account_at j s" for j using assms by (simp add: accounts_ok_def)
  have "account_at j ?t" for j
    using at [of j] account_cleared [OF at [of i]]
    by (cases "j = i") (simp_all add: current_phase_upd reset_attempts_raw_def account_other attempt_count_def)
  with assms show ?thesis by (simp add: accounts_ok_def slots_ok_coord active_frame)
qed

text \<open>A closing action that counts: what it does to the counters of its own and of the other interfaces.\<close>

lemma perform_count_fields:
  "rc_max_attempts (perform now n i CBump c) = rc_max_attempts c" "rc_active (perform now n i CBump c) = rc_active c"
  "attempt_count j (perform now n i CBump c) = (if j = i then attempt_count i c + 1 else attempt_count j c)"
  "rc_state (perform now n i CBump c) = rc_state c"
  "rc_max_attempts (perform now n i (CSuccess t) c) = rc_max_attempts c" "rc_active (perform now n i (CSuccess t) c) = rc_active c"
  "attempt_count j (perform now n i (CSuccess t) c) = (if j = i then 0 else attempt_count j c)"
  "dom (rc_state (perform now n i (CSuccess t) c)) = insert i (dom (rc_state c))"
  by (simp_all add: section_defs Let_def attempt_count_def)

lemma accounts_close:
  assumes ok: "accounts_ok s" and n: "rs_runs s n = Some r" "ru_phase r = RClosing (a # as) res"
    and t: "t = set_phase n r (RClosing as res) (s\<lparr>rs_coord := perform now n (ru_interface r) a (rs_coord s), rs_done := fin,
         rs_ledger := rs_ledger s @ closing_entries (ru_interface r) a\<rparr>)"
    and slots: "recovery_slots t"
  shows "accounts_ok t"
proof -
  let ?i = "ru_interface r" and ?c = "rs_coord s"
  have sok: "recovery_slots s" and at: "account_at j s" for j using ok by (simp_all add: accounts_ok_def)
  have "run_phase_ok (ru_phase r)" using sok n(1) by (simp add: recovery_slots_def slot_inv_def)
  then have cok: "closing_ok (a # as)" using n(2) by simp
  have cp: "holds_slot (RClosing (a # as) res) \<Longrightarrow> current_phase s ?i = Some (RClosing (a # as) res)"
    and own: "holds_slot (RClosing (a # as) res) \<Longrightarrow> rc_active ?c j = Some n \<longleftrightarrow> j = ?i" for j
    using current_phase_holder [of s n r] sok n by auto
  consider "a = CRelease" | "a = CBump" | start where "a = CSuccess start" | "a \<noteq> CRelease" "a \<noteq> CBump" "\<forall>t. a \<noteq> CSuccess t" by blast
  then show ?thesis
  proof cases
    case 1
    have "account_at j t" for j
    proof (cases "j = ?i")
      case True
      with 1 own at [of ?i] cp cok show ?thesis
        by (auto simp: t account_ok_def closing_entries_def current_phase_def list_ex_iff)
    next
      case False
      with 1 own own [of j] have "current_phase t j = current_phase s j"
        by (auto simp: t current_phase_def split: option.split)
      with 1 False at [of j] own show ?thesis by (auto simp: t closing_entries_def)
    qed
    with slots show ?thesis by (simp add: accounts_ok_def)
  next
    case 2
    have hold: "holds_slot (RClosing (a # as) res)" using 2 cok by simp
    have "\<not> list_ex is_count as" using 2 cok by simp
    then have nc: "\<not> list_ex is_count as" "CBump \<notin> set as" by (auto simp: list_ex_iff)
    have "account_ok ?i (rc_max_attempts ?c) (attempt_count ?i ?c + 1) True (rs_ledger s @ [(?i, LBumped)]) (Some (RClosing as res))"
      by (rule account_bumped [where ph = "RClosing (a # as) res"]) (use at [of ?i] cp [OF hold] nc 2 in simp_all)
    moreover have "?i \<in> dom (rc_state ?c)" using at [of ?i] cp [OF hold] 2 by (simp add: account_ok_def)
    ultimately have "account_at j t" for j
      using at [of j] own [OF hold, of j] 2
      by (cases "j = ?i") (simp_all add: t current_phase_upd perform_count_fields closing_entries_def account_other del: perform.simps)
    with slots show ?thesis by (simp add: accounts_ok_def)
  next
    case 3
    have hold: "holds_slot (RClosing (a # as) res)" using 3 cok by simp
    have "\<not> list_ex is_count as" using 3 cok by simp
    then have nc: "\<not> list_ex is_count as" "CBump \<notin> set as" by (auto simp: list_ex_iff)
    have "account_ok ?i (rc_max_attempts ?c) 0 True (rs_ledger s @ [(?i, LSucceeded)]) (Some (RClosing as res))"
      by (rule account_succeeded [where ph = "RClosing (a # as) res"]) (use at [of ?i] cp [OF hold] nc 3 in simp_all)
    then have "account_at j t" for j
      using at [of j] own [OF hold, of j] 3
      by (cases "j = ?i") (simp_all add: t current_phase_upd perform_count_fields closing_entries_def account_other del: perform.simps)
    with slots show ?thesis by (simp add: accounts_ok_def)
  next
    case 4
    have none: "closing_entries ?i a = []" "\<not> is_count a" using 4 by (cases a; simp add: closing_entries_def)+
    have same: "same_counts ?c (perform now n ?i a ?c)" using 4 by (simp add: perform_counts)
    have c: "rc_active (perform now n ?i a ?c) = rc_active ?c" "rc_max_attempts (perform now n ?i a ?c) = rc_max_attempts ?c"
        "attempt_count j (perform now n ?i a ?c) = attempt_count j ?c" for j
      using same by (auto simp: same_counts_def slots_kept_def attempt_count_def)
    have phase: "current_phase t j = (if rc_active ?c j = Some n then Some (RClosing as res) else current_phase s j)" for j
      using c(1) by (simp add: t current_phase_upd)
    have known: "rc_state (rs_coord t) = rc_state (perform now n ?i a ?c)" by (simp add: t)
    have own': "rc_active ?c j = Some n \<Longrightarrow> current_phase s j = Some (RClosing (a # as) res)" for j
      using n by (simp add: current_phase_def)
    have "account_ok j (rc_max_attempts ?c) (attempt_count j ?c) (j \<in> dom (rc_state (rs_coord t))) (rs_ledger s) (current_phase t j)" for j
      by (rule account_weaken [OF at [of j]]) (use same own' [of j] none 4 known in \<open>auto simp: phase same_counts_def split: if_splits\<close>)
    then show ?thesis using slots c(2,3) none by (simp add: accounts_ok_def t)
  qed
qed

lemma accounts_step: "vstep s t \<Longrightarrow> accounts_ok s \<Longrightarrow> accounts_ok t"
proof (induction rule: vstep.induct)
  case (s_enter s n r ph c)
  then show ?case by (simp add: accounts_enter)
next
  case (s_close s n r a as res now)
  moreover have "recovery_slots s" using s_close.prems by (simp add: accounts_ok_def)
  ultimately show ?case
    by (intro accounts_close [OF s_close.prems s_close(1,2) refl]) (rule slots_ok_step, rule vstep.s_close)
next
  case (s_begin s n r now w c)
  then have "accounts_ok (s\<lparr>rs_coord := c\<rparr>)" by (intro accounts_coord begin_counts)
  moreover from this s_begin have "recovery_slots (set_phase n r (RWalking (ru_pipeline r) w) (s\<lparr>rs_coord := c\<rparr>))"
    by (simp add: accounts_ok_def slots_ok_phase [where r = r])
  ultimately show ?case using s_begin by (intro accounts_begin) simp_all
next
  case (s_stage s n r step steps w now w' c)
  then have c: "accounts_ok (s\<lparr>rs_coord := c\<rparr>)" "ru_interface r \<in> dom (rc_state c)"
    using stage_counts [OF s_stage(3)] by (auto intro: accounts_coord)
  moreover from this s_stage have "recovery_slots (set_phase n r (RInStage step steps w') (s\<lparr>rs_coord := c\<rparr>))"
    by (simp add: accounts_ok_def slots_ok_phase [where r = r])
  ultimately show ?case using s_stage by - (rule accounts_phase [where r = r and was = "RWalking (step # steps) w"], simp_all)
next
  case (s_allow s h i ops)
  from accounts_allow [of "s\<lparr>rs_handlers := (rs_handlers s)(h \<mapsto> ops)\<rparr>" i] s_allow.prems show ?case by simp
next
  case (s_reset s h i ops)
  from accounts_reset [of "s\<lparr>rs_handlers := (rs_handlers s)(h \<mapsto> ops)\<rparr>" i] s_reset.prems show ?case by simp
next
  case (s_wake s n r m)
  then have "recovery_slots (set_phase n r RAtLock s)" by (simp add: accounts_ok_def slots_ok_phase [where r = r])
  with s_wake show ?case by (intro accounts_idle_move [where r = r]) simp_all
next
  case (s_return s n r res)
  then have "recovery_slots (set_phase n r (RReturned res) s)" by (simp add: accounts_ok_def slots_ok_phase [where r = r])
  with s_return show ?case by (intro accounts_idle_move [where r = r]) simp_all
next
  case (s_exhausted s n r)
  then have "recovery_slots (set_phase n r (RClosing exhausted_closing ResultFailed) s)" by (simp add: accounts_ok_def slots_ok_phase [where r = r])
  with s_exhausted show ?case
    by - (rule accounts_phase [where r = r and was = REntered], (simp_all add: exhausted_closing_def leaving_def))
next
  case (s_pass s n r)
  then have "recovery_slots (set_phase n r RStarting s)" by (simp add: accounts_ok_def slots_ok_phase [where r = r])
  with s_pass show ?case by - (rule accounts_phase [where r = r and was = REntered], simp_all)
next
  case (s_stage_ok s n r step steps w env)
  then have "recovery_slots (set_phase n (r\<lparr>ru_answers := ru_answers r @ [(step, None)]\<rparr>) (RAfterStage step steps w) s)"
    by (simp add: accounts_ok_def slots_ok_phase [where r = r])
  with s_stage_ok show ?case by - (rule accounts_phase [where r = r and was = "RInStage step steps w"], simp_all)
next
  case (s_stage_failed s n r step steps w env err)
  then have "recovery_slots (set_phase n (r\<lparr>ru_answers := ru_answers r @ [(step, Some err)]\<rparr>) (RClosing (failed_closing step err w) ResultFailed) s)"
    by (simp add: accounts_ok_def slots_ok_phase [where r = r])
  with s_stage_failed show ?case
    by - (rule accounts_phase [where r = r and was = "RInStage step steps w"], (simp_all add: failed_closing_def Let_def))
next
  case (s_stage_cancelled s n r step steps w)
  then have "recovery_slots (set_phase n r (RClosing (cancelled_closing step w) ResultCancelled) s)"
    by (simp add: accounts_ok_def slots_ok_phase [where r = r])
  with s_stage_cancelled show ?case
    by - (rule accounts_phase [where r = r and was = "RAfterStage step steps w"], (simp_all add: cancelled_closing_def))
next
  case (s_next s n r step steps w)
  then have "recovery_slots (set_phase n r (RWalking steps w) s)" by (simp add: accounts_ok_def slots_ok_phase [where r = r])
  with s_next show ?case by - (rule accounts_phase [where r = r and was = "RAfterStage step steps w"], simp_all)
next
  case (s_success s n r w)
  then have "recovery_slots (set_phase n r (RClosing (success_closing w) ResultSuccess) s)"
    by (simp add: accounts_ok_def slots_ok_phase [where r = r])
  with s_success show ?case
    by - (rule accounts_phase [where r = r and was = "RWalking [] w"], (simp_all add: success_closing_def leaving_def))
qed (simp_all add: accounts_coord accounts_spawn accounts_cancel)

lemma accounts_start: "recovery_start s \<Longrightarrow> accounts_ok s"
  using slot_inv_start [of s]
  by (auto simp: recovery_start_def accounts_ok_def account_ok_def current_phase_def attempt_count_def new_recovery_with_limit_def)

interpretation accounts: invariant_system recovery_start vstep accounts_ok
  by unfold_locales (auto intro: accounts_start accounts_step)

section \<open>What a run tells\<close>

text \<open>The contract of a result: the stages that ended and their answers, against the pipeline.\<close>

fun run_contract :: "pipeline \<Rightarrow> (pipeline_stage \<times> string option) list \<Rightarrow> recovery_result \<Rightarrow> bool" where
  "run_contract p answers ResultSuccess \<longleftrightarrow> map fst answers = p \<and> (\<forall>a \<in> set answers. snd a = None)"
| "run_contract p answers ResultFailed \<longleftrightarrow> answers = [] \<or>
     (\<exists>before stage err rest. answers = before @ [(stage, Some err)] \<and> map fst answers @ rest = p \<and> (\<forall>a \<in> set before. snd a = None))"
| "run_contract p answers ResultCancelled \<longleftrightarrow> answers \<noteq> [] \<and>
     (\<exists>rest. map fst answers @ rest = p) \<and> (\<forall>a \<in> set answers. snd a = None)"
| "run_contract p answers r \<longleftrightarrow> False"

definition walked :: "pipeline \<Rightarrow> (pipeline_stage \<times> string option) list \<Rightarrow> pipeline \<Rightarrow> bool" where
  "walked p answers rest \<longleftrightarrow> map fst answers @ rest = p \<and> (\<forall>a \<in> set answers. snd a = None)"

fun phase_contract :: "pipeline \<Rightarrow> (pipeline_stage \<times> string option) list \<Rightarrow> run_phase \<Rightarrow> bool" where
  "phase_contract p answers (RWalking steps w) = walked p answers steps"
| "phase_contract p answers (RInStage step steps w) = walked p answers (step # steps)"
| "phase_contract p answers (RAfterStage step steps w) = (answers \<noteq> [] \<and> walked p answers steps)"
| "phase_contract p answers (RClosing as res) = run_contract p answers res"
| "phase_contract p answers (RReturned res) = run_contract p answers res"
| "phase_contract p answers ph = (answers = [])"

definition answers_possible :: "(pipeline_stage \<times> string option) list \<Rightarrow> bool" where
  "answers_possible answers \<longleftrightarrow> (\<forall>(step, answer) \<in> set answers. \<exists>env. ps_run step env answer)"

definition truthful :: "recovery_run \<Rightarrow> bool" where
  "truthful r \<longleftrightarrow> phase_contract (ru_pipeline r) (ru_answers r) (ru_phase r) \<and> answers_possible (ru_answers r)"

definition runs_truthful :: "vsys \<Rightarrow> bool" where
  "runs_truthful s \<longleftrightarrow> (\<forall>n r. rs_runs s n = Some r \<longrightarrow> truthful r)"

lemma truthful_phase:
  assumes "runs_truthful s" and "truthful (q\<lparr>ru_phase := ph\<rparr>)"
  shows "runs_truthful (set_phase n q ph s)"
  using assms by (simp add: runs_truthful_def)

lemma truthful_move:
  assumes "runs_truthful s" and "rs_runs s n = Some r" and "ru_phase r = was"
    and "phase_contract (ru_pipeline r) (ru_answers r) was \<Longrightarrow> phase_contract (ru_pipeline r) (ru_answers r) ph"
  shows "runs_truthful (set_phase n r ph s)"
  using assms by (auto simp: runs_truthful_def truthful_def)

lemma truthful_frame [simp]:
  "runs_truthful (s\<lparr>rs_handlers := h\<rparr>) = runs_truthful s" "runs_truthful (s\<lparr>rs_ledger := l\<rparr>) = runs_truthful s"
  "runs_truthful (s\<lparr>rs_coord := c\<rparr>) = runs_truthful s" "runs_truthful (s\<lparr>rs_done := d\<rparr>) = runs_truthful s"
  "runs_truthful (s\<lparr>rs_subscribing := k\<rparr>) = runs_truthful s" "runs_truthful (log_entry i e s) = runs_truthful s"
  by (simp_all add: runs_truthful_def)

lemma truthful_spawn: "runs_truthful s \<Longrightarrow> runs_truthful (spawn_run (fresh_run i p b) s)"
  by (simp add: runs_truthful_def truthful_def fresh_run_def answers_possible_def)

lemma truthful_cancel: "runs_truthful s \<Longrightarrow> rs_runs s n = Some r \<Longrightarrow>
   runs_truthful (s\<lparr>rs_runs := (rs_runs s)(n \<mapsto> r\<lparr>ru_cancelled := b\<rparr>)\<rparr>)"
  by (simp add: runs_truthful_def truthful_def)

lemma truthful_stage_end:
  assumes "truthful r" and "ru_phase r = RInStage step steps w" and "ps_run step env answer"
  shows "truthful (r\<lparr>ru_answers := ru_answers r @ [(step, answer)],
     ru_phase := (case answer of None \<Rightarrow> RAfterStage step steps w | Some err \<Rightarrow> RClosing (failed_closing step err w) ResultFailed)\<rparr>)"
  using assms by (auto simp: truthful_def walked_def answers_possible_def split: option.split)

lemma truthful_step: "vstep s t \<Longrightarrow> runs_truthful s \<Longrightarrow> runs_truthful t"
proof (induction rule: vstep.induct)
  case (s_stage_ok s n r step steps w env)
  then show ?case using truthful_stage_end [of r step steps w env None] by (auto simp: runs_truthful_def intro!: truthful_phase)
next
  case (s_stage_failed s n r step steps w env err)
  then show ?case using truthful_stage_end [of r step steps w env "Some err"] by (auto simp: runs_truthful_def intro!: truthful_phase)
next
  case (s_enter s n r ph c)
  then have "ph = REntered \<or> (\<exists>m. ph = RBlocked m)" by (auto simp: enter_or_block_def split: option.splits)
  with s_enter show ?case by (intro truthful_move [where was = RAtLock]) auto
next
  case (s_wake s n r m)
  then show ?case by (intro truthful_move [where was = "RBlocked m"]) auto
next
  case (s_exhausted s n r)
  then show ?case by (intro truthful_move [where was = REntered]) auto
next
  case (s_pass s n r)
  then show ?case by (intro truthful_move [where was = REntered]) auto
next
  case (s_begin s n r now w c)
  then show ?case by (simp, intro truthful_move [where was = RStarting]) (auto simp: walked_def)
next
  case (s_stage s n r step steps w now w' c)
  then show ?case by (intro truthful_move [where was = "RWalking (step # steps) w"]) auto
next
  case (s_stage_cancelled s n r step steps w)
  then show ?case by (intro truthful_move [where was = "RAfterStage step steps w"]) (auto simp: walked_def)
next
  case (s_next s n r step steps w)
  then show ?case by (intro truthful_move [where was = "RAfterStage step steps w"]) auto
next
  case (s_success s n r w)
  then show ?case by (intro truthful_move [where was = "RWalking [] w"]) (auto simp: walked_def)
next
  case (s_close s n r a as res now)
  then show ?case by (intro truthful_move [where was = "RClosing (a # as) res"]) auto
next
  case (s_return s n r res)
  then show ?case by (intro truthful_move [where was = "RClosing [] res"]) auto
qed (simp_all add: truthful_spawn truthful_cancel)

lemma truthful_start: "recovery_start s \<Longrightarrow> runs_truthful s"
  by (auto simp: recovery_start_def runs_truthful_def)

interpretation tell: invariant_system recovery_start vstep runs_truthful
  by unfold_locales (auto intro: truthful_start truthful_step)

section \<open>The retry delay\<close>

lemma wrap64_id: "- (2 ^ 63) \<le> x \<Longrightarrow> x < 2 ^ 63 \<Longrightarrow> wrap64 x = x"
  by (simp add: wrap64_def signed_take_bit_int_eq_self)

lemma double_delay_min:
  assumes "0 < delay" "delay \<le> 2 ^ 61" "maximum \<le> 2 ^ 61"
  shows "double_delay maximum n delay = min maximum (delay * 2 ^ n)"
  using assms
proof (induction n arbitrary: delay)
  case (Suc n)
  have w: "wrap64 (delay * 2) = delay * 2" using Suc.prems by (intro wrap64_id) simp_all
  show ?case
  proof (cases "maximum \<le> delay * 2")
    case True
    moreover have "delay * 2 * 1 \<le> delay * 2 * 2 ^ n" using Suc.prems by (intro mult_left_mono) simp_all
    ultimately show ?thesis by (simp add: w min_def mult.assoc)
  next
    case False
    then show ?thesis using Suc.IH [of "delay * 2"] Suc.prems w by (simp add: mult.assoc)
  qed
qed simp

end
