(* ===== verification/Recovery_Guarantees.thy ===== *)
theory Recovery_Guarantees
  imports Recovery_Laws
begin

text \<open>
  The guarantees of the connection recovery coordinator: runs come to an end and give the slot back, the
  heartbeat revives an exhausted interface, and the properties of \<open>Recovery_Laws\<close> in every reachable state.
\<close>

section \<open>Runs come to an end\<close>

text \<open>The steps a run past the lock has at most ahead of it.\<close>

fun work :: "pipeline \<Rightarrow> run_phase \<Rightarrow> nat" where
  "work p REntered = 3 * length p + 13"
| "work p RStarting = 3 * length p + 12"
| "work p (RWalking steps w) = 3 * length steps + 11"
| "work p (RInStage step steps w) = 3 * length steps + 13"
| "work p (RAfterStage step steps w) = 3 * length steps + 12"
| "work p (RClosing as res) = length as + 1"
| "work p ph = 0"

text \<open>Every stage comes back with some answer, whether or not the context is done.\<close>

definition answering :: "pipeline \<Rightarrow> bool" where
  "answering p \<longleftrightarrow> (\<forall>step \<in> set p. \<forall>done. \<exists>env answer. (se_ctx_err env \<noteq> None) = done \<and> ps_run step env answer)"

lemma working_run_steps:
  assumes n: "rs_runs s n = Some r" and work: "0 < work (ru_pipeline r) (ru_phase r)"
    and told: "truthful r" and ans: "answering (ru_pipeline r)"
  obtains t q where "vstep s t" "rs_runs t n = Some q" "ru_pipeline q = ru_pipeline r" "ru_interface q = ru_interface r"
    "truthful q" "work (ru_pipeline q) (ru_phase q) < work (ru_pipeline r) (ru_phase r)"
    "0 < work (ru_pipeline q) (ru_phase q) \<or> (\<exists>res. ru_phase q = RReturned res)"
proof -
  note outer = that
  have keep: thesis if "vstep s t" "rs_runs t n = Some (q\<lparr>ru_phase := ph\<rparr>)" "ru_pipeline q = ru_pipeline r"
      "ru_interface q = ru_interface r" "truthful (q\<lparr>ru_phase := ph\<rparr>)"
      "work (ru_pipeline r) ph < work (ru_pipeline r) (ru_phase r)" "0 < work (ru_pipeline r) ph \<or> (\<exists>res. ph = RReturned res)" for t q ph
    by (rule outer [of t "q\<lparr>ru_phase := ph\<rparr>"]) (use that in simp_all)
  show thesis
  proof (cases "ru_phase r")
    case REntered
    show thesis
    proof (cases "attempts_exhausted (ru_interface r) (rs_coord s)")
      case True
      with n REntered told show thesis
        by (intro keep [OF vstep.s_exhausted [OF n REntered]]) (auto simp: truthful_def)
    next
      case False
      with n REntered told show thesis
        by (intro keep [OF vstep.s_pass [OF n REntered]]) (auto simp: truthful_def)
    qed
  next
    case RStarting
    obtain w c where b: "begin_run 0 (ru_interface r) (rs_coord s) = (w, c)" by fastforce
    with n RStarting told show thesis
      by (intro keep [OF vstep.s_begin [OF n RStarting b]]) (auto simp: truthful_def walked_def)
  next
    case (RWalking steps w)
    show thesis
    proof (cases steps)
      case Nil
      with RWalking have ph: "ru_phase r = RWalking [] w" by simp
      with n told show thesis by (intro keep [OF vstep.s_success [OF n ph]]) (auto simp: truthful_def walked_def)
    next
      case (Cons step rest)
      with RWalking have ph: "ru_phase r = RWalking (step # rest) w" by simp
      obtain w' c where b: "enter_stage 0 (ru_interface r) step w (rs_coord s) = (w', c)" by fastforce
      from n told ph show thesis by (intro keep [OF vstep.s_stage [OF n ph b]]) (auto simp: truthful_def walked_def)
    qed
  next
    case (RInStage step steps w)
    with told have "map fst (ru_answers r) @ step # steps = ru_pipeline r" by (simp add: truthful_def walked_def)
    then have "step \<in> set (ru_pipeline r)" by (metis in_set_conv_decomp)
    with ans obtain env answer where a: "(se_ctx_err env \<noteq> None) = ctx_done (rs_coord s) r" "ps_run step env answer"
      unfolding answering_def by blast
    show thesis
    proof (cases answer)
      case None
      with a have ok: "ps_run step env None" by simp
      from truthful_stage_end [OF told RInStage ok] n RInStage show thesis
        by (intro keep [OF vstep.s_stage_ok [OF n RInStage ok a(1)]]) auto
    next
      case (Some err)
      with a have ok: "ps_run step env (Some err)" by simp
      from truthful_stage_end [OF told RInStage ok] n RInStage show thesis
        by (intro keep [OF vstep.s_stage_failed [OF n RInStage ok a(1)]]) auto
    qed
  next
    case (RAfterStage step steps w)
    show thesis
    proof (cases "ctx_done (rs_coord s) r")
      case True
      with n RAfterStage told show thesis
        by (intro keep [OF vstep.s_stage_cancelled [OF n RAfterStage]]) (auto simp: truthful_def walked_def)
    next
      case False
      with n RAfterStage told show thesis
        by (intro keep [OF vstep.s_next [OF n RAfterStage]]) (auto simp: truthful_def walked_def)
    qed
  next
    case (RClosing as res)
    show thesis
    proof (cases as)
      case Nil
      with RClosing have ph: "ru_phase r = RClosing [] res" by simp
      with n told show thesis by (intro keep [OF vstep.s_return [OF n ph]]) (auto simp: truthful_def)
    next
      case (Cons a rest)
      with RClosing have ph: "ru_phase r = RClosing (a # rest) res" by simp
      with n told show thesis by (intro keep [OF vstep.s_close [OF n ph, of 0]]) (auto simp: truthful_def)
    qed
  qed (use work in simp_all)
qed

lemma work_bound:
  assumes "truthful r" and "recovery_slots s" and "rs_runs s n = Some r"
  shows "work (ru_pipeline r) (ru_phase r) \<le> 3 * length (ru_pipeline r) + 13"
proof -
  have "run_phase_ok (ru_phase r)" using assms(2,3) by (simp add: recovery_slots_def slot_inv_def)
  moreover have "walked (ru_pipeline r) (ru_answers r) steps \<Longrightarrow> length steps \<le> length (ru_pipeline r)" for steps
    unfolding walked_def by (metis le_add2 length_append)
  ultimately show ?thesis using assms(1) by (cases "ru_phase r") (fastforce simp: truthful_def)+
qed

text \<open>
  A step of the system leaves a working run where it is or brings it closer to its end: whatever the
  others do, Stop and cancellation included, nobody sets it back.
\<close>

lemma vstep_of_run:
  assumes step: "vstep s t" and n: "rs_runs s n = Some r" and work: "0 < work (ru_pipeline r) (ru_phase r)"
    and fresh: "rs_runs s (rs_next s) = None"
  shows "\<exists>q. rs_runs t n = Some q \<and> ru_pipeline q = ru_pipeline r \<and> ru_interface q = ru_interface r
    \<and> (ru_phase q = ru_phase r
       \<or> work (ru_pipeline r) (ru_phase q) < work (ru_pipeline r) (ru_phase r)
         \<and> (0 < work (ru_pipeline r) (ru_phase q) \<or> (\<exists>res. ru_phase q = RReturned res)))"
proof -
  have "n \<noteq> rs_next s" using n fresh by auto
  from step show ?thesis
    by cases (use n work \<open>n \<noteq> rs_next s\<close> in \<open>auto simp: failed_closing_def cancelled_closing_def success_closing_def
      exhausted_closing_def leaving_def Let_def\<close>)
qed

section \<open>The heartbeat\<close>

lemma exhausted_is_listed:
  assumes "accounts_ok s" and "attempts_exhausted i (rs_coord s)"
  shows "i \<in> exhausted_interfaces (rs_coord s)"
proof -
  have "account_at i s" using assms(1) by (simp add: accounts_ok_def)
  then have "0 < attempt_count i (rs_coord s) \<longrightarrow> i \<in> dom (rc_state (rs_coord s))" by (simp add: account_ok_def)
  then show ?thesis using assms(2) by (simp add: attempts_exhausted_def exhausted_interfaces_def)
qed

text \<open>What the grant of the heartbeat's handler does, and that nothing else moves the handler.\<close>

lemma exhausted_is_granted:
  assumes "attempts_exhausted i c"
  shows "granted_entries i c = [(i, LGranted)]"
    and "attempt_count i (allow_one_recovery_attempt i c) = rc_max_attempts c - 1"
    and "\<not> attempts_exhausted i (allow_one_recovery_attempt i c)"
    and "attempts_exhausted i (bump_attempt i (allow_one_recovery_attempt i c))"
    and "trigger_gate i (allow_one_recovery_attempt i c) = trigger_gate i c"
  using assms
  by (auto simp: granted_entries_def attempts_exhausted_def allow_one_recovery_attempt_def bump_attempt_def attempt_count_def
      trigger_gate_def registered_pipeline_def Let_def)

lemma handler_allows:
  assumes "vstep s t" and "rs_handlers s h = Some (HAllow i # ops)" and "rs_handlers t h \<noteq> rs_handlers s h"
  shows "t = s\<lparr>rs_handlers := (rs_handlers s)(h \<mapsto> ops), rs_coord := allow_one_recovery_attempt i (rs_coord s),
     rs_ledger := rs_ledger s @ granted_entries i (rs_coord s)\<rparr>"
  using assms(1) by cases (use assms(2,3) in \<open>auto split: if_splits\<close>)

section \<open>A run that fails\<close>

text \<open>All closing actions of a run in one go.\<close>

definition finish :: "nat \<Rightarrow> vsys \<Rightarrow> vsys" where
  "finish n s =
     (case rs_runs s n of None \<Rightarrow> s
      | Some r \<Rightarrow> (case ru_phase r of
          RClosing as res \<Rightarrow> set_phase n r (RReturned res)
            (s\<lparr>rs_coord := fold (perform 0 n (ru_interface r)) as (rs_coord s),
               rs_done := (if CClose \<in> set as then insert n (rs_done s) else rs_done s),
               rs_ledger := rs_ledger s @ concat (map (closing_entries (ru_interface r)) as)\<rparr>)
        | _ \<Rightarrow> s))"

lemma finish_closing:
  assumes "rs_runs s n = Some r" "ru_phase r = RClosing as res"
  shows "vstep\<^sup>*\<^sup>* s (finish n s)"
  using assms
proof (induction as arbitrary: s r)
  case Nil
  then have "vstep s (finish n s)" using vstep.s_return [of s n r res] by (simp add: finish_def)
  then show ?case by blast
next
  case (Cons a as)
  let ?t = "set_phase n r (RClosing as res)
      (s\<lparr>rs_coord := perform 0 n (ru_interface r) a (rs_coord s),
         rs_done := (if a = CClose then insert n (rs_done s) else rs_done s),
         rs_ledger := rs_ledger s @ closing_entries (ru_interface r) a\<rparr>)"
  have "vstep s ?t" using Cons.prems by (rule vstep.s_close)
  moreover have "vstep\<^sup>*\<^sup>* ?t (finish n ?t)" by (rule Cons.IH [of _ "r\<lparr>ru_phase := RClosing as res\<rparr>"]) simp_all
  moreover have "finish n ?t = finish n s"
    using Cons.prems by (auto simp: finish_def set_phase_def)
  ultimately show ?case by (metis converse_rtranclp_into_rtranclp)
qed

lemma perform_wiring:
  "rc_max_attempts (perform now n i a c) = rc_max_attempts c" "rc_armed (perform now n i a c) = rc_armed c"
  "rc_pipelines (perform now n i a c) = rc_pipelines c" "rc_default_pipeline (perform now n i a c) = rc_default_pipeline c"
  "rc_stopped (perform now n i a c) = rc_stopped c" "rc_listening (perform now n i a c) = rc_listening c"
  "rc_central (perform now n i a c) = rc_central c"
  by (cases a; simp add: section_defs Let_def split: option.split)+

lemma perform_attempts:
  "attempt_count j (perform now n i a c) =
     (if j = i \<and> a = CBump then attempt_count i c + 1 else if j = i \<and> is_count a then 0 else attempt_count j c)"
  by (cases a) (simp_all add: section_defs Let_def attempt_count_def split: option.split)

lemma perform_active:
  "rc_active (perform now n i a c) = (if a = CRelease \<and> rc_active c i = Some n then (rc_active c)(i := None) else rc_active c)"
  by (cases a) (simp_all add: section_defs Let_def split: option.split)

text \<open>A run alone on its interface whose only stage fails: it counts one attempt and gives the slot back.\<close>

lemma failing_run:
  assumes n: "rs_runs s n = Some r" "ru_phase r = REntered" "ru_pipeline r = [step]" "ru_interface r = i"
    and cap: "\<not> attempts_exhausted i (rs_coord s)" and slot: "rc_active (rs_coord s) i = Some n"
    and fails: "ps_run step env (Some err)" "(se_ctx_err env \<noteq> None) = ctx_done (rs_coord s) r"
  obtains t where "vstep\<^sup>*\<^sup>* s t" "rs_runs t n = Some (r\<lparr>ru_answers := ru_answers r @ [(step, Some err)], ru_phase := RReturned ResultFailed\<rparr>)"
    "attempt_count i (rs_coord t) = attempt_count i (rs_coord s) + 1" "rc_active (rs_coord t) = (rc_active (rs_coord s))(i := None)"
    "rc_max_attempts (rs_coord t) = rc_max_attempts (rs_coord s)" "rc_armed (rs_coord t) = rc_armed (rs_coord s)"
    "rc_pipelines (rs_coord t) = rc_pipelines (rs_coord s)" "rc_default_pipeline (rs_coord t) = rc_default_pipeline (rs_coord s)"
    "rc_stopped (rs_coord t) = rc_stopped (rs_coord s)" "rc_listening (rs_coord t) = rc_listening (rs_coord s)"
    "rc_central (rs_coord t) = rc_central (rs_coord s)" "rs_handlers t = rs_handlers s"
proof -
  define s1 where "s1 = set_phase n r RStarting s"
  obtain w c where b: "begin_run 0 i (rs_coord s) = (w, c)" by fastforce
  define s2 where "s2 = log_entry i LStarted (set_phase n (r\<lparr>ru_phase := RStarting\<rparr>) (RWalking [step] w) (s1\<lparr>rs_coord := c\<rparr>))"
  obtain w' d where e: "enter_stage 0 i step w c = (w', d)" by fastforce
  define s3 where "s3 = set_phase n (r\<lparr>ru_phase := RWalking [step] w\<rparr>) (RInStage step [] w') (s2\<lparr>rs_coord := d\<rparr>)"
  define r4 where "r4 = r\<lparr>ru_phase := RInStage step [] w', ru_answers := ru_answers r @ [(step, Some err)]\<rparr>"
  define s4 where "s4 = set_phase n r4 (RClosing (failed_closing step err w') ResultFailed) s3"
  have "vstep s s1" unfolding s1_def by (rule vstep.s_pass) (use n cap in simp_all)
  moreover have "vstep s1 s2"
    using vstep.s_begin [of s1 n "r\<lparr>ru_phase := RStarting\<rparr>" 0 w c] b n by (simp add: s2_def s1_def)
  moreover have "vstep s2 s3"
    using vstep.s_stage [of s2 n "r\<lparr>ru_phase := RWalking [step] w\<rparr>" step "[]" w 0 w' d] e n by (simp add: s3_def s2_def)
  moreover have "rc_run_cancelled d = rc_run_cancelled (rs_coord s)"
    using b e by (cases "rc_machine (rs_coord s)"; auto simp: begin_run_def enter_stage_def section_defs)+
  then have "ctx_done d (r\<lparr>ru_phase := RInStage step [] w'\<rparr>) = ctx_done (rs_coord s) r" by (simp add: ctx_done_def)
  then have "vstep s3 s4"
    using vstep.s_stage_failed [of s3 n "r\<lparr>ru_phase := RInStage step [] w'\<rparr>" step "[]" w' env err] fails by (simp add: s4_def s3_def r4_def)
  moreover have "vstep\<^sup>*\<^sup>* s4 (finish n s4)" 
    by (rule finish_closing [where r = "r4\<lparr>ru_phase := RClosing (failed_closing step err w') ResultFailed\<rparr>"]) (simp_all add: s4_def)
  ultimately have steps: "vstep\<^sup>*\<^sup>* s (finish n s4)" by (meson converse_rtranclp_into_rtranclp)
  have r4: "ru_interface r4 = i" by (simp add: r4_def n)
  have "rs_coord (finish n s4) = fold (perform 0 n i) (failed_closing step err w') d"
    by (simp add: finish_def s4_def s3_def s2_def s1_def r4)
  then have c: "attempt_count i (rs_coord (finish n s4)) = attempt_count i d + 1" "rc_active (rs_coord (finish n s4)) = (rc_active d)(i := None)"
      "rc_max_attempts (rs_coord (finish n s4)) = rc_max_attempts d" "rc_armed (rs_coord (finish n s4)) = rc_armed d"
      "rc_pipelines (rs_coord (finish n s4)) = rc_pipelines d" "rc_default_pipeline (rs_coord (finish n s4)) = rc_default_pipeline d"
      "rc_stopped (rs_coord (finish n s4)) = rc_stopped d" "rc_listening (rs_coord (finish n s4)) = rc_listening d"
      "rc_central (rs_coord (finish n s4)) = rc_central d" if "rc_active d i = Some n"
    using that
    by (simp_all add: failed_closing_def leaving_def Let_def perform_wiring perform_attempts perform_active del: perform.simps)
  have same: "same_counts (rs_coord s) c" "same_counts c d" using begin_counts [OF b] stage_counts [OF e] by simp_all
  have d: "attempt_count i d = attempt_count i (rs_coord s)" "rc_active d = rc_active (rs_coord s)"
      "rc_max_attempts d = rc_max_attempts (rs_coord s)"
    using same by (simp_all add: same_counts_def slots_kept_def attempt_count_def)
  have d': "rc_armed d = rc_armed (rs_coord s)"
      "rc_pipelines d = rc_pipelines (rs_coord s)" "rc_default_pipeline d = rc_default_pipeline (rs_coord s)"
      "rc_stopped d = rc_stopped (rs_coord s)" "rc_listening d = rc_listening (rs_coord s)" "rc_central d = rc_central (rs_coord s)"
    using b e by (cases "rc_machine (rs_coord s)"; auto simp: begin_run_def enter_stage_def section_defs)+
  have "rs_handlers (finish n s4) = rs_handlers s"
    "rs_runs (finish n s4) n = Some (r\<lparr>ru_answers := ru_answers r @ [(step, Some err)], ru_phase := RReturned ResultFailed\<rparr>)"
    by (simp_all add: finish_def s4_def s3_def s2_def s1_def r4_def)
  then show thesis using steps c d d' slot by (intro that [of "finish n s4"]) simp_all
qed

section \<open>Properties\<close>

subsection \<open>Examples\<close>

definition demo_down :: pipeline where
  "demo_down = [plain_stage StageReinit (\<lambda>env answer. answer = Some ''down'')]"

definition demo_boot :: vsys where
  "demo_boot = \<lparr>rs_coord = new_recovery_with_limit ''ccu'' 1, rs_runs = Map.empty, rs_next = 0, rs_done = {},
     rs_handlers = Map.empty, rs_subscribing = 0, rs_ledger = []\<rparr>"

text \<open>An armed interface with a pipeline, and the coordinator subscribed to the bus.\<close>

definition demo_wired :: vsys where
  "demo_wired = demo_boot\<lparr>rs_coord := (rs_coord demo_boot)\<lparr>rc_armed := {''HmIP''}, rc_default_pipeline := demo_down,
     rc_subscribed := True, rc_listening := 1\<rparr>, rs_subscribing := 1\<rparr>"

text \<open>A reconnect request has taken the slot, a second one waits for it.\<close>

definition demo_one :: vsys where
  "demo_one = set_phase 0 (fresh_run ''HmIP'' demo_down False) REntered
     ((spawn_run (fresh_run ''HmIP'' demo_down False) demo_wired)\<lparr>rs_coord := (rs_coord demo_wired)\<lparr>rc_active := (rc_active (rs_coord demo_wired))(''HmIP'' \<mapsto> 0)\<rparr>\<rparr>)"

definition demo_two :: vsys where
  "demo_two = set_phase 1 (fresh_run ''HmIP'' demo_down False) (RBlocked 0)
     ((spawn_run (fresh_run ''HmIP'' demo_down False) demo_one)\<lparr>rs_coord := rs_coord demo_one\<rparr>)"

lemma reach_rstep: "reach recovery_start vstep s \<Longrightarrow> vstep s t \<Longrightarrow> reach recovery_start vstep t"
  by (rule reach.reach_step)

lemma demo_wired_reach: "reach recovery_start vstep demo_wired"
proof -
  have wire: "reach recovery_start vstep s \<Longrightarrow> reach recovery_start vstep (s\<lparr>rs_coord := apply_wiring 0 w (rs_coord s)\<rparr>)" for s w
    by (erule reach_rstep) (rule vstep.s_wire)
  have "reach recovery_start vstep demo_boot" by (rule reach.intros) (auto simp: recovery_start_def demo_boot_def)
  from wire [OF wire [OF this, of "WArm ''HmIP''"], of "WDefaultPipeline demo_down"]
  have "reach recovery_start vstep (demo_boot\<lparr>rs_coord := (rs_coord demo_boot)\<lparr>rc_armed := {''HmIP''}, rc_default_pipeline := demo_down\<rparr>\<rparr>)"
    (is "reach _ _ ?s")
    by (simp add: arm_interface_def with_default_pipeline_def demo_boot_def new_recovery_with_limit_def)
  moreover have "vstep ?s demo_wired"
    using vstep.s_subscribe [of ?s] by (simp add: demo_wired_def demo_boot_def subscribe_begin_def new_recovery_with_limit_def)
  ultimately show ?thesis by (rule reach_rstep)
qed

lemma demo_fields [simp]:
  "rs_runs demo_wired = Map.empty" "rs_next demo_wired = 0" "rc_active (rs_coord demo_wired) = Map.empty" "rs_handlers demo_wired = Map.empty"
  "rc_max_attempts (rs_coord demo_wired) = 1" "attempt_count i (rs_coord demo_wired) = 0" "rc_stopped (rs_coord demo_wired) = False"
  "rc_armed (rs_coord demo_wired) = {''HmIP''}" "rc_default_pipeline (rs_coord demo_wired) = demo_down"
  "rc_pipelines (rs_coord demo_wired) = Map.empty" "rc_listening (rs_coord demo_wired) = 1" "rc_central (rs_coord demo_wired) = ''ccu''"
  "rs_ledger demo_wired = []"
  by (simp_all add: demo_wired_def demo_boot_def new_recovery_with_limit_def attempt_count_def)

lemma demo_reconnect: "vstep s (spawn_run (fresh_run ''HmIP'' demo_down False) s)"
  by (rule vstep.s_reconnect [where step = "Some (\<lambda>env answer. answer = Some ''down'')"]) (simp add: reconnect_pipeline_def demo_down_def)

lemma enter_free: "rc_active c i = None \<Longrightarrow> enter_or_block n i c = (REntered, c\<lparr>rc_active := (rc_active c)(i \<mapsto> n)\<rparr>)"
  by (simp add: enter_or_block_def)

lemma enter_taken: "rc_active c i = Some m \<Longrightarrow> enter_or_block n i c = (RBlocked m, c)"
  by (simp add: enter_or_block_def)

lemma demo_one_reach: "reach recovery_start vstep demo_one"
proof -
  let ?r = "fresh_run ''HmIP'' demo_down False" and ?c = "rs_coord demo_wired"
  let ?s = "spawn_run ?r demo_wired"
  have e: "enter_or_block 0 ''HmIP'' ?c = (REntered, ?c\<lparr>rc_active := (rc_active ?c)(''HmIP'' \<mapsto> 0)\<rparr>)"
    by (rule enter_free) simp
  have "reach recovery_start vstep ?s" by (rule reach_rstep [OF demo_wired_reach demo_reconnect])
  moreover have "vstep ?s demo_one"
    unfolding demo_one_def by (rule vstep.s_enter) (simp, simp, simp only: spawn_run_fields fresh_run_phase e)
  ultimately show ?thesis by (rule reach_rstep)
qed

lemma demo_two_reach: "reach recovery_start vstep demo_two"
proof -
  let ?r = "fresh_run ''HmIP'' demo_down False" and ?c = "rs_coord demo_one"
  let ?s = "spawn_run ?r demo_one"
  have c: "rc_active ?c = (rc_active (rs_coord demo_wired))(''HmIP'' \<mapsto> 0)" "rs_next demo_one = 1"
    by (simp_all add: demo_one_def)
  have e: "enter_or_block 1 ''HmIP'' ?c = (RBlocked 0, ?c)"
    by (rule enter_taken) (simp add: c)
  have "reach recovery_start vstep ?s" by (rule reach_rstep [OF demo_one_reach demo_reconnect])
  moreover have "vstep ?s demo_two"
    unfolding demo_two_def by (rule vstep.s_enter) (simp add: c, simp, simp only: spawn_run_fields fresh_run_phase e)
  ultimately show ?thesis by (rule reach_rstep)
qed

text \<open>The first request failed, which exhausts the cap of one, and the heartbeat's event is being handled.\<close>

lemma demo_failed:
  obtains s where "reach recovery_start vstep s"
    "rs_runs s 0 = Some ((fresh_run ''HmIP'' demo_down False)\<lparr>ru_answers := [(hd demo_down, Some ''down'')], ru_phase := RReturned ResultFailed\<rparr>)"
    "attempts_exhausted ''HmIP'' (rs_coord s)" "trigger_gate ''HmIP'' (rs_coord s) = Inr demo_down"
    "rs_handlers s = [0 \<mapsto> [HAllow ''HmIP'', HTrigger ''HmIP'']]"
proof -
  obtain t where t: "vstep\<^sup>*\<^sup>* demo_one t"
      "rs_runs t 0 = Some ((fresh_run ''HmIP'' demo_down False)\<lparr>ru_answers := [(hd demo_down, Some ''down'')], ru_phase := RReturned ResultFailed\<rparr>)"
      "attempt_count ''HmIP'' (rs_coord t) = 1" "rc_active (rs_coord t) = Map.empty" "rc_max_attempts (rs_coord t) = 1"
      "rc_armed (rs_coord t) = {''HmIP''}" "rc_pipelines (rs_coord t) = Map.empty" "rc_default_pipeline (rs_coord t) = demo_down"
      "rc_stopped (rs_coord t) = False" "rc_listening (rs_coord t) = 1" "rc_central (rs_coord t) = ''ccu''" "rs_handlers t = Map.empty"
    by (rule failing_run [of demo_one 0 "(fresh_run ''HmIP'' demo_down False)\<lparr>ru_phase := REntered\<rparr>" "hd demo_down" "''HmIP''"
          "\<lparr>se_elapsed = 0, se_ctx_err = None\<rparr>" "''down''"])
      (auto simp: demo_one_def demo_down_def plain_stage_def fresh_run_def attempts_exhausted_def ctx_done_def)
  define s where "s = t\<lparr>rs_handlers := [0 \<mapsto> [HAllow ''HmIP'', HTrigger ''HmIP'']]\<rparr>"
  have "reach recovery_start vstep t" by (rule reach_rtranclp [OF t(1) demo_one_reach])
  moreover have "vstep t s"
    using vstep.s_event [of t 0 "[]" "HeartbeatFired ''ccu'' [''HmIP'']"] t by (simp add: s_def interface_ids_def)
  ultimately have "reach recovery_start vstep s" by (rule reach_rstep)
  then show thesis
    using t by (intro that [of s]) (simp_all add: s_def attempts_exhausted_def trigger_gate_def registered_pipeline_def demo_down_def)
qed

subsection \<open>Statements\<close>

text \<open>
  C20. Concurrent recoveries of one interface are serialised. In every reachable state two runs between
  taking and giving back the slot of an interface are the same run, \<open>InRecoveryFor\<close> tells exactly whether
  there is one, and a run that waits waits for a channel that is closed or whose owner will still close it.
\<close>

theorem one_recovery_per_interface:
  assumes "reach recovery_start vstep s"
  shows "(rs_runs s n = Some r \<and> holds_slot (ru_phase r) \<and> rs_runs s m = Some q \<and> holds_slot (ru_phase q)
        \<and> ru_interface r = ru_interface q \<longrightarrow> n = m)
    \<and> (in_recovery_for i (rs_coord s) \<longleftrightarrow> (\<exists>n r. rs_runs s n = Some r \<and> ru_interface r = i \<and> holds_slot (ru_phase r)))
    \<and> (rs_runs s n = Some r \<and> ru_phase r = RBlocked m \<longrightarrow>
         m \<in> rs_done s \<or> (\<exists>q. rs_runs s m = Some q \<and> close_ahead (ru_phase q)))"
proof -
  have ok: "recovery_slots s" by (rule slots.reach_inv [OF assms])
  have own: "rc_active (rs_coord s) j = Some k \<longleftrightarrow> holder (rs_runs s) j k" for j k
    using ok by (simp add: recovery_slots_def slot_inv_def)
  have "in_recovery_for i (rs_coord s) \<longleftrightarrow> (\<exists>n r. rs_runs s n = Some r \<and> ru_interface r = i \<and> holds_slot (ru_phase r))"
  proof -
    have "in_recovery_for i (rs_coord s) \<longleftrightarrow> (\<exists>k. rc_active (rs_coord s) i = Some k)" by (simp add: in_recovery_for_def)
    also have "\<dots> \<longleftrightarrow> (\<exists>k. holder (rs_runs s) i k)" by (simp add: own)
    finally show ?thesis by (auto simp: holder_def split: option.splits)
  qed
  moreover have "closes (rs_runs s) (rs_done s) m" if "rs_runs s n = Some r" "ru_phase r = RBlocked m"
  proof -
    have "waits_for (rs_runs s) n = Some m" using that by (simp add: waits_for_def)
    then show ?thesis using ok by (auto simp: recovery_slots_def slot_inv_def)
  qed
  ultimately show ?thesis
    using one_run_per_interface_raw [OF ok] by (auto simp: closes_def split: option.splits)
qed

theorem one_recovery_per_interface_witness:
  "reach recovery_start vstep demo_two \<and> in_recovery_for ''HmIP'' (rs_coord demo_two) \<and> \<not> in_recovery_for ''BidCos'' (rs_coord demo_two)"
proof -
  have runs: "rs_runs demo_two = [0 \<mapsto> (fresh_run ''HmIP'' demo_down False)\<lparr>ru_phase := REntered\<rparr>,
      1 \<mapsto> (fresh_run ''HmIP'' demo_down False)\<lparr>ru_phase := RBlocked 0\<rparr>]"
    by (auto simp: demo_two_def demo_one_def)
  have "in_recovery_for i (rs_coord demo_two) \<longleftrightarrow> (\<exists>n r. rs_runs demo_two n = Some r \<and> ru_interface r = i \<and> holds_slot (ru_phase r))" for i
    using one_recovery_per_interface [OF demo_two_reach, of 0 undefined 0 undefined i] by blast
  then show ?thesis using demo_two_reach by (auto simp: runs split: if_splits)
qed

text \<open>
  C21. The cap rations the pipelines run against the CCU. With a cap the attempt counter stays between zero
  and the cap, and over any execution the pipelines started for an interface are at most the cap for the
  start and for every success and manual reset, one for every attempt the heartbeat granted, the successful
  runs themselves, and the one under way.
\<close>

theorem recovery_attempts_rationed:
  assumes "reach recovery_start vstep s" and "0 < rc_max_attempts (rs_coord s)"
  shows "0 \<le> attempt_count i (rs_coord s) \<and> attempt_count i (rs_coord s) \<le> rc_max_attempts (rs_coord s)
    \<and> entry_count i LStarted (rs_ledger s) \<le>
        rc_max_attempts (rs_coord s) * (1 + entry_count i LSucceeded (rs_ledger s) + entry_count i LReset (rs_ledger s))
        + entry_count i LGranted (rs_ledger s) + entry_count i LSucceeded (rs_ledger s) + 1"
proof -
  have "account_at i s" using accounts.reach_inv [OF assms(1)] by (simp add: accounts_ok_def)
  then show ?thesis using assms(2) by (auto simp: account_ok_def distrib_left split: if_splits)
qed

theorem recovery_attempts_rationed_witness:
  "\<exists>s. reach recovery_start vstep s \<and> attempts_exhausted ''HmIP'' (rs_coord s) \<and> attempt_count ''HmIP'' (rs_coord s) \<le> rc_max_attempts (rs_coord s)"
proof -
  obtain s where s: "reach recovery_start vstep s" "attempts_exhausted ''HmIP'' (rs_coord s)" by (rule demo_failed)
  then show ?thesis using recovery_attempts_rationed [OF s(1), of "''HmIP''"] by (auto simp: attempts_exhausted_def)
qed

text \<open>
  C22. A run tells the truth about its pipeline. A run that returned success walked all stages in order and
  each answered without an error; one that returned failed either was refused by the cap before any stage or
  stopped at the first stage with an error; one that returned cancelled stopped after a stage. Every answer is
  one the stage could give.
\<close>

theorem recovery_runs_tell_the_truth:
  assumes "reach recovery_start vstep s" and "rs_runs s n = Some r" and "ru_phase r = RReturned res"
  shows "run_contract (ru_pipeline r) (ru_answers r) res \<and> answers_possible (ru_answers r)"
proof -
  have "truthful r" using tell.reach_inv [OF assms(1)] assms(2) by (simp add: runs_truthful_def)
  then show ?thesis by (simp add: truthful_def assms(3))
qed

theorem recovery_runs_tell_the_truth_witness:
  "\<exists>s r. reach recovery_start vstep s \<and> rs_runs s 0 = Some r \<and> ru_phase r = RReturned ResultFailed
     \<and> ru_answers r = [(hd demo_down, Some ''down'')] \<and> run_contract (ru_pipeline r) (ru_answers r) ResultFailed"
proof -
  obtain s where s: "reach recovery_start vstep s"
    "rs_runs s 0 = Some ((fresh_run ''HmIP'' demo_down False)\<lparr>ru_answers := [(hd demo_down, Some ''down'')], ru_phase := RReturned ResultFailed\<rparr>)"
    by (rule demo_failed)
  show ?thesis using recovery_runs_tell_the_truth [OF s, of ResultFailed] s by (intro exI [of _ s]) auto
qed

text \<open>
  C23. A run past the lock comes to an end. The steps it has ahead are at most three per stage and
  thirteen more; every step of the system, of whomever, leaves the run at the point where it is or
  lowers that number, until it has returned; and if the stages of its pipeline answer, whether or
  not the context is done, it can at any time take a step that lowers it, without waiting for anybody.
\<close>

theorem recovery_runs_end:
  assumes "reach recovery_start vstep s" and "rs_runs s n = Some r" and "0 < work (ru_pipeline r) (ru_phase r)"
  shows "work (ru_pipeline r) (ru_phase r) \<le> 3 * length (ru_pipeline r) + 13
    \<and> (\<forall>t. vstep s t \<longrightarrow> (\<exists>q. rs_runs t n = Some q \<and> ru_pipeline q = ru_pipeline r
         \<and> (ru_phase q = ru_phase r
            \<or> work (ru_pipeline r) (ru_phase q) < work (ru_pipeline r) (ru_phase r)
              \<and> (0 < work (ru_pipeline r) (ru_phase q) \<or> (\<exists>res. ru_phase q = RReturned res)))))
    \<and> (answering (ru_pipeline r) \<longrightarrow> (\<exists>t q. vstep s t \<and> rs_runs t n = Some q \<and> ru_pipeline q = ru_pipeline r
         \<and> work (ru_pipeline r) (ru_phase q) < work (ru_pipeline r) (ru_phase r)))"
proof -
  have told: "truthful r" using tell.reach_inv [OF assms(1)] assms(2) by (simp add: runs_truthful_def)
  have slots: "recovery_slots s" by (rule slots.reach_inv [OF assms(1)])
  have "rs_runs s m = Some q \<Longrightarrow> m < rs_next s" for m q using slots by (auto simp: recovery_slots_def slot_inv_def)
  then have fresh: "rs_runs s (rs_next s) = None" by (metis less_irrefl option.exhaust)
  have "work (ru_pipeline r) (ru_phase r) \<le> 3 * length (ru_pipeline r) + 13"
    using told slots assms(2) by (rule work_bound)
  moreover have "\<exists>t q. vstep s t \<and> rs_runs t n = Some q \<and> ru_pipeline q = ru_pipeline r
      \<and> work (ru_pipeline r) (ru_phase q) < work (ru_pipeline r) (ru_phase r)" if "answering (ru_pipeline r)"
    by (rule working_run_steps [OF assms(2,3) told that]) fastforce
  ultimately show ?thesis using vstep_of_run [OF _ assms(2,3) fresh] by blast
qed

theorem recovery_runs_end_witness:
  "\<exists>t q. vstep demo_one t \<and> rs_runs t 0 = Some q \<and> work demo_down (ru_phase q) < 16"
proof -
  let ?r = "(fresh_run ''HmIP'' demo_down False)\<lparr>ru_phase := REntered\<rparr>"
  have "\<exists>env answer. (se_ctx_err env \<noteq> None) = b \<and> ps_run (plain_stage StageReinit (\<lambda>env answer. answer = Some ''down'')) env answer" for b
    by (intro exI [of _ "\<lparr>se_elapsed = 0, se_ctx_err = (if b then Some ''cancelled'' else None)\<rparr>"]) (simp add: plain_stage_def)
  then have "answering demo_down" by (simp add: answering_def demo_down_def)
  moreover have "rs_runs demo_one 0 = Some ?r" by (simp add: demo_one_def)
  moreover have "length demo_down = 1" by (simp add: demo_down_def)
  ultimately show ?thesis
    using recovery_runs_end [OF demo_one_reach, of 0 ?r] by (fastforce simp: fresh_run_def)
qed

text \<open>
  C24. Exhaustion is not for ever. An interface that used up its attempts is in every list of exhausted
  interfaces a heartbeat tick publishes, and the handler of that event grants it an attempt and triggers
  it. The handler's step that grants sets the counter to one below the cap: the cap no longer refuses the
  interface, one more failed attempt exhausts it again, and the trigger is decided as it was before, that
  is by whether the coordinator runs, the interface is armed and has a pipeline, and its slot is free.
\<close>

theorem heartbeat_revives_exhausted_interfaces:
  assumes "reach recovery_start vstep s" and "attempts_exhausted i (rs_coord s)"
  shows "(set ids = exhausted_interfaces (rs_coord s) \<longrightarrow>
       rc_trace (fire_heartbeat_if_exhausted ids (rs_coord s)) =
         rc_trace (rs_coord s) @ [Published (rc_central (rs_coord s)) (HeartbeatTimerFired ids)]
       \<and> (\<exists>before after. handler_ops (HeartbeatFired (rc_central (rs_coord s)) ids) all (rs_coord s) =
             before @ [HAllow i, HTrigger i] @ after))
    \<and> (rs_handlers s h = Some (HAllow i # ops) \<and> vstep s t \<and> rs_handlers t h \<noteq> rs_handlers s h \<longrightarrow>
       rs_handlers t h = Some ops \<and> rs_runs t = rs_runs s
       \<and> attempt_count i (rs_coord t) = rc_max_attempts (rs_coord s) - 1
       \<and> \<not> attempts_exhausted i (rs_coord t) \<and> attempts_exhausted i (bump_attempt i (rs_coord t))
       \<and> trigger_gate i (rs_coord t) = trigger_gate i (rs_coord s)
       \<and> rs_ledger t = rs_ledger s @ [(i, LGranted)])"
proof (intro conjI impI)
  assume ids: "set ids = exhausted_interfaces (rs_coord s)"
  have i: "i \<in> set ids" unfolding ids by (rule exhausted_is_listed [OF accounts.reach_inv [OF assms(1)] assms(2)])
  have "0 < rc_max_attempts (rs_coord s)" using assms(2) by (simp add: attempts_exhausted_def)
  with i show "rc_trace (fire_heartbeat_if_exhausted ids (rs_coord s)) =
      rc_trace (rs_coord s) @ [Published (rc_central (rs_coord s)) (HeartbeatTimerFired ids)]"
    by (auto simp: fire_heartbeat_if_exhausted_def publish_recovery_def)
  from i obtain xs ys where "ids = xs @ i # ys" by (auto dest: split_list)
  then show "\<exists>before after. handler_ops (HeartbeatFired (rc_central (rs_coord s)) ids) all (rs_coord s) = before @ [HAllow i, HTrigger i] @ after"
    by (intro exI [of _ "concat (map (\<lambda>i. [HAllow i, HTrigger i]) xs)"] exI [of _ "concat (map (\<lambda>i. [HAllow i, HTrigger i]) ys)"]) simp
next
  assume h: "rs_handlers s h = Some (HAllow i # ops) \<and> vstep s t \<and> rs_handlers t h \<noteq> rs_handlers s h"
  then have t: "t = s\<lparr>rs_handlers := (rs_handlers s)(h \<mapsto> ops), rs_coord := allow_one_recovery_attempt i (rs_coord s),
      rs_ledger := rs_ledger s @ granted_entries i (rs_coord s)\<rparr>"
    by (intro handler_allows) auto
  note granted = exhausted_is_granted [OF assms(2)]
  from t granted(1) show "rs_handlers t h = Some ops" "rs_runs t = rs_runs s" "rs_ledger t = rs_ledger s @ [(i, LGranted)]" by simp_all
  from t granted show "attempt_count i (rs_coord t) = rc_max_attempts (rs_coord s) - 1" "\<not> attempts_exhausted i (rs_coord t)"
    "attempts_exhausted i (bump_attempt i (rs_coord t))" "trigger_gate i (rs_coord t) = trigger_gate i (rs_coord s)" by simp_all
qed

theorem heartbeat_revives_exhausted_interfaces_witness:
  "\<exists>s t. reach recovery_start vstep s \<and> attempts_exhausted ''HmIP'' (rs_coord s) \<and> vstep s t
     \<and> \<not> attempts_exhausted ''HmIP'' (rs_coord t) \<and> trigger_gate ''HmIP'' (rs_coord t) = Inr demo_down"
proof -
  obtain s where s: "reach recovery_start vstep s" "attempts_exhausted ''HmIP'' (rs_coord s)"
    "trigger_gate ''HmIP'' (rs_coord s) = Inr demo_down" "rs_handlers s = [0 \<mapsto> [HAllow ''HmIP'', HTrigger ''HmIP'']]"
    by (rule demo_failed)
  let ?t = "s\<lparr>rs_handlers := (rs_handlers s)(0 \<mapsto> [HTrigger ''HmIP'']), rs_coord := allow_one_recovery_attempt ''HmIP'' (rs_coord s),
      rs_ledger := rs_ledger s @ granted_entries ''HmIP'' (rs_coord s)\<rparr>"
  have "vstep s ?t" by (rule vstep.s_allow) (use s in simp)
  moreover from this have "\<not> attempts_exhausted ''HmIP'' (rs_coord ?t) \<and> trigger_gate ''HmIP'' (rs_coord ?t) = trigger_gate ''HmIP'' (rs_coord s)"
    using heartbeat_revives_exhausted_interfaces [OF s(1,2), of "[]" "[]" 0 "[HTrigger ''HmIP'']" ?t] s(4) by simp
  ultimately show ?thesis using s by metis
qed

text \<open>
  The reported delay is the capped doubling. With a positive base and bounds of at most \<open>2 ^ 61\<close>
  nanoseconds the 64-bit loop computes \<open>base * 2 ^ (failures - 1)\<close>, at most the maximum, for every number of
  consecutive failures, and the base when there was none; the state then tells the last attempt plus this
  delay.
\<close>

theorem retry_delay_is_capped_doubling:
  assumes "rc_state c i = Some st" and "0 < rc_base_delay c" "rc_base_delay c \<le> 2 ^ 61" "rc_max_delay c \<le> 2 ^ 61"
    and "0 \<le> is_consecutive_failures st"
  shows "next_retry_delay i c =
      (if is_consecutive_failures st = 0 then rc_base_delay c
       else min (rc_max_delay c) (rc_base_delay c * 2 ^ nat (is_consecutive_failures st - 1)))
    \<and> next_retry_after i c = map_option (\<lambda>t. t + next_retry_delay i c) (is_last_attempt st)"
  using assms by (simp add: next_retry_delay_def next_retry_after_def double_delay_min split: option.split)

theorem retry_delay_is_capped_doubling_witness:
  "next_retry_delay ''HmIP'' ((new_recovery ''ccu'')\<lparr>rc_state := [''HmIP'' \<mapsto> zero_interface_state\<lparr>is_consecutive_failures := 7, is_last_attempt := Some 5\<rparr>]\<rparr>)
     = secs 120"
  using retry_delay_is_capped_doubling [of "(new_recovery ''ccu'')\<lparr>rc_state := [''HmIP'' \<mapsto> zero_interface_state\<lparr>is_consecutive_failures := 7,
      is_last_attempt := Some 5\<rparr>]\<rparr>" "''HmIP''" "zero_interface_state\<lparr>is_consecutive_failures := 7, is_last_attempt := Some 5\<rparr>"]
  by (simp add: new_recovery_def new_recovery_with_limit_def default_base_retry_delay_def default_max_retry_delay_def secs_def go_second_def min_def)

end
