(* ===== verification/Event_Bus.thy ===== *)
theory Event_Bus
  imports Prelude
begin

text \<open>
  The in-process event bus of a central, \<open>internal/central/events/bus.go\<close> and \<open>group.go\<close>.

  \<^item> A handler is a \<open>registered\<close> entry in the list of its event type; its atomics (dead flag, in-flight
    marks, counters) are the object of its id. Each section under \<open>b.mu\<close> is one definition.
  \<^item> \<open>b.dispatch\<close> is a lock with an owner. The goroutine that gets it dispatches its event and then
    drains the queue of deferred ones; every other publisher only enqueues.
  \<^item> \<open>ustep\<close> interleaves any number of goroutines. A goroutine inside a handler may itself publish,
    subscribe, unsubscribe and clear. A handler's body is injected code: it may take any time and panic.
\<close>

section \<open>Handlers and the bus\<close>

record event =
  ev_type :: string
  ev_key :: string
  ev_type_panics :: bool
  ev_key_panics :: bool
  ev_payload :: nat

record handler_options =
  op_priority :: int
  op_key :: string
  op_name :: string
  op_external :: bool

definition default_handler_options :: handler_options where
  "default_handler_options = \<lparr>op_priority = 0, op_key = '''', op_name = '''', op_external = False\<rparr>"

definition with_priority :: "int \<Rightarrow> handler_options \<Rightarrow> handler_options" where
  "with_priority p o' = o'\<lparr>op_priority := p\<rparr>"

definition with_key :: "string \<Rightarrow> handler_options \<Rightarrow> handler_options" where
  "with_key k o' = o'\<lparr>op_key := k\<rparr>"

definition with_name :: "string \<Rightarrow> handler_options \<Rightarrow> handler_options" where
  "with_name n o' = o'\<lparr>op_name := n\<rparr>"

definition with_external :: "handler_options \<Rightarrow> handler_options" where
  "with_external o' = o'\<lparr>op_external := True\<rparr>"

record registered =
  rg_id :: nat
  rg_priority :: int
  rg_key :: string
  rg_name :: string
  rg_external :: bool

record handler_object =
  ho_dead :: bool
  ho_inflight :: int
  ho_calls :: int
  ho_matches :: int
  ho_duration_us :: int
  ho_errors :: int

record bus =
  bu_handlers :: "(string \<times> registered list) list"
  bu_objects :: "nat \<Rightarrow> handler_object"
  bu_next_id :: nat
  bu_dispatch :: "nat option"
  bu_deferred :: "(nat \<times> event) list"
  bu_active_type :: string
  bu_gid :: "nat option"
  bu_published :: "(string \<times> int) list"
  bu_high_water :: nat
  bu_alerted :: bool

definition deferred_high_water_alert :: nat where
  "deferred_high_water_alert = 4096"

definition fresh_object :: handler_object where
  "fresh_object = \<lparr>ho_dead = False, ho_inflight = 0, ho_calls = 0, ho_matches = 0, ho_duration_us = 0, ho_errors = 0\<rparr>"

definition new_bus :: bus where
  "new_bus = \<lparr>bu_handlers = [], bu_objects = (\<lambda>_. fresh_object), bu_next_id = 0, bu_dispatch = None, bu_deferred = [],
     bu_active_type = '''', bu_gid = None, bu_published = [], bu_high_water = 0, bu_alerted = False\<rparr>"

definition handlers_of :: "string \<Rightarrow> bus \<Rightarrow> registered list" where
  "handlers_of typ b = (case lookup (bu_handlers b) typ of None \<Rightarrow> [] | Some l \<Rightarrow> l)"

definition update_object :: "nat \<Rightarrow> (handler_object \<Rightarrow> handler_object) \<Rightarrow> bus \<Rightarrow> bus" where
  "update_object i f b = b\<lparr>bu_objects := (bu_objects b)(i := f (bu_objects b i))\<rparr>"

section \<open>Subscribing\<close>

text \<open>\<open>sort.Search\<close>: the loop between \<open>i\<close> and \<open>j\<close>.\<close>

function sort_search :: "(nat \<Rightarrow> bool) \<Rightarrow> nat \<Rightarrow> nat \<Rightarrow> nat" where
  "sort_search f i j =
     (if i < j then let h = (i + j) div 2 in if f h then sort_search f i h else sort_search f (h + 1) j else i)"
  by pat_completeness auto
termination by (relation "measure (\<lambda>(f, i, j). j - i)") (auto simp: Let_def)

declare sort_search.simps [simp del]

definition insert_sorted :: "registered list \<Rightarrow> registered \<Rightarrow> registered list" where
  "insert_sorted l r =
     (let idx = sort_search (\<lambda>i. rg_priority (l ! i) < rg_priority r) 0 (length l)
      in take idx l @ r # drop idx l)"

text \<open>\<open>Subscribe\<close> takes an id and then inserts the entry under the lock.\<close>

definition new_subscription :: "handler_options \<Rightarrow> bus \<Rightarrow> registered \<times> bus" where
  "new_subscription o' b =
     (let i = bu_next_id b + 1
      in (\<lparr>rg_id = i, rg_priority = op_priority o', rg_key = op_key o', rg_name = op_name o', rg_external = op_external o'\<rparr>,
          b\<lparr>bu_next_id := i\<rparr>))"

definition register_handler :: "string \<Rightarrow> registered \<Rightarrow> bus \<Rightarrow> bus" where
  "register_handler typ r b = b\<lparr>bu_handlers := AList.update typ (insert_sorted (handlers_of typ b) r) (bu_handlers b)\<rparr>"

text \<open>The locked section of the unsubscribe closure.\<close>

fun remove_entry :: "nat \<Rightarrow> registered list \<Rightarrow> registered list" where
  "remove_entry i [] = []"
| "remove_entry i (h # l) = (if rg_id h = i then l else h # remove_entry i l)"

definition mark_dead :: "nat list \<Rightarrow> bus \<Rightarrow> bus" where
  "mark_dead is = fold (\<lambda>i. update_object i (\<lambda>x. x\<lparr>ho_dead := True\<rparr>)) is"

definition unsubscribe_section :: "string \<Rightarrow> nat \<Rightarrow> bus \<Rightarrow> bus" where
  "unsubscribe_section typ i b =
     mark_dead [i]
       (if i \<in> rg_id ` set (handlers_of typ b)
        then b\<lparr>bu_handlers := AList.update typ (remove_entry i (handlers_of typ b)) (bu_handlers b)\<rparr> else b)"

section \<open>Publishing\<close>

text \<open>The fast path, and the slow path's section: enqueue and try to take over.\<close>

definition try_lock :: "nat \<Rightarrow> bus \<Rightarrow> bool \<times> bus" where
  "try_lock g b = (case bu_dispatch b of None \<Rightarrow> (True, b\<lparr>bu_dispatch := Some g\<rparr>) | Some _ \<Rightarrow> (False, b))"

definition enqueue :: "nat \<Rightarrow> event \<Rightarrow> bus \<Rightarrow> (bool \<times> nat) \<times> bus" where
  "enqueue g e b =
     (let b = b\<lparr>bu_deferred := bu_deferred b @ [(g, e)]\<rparr>; depth = length (bu_deferred b)
      in case try_lock g b of (took, b) \<Rightarrow> ((took, depth), b))"

definition observe_deferred_depth :: "nat \<Rightarrow> bus \<Rightarrow> bus" where
  "observe_deferred_depth depth b =
     (let b = (if bu_high_water b < depth then b\<lparr>bu_high_water := depth\<rparr> else b)
      in if deferred_high_water_alert \<le> depth \<and> \<not> bu_alerted b then b\<lparr>bu_alerted := True\<rparr> else b)"

definition store_gid :: "nat \<Rightarrow> bus \<Rightarrow> bus" where
  "store_gid g b = b\<lparr>bu_gid := Some g\<rparr>"

text \<open>The sections of \<open>dispatchNow\<close>, of the visit of one handler and of \<open>callHandler\<close>.\<close>

definition event_identity :: "event \<Rightarrow> (string \<times> string) option" where
  "event_identity e = (if ev_type_panics e \<or> ev_key_panics e then None else Some (ev_type e, ev_key e))"

definition mark_inflight :: "registered list \<Rightarrow> bus \<Rightarrow> bus" where
  "mark_inflight l = fold (\<lambda>h. update_object (rg_id h) (\<lambda>x. x\<lparr>ho_inflight := ho_inflight x + 1\<rparr>)) l"

definition snapshot_handlers :: "string \<Rightarrow> bus \<Rightarrow> registered list \<times> bus" where
  "snapshot_handlers typ b = (handlers_of typ b, mark_inflight (handlers_of typ b) (b\<lparr>bu_active_type := typ\<rparr>))"

definition published_count :: "string \<Rightarrow> bus \<Rightarrow> int" where
  "published_count typ b = (case lookup (bu_published b) typ of None \<Rightarrow> 0 | Some n \<Rightarrow> n)"

definition count_published :: "string \<Rightarrow> bus \<Rightarrow> bus" where
  "count_published typ b = b\<lparr>bu_published := AList.update typ (published_count typ b + 1) (bu_published b)\<rparr>"

definition done_with :: "nat \<Rightarrow> bus \<Rightarrow> bus" where
  "done_with i = update_object i (\<lambda>x. x\<lparr>ho_inflight := ho_inflight x - 1\<rparr>)"

definition visit_handler :: "registered \<Rightarrow> string \<Rightarrow> bus \<Rightarrow> bool \<times> bus" where
  "visit_handler h key b =
     (let b = update_object (rg_id h) (\<lambda>x. x\<lparr>ho_calls := ho_calls x + 1\<rparr>) b
      in if ho_dead (bu_objects b (rg_id h)) \<or> rg_key h \<noteq> '''' \<and> rg_key h \<noteq> key then (False, done_with (rg_id h) b)
         else (True, update_object (rg_id h) (\<lambda>x. x\<lparr>ho_matches := ho_matches x + 1\<rparr>) b))"

definition handler_returned :: "registered \<Rightarrow> int \<Rightarrow> bool \<Rightarrow> bus \<Rightarrow> bus" where
  "handler_returned h us panicked b =
     done_with (rg_id h) (update_object (rg_id h) (\<lambda>x. x\<lparr>ho_duration_us := ho_duration_us x + us,
       ho_errors := (if panicked then ho_errors x + 1 else ho_errors x)\<rparr>) b)"

definition end_pass :: "bus \<Rightarrow> bus" where
  "end_pass b = b\<lparr>bu_active_type := ''''\<rparr>"

text \<open>One round of \<open>flushDeferred\<close>: the next event, or the release of the lock.\<close>

definition flush_round :: "bus \<Rightarrow> (nat \<times> event) option \<times> bus" where
  "flush_round b =
     (case bu_deferred b of
        [] \<Rightarrow> (None, b\<lparr>bu_gid := None, bu_dispatch := None\<rparr>)
      | x # q \<Rightarrow> (Some x, b\<lparr>bu_deferred := q\<rparr>))"

section \<open>Clearing\<close>

definition clear_from_dispatch :: "nat \<Rightarrow> bus \<Rightarrow> bool" where
  "clear_from_dispatch g b \<longleftrightarrow> bu_gid b = Some g"

definition retire :: "registered list \<Rightarrow> bool \<Rightarrow> bus \<Rightarrow> nat list \<times> bus" where
  "retire entries from_dispatch b = (if from_dispatch then ([], b) else (map rg_id entries, mark_dead (map rg_id entries) b))"

definition replace_or_delete :: "string \<Rightarrow> registered list \<Rightarrow> bus \<Rightarrow> bus" where
  "replace_or_delete typ kept b =
     (if kept = [] then b\<lparr>bu_handlers := AList.delete typ (bu_handlers b)\<rparr>
      else b\<lparr>bu_handlers := AList.update typ kept (bu_handlers b)\<rparr>)"

definition clear_subscriptions :: "string \<Rightarrow> bool \<Rightarrow> bus \<Rightarrow> nat list \<times> bus" where
  "clear_subscriptions typ from_dispatch b =
     (case retire (handlers_of typ b) from_dispatch b of
        (retired, b) \<Rightarrow> (retired, b\<lparr>bu_handlers := AList.delete typ (bu_handlers b)\<rparr>))"

definition clear_all_subscriptions :: "bool \<Rightarrow> bus \<Rightarrow> nat list \<times> bus" where
  "clear_all_subscriptions from_dispatch b =
     (case retire (concat (map snd (bu_handlers b))) from_dispatch b of (retired, b) \<Rightarrow> (retired, b\<lparr>bu_handlers := []\<rparr>))"

text \<open>Drop the entries that satisfy \<open>P\<close> from the lists of the given types; the entries come back in order.\<close>

fun clear_lists :: "(registered \<Rightarrow> bool) \<Rightarrow> string list \<Rightarrow> bus \<Rightarrow> registered list \<times> bus" where
  "clear_lists P [] b = ([], b)"
| "clear_lists P (typ # types) b =
     (case lookup (bu_handlers b) typ of
        None \<Rightarrow> clear_lists P types b
      | Some l \<Rightarrow> (case clear_lists P types (replace_or_delete typ (filter (\<lambda>h. \<not> P h) l) b) of
          (gone, b) \<Rightarrow> (filter P l @ gone, b)))"

definition clear_external_subscriptions :: "string list \<Rightarrow> bool \<Rightarrow> bus \<Rightarrow> (nat list \<times> nat) \<times> bus" where
  "clear_external_subscriptions types from_dispatch b =
     (case clear_lists rg_external (if types = [] then keys (bu_handlers b) else types) b of
        (entries, b) \<Rightarrow> (case retire entries from_dispatch b of (retired, b) \<Rightarrow> ((retired, length entries), b)))"

definition clear_subscriptions_by_key :: "string \<Rightarrow> bool \<Rightarrow> bus \<Rightarrow> nat list \<times> bus" where
  "clear_subscriptions_by_key key from_dispatch b =
     (case clear_lists (\<lambda>h. rg_key h = key) (keys (bu_handlers b)) b of (entries, b) \<Rightarrow> retire entries from_dispatch b)"

section \<open>Counters\<close>

definition handler_count :: "string \<Rightarrow> bus \<Rightarrow> nat" where
  "handler_count typ b = length (handlers_of typ b)"

definition total_subscription_count :: "bus \<Rightarrow> nat" where
  "total_subscription_count b = sum_list (map (\<lambda>(typ, l). length l) (bu_handlers b))"

definition event_stats :: "bus \<Rightarrow> (string \<times> int) list" where
  "event_stats b = bu_published b"

definition deferred_depth :: "bus \<Rightarrow> nat" where
  "deferred_depth b = length (bu_deferred b)"

definition reset_event_stats :: "bus \<Rightarrow> bus" where
  "reset_event_stats b = b\<lparr>bu_published := []\<rparr>"

fun digits :: "nat \<Rightarrow> string" where
  "digits n = (if n < 10 then [char_of (48 + n)] else digits (n div 10) @ [char_of (48 + n mod 10)])"

definition format_handler_id :: "nat \<Rightarrow> string" where
  "format_handler_id i = ''h'' @ digits i"

definition handler_name :: "registered \<Rightarrow> string" where
  "handler_name h = (if rg_name h = '''' then format_handler_id (rg_id h) else rg_name h)"

definition leaked_subscriptions :: "bus \<Rightarrow> string list" where
  "leaked_subscriptions b = concat (map (\<lambda>(typ, l). map (\<lambda>h. typ @ '':'' @ handler_name h) l) (bu_handlers b))"

text \<open>\<open>SubscriptionGroup\<close>: the closures it holds, and what \<open>Close\<close> takes out and runs.\<close>

definition group_add :: "'u option list \<Rightarrow> 'u list \<Rightarrow> 'u list" where
  "group_add us g = g @ concat (map (\<lambda>u. case u of None \<Rightarrow> [] | Some x \<Rightarrow> [x]) us)"

definition group_close :: "'u list \<Rightarrow> 'u list \<times> 'u list" where
  "group_close g = (g, [])"

section \<open>Goroutines\<close>

text \<open>
  Where a dispatching goroutine is: about to read the identity of an event, after the snapshot, between
  two handlers, inside one, or at the head of the loop of \<open>flushDeferred\<close>.
\<close>

datatype dispatch_phase =
    DIdentity event
  | DCount event "registered list"
  | DPass event "registered list"
  | DCalling event registered "registered list"
  | DFlush

text \<open>
  An operation of a goroutine between two of its sections: it got the lock at once; it did not; it has
  enqueued and asks the event for its type; that panicked while it held the lock; it has an entry to insert;
  it waits for the marks of retired handlers.
\<close>

datatype bus_op =
    GTook event
  | GEnqueue event
  | GObserve event bool nat
  | GWedged
  | GRegister string registered
  | GAwait "nat list"

datatype clear_op = ClearType string | ClearAll | ClearExternal "string list" | ClearByKey string

fun run_clear :: "clear_op \<Rightarrow> bool \<Rightarrow> bus \<Rightarrow> nat list \<times> bus" where
  "run_clear (ClearType typ) fd b = clear_subscriptions typ fd b"
| "run_clear ClearAll fd b = clear_all_subscriptions fd b"
| "run_clear (ClearExternal types) fd b = (case clear_external_subscriptions types fd b of ((retired, n), b) \<Rightarrow> (retired, b))"
| "run_clear (ClearByKey key) fd b = clear_subscriptions_by_key key fd b"

text \<open>
  The system. \<open>us_closures\<close> are the unsubscribe closures not yet run. History variables: the events
  published and the events whose dispatch began, each with the publishing goroutine; the handlers retired
  by a closure or by a clearing goroutine that waits; those whose barrier was passed.
\<close>

record usys =
  us_bus :: bus
  us_dispatching :: "nat \<rightharpoonup> dispatch_phase"
  us_ops :: "nat \<rightharpoonup> bus_op"
  us_closures :: "(string \<times> nat) set"
  us_issued :: "(nat \<times> event) list"
  us_sent :: "(nat \<times> event) list"
  us_retired :: "nat set"
  us_gone :: "nat set"

definition may_act :: "nat \<Rightarrow> usys \<Rightarrow> bool" where
  "may_act g s \<longleftrightarrow> us_ops s g = None \<and>
     (case us_dispatching s g of None \<Rightarrow> True | Some (DCalling e h hs) \<Rightarrow> True | _ \<Rightarrow> False)"

text \<open>
  The \<open>once.Do\<close> of the closure of handler \<open>i\<close> has returned: the closure was run and nobody is in its
  barrier. From then on a call of the closure returns at once, also where the first run skipped the
  barrier because it came from inside the dispatch.
\<close>

definition once_done :: "nat \<Rightarrow> usys \<Rightarrow> bool" where
  "once_done i s \<longleftrightarrow> i \<in> us_retired s \<and> i \<notin> snd ` us_closures s \<and> (\<forall>g. us_ops s g \<noteq> Some (GAwait [i]))"

inductive ustep :: "usys \<Rightarrow> usys \<Rightarrow> bool" where
  u_publish: "may_act g s \<Longrightarrow> try_lock g (us_bus s) = (got, b) \<Longrightarrow>
    ustep s (s\<lparr>us_bus := b, us_ops := (us_ops s)(g \<mapsto> (if got then GTook e else GEnqueue e)), us_issued := us_issued s @ [(g, e)]\<rparr>)"
| u_took: "us_ops s g = Some (GTook e) \<Longrightarrow>
    ustep s (s\<lparr>us_bus := store_gid g (us_bus s), us_ops := (us_ops s)(g := None), us_sent := us_sent s @ [(g, e)],
       us_dispatching := (us_dispatching s)(g \<mapsto> DIdentity e)\<rparr>)"
| u_enqueue: "us_ops s g = Some (GEnqueue e) \<Longrightarrow> enqueue g e (us_bus s) = ((took, depth), b) \<Longrightarrow>
    ustep s (s\<lparr>us_bus := b, us_ops := (us_ops s)(g \<mapsto> GObserve e took depth)\<rparr>)"
| u_observe: "us_ops s g = Some (GObserve e False depth) \<Longrightarrow> \<not> ev_type_panics e \<Longrightarrow>
    ustep s (s\<lparr>us_bus := observe_deferred_depth depth (us_bus s), us_ops := (us_ops s)(g := None)\<rparr>)"
| u_publish_panics: "us_ops s g = Some (GObserve e False depth) \<Longrightarrow> ev_type_panics e \<Longrightarrow>
    ustep s (s\<lparr>us_ops := (us_ops s)(g := None)\<rparr>)"
| u_wedge: "us_ops s g = Some (GObserve e True depth) \<Longrightarrow> ev_type_panics e \<Longrightarrow> ustep s (s\<lparr>us_ops := (us_ops s)(g \<mapsto> GWedged)\<rparr>)"
| u_take_over: "us_ops s g = Some (GObserve e True depth) \<Longrightarrow> \<not> ev_type_panics e \<Longrightarrow>
    ustep s (s\<lparr>us_bus := store_gid g (observe_deferred_depth depth (us_bus s)), us_ops := (us_ops s)(g := None),
       us_dispatching := (us_dispatching s)(g \<mapsto> DFlush)\<rparr>)"
| u_no_identity: "us_dispatching s g = Some (DIdentity e) \<Longrightarrow> event_identity e = None \<Longrightarrow>
    ustep s (s\<lparr>us_dispatching := (us_dispatching s)(g \<mapsto> DFlush)\<rparr>)"
| u_snapshot: "us_dispatching s g = Some (DIdentity e) \<Longrightarrow> event_identity e = Some (typ, key) \<Longrightarrow>
    snapshot_handlers typ (us_bus s) = (hs, b) \<Longrightarrow>
    ustep s (s\<lparr>us_bus := b, us_dispatching := (us_dispatching s)(g \<mapsto> DCount e hs)\<rparr>)"
| u_count: "us_dispatching s g = Some (DCount e hs) \<Longrightarrow>
    ustep s (s\<lparr>us_bus := count_published (ev_type e) (us_bus s), us_dispatching := (us_dispatching s)(g \<mapsto> DPass e hs)\<rparr>)"
| u_visit: "us_dispatching s g = Some (DPass e (h # hs)) \<Longrightarrow> visit_handler h (ev_key e) (us_bus s) = (call, b) \<Longrightarrow>
    ustep s (s\<lparr>us_bus := b, us_dispatching := (us_dispatching s)(g \<mapsto> (if call then DCalling e h hs else DPass e hs))\<rparr>)"
| u_return: "us_dispatching s g = Some (DCalling e h hs) \<Longrightarrow> us_ops s g = None \<Longrightarrow>
    ustep s (s\<lparr>us_bus := handler_returned h us panicked (us_bus s), us_dispatching := (us_dispatching s)(g \<mapsto> DPass e hs)\<rparr>)"
| u_end: "us_dispatching s g = Some (DPass e []) \<Longrightarrow>
    ustep s (s\<lparr>us_bus := end_pass (us_bus s), us_dispatching := (us_dispatching s)(g \<mapsto> DFlush)\<rparr>)"
| u_next: "us_dispatching s g = Some DFlush \<Longrightarrow> flush_round (us_bus s) = (Some (p, e), b) \<Longrightarrow>
    ustep s (s\<lparr>us_bus := b, us_sent := us_sent s @ [(p, e)], us_dispatching := (us_dispatching s)(g \<mapsto> DIdentity e)\<rparr>)"
| u_release: "us_dispatching s g = Some DFlush \<Longrightarrow> flush_round (us_bus s) = (None, b) \<Longrightarrow>
    ustep s (s\<lparr>us_bus := b, us_dispatching := (us_dispatching s)(g := None)\<rparr>)"
| u_subscribe: "may_act g s \<Longrightarrow> new_subscription options (us_bus s) = (r, b) \<Longrightarrow>
    ustep s (s\<lparr>us_bus := b, us_ops := (us_ops s)(g \<mapsto> GRegister typ r)\<rparr>)"
| u_register: "us_ops s g = Some (GRegister typ r) \<Longrightarrow>
    ustep s (s\<lparr>us_bus := register_handler typ r (us_bus s), us_ops := (us_ops s)(g := None),
       us_closures := insert (typ, rg_id r) (us_closures s)\<rparr>)"
| u_unsubscribe: "may_act g s \<Longrightarrow> (typ, i) \<in> us_closures s \<Longrightarrow>
    ustep s (s\<lparr>us_bus := unsubscribe_section typ i (us_bus s), us_closures := us_closures s - {(typ, i)},
       us_retired := insert i (us_retired s),
       us_ops := (if bu_gid (us_bus s) = Some g then us_ops s else (us_ops s)(g \<mapsto> GAwait [i]))\<rparr>)"
| u_unsubscribe_again: "may_act g s \<Longrightarrow> once_done i s \<Longrightarrow> ustep s s"
| u_clear: "may_act g s \<Longrightarrow> run_clear c (clear_from_dispatch g (us_bus s)) (us_bus s) = (retired, b) \<Longrightarrow>
    ustep s (s\<lparr>us_bus := b, us_retired := us_retired s \<union> set retired, us_ops := (us_ops s)(g \<mapsto> GAwait retired)\<rparr>)"
| u_await: "us_ops s g = Some (GAwait (i # is)) \<Longrightarrow> ho_inflight (bu_objects (us_bus s) i) = 0 \<Longrightarrow>
    ustep s (s\<lparr>us_ops := (us_ops s)(g \<mapsto> GAwait is), us_gone := insert i (us_gone s)\<rparr>)"
| u_awaited: "us_ops s g = Some (GAwait []) \<Longrightarrow> ustep s (s\<lparr>us_ops := (us_ops s)(g := None)\<rparr>)"
| u_reset_stats: "ustep s (s\<lparr>us_bus := reset_event_stats (us_bus s)\<rparr>)"

definition bus_start :: "usys \<Rightarrow> bool" where
  "bus_start s \<longleftrightarrow> s = \<lparr>us_bus = new_bus, us_dispatching = Map.empty, us_ops = Map.empty, us_closures = {}, us_issued = [], us_sent = [],
     us_retired = {}, us_gone = {}\<rparr>"

end
