(* ===== verification/Event_Bus_Laws.thy ===== *)
theory Event_Bus_Laws
  imports Event_Bus
begin

text \<open>
  What the event bus guarantees in every interleaving: one dispatch at a time, every event dispatched once and
  in the order its goroutine published it, handlers in priority order, and unsubscribing as a barrier.
\<close>

section \<open>What the sections leave alone\<close>

lemma update_object_fields [simp]:
  "bu_handlers (update_object i f b) = bu_handlers b" "bu_next_id (update_object i f b) = bu_next_id b"
  "bu_dispatch (update_object i f b) = bu_dispatch b" "bu_deferred (update_object i f b) = bu_deferred b"
  "bu_gid (update_object i f b) = bu_gid b"
  "bu_objects (update_object i f b) j = (if j = i then f (bu_objects b i) else bu_objects b j)"
  by (simp_all add: update_object_def)

lemma handlers_of_cong: "bu_handlers b = bu_handlers c \<Longrightarrow> handlers_of t b = handlers_of t c"
  by (simp add: handlers_of_def)

lemma handlers_of_upd [simp]:
  "handlers_of t (b\<lparr>bu_handlers := AList.update u l (bu_handlers b)\<rparr>) = (if t = u then l else handlers_of t b)"
  "handlers_of t (b\<lparr>bu_handlers := AList.delete u (bu_handlers b)\<rparr>) = (if t = u then [] else handlers_of t b)"
  "handlers_of t (b\<lparr>bu_handlers := []\<rparr>) = []"
  "handlers_of t (b\<lparr>bu_dispatch := d\<rparr>) = handlers_of t b" "handlers_of t (b\<lparr>bu_deferred := q\<rparr>) = handlers_of t b"
  "handlers_of t (b\<lparr>bu_gid := gi\<rparr>) = handlers_of t b" "handlers_of t (b\<lparr>bu_active_type := a\<rparr>) = handlers_of t b"
  "handlers_of t (b\<lparr>bu_published := p\<rparr>) = handlers_of t b" "handlers_of t (b\<lparr>bu_high_water := w\<rparr>) = handlers_of t b"
  "handlers_of t (b\<lparr>bu_alerted := al\<rparr>) = handlers_of t b" "handlers_of t (b\<lparr>bu_next_id := k\<rparr>) = handlers_of t b"
  "handlers_of t (update_object i f b) = handlers_of t b"
  by (simp_all add: handlers_of_def)

text \<open>The lock and the queue, and the registry: what each section keeps.\<close>

definition same_queue :: "bus \<Rightarrow> bus \<Rightarrow> bool" where
  "same_queue b c \<longleftrightarrow> bu_dispatch c = bu_dispatch b \<and> bu_deferred c = bu_deferred b \<and> bu_gid c = bu_gid b"

definition same_registry :: "bus \<Rightarrow> bus \<Rightarrow> bool" where
  "same_registry b c \<longleftrightarrow> bu_next_id c = bu_next_id b \<and> (\<forall>t. handlers_of t c = handlers_of t b)
     \<and> (\<forall>i. ho_dead (bu_objects b i) \<longrightarrow> ho_dead (bu_objects c i))"

definition same_marks :: "bus \<Rightarrow> bus \<Rightarrow> bool" where
  "same_marks b c \<longleftrightarrow> (\<forall>i. ho_inflight (bu_objects c i) = ho_inflight (bu_objects b i))"

lemma fold_objects:
  "same_queue b (fold (\<lambda>x. update_object (k x) f) xs b)"
  "bu_next_id (fold (\<lambda>x. update_object (k x) f) xs b) = bu_next_id b"
  "bu_handlers (fold (\<lambda>x. update_object (k x) f) xs b) = bu_handlers b"
  by (induction xs arbitrary: b) (simp_all add: same_queue_def)

lemma mark_dead_objects:
  "ho_dead (bu_objects (mark_dead is b) i) \<longleftrightarrow> i \<in> set is \<or> ho_dead (bu_objects b i)"
  "ho_inflight (bu_objects (mark_dead is b) i) = ho_inflight (bu_objects b i)"
  unfolding mark_dead_def by (induction "is" arbitrary: b) auto

lemma mark_inflight_objects:
  "ho_dead (bu_objects (mark_inflight l b) i) = ho_dead (bu_objects b i)"
  "ho_inflight (bu_objects (mark_inflight l b) i) = ho_inflight (bu_objects b i) + int (count_list (map rg_id l) i)"
  unfolding mark_inflight_def by (induction l arbitrary: b) auto

lemma mark_dead_frame [simp]:
  "same_queue b (mark_dead is b)" "bu_next_id (mark_dead is b) = bu_next_id b" "bu_handlers (mark_dead is b) = bu_handlers b"
  "handlers_of t (mark_dead is b) = handlers_of t b"
  using fold_objects [where k = "\<lambda>i. i" and f = "\<lambda>x. x\<lparr>ho_dead := True\<rparr>" and xs = "is" and b = b] by (simp_all add: mark_dead_def handlers_of_def)

lemma mark_inflight_frame [simp]:
  "same_queue b (mark_inflight l b)" "bu_next_id (mark_inflight l b) = bu_next_id b" "bu_handlers (mark_inflight l b) = bu_handlers b"
  "handlers_of t (mark_inflight l b) = handlers_of t b"
  using fold_objects [where k = rg_id and f = "\<lambda>x. x\<lparr>ho_inflight := ho_inflight x + 1\<rparr>" and xs = l and b = b] by (simp_all add: mark_inflight_def handlers_of_def)

lemma same_queue_trans: "same_queue b c \<Longrightarrow> same_queue c d \<Longrightarrow> same_queue b d"
  by (simp add: same_queue_def)

lemma quiet_queue [simp]:
  "same_queue b (observe_deferred_depth d b)" "same_queue b (count_published typ b)" "same_queue b (end_pass b)"
  "same_queue b (handler_returned h us p b)" "same_queue b (reset_event_stats b)" "same_queue b (register_handler typ r b)"
  "same_queue b (unsubscribe_section typ i b)" "same_queue b (done_with i b)"
  "new_subscription options b = (r, c) \<Longrightarrow> same_queue b c" "visit_handler h key b = (call, c) \<Longrightarrow> same_queue b c"
  "snapshot_handlers typ b = (hs, c) \<Longrightarrow> same_queue b c"
  using mark_dead_frame(1) [of "if i \<in> rg_id ` set (handlers_of typ b)
        then b\<lparr>bu_handlers := AList.update typ (remove_entry i (handlers_of typ b)) (bu_handlers b)\<rparr> else b" "[i]"]
    mark_inflight_frame(1) [of "b\<lparr>bu_active_type := typ\<rparr>" "handlers_of typ b"]
  by (auto simp: same_queue_def observe_deferred_depth_def count_published_def end_pass_def handler_returned_def done_with_def
      reset_event_stats_def register_handler_def unsubscribe_section_def new_subscription_def visit_handler_def snapshot_handlers_def Let_def
      split: if_splits)

text \<open>A clear takes entries out, marks nothing but dead flags, and returns only entries it took out.\<close>

lemma clear_lists_effect:
  assumes "clear_lists P types b = (gone, c)"
  shows "handlers_of t c = (if t \<in> set types then filter (\<lambda>h. \<not> P h) (handlers_of t b) else handlers_of t b)
    \<and> bu_next_id c = bu_next_id b \<and> bu_objects c = bu_objects b \<and> same_queue b c
    \<and> (distinct (keys (bu_handlers b)) \<longrightarrow> distinct (keys (bu_handlers c)))
    \<and> set gone \<subseteq> {h. \<exists>t. h \<in> set (handlers_of t b) \<and> t \<in> set types \<and> P h}"
  using assms
proof (induction P types b arbitrary: gone c t rule: clear_lists.induct)
  case (1 P b)
  then show ?case by (simp add: same_queue_def)
next
  case (2 P u types b)
  show ?case
  proof (cases "lookup (bu_handlers b) u")
    case None
    then have "handlers_of u b = []" by (simp add: handlers_of_def)
    moreover have "clear_lists P types b = (gone, c)" using 2(3) None by simp
    ultimately show ?thesis using 2(1) [OF None, of gone c t] by auto
  next
    case (Some l)
    then have l: "handlers_of u b = l" by (simp add: handlers_of_def)
    let ?b = "replace_or_delete u (filter (\<lambda>h. \<not> P h) l) b"
    obtain gone' where c: "clear_lists P types ?b = (gone', c)" and gone: "gone = filter P l @ gone'"
      using 2(3) Some by (auto split: prod.splits)
    have b: "handlers_of v ?b = (if v = u then filter (\<lambda>h. \<not> P h) l else handlers_of v b)"
      "bu_next_id ?b = bu_next_id b" "bu_objects ?b = bu_objects b" "same_queue b ?b"
      "distinct (keys (bu_handlers b)) \<longrightarrow> distinct (keys (bu_handlers ?b))" for v
      by (auto simp: replace_or_delete_def same_queue_def distinct_keys_update distinct_keys_delete)
    from 2(2) [OF Some c, of t] b l gone show ?thesis
      by (auto simp: same_queue_def split: if_splits)
  qed
qed

definition taken_out :: "bus \<Rightarrow> bus \<Rightarrow> nat \<Rightarrow> bool" where
  "taken_out b c i \<longleftrightarrow> (\<exists>t h. h \<in> set (handlers_of t b) \<and> h \<notin> set (handlers_of t c) \<and> rg_id h = i)"

definition lists_cleared :: "bool \<Rightarrow> bus \<Rightarrow> nat list \<Rightarrow> bus \<Rightarrow> bool" where
  "lists_cleared fd b retired c \<longleftrightarrow> (\<forall>t. \<exists>Q. handlers_of t c = filter Q (handlers_of t b)) \<and> bu_next_id c = bu_next_id b \<and> same_queue b c
     \<and> same_marks b c \<and> (\<forall>i. ho_dead (bu_objects c i) \<longleftrightarrow> i \<in> set retired \<or> ho_dead (bu_objects b i))
     \<and> (\<forall>i \<in> set retired. taken_out b c i) \<and> (fd \<longrightarrow> retired = []) \<and> distinct (keys (bu_handlers c))"

lemma retire_effect:
  assumes "retire entries fd b = (retired, c)"
  shows "same_queue b c \<and> same_marks b c \<and> bu_next_id c = bu_next_id b \<and> bu_handlers c = bu_handlers b \<and> (fd \<longrightarrow> retired = [])
    \<and> set retired \<subseteq> rg_id ` set entries \<and> (\<forall>i. ho_dead (bu_objects c i) \<longleftrightarrow> i \<in> set retired \<or> ho_dead (bu_objects b i))"
  using assms by (auto simp: retire_def same_marks_def mark_dead_objects same_queue_def [of c c] split: if_splits)

lemma clear_lists_cleared:
  assumes keys: "distinct (keys (bu_handlers b))"
    and lists: "clear_lists P types b = (entries, d)" and ret: "retire entries fd d = (retired, c)"
  shows "lists_cleared fd b retired c"
proof -
  have l: "handlers_of t d = (if t \<in> set types then filter (\<lambda>h. \<not> P h) (handlers_of t b) else handlers_of t b)"
    "bu_next_id d = bu_next_id b" "bu_objects d = bu_objects b" "same_queue b d"
    "distinct (keys (bu_handlers d))" "set entries \<subseteq> {h. \<exists>t. h \<in> set (handlers_of t b) \<and> t \<in> set types \<and> P h}" for t
    using clear_lists_effect [OF lists, of t] keys by simp_all
  have r: "same_queue d c" "same_marks d c" "bu_next_id c = bu_next_id d" "fd \<longrightarrow> retired = []"
    "set retired \<subseteq> rg_id ` set entries" "ho_dead (bu_objects c i) \<longleftrightarrow> i \<in> set retired \<or> ho_dead (bu_objects d i)"
    "handlers_of t c = handlers_of t d" "bu_handlers c = bu_handlers d" for t i
    using retire_effect [OF ret] by (auto intro: handlers_of_cong)
  have "taken_out b c i" if i: "i \<in> set retired" for i
  proof -
    obtain h t where "h \<in> set (handlers_of t b)" "t \<in> set types" "P h" "rg_id h = i" using i r(5) l(6) by blast
    then show ?thesis by (auto simp: taken_out_def r(7) l(1))
  qed
  moreover have "\<exists>Q. handlers_of t c = filter Q (handlers_of t b)" for t
    by (rule exI [of _ "\<lambda>h. t \<in> set types \<longrightarrow> \<not> P h"]) (simp add: r(7) l(1))
  ultimately show ?thesis
    using r l same_queue_trans [OF l(4) r(1)] by (auto simp: lists_cleared_def same_marks_def)
qed

lemma run_clear_cleared:
  assumes keys: "distinct (keys (bu_handlers b))" and run: "run_clear op fd b = (retired, c)"
  shows "lists_cleared fd b retired c"
proof (cases op)
  case (ClearType u)
  with run obtain d where d: "retire (handlers_of u b) fd b = (retired, d)" "c = d\<lparr>bu_handlers := AList.delete u (bu_handlers d)\<rparr>"
    by (auto simp: clear_subscriptions_def split: prod.splits)
  have h: "handlers_of t c = (if t = u then [] else handlers_of t b)" for t
    using retire_effect [OF d(1)] by (simp add: d(2) handlers_of_def)
  have "\<exists>Q. handlers_of t c = filter Q (handlers_of t b)" for t
    by (rule exI [of _ "\<lambda>h. t \<noteq> u"]) (simp add: h)
  moreover have "taken_out b c i" if "i \<in> set retired" for i
  proof -
    have "set retired \<subseteq> rg_id ` set (handlers_of u b)" using retire_effect [OF d(1)] by simp
    with that obtain e where "e \<in> set (handlers_of u b)" "rg_id e = i" by fast
    then show ?thesis unfolding taken_out_def by (intro exI [of _ u] exI [of _ e]) (simp add: h)
  qed
  ultimately show ?thesis
    using retire_effect [OF d(1)] keys by (simp add: lists_cleared_def d(2) same_queue_def same_marks_def distinct_keys_delete [unfolded keys_def] keys_def)
next
  case ClearAll
  with run obtain d where d: "retire (concat (map snd (bu_handlers b))) fd b = (retired, d)" "c = d\<lparr>bu_handlers := []\<rparr>"
    by (auto simp: clear_all_subscriptions_def split: prod.splits)
  have "\<exists>Q. handlers_of t c = filter Q (handlers_of t b)" for t
    by (rule exI [of _ "\<lambda>h. False"]) (simp add: d(2))
  moreover have "taken_out b c i" if "i \<in> set retired" for i
  proof -
    have "set retired \<subseteq> rg_id ` set (concat (map snd (bu_handlers b)))" using retire_effect [OF d(1)] by simp
    with that obtain e where "e \<in> set (concat (map snd (bu_handlers b)))" "rg_id e = i" by fast
    then obtain t l h where l: "(t, l) \<in> set (bu_handlers b)" "h \<in> set l" "rg_id h = i" by auto
    then have "handlers_of t b = l" using keys by (simp add: handlers_of_def keys_def)
    with l show ?thesis by (auto simp: taken_out_def d(2))
  qed
  ultimately show ?thesis
    using retire_effect [OF d(1)] keys by (simp add: lists_cleared_def d(2) same_queue_def same_marks_def distinct_keys_delete [unfolded keys_def] keys_def)
next
  case (ClearExternal types)
  with keys run show ?thesis
    by (auto simp: clear_external_subscriptions_def intro: clear_lists_cleared split: prod.splits)
next
  case (ClearByKey key)
  with keys run show ?thesis
    by (auto simp: clear_subscriptions_by_key_def intro: clear_lists_cleared split: prod.splits)
qed

lemma run_clear_queue:
  assumes "run_clear op fd b = (retired, c)"
  shows "same_queue b c"
  using assms
  by (cases op)
    (auto simp: clear_subscriptions_def clear_all_subscriptions_def clear_external_subscriptions_def clear_subscriptions_by_key_def
      split: prod.splits dest!: retire_effect clear_lists_effect [where t = undefined] simp: same_queue_def)

section \<open>The lock and the queue\<close>

fun pending :: "nat \<Rightarrow> bus_op option \<Rightarrow> (nat \<times> event) list" where
  "pending g (Some (GTook e)) = [(g, e)]"
| "pending g (Some (GEnqueue e)) = [(g, e)]"
| "pending g x = []"

fun holds_lock :: "bus_op option \<Rightarrow> bool" where
  "holds_lock (Some (GTook e)) = True"
| "holds_lock (Some (GObserve e took depth)) = took"
| "holds_lock (Some GWedged) = True"
| "holds_lock x = False"

definition by_goroutine :: "nat \<Rightarrow> (nat \<times> event) list \<Rightarrow> (nat \<times> event) list" where
  "by_goroutine g = filter (\<lambda>x. fst x = g)"

lemma by_goroutine_simps [simp]:
  "by_goroutine g [] = []" "by_goroutine g (xs @ ys) = by_goroutine g xs @ by_goroutine g ys"
  "by_goroutine g ((p, e) # xs) = (if p = g then (p, e) # by_goroutine g xs else by_goroutine g xs)"
  by (simp_all add: by_goroutine_def)

definition queue_ok :: "usys \<Rightarrow> bool" where
  "queue_ok s \<longleftrightarrow>
     (\<forall>g. bu_dispatch (us_bus s) = Some g \<longleftrightarrow> us_dispatching s g \<noteq> None \<or> holds_lock (us_ops s g))
     \<and> (bu_dispatch (us_bus s) = None \<longrightarrow> bu_deferred (us_bus s) = [])
     \<and> (\<forall>g. bu_gid (us_bus s) = Some g \<longleftrightarrow> us_dispatching s g \<noteq> None)
     \<and> (\<forall>g e. us_ops s g = Some (GTook e) \<longrightarrow> by_goroutine g (bu_deferred (us_bus s)) = [])
     \<and> (\<forall>g. us_dispatching s g \<noteq> None \<longrightarrow> \<not> holds_lock (us_ops s g))
     \<and> (\<forall>g. by_goroutine g (us_issued s) =
            by_goroutine g (us_sent s) @ by_goroutine g (bu_deferred (us_bus s)) @ pending g (us_ops s g))"

lemma queue_start: "bus_start s \<Longrightarrow> queue_ok s"
  by (simp add: bus_start_def queue_ok_def new_bus_def)

lemma queue_frame:
  assumes "queue_ok s" and "same_queue (us_bus s) b"
  shows "queue_ok (s\<lparr>us_bus := b\<rparr>)"
  using assms by (simp add: queue_ok_def same_queue_def)

lemma queue_history [simp]:
  "queue_ok (s\<lparr>us_closures := c\<rparr>) = queue_ok s" "queue_ok (s\<lparr>us_retired := r\<rparr>) = queue_ok s" "queue_ok (s\<lparr>us_gone := r\<rparr>) = queue_ok s"
  by (simp_all add: queue_ok_def)

text \<open>Operations that neither hold the lock nor an event come and go freely; so do the phases of the dispatcher.\<close>

lemma queue_op:
  assumes "queue_ok s" and "pending g x = pending g (us_ops s g)" and "holds_lock x = holds_lock (us_ops s g)" and "\<forall>e. x \<noteq> Some (GTook e)"
  shows "queue_ok (s\<lparr>us_ops := (us_ops s)(g := x)\<rparr>)"
  using assms by (auto simp: queue_ok_def)

lemma queue_phase:
  assumes "queue_ok s" and "us_dispatching s g \<noteq> None"
  shows "queue_ok (s\<lparr>us_dispatching := (us_dispatching s)(g \<mapsto> ph)\<rparr>)"
  using assms by (auto simp: queue_ok_def)

lemma may_act_none: "may_act g s \<Longrightarrow> us_ops s g = None" by (simp add: may_act_def)

lemma queue_publish:
  assumes ok: "queue_ok s" and act: "may_act g s" and lock: "try_lock g (us_bus s) = (got, b)"
  shows "queue_ok (s\<lparr>us_bus := b, us_ops := (us_ops s)(g \<mapsto> (if got then GTook e else GEnqueue e)), us_issued := us_issued s @ [(g, e)]\<rparr>)"
proof (cases "bu_dispatch (us_bus s)")
  case None
  with lock have b: "got" "b = (us_bus s)\<lparr>bu_dispatch := Some g\<rparr>" by (auto simp: try_lock_def)
  have idle: "us_dispatching s h = None" "\<not> holds_lock (us_ops s h)" "bu_deferred (us_bus s) = []" for h
    using ok None by (auto simp: queue_ok_def)
  then show ?thesis using ok b may_act_none [OF act] by (auto simp: queue_ok_def)
next
  case (Some o')
  with lock have b: "\<not> got" "b = us_bus s" by (auto simp: try_lock_def)
  then show ?thesis using ok may_act_none [OF act] by (auto simp: queue_ok_def)
qed

lemma queue_enqueue:
  assumes ok: "queue_ok s" and g: "us_ops s g = Some (GEnqueue e)" and q: "enqueue g e (us_bus s) = ((took, depth), b)"
  shows "queue_ok (s\<lparr>us_bus := b, us_ops := (us_ops s)(g \<mapsto> GObserve e took depth)\<rparr>)"
proof (cases "bu_dispatch (us_bus s)")
  case None
  with q have b: "took" "b = (us_bus s)\<lparr>bu_deferred := bu_deferred (us_bus s) @ [(g, e)], bu_dispatch := Some g\<rparr>"
    by (auto simp: enqueue_def try_lock_def Let_def)
  have idle: "us_dispatching s h = None" "\<not> holds_lock (us_ops s h)" for h
    using ok None by (auto simp: queue_ok_def)
  have "us_ops s h \<noteq> Some (GTook f)" for h f using idle(2) [of h] by auto
  then show ?thesis using ok b g idle by (auto simp: queue_ok_def)
next
  case (Some o')
  with q have b: "\<not> took" "b = (us_bus s)\<lparr>bu_deferred := bu_deferred (us_bus s) @ [(g, e)]\<rparr>"
    by (auto simp: enqueue_def try_lock_def Let_def)
  then show ?thesis using ok g Some by (auto simp: queue_ok_def)
qed

lemma queue_took:
  assumes ok: "queue_ok s" and g: "us_ops s g = Some (GTook e)"
  shows "queue_ok (s\<lparr>us_bus := store_gid g (us_bus s), us_ops := (us_ops s)(g := None), us_sent := us_sent s @ [(g, e)],
     us_dispatching := (us_dispatching s)(g \<mapsto> DIdentity e)\<rparr>)"
proof -
  have own: "bu_dispatch (us_bus s) = Some g" and q: "by_goroutine g (bu_deferred (us_bus s)) = []" using ok g by (auto simp: queue_ok_def)
  have others: "us_dispatching s h = None" "\<not> holds_lock (us_ops s h)" if "h \<noteq> g" for h
    using ok own that by (auto simp: queue_ok_def)
  have "us_dispatching s g = None" using ok g by (auto simp: queue_ok_def)
  with others have none: "us_dispatching s h = None" for h by (cases "h = g") auto
  have "us_ops s h \<noteq> Some (GTook f)" if "h \<noteq> g" for h f using others(2) [OF that] by auto
  then show ?thesis using ok g own q none others(2) by (auto simp: queue_ok_def store_gid_def)
qed

lemma queue_take_over:
  assumes ok: "queue_ok s" and g: "us_ops s g = Some (GObserve e True depth)"
  shows "queue_ok (s\<lparr>us_bus := store_gid g (observe_deferred_depth depth (us_bus s)), us_ops := (us_ops s)(g := None),
     us_dispatching := (us_dispatching s)(g \<mapsto> DFlush)\<rparr>)"
proof -
  let ?b = "observe_deferred_depth depth (us_bus s)"
  have b: "bu_dispatch ?b = bu_dispatch (us_bus s)" "bu_deferred ?b = bu_deferred (us_bus s)" "bu_gid ?b = bu_gid (us_bus s)"
    using quiet_queue(1) [of "us_bus s" depth] by (simp_all add: same_queue_def)
  have own: "bu_dispatch (us_bus s) = Some g" using ok g by (auto simp: queue_ok_def)
  have others: "us_dispatching s h = None" "\<not> holds_lock (us_ops s h)" if "h \<noteq> g" for h
    using ok own that by (auto simp: queue_ok_def)
  have "us_dispatching s g = None" using ok g by (auto simp: queue_ok_def)
  with others have none: "us_dispatching s h = None" for h by (cases "h = g") auto
  show ?thesis using ok g own none others(2) by (auto simp: queue_ok_def store_gid_def b)
qed

lemma queue_next:
  assumes ok: "queue_ok s" and g: "us_dispatching s g = Some DFlush" and f: "flush_round (us_bus s) = (Some (p, e), b)"
  shows "queue_ok (s\<lparr>us_bus := b, us_sent := us_sent s @ [(p, e)], us_dispatching := (us_dispatching s)(g \<mapsto> DIdentity e)\<rparr>)"
proof -
  obtain q where q: "bu_deferred (us_bus s) = (p, e) # q" "b = (us_bus s)\<lparr>bu_deferred := q\<rparr>"
    using f by (auto simp: flush_round_def split: list.splits)
  have "by_goroutine h q = []" if "by_goroutine h (bu_deferred (us_bus s)) = []" for h using that q by (simp split: if_splits)
  then show ?thesis using ok g q by (auto simp: queue_ok_def split: if_splits)
qed

lemma queue_release:
  assumes ok: "queue_ok s" and g: "us_dispatching s g = Some DFlush" and f: "flush_round (us_bus s) = (None, b)"
  shows "queue_ok (s\<lparr>us_bus := b, us_dispatching := (us_dispatching s)(g := None)\<rparr>)"
proof -
  have q: "bu_deferred (us_bus s) = []" "b = (us_bus s)\<lparr>bu_gid := None, bu_dispatch := None\<rparr>"
    using f by (auto simp: flush_round_def split: list.splits)
  have own: "bu_dispatch (us_bus s) = Some g" using ok g by (auto simp: queue_ok_def)
  have others: "us_dispatching s h = None" "\<not> holds_lock (us_ops s h)" if "h \<noteq> g" for h
    using ok own that by (auto simp: queue_ok_def)
  have "\<not> holds_lock (us_ops s g)" using ok g by (auto simp: queue_ok_def)
  with others have "\<not> holds_lock (us_ops s h)" for h by (cases "h = g") auto
  then show ?thesis using ok q others(1) by (auto simp: queue_ok_def)
qed

lemma queue_step: "ustep s t \<Longrightarrow> queue_ok s \<Longrightarrow> queue_ok t"
proof (induction rule: ustep.induct)
  case (u_observe s g e depth)
  have "queue_ok (s\<lparr>us_bus := observe_deferred_depth depth (us_bus s)\<rparr>)" by (rule queue_frame [OF u_observe.prems]) simp
  from queue_op [OF this, of g None] u_observe show ?case by simp
next
  case (u_snapshot s g e u key hs b)
  have "queue_ok (s\<lparr>us_bus := b\<rparr>)" by (rule queue_frame [OF u_snapshot.prems quiet_queue(11) [OF u_snapshot(3)]])
  from queue_phase [OF this, of g] u_snapshot show ?case by simp
next
  case (u_count s g e hs)
  have "queue_ok (s\<lparr>us_bus := count_published (ev_type e) (us_bus s)\<rparr>)" by (rule queue_frame [OF u_count.prems]) simp
  from queue_phase [OF this, of g] u_count show ?case by simp
next
  case (u_visit s g e h hs call b)
  have "queue_ok (s\<lparr>us_bus := b\<rparr>)" by (rule queue_frame [OF u_visit.prems quiet_queue(10) [OF u_visit(2)]])
  from queue_phase [OF this, of g] u_visit show ?case by simp
next
  case (u_return s g e h hs us panicked)
  have "queue_ok (s\<lparr>us_bus := handler_returned h us panicked (us_bus s)\<rparr>)" by (rule queue_frame [OF u_return.prems]) simp
  from queue_phase [OF this, of g] u_return show ?case by simp
next
  case (u_end s g e)
  have "queue_ok (s\<lparr>us_bus := end_pass (us_bus s)\<rparr>)" by (rule queue_frame [OF u_end.prems]) simp
  from queue_phase [OF this, of g] u_end show ?case by simp
next
  case (u_subscribe g s options r b u)
  have "queue_ok (s\<lparr>us_bus := b\<rparr>)" by (rule queue_frame [OF u_subscribe.prems quiet_queue(9) [OF u_subscribe(2)]])
  from queue_op [OF this, of g "Some (GRegister u r)"] may_act_none [OF u_subscribe(1)] show ?case by simp
next
  case (u_register s g u r)
  have "queue_ok (s\<lparr>us_bus := register_handler u r (us_bus s)\<rparr>)" by (rule queue_frame [OF u_register.prems]) simp
  from queue_op [OF this, of g None] u_register show ?case by simp
next
  case (u_unsubscribe g s u i)
  have ok: "queue_ok (s\<lparr>us_bus := unsubscribe_section u i (us_bus s)\<rparr>)" by (rule queue_frame [OF u_unsubscribe.prems]) simp
  from ok queue_op [OF this, of g "Some (GAwait [i])"] may_act_none [OF u_unsubscribe(1)] show ?case
    by (simp add: queue_ok_def)
next
  case (u_clear g s c retired b)
  have "queue_ok (s\<lparr>us_bus := b\<rparr>)" by (rule queue_frame [OF u_clear.prems run_clear_queue [OF u_clear(2)]])
  from queue_op [OF this, of g "Some (GAwait retired)"] may_act_none [OF u_clear(1)] show ?case by (simp add: queue_ok_def)
next
  case (u_await s g i "is")
  from queue_op [OF u_await.prems, of g "Some (GAwait is)"] u_await show ?case by simp
next
  case (u_awaited s g)
  from queue_op [OF u_awaited.prems, of g None] u_awaited show ?case by simp
next
  case (u_reset_stats s)
  then show ?case by (simp add: queue_frame)
next
  case (u_publish_panics s g e depth)
  then show ?case using queue_op [OF u_publish_panics.prems, of g None] by simp
next
  case (u_wedge s g e depth)
  then show ?case using queue_op [OF u_wedge.prems, of g "Some GWedged"] by simp
next
  case (u_no_identity s g e)
  then show ?case by (simp add: queue_phase)
qed (simp_all add: queue_publish queue_took queue_enqueue queue_take_over queue_next queue_release)

interpretation bus_queue: invariant_system bus_start ustep queue_ok
  by unfold_locales (auto intro: queue_start queue_step)

section \<open>The registry\<close>

definition listed :: "bus \<Rightarrow> nat \<Rightarrow> string \<Rightarrow> bool" where
  "listed b i t \<longleftrightarrow> i \<in> rg_id ` set (handlers_of t b)"

definition entering :: "usys \<Rightarrow> nat \<Rightarrow> nat option" where
  "entering s g = (case us_ops s g of Some (GRegister t r) \<Rightarrow> Some (rg_id r) | _ \<Rightarrow> None)"

definition awaiting :: "usys \<Rightarrow> nat \<Rightarrow> nat set" where
  "awaiting s g = (case us_ops s g of Some (GAwait is) \<Rightarrow> set is | _ \<Rightarrow> {})"

text \<open>An id is in one list at most, once; it enters once, and once retired it never comes back.\<close>

definition lists_ok :: "bus \<Rightarrow> bool" where
  "lists_ok b \<longleftrightarrow> distinct (keys (bu_handlers b)) \<and> (\<forall>t. distinct (map rg_id (handlers_of t b)))
     \<and> (\<forall>i t u. listed b i t \<longrightarrow> listed b i u \<longrightarrow> t = u) \<and> (\<forall>i t. listed b i t \<longrightarrow> i \<le> bu_next_id b)"

definition registry_ok :: "usys \<Rightarrow> bool" where
  "registry_ok s \<longleftrightarrow> lists_ok (us_bus s)
     \<and> (\<forall>g i. entering s g = Some i \<longrightarrow> i \<le> bu_next_id (us_bus s) \<and> i \<notin> us_retired s \<and> (\<forall>t. \<not> listed (us_bus s) i t)
           \<and> (\<forall>t. (t, i) \<notin> us_closures s) \<and> (\<forall>h. entering s h = Some i \<longrightarrow> h = g))
     \<and> (\<forall>t i. (t, i) \<in> us_closures s \<longrightarrow> i \<le> bu_next_id (us_bus s) \<and> (\<forall>u. listed (us_bus s) i u \<longrightarrow> u = t))
     \<and> (\<forall>i \<in> us_retired s. i \<le> bu_next_id (us_bus s) \<and> (\<forall>t. \<not> listed (us_bus s) i t) \<and> ho_dead (bu_objects (us_bus s) i))
     \<and> (\<forall>g. awaiting s g \<subseteq> us_retired s) \<and> us_gone s \<subseteq> us_retired s"

lemma registry_start: "bus_start s \<Longrightarrow> registry_ok s"
  by (simp add: bus_start_def registry_ok_def lists_ok_def listed_def new_bus_def handlers_of_def entering_def awaiting_def keys_def)

lemma registry_views:
  "entering (s\<lparr>us_ops := (us_ops s)(g := x)\<rparr>) h = (if h = g then (case x of Some (GRegister t r) \<Rightarrow> Some (rg_id r) | _ \<Rightarrow> None) else entering s h)"
  "awaiting (s\<lparr>us_ops := (us_ops s)(g := x)\<rparr>) h = (if h = g then (case x of Some (GAwait is) \<Rightarrow> set is | _ \<Rightarrow> {}) else awaiting s h)"
  "entering (s\<lparr>us_bus := b\<rparr>) h = entering s h" "awaiting (s\<lparr>us_bus := b\<rparr>) h = awaiting s h"
  "entering (s\<lparr>us_dispatching := d\<rparr>) h = entering s h" "awaiting (s\<lparr>us_dispatching := d\<rparr>) h = awaiting s h"
  "entering (s\<lparr>us_closures := cl\<rparr>) h = entering s h" "awaiting (s\<lparr>us_closures := cl\<rparr>) h = awaiting s h"
  "entering (s\<lparr>us_retired := re\<rparr>) h = entering s h" "awaiting (s\<lparr>us_retired := re\<rparr>) h = awaiting s h"
  "entering (s\<lparr>us_gone := re\<rparr>) h = entering s h" "awaiting (s\<lparr>us_gone := re\<rparr>) h = awaiting s h"
  "entering (s\<lparr>us_issued := ev\<rparr>) h = entering s h" "awaiting (s\<lparr>us_issued := ev\<rparr>) h = awaiting s h"
  "entering (s\<lparr>us_sent := ev\<rparr>) h = entering s h" "awaiting (s\<lparr>us_sent := ev\<rparr>) h = awaiting s h"
  by (simp_all add: entering_def awaiting_def)

lemma registry_frame:
  "registry_ok s \<Longrightarrow> same_registry (us_bus s) b \<Longrightarrow> bu_handlers b = bu_handlers (us_bus s) \<Longrightarrow> registry_ok (s\<lparr>us_bus := b\<rparr>)"
  by (simp add: registry_ok_def lists_ok_def listed_def same_registry_def registry_views)

lemma registry_history [simp]:
  "registry_ok (s\<lparr>us_dispatching := d\<rparr>) = registry_ok s" "registry_ok (s\<lparr>us_issued := ev\<rparr>) = registry_ok s"
  "registry_ok (s\<lparr>us_sent := ev\<rparr>) = registry_ok s"
  by (simp_all add: registry_ok_def registry_views)

lemma registry_op:
  assumes "registry_ok s" and "case x of Some (GRegister t r) \<Rightarrow> False | Some (GAwait is) \<Rightarrow> set is \<subseteq> us_retired s | _ \<Rightarrow> True"
  shows "registry_ok (s\<lparr>us_ops := (us_ops s)(g := x)\<rparr>)"
  using assms by (auto simp: registry_ok_def registry_views split: option.splits bus_op.splits if_splits)

lemma quiet_registry:
  "same_registry b (observe_deferred_depth d b) \<and> bu_handlers (observe_deferred_depth d b) = bu_handlers b"
  "same_registry b (store_gid g b) \<and> bu_handlers (store_gid g b) = bu_handlers b"
  "same_registry b (count_published u b) \<and> bu_handlers (count_published u b) = bu_handlers b"
  "same_registry b (end_pass b) \<and> bu_handlers (end_pass b) = bu_handlers b"
  "same_registry b (handler_returned h us p b) \<and> bu_handlers (handler_returned h us p b) = bu_handlers b"
  "same_registry b (reset_event_stats b) \<and> bu_handlers (reset_event_stats b) = bu_handlers b"
  "visit_handler h key b = (call, c) \<Longrightarrow> same_registry b c \<and> bu_handlers c = bu_handlers b"
  "snapshot_handlers u b = (hs, c) \<Longrightarrow> same_registry b c \<and> bu_handlers c = bu_handlers b"
  "try_lock g b = (got, c) \<Longrightarrow> same_registry b c \<and> bu_handlers c = bu_handlers b"
  "enqueue g e b = ((got, depth), c) \<Longrightarrow> same_registry b c \<and> bu_handlers c = bu_handlers b"
  "flush_round b = (x, c) \<Longrightarrow> same_registry b c \<and> bu_handlers c = bu_handlers b"
  by (auto simp: same_registry_def observe_deferred_depth_def store_gid_def count_published_def end_pass_def handler_returned_def done_with_def
      reset_event_stats_def visit_handler_def snapshot_handlers_def mark_inflight_objects try_lock_def enqueue_def flush_round_def Let_def
      split: if_splits option.splits list.splits)

lemma registry_quiet: "registry_ok s \<Longrightarrow> same_registry (us_bus s) b \<and> bu_handlers b = bu_handlers (us_bus s) \<Longrightarrow> registry_ok (s\<lparr>us_bus := b\<rparr>)"
  by (simp add: registry_frame)

end
