(* ===== verification/Event_Bus_Guarantees.thy ===== *)
theory Event_Bus_Guarantees
  imports Event_Bus_Laws
begin

text \<open>
  The guarantees of the event bus: the registry of handlers and the marks of a dispatch pass are consistent in
  every reachable state, which makes unsubscribing a barrier, and handlers are visited in priority order.
\<close>

section \<open>The registry is kept\<close>

lemma insert_sorted_split: obtains xs ys where "l = xs @ ys" "insert_sorted l r = xs @ r # ys"
  by (rule that [OF append_take_drop_id [symmetric]]) (simp add: insert_sorted_def Let_def)

lemma set_insert_sorted [simp]: "set (insert_sorted l r) = insert r (set l)"
  by (rule insert_sorted_split [of l r]) auto

lemma distinct_insert_sorted: "distinct (map rg_id (insert_sorted l r)) \<longleftrightarrow> distinct (map rg_id l) \<and> rg_id r \<notin> rg_id ` set l"
  by (rule insert_sorted_split [of l r]) auto

lemma remove_entry_filter: "distinct (map rg_id l) \<Longrightarrow> remove_entry i l = filter (\<lambda>h. rg_id h \<noteq> i) l"
  by (induction l) (auto intro!: filter_True [symmetric] simp: rev_image_eqI)

text \<open>Lists may shrink, if what is retired is no longer listed, marked dead and not about to enter.\<close>

lemma lists_shrink:
  assumes ok: "lists_ok b" and fil: "\<And>t. \<exists>Q. handlers_of t c = filter Q (handlers_of t b)"
    and rest: "bu_next_id c = bu_next_id b" "distinct (keys (bu_handlers c))"
  shows "lists_ok c \<and> (\<forall>i t. listed c i t \<longrightarrow> listed b i t)"
proof -
  have sub: "set (handlers_of t c) \<subseteq> set (handlers_of t b)" and dis: "distinct (map rg_id (handlers_of t c))" for t
  proof -
    obtain Q where Q: "handlers_of t c = filter Q (handlers_of t b)" using fil [of t] by blast
    show "set (handlers_of t c) \<subseteq> set (handlers_of t b)" by (auto simp: Q)
    have "distinct (map rg_id (handlers_of t b))" using ok by (simp add: lists_ok_def)
    then show "distinct (map rg_id (handlers_of t c))" unfolding Q by (rule distinct_map_filter)
  qed
  have "listed c i t \<Longrightarrow> listed b i t" for i t using sub [of t] by (auto simp: listed_def)
  then show ?thesis using ok dis rest unfolding lists_ok_def by metis
qed

lemma registry_shrink:
  assumes ok: "registry_ok s" and lists: "lists_ok b" "\<And>i t. listed b i t \<Longrightarrow> listed (us_bus s) i t" "bu_next_id b = bu_next_id (us_bus s)"
    and dead: "\<And>i. ho_dead (bu_objects (us_bus s) i) \<Longrightarrow> ho_dead (bu_objects b i)"
    and R: "\<And>i. i \<in> R \<Longrightarrow> i \<le> bu_next_id b \<and> (\<forall>t. \<not> listed b i t) \<and> ho_dead (bu_objects b i) \<and> (\<forall>g. entering s g \<noteq> Some i)"
    and cl: "cl \<subseteq> us_closures s"
  shows "registry_ok (s\<lparr>us_bus := b, us_closures := cl, us_retired := us_retired s \<union> R\<rparr>)"
proof -
  have "\<forall>i \<in> us_retired s \<union> R. i \<le> bu_next_id b \<and> (\<forall>t. \<not> listed b i t) \<and> ho_dead (bu_objects b i)"
    using ok R lists(2) dead by (simp add: registry_ok_def lists(3)) blast
  moreover have "\<forall>g i. entering s g = Some i \<longrightarrow> i \<le> bu_next_id b \<and> i \<notin> us_retired s \<union> R \<and> (\<forall>t. \<not> listed b i t)
           \<and> (\<forall>t. (t, i) \<notin> cl) \<and> (\<forall>h. entering s h = Some i \<longrightarrow> h = g)"
    using ok R lists(2) cl by (simp add: registry_ok_def lists(3)) blast
  moreover have "\<forall>t i. (t, i) \<in> cl \<longrightarrow> i \<le> bu_next_id b \<and> (\<forall>u. listed b i u \<longrightarrow> u = t)"
    using ok lists(2) cl by (simp add: registry_ok_def lists(3)) blast
  moreover have "\<forall>g. awaiting s g \<subseteq> us_retired s \<union> R" "us_gone s \<subseteq> us_retired s \<union> R" using ok by (auto simp: registry_ok_def)
  ultimately show ?thesis using lists(1) by (simp add: registry_ok_def registry_views)
qed

lemma registry_subscribe:
  assumes ok: "registry_ok s" and new: "new_subscription options (us_bus s) = (r, b)"
  shows "registry_ok (s\<lparr>us_bus := b, us_ops := (us_ops s)(g \<mapsto> GRegister t r)\<rparr>)"
proof -
  have b: "b = (us_bus s)\<lparr>bu_next_id := Suc (bu_next_id (us_bus s))\<rparr>" "rg_id r = Suc (bu_next_id (us_bus s))"
    using new by (auto simp: new_subscription_def Let_def)
  have l: "listed b i u = listed (us_bus s) i u" for i u by (simp add: listed_def b(1))
  have fresh: "Suc (bu_next_id (us_bus s)) \<notin> us_retired s" "\<not> listed (us_bus s) (Suc (bu_next_id (us_bus s))) u"
    "(u, Suc (bu_next_id (us_bus s))) \<notin> us_closures s" "entering s h \<noteq> Some (Suc (bu_next_id (us_bus s)))" for u h
    using ok Suc_n_not_le_n [of "bu_next_id (us_bus s)"] unfolding registry_ok_def lists_ok_def by blast+
  have "handlers_of u b = handlers_of u (us_bus s)" "bu_handlers b = bu_handlers (us_bus s)" "bu_next_id (us_bus s) \<le> bu_next_id b" for u
    by (simp_all add: b(1))
  then have "lists_ok b" using ok by (auto simp: registry_ok_def lists_ok_def l intro: order_trans)
  moreover have "bu_objects b = bu_objects (us_bus s)" "bu_next_id b = Suc (bu_next_id (us_bus s))" by (simp_all add: b(1))
  moreover have "entering (s\<lparr>us_bus := b, us_ops := (us_ops s)(g \<mapsto> GRegister t r)\<rparr>) h = (if h = g then Some (rg_id r) else entering s h)"
    "awaiting (s\<lparr>us_bus := b, us_ops := (us_ops s)(g \<mapsto> GRegister t r)\<rparr>) h = (if h = g then {} else awaiting s h)" for h
    by (simp_all add: entering_def awaiting_def)
  ultimately show ?thesis using ok fresh
    by (auto simp: registry_ok_def l b(2) le_Suc_eq split: if_splits)
qed

lemma registry_register:
  assumes ok: "registry_ok s" and op: "us_ops s g = Some (GRegister t r)"
  shows "registry_ok (s\<lparr>us_bus := register_handler t r (us_bus s), us_ops := (us_ops s)(g := None),
     us_closures := insert (t, rg_id r) (us_closures s)\<rparr>)"
proof -
  let ?b = "register_handler t r (us_bus s)" and ?i = "rg_id r"
  have e: "entering s g = Some ?i" by (simp add: entering_def op)
  then have new: "?i \<le> bu_next_id (us_bus s)" "?i \<notin> us_retired s" "\<not> listed (us_bus s) ?i u" "(u, ?i) \<notin> us_closures s"
    "entering s h = Some ?i \<Longrightarrow> h = g" for u h
    using ok unfolding registry_ok_def by blast+
  have l: "listed ?b i u \<longleftrightarrow> listed (us_bus s) i u \<or> (i = ?i \<and> u = t)" for i u
    by (auto simp: listed_def register_handler_def)
  have b: "bu_next_id ?b = bu_next_id (us_bus s)" "bu_objects ?b = bu_objects (us_bus s)" by (simp_all add: register_handler_def)
  have "distinct (map rg_id (handlers_of u ?b))" for u
    using ok new(3) [of t] by (auto simp: registry_ok_def lists_ok_def register_handler_def distinct_insert_sorted listed_def)
  moreover have "distinct (keys (bu_handlers ?b))" using ok
    by (simp add: registry_ok_def lists_ok_def register_handler_def distinct_keys_update)
  ultimately have "lists_ok ?b" using ok new(1,3) unfolding lists_ok_def registry_ok_def l b by metis
  moreover have "entering (s\<lparr>us_bus := ?b, us_ops := (us_ops s)(g := None), us_closures := cl\<rparr>) h = (if h = g then None else entering s h)"
    "awaiting (s\<lparr>us_bus := ?b, us_ops := (us_ops s)(g := None), us_closures := cl\<rparr>) h = (if h = g then {} else awaiting s h)" for h cl
    by (simp_all add: entering_def awaiting_def)
  ultimately show ?thesis using ok new by (auto simp: registry_ok_def l b split: if_splits)
qed

lemma registry_unsubscribe:
  assumes ok: "registry_ok s" and cl: "(t, i) \<in> us_closures s"
  shows "registry_ok (s\<lparr>us_bus := unsubscribe_section t i (us_bus s), us_closures := us_closures s - {(t, i)},
     us_retired := us_retired s \<union> {i}\<rparr>)"
proof -
  let ?b = "unsubscribe_section t i (us_bus s)"
  have dis: "distinct (map rg_id (handlers_of u (us_bus s)))" for u using ok by (simp add: registry_ok_def lists_ok_def)
  have only: "listed (us_bus s) i u \<Longrightarrow> u = t" for u using ok cl unfolding registry_ok_def by blast
  have h: "handlers_of u ?b = filter (\<lambda>h. rg_id h \<noteq> i) (handlers_of u (us_bus s))" for u
  proof (cases "listed (us_bus s) i u")
    case True
    with only [OF this] show ?thesis by (simp add: unsubscribe_section_def remove_entry_filter dis listed_def)
  next
    case False
    then have "filter (\<lambda>h. rg_id h \<noteq> i) (handlers_of u (us_bus s)) = handlers_of u (us_bus s)"
      by (auto simp: listed_def rev_image_eqI intro!: filter_True)
    then show ?thesis using False by (auto simp: unsubscribe_section_def listed_def)
  qed
  have keys: "distinct (keys (bu_handlers ?b))" and b: "bu_next_id ?b = bu_next_id (us_bus s)" using ok
    by (simp_all add: registry_ok_def lists_ok_def unsubscribe_section_def distinct_keys_update)
  have "lists_ok ?b \<and> (\<forall>i t. listed ?b i t \<longrightarrow> listed (us_bus s) i t)"
    using ok by (intro lists_shrink) (auto simp: registry_ok_def h b keys)
  moreover have "\<not> listed ?b i u" for u by (auto simp: listed_def h)
  moreover have "ho_dead (bu_objects ?b j) \<longleftrightarrow> j = i \<or> ho_dead (bu_objects (us_bus s) j)" for j
    by (auto simp: unsubscribe_section_def mark_dead_objects)
  moreover have "i \<le> bu_next_id (us_bus s)" "entering s g \<noteq> Some i" for g using ok cl unfolding registry_ok_def by blast+
  ultimately show ?thesis using ok by (intro registry_shrink) (auto simp: b)
qed

lemma taken_out_not_listed:
  assumes "lists_ok b" and fil: "\<And>t. \<exists>Q. handlers_of t c = filter Q (handlers_of t b)" and out: "taken_out b c i"
  shows "\<not> listed c i u \<and> (\<exists>t. listed b i t)"
proof -
  obtain t h where h: "h \<in> set (handlers_of t b)" "h \<notin> set (handlers_of t c)" "rg_id h = i" using out by (auto simp: taken_out_def)
  have none: False if "k \<in> set (handlers_of u c)" "rg_id k = i" for k
  proof -
    have k: "k \<in> set (handlers_of u b)" using fil [of u] that by auto
    then have "u = t" using assms(1) h that(2) unfolding lists_ok_def listed_def by blast
    moreover have "inj_on rg_id (set (handlers_of t b))" using assms(1) by (simp add: lists_ok_def distinct_map)
    ultimately have "k = h" using k h that by (auto dest: inj_onD)
    with h that \<open>u = t\<close> show False by simp
  qed
  have "\<not> listed c i u" unfolding listed_def using none by blast
  then show ?thesis using h by (auto simp: listed_def)
qed

lemma registry_clear:
  assumes ok: "registry_ok s" and run: "run_clear c fd (us_bus s) = (retired, b)"
  shows "registry_ok (s\<lparr>us_bus := b, us_closures := us_closures s, us_retired := us_retired s \<union> set retired\<rparr>)"
proof -
  have lok: "lists_ok (us_bus s)" using ok by (simp add: registry_ok_def)
  then have "distinct (keys (bu_handlers (us_bus s)))" by (simp add: lists_ok_def)
  from run_clear_cleared [OF this run]
  have c: "\<exists>Q. handlers_of t b = filter Q (handlers_of t (us_bus s))" "bu_next_id b = bu_next_id (us_bus s)"
    "ho_dead (bu_objects b i) \<longleftrightarrow> i \<in> set retired \<or> ho_dead (bu_objects (us_bus s) i)"
    "i \<in> set retired \<Longrightarrow> taken_out (us_bus s) b i" "distinct (keys (bu_handlers b))" for t i
    by (auto simp: lists_cleared_def)
  have "lists_ok b \<and> (\<forall>i t. listed b i t \<longrightarrow> listed (us_bus s) i t)" by (rule lists_shrink [OF lok c(1,2,5)])
  moreover have "i \<le> bu_next_id b \<and> (\<forall>t. \<not> listed b i t) \<and> (\<forall>g. entering s g \<noteq> Some i)" if "i \<in> set retired" for i
  proof -
    note out = taken_out_not_listed [OF lok c(1) c(4) [OF that]]
    then obtain t where t: "listed (us_bus s) i t" by blast
    then have "i \<le> bu_next_id b" "entering s g \<noteq> Some i" for g using lok ok unfolding lists_ok_def registry_ok_def c(2) by blast+
    with out show ?thesis by blast
  qed
  ultimately show ?thesis using ok by (intro registry_shrink) (auto simp: c)
qed


lemma registry_step: "ustep s t \<Longrightarrow> registry_ok s \<Longrightarrow> registry_ok t"
proof (induction rule: ustep.induct)
  case (u_publish g s got b e)
  have "registry_ok (s\<lparr>us_bus := b\<rparr>)" by (rule registry_quiet [OF u_publish.prems quiet_registry(9) [OF u_publish(2)]])
  from registry_op [OF this, of "Some (if got then GTook e else GEnqueue e)" g] show ?case
    by (simp add: registry_ok_def entering_def awaiting_def split: if_splits)
next
  case (u_took s g e)
  have "registry_ok (s\<lparr>us_bus := store_gid g (us_bus s)\<rparr>)" by (rule registry_quiet [OF u_took.prems quiet_registry(2)])
  from registry_op [OF this, of None g] show ?case by (simp add: registry_ok_def entering_def awaiting_def)
next
  case (u_enqueue s g e took depth b)
  have "registry_ok (s\<lparr>us_bus := b\<rparr>)" by (rule registry_quiet [OF u_enqueue.prems quiet_registry(10) [OF u_enqueue(2)]])
  from registry_op [OF this, of "Some (GObserve e took depth)" g] show ?case by simp
next
  case (u_observe s g e depth)
  have "registry_ok (s\<lparr>us_bus := observe_deferred_depth depth (us_bus s)\<rparr>)" by (rule registry_quiet [OF u_observe.prems quiet_registry(1)])
  from registry_op [OF this, of None g] show ?case by simp
next
  case (u_take_over s g e depth)
  have 1: "registry_ok (s\<lparr>us_bus := observe_deferred_depth depth (us_bus s)\<rparr>)" by (rule registry_quiet [OF u_take_over.prems quiet_registry(1)])
  have "registry_ok (s\<lparr>us_bus := store_gid g (observe_deferred_depth depth (us_bus s))\<rparr>)"
    using registry_quiet [OF 1, of "store_gid g (observe_deferred_depth depth (us_bus s))"] quiet_registry(2) by simp
  from registry_op [OF this, of None g] show ?case by (simp add: registry_ok_def entering_def awaiting_def)
next
  case (u_snapshot s g e u key hs b)
  then show ?case by (simp add: registry_quiet [OF _ quiet_registry(8)])
next
  case (u_count s g e hs)
  then show ?case by (simp add: registry_quiet quiet_registry(3))
next
  case (u_visit s g e h hs call b)
  then show ?case by (simp add: registry_quiet [OF _ quiet_registry(7)])
next
  case (u_return s g e h hs us panicked)
  then show ?case by (simp add: registry_quiet quiet_registry(5))
next
  case (u_end s g e)
  then show ?case by (simp add: registry_quiet quiet_registry(4))
next
  case (u_next s g p e b)
  then show ?case by (simp add: registry_quiet [OF _ quiet_registry(11)])
next
  case (u_release s g b)
  then show ?case by (simp add: registry_quiet [OF _ quiet_registry(11)])
next
  case (u_unsubscribe g s u i)
  from registry_unsubscribe [OF u_unsubscribe.prems u_unsubscribe(2)]
  have 1: "registry_ok (s\<lparr>us_bus := unsubscribe_section u i (us_bus s), us_closures := us_closures s - {(u, i)},
     us_retired := insert i (us_retired s)\<rparr>)" by simp
  then show ?case
  proof (cases "bu_gid (us_bus s) = Some g")
    case True
    with 1 show ?thesis by (cases s) simp
  next
    case False
    with registry_op [OF 1, of "Some (GAwait [i])" g] show ?thesis by simp
  qed
next
  case (u_clear g s c retired b)
  from registry_clear [OF u_clear.prems u_clear(2)]
  have 1: "registry_ok (s\<lparr>us_bus := b, us_retired := us_retired s \<union> set retired\<rparr>)" by (simp add: registry_ok_def entering_def awaiting_def)
  from registry_op [OF 1, of "Some (GAwait retired)" g] show ?case by simp
next
  case (u_await s g i "is")
  have sub: "insert i (set is) \<subseteq> us_retired s"
    using u_await by (auto simp: registry_ok_def awaiting_def dest!: spec [of _ g] split: option.splits)
  then have "registry_ok (s\<lparr>us_gone := insert i (us_gone s)\<rparr>)" using u_await.prems by (simp add: registry_ok_def registry_views)
  from registry_op [OF this, of "Some (GAwait is)" g] sub show ?case by (simp add: registry_ok_def entering_def awaiting_def)
next
  case (u_awaited s g)
  then show ?case using registry_op [OF u_awaited.prems, of None g] by simp
next
  case (u_reset_stats s)
  then show ?case by (simp add: registry_quiet quiet_registry(6))
next
  case (u_publish_panics s g e depth)
  then show ?case using registry_op [OF u_publish_panics.prems, of None g] by simp
next
  case (u_wedge s g e depth)
  then show ?case using registry_op [OF u_wedge.prems, of "Some GWedged" g] by simp
qed (simp_all add: registry_subscribe registry_register)

section \<open>The marks of a pass\<close>

fun pass_ids :: "dispatch_phase option \<Rightarrow> nat list" where
  "pass_ids (Some (DCount e hs)) = map rg_id hs"
| "pass_ids (Some (DPass e hs)) = map rg_id hs"
| "pass_ids (Some (DCalling e h hs)) = rg_id h # map rg_id hs"
| "pass_ids x = []"

definition in_pass :: "usys \<Rightarrow> nat \<Rightarrow> nat" where
  "in_pass s i = (case bu_gid (us_bus s) of None \<Rightarrow> 0 | Some g \<Rightarrow> count_list (pass_ids (us_dispatching s g)) i)"

definition marks_ok :: "usys \<Rightarrow> bool" where
  "marks_ok s \<longleftrightarrow> (\<forall>i. ho_inflight (bu_objects (us_bus s) i) = int (in_pass s i)) \<and> (\<forall>i \<in> us_gone s. in_pass s i = 0)"

definition bus_ok :: "usys \<Rightarrow> bool" where
  "bus_ok s \<longleftrightarrow> queue_ok s \<and> registry_ok s \<and> marks_ok s"

lemma bus_ok_start: "bus_start s \<Longrightarrow> bus_ok s"
  using queue_start [of s] registry_start [of s]
  by (simp add: bus_ok_def marks_ok_def in_pass_def bus_start_def new_bus_def fresh_object_def)

text \<open>A step that leaves marks, pass and barrier alone; and a step of the dispatching goroutine.\<close>

lemma marks_frame:
  assumes "marks_ok s" and "\<And>i. ho_inflight (bu_objects (us_bus t) i) = ho_inflight (bu_objects (us_bus s) i)"
    and "\<And>i. in_pass t i = in_pass s i" and "us_gone t = us_gone s"
  shows "marks_ok t"
  using assms by (simp add: marks_ok_def)

lemma marks_quiet:
  assumes "marks_ok s" and "\<And>i. ho_inflight (bu_objects (us_bus t) i) = ho_inflight (bu_objects (us_bus s) i)"
    and "bu_gid (us_bus t) = bu_gid (us_bus s)" and "us_dispatching t = us_dispatching s" and "us_gone t = us_gone s"
  shows "marks_ok t"
  by (rule marks_frame [OF assms(1,2) _ assms(5)]) (simp add: in_pass_def assms(3,4) split: option.split)

lemma dispatcher: "queue_ok s \<Longrightarrow> us_dispatching s g = Some ph \<Longrightarrow> bu_gid (us_bus s) = Some g"
  by (auto simp: queue_ok_def)

lemma marks_dispatch:
  assumes ok: "marks_ok s" and "bu_gid (us_bus s) = Some g" "bu_gid b = Some g" and t: "us_bus t = b" "us_dispatching t = (us_dispatching s)(g \<mapsto> ph)" "us_gone t = us_gone s"
    and inflight: "\<And>i. ho_inflight (bu_objects b i) - ho_inflight (bu_objects (us_bus s) i)
        = int (count_list (pass_ids (Some ph)) i) - int (count_list (pass_ids (us_dispatching s g)) i)"
    and gone: "\<And>i. i \<in> us_gone s \<Longrightarrow> count_list (pass_ids (Some ph)) i \<le> count_list (pass_ids (us_dispatching s g)) i"
  shows "marks_ok t"
proof -
  have p: "in_pass s i = count_list (pass_ids (us_dispatching s g)) i" "in_pass t i = count_list (pass_ids (Some ph)) i" for i
    using assms(2,3) by (simp_all add: in_pass_def t)
  have "ho_inflight (bu_objects b i) = int (in_pass t i)" for i using ok inflight [of i] by (simp add: marks_ok_def p)
  moreover have "in_pass t i = 0" if "i \<in> us_gone s" for i using ok gone [OF that] that by (simp add: marks_ok_def p)
  ultimately show ?thesis by (simp add: marks_ok_def t)
qed

lemma quiet_marks:
  "ho_inflight (bu_objects (observe_deferred_depth d b) i) = ho_inflight (bu_objects b i)"
  "ho_inflight (bu_objects (store_gid g b) i) = ho_inflight (bu_objects b i)"
  "ho_inflight (bu_objects (count_published u b) i) = ho_inflight (bu_objects b i)"
  "ho_inflight (bu_objects (end_pass b) i) = ho_inflight (bu_objects b i)"
  "ho_inflight (bu_objects (reset_event_stats b) i) = ho_inflight (bu_objects b i)"
  "ho_inflight (bu_objects (register_handler u r b) i) = ho_inflight (bu_objects b i)"
  "ho_inflight (bu_objects (unsubscribe_section u j b) i) = ho_inflight (bu_objects b i)"
  "try_lock g b = (got, c) \<Longrightarrow> ho_inflight (bu_objects c i) = ho_inflight (bu_objects b i)"
  "enqueue g e b = ((got, depth), c) \<Longrightarrow> ho_inflight (bu_objects c i) = ho_inflight (bu_objects b i)"
  "flush_round b = (x, c) \<Longrightarrow> ho_inflight (bu_objects c i) = ho_inflight (bu_objects b i)"
  "new_subscription options b = (r, c) \<Longrightarrow> ho_inflight (bu_objects c i) = ho_inflight (bu_objects b i)"
  "try_lock g b = (got, c) \<Longrightarrow> bu_gid c = bu_gid b" "enqueue g e b = ((got, depth), c) \<Longrightarrow> bu_gid c = bu_gid b"
  by (auto simp: observe_deferred_depth_def store_gid_def count_published_def end_pass_def reset_event_stats_def register_handler_def
      unsubscribe_section_def mark_dead_objects try_lock_def enqueue_def flush_round_def new_subscription_def Let_def split: option.splits list.splits)

lemma no_dispatch_before:
  assumes ok: "queue_ok s" and "holds_lock (us_ops s g)"
  shows "bu_gid (us_bus s) = None"
proof (rule ccontr)
  assume "bu_gid (us_bus s) \<noteq> None"
  then obtain h where h: "us_dispatching s h \<noteq> None" using ok by (auto simp: queue_ok_def)
  then have "bu_dispatch (us_bus s) = Some h" "bu_dispatch (us_bus s) = Some g" using ok assms(2) unfolding queue_ok_def by blast+
  with h ok assms(2) show False unfolding queue_ok_def by auto
qed

lemma marks_begin:
  assumes ok: "bus_ok s" and lock: "holds_lock (us_ops s g)" and ph: "pass_ids (Some ph) = []"
    and t: "us_bus t = store_gid g b" "us_dispatching t = (us_dispatching s)(g \<mapsto> ph)" "us_gone t = us_gone s"
    and b: "\<And>i. ho_inflight (bu_objects b i) = ho_inflight (bu_objects (us_bus s) i)"
  shows "marks_ok t"
proof (rule marks_frame [of s])
  have "bu_gid (us_bus s) = None" using ok lock by (auto simp: bus_ok_def intro: no_dispatch_before)
  then show "in_pass t i = in_pass s i" for i using ph by (simp add: in_pass_def t store_gid_def)
qed (use ok in \<open>simp_all add: bus_ok_def t b quiet_marks\<close>)

lemma marks_visit:
  assumes ok: "bus_ok s" and g: "us_dispatching s g = Some (DPass e (h # hs))" and v: "visit_handler h (ev_key e) (us_bus s) = (call, b)"
  shows "marks_ok (s\<lparr>us_bus := b, us_dispatching := (us_dispatching s)(g \<mapsto> (if call then DCalling e h hs else DPass e hs))\<rparr>)"
proof -
  have gid: "bu_gid (us_bus s) = Some g" using ok g by (auto simp: bus_ok_def intro: dispatcher)
  moreover have "bu_gid b = Some g" using quiet_queue(10) [OF v] gid by (simp add: same_queue_def)
  moreover have "ho_inflight (bu_objects b i) = ho_inflight (bu_objects (us_bus s) i) - (if call \<or> i \<noteq> rg_id h then 0 else 1)" for i
    using v by (auto simp: visit_handler_def done_with_def Let_def split: if_splits)
  moreover have "marks_ok s" using ok by (simp add: bus_ok_def)
  ultimately show ?thesis
    by - (rule marks_dispatch [where g = g and s = s and b = b and ph = "if call then DCalling e h hs else DPass e hs"], simp_all add: g)
qed

lemma marks_return:
  assumes ok: "bus_ok s" and g: "us_dispatching s g = Some (DCalling e h hs)"
  shows "marks_ok (s\<lparr>us_bus := handler_returned h us p (us_bus s), us_dispatching := (us_dispatching s)(g \<mapsto> DPass e hs)\<rparr>)"
proof -
  have gid: "bu_gid (us_bus s) = Some g" using ok g by (auto simp: bus_ok_def intro: dispatcher)
  moreover have "bu_gid (handler_returned h us p (us_bus s)) = Some g" using quiet_queue(4) [of "us_bus s" h us p] gid by (simp add: same_queue_def)
  moreover have "marks_ok s" using ok by (simp add: bus_ok_def)
  ultimately show ?thesis
    by - (rule marks_dispatch [where g = g and s = s and b = "handler_returned h us p (us_bus s)" and ph = "DPass e hs"], simp_all add: g handler_returned_def done_with_def)
qed

lemma marks_snapshot:
  assumes ok: "bus_ok s" and g: "us_dispatching s g = Some (DIdentity e)" and snap: "snapshot_handlers u (us_bus s) = (hs, b)"
  shows "marks_ok (s\<lparr>us_bus := b, us_dispatching := (us_dispatching s)(g \<mapsto> DCount e hs)\<rparr>)"
proof -
  have gid: "bu_gid (us_bus s) = Some g" using ok g by (auto simp: bus_ok_def intro: dispatcher)
  moreover have "bu_gid b = Some g" using quiet_queue(11) [OF snap] gid by (simp add: same_queue_def)
  moreover have hs: "hs = handlers_of u (us_bus s)" "b = mark_inflight hs ((us_bus s)\<lparr>bu_active_type := u\<rparr>)"
    using snap by (auto simp: snapshot_handlers_def)
  moreover have "count_list (map rg_id hs) i = 0" if "i \<in> us_gone s" for i
  proof -
    have "\<not> listed (us_bus s) i u" using ok that unfolding bus_ok_def registry_ok_def by blast
    then show ?thesis by (simp add: listed_def hs(1) count_list_0_iff)
  qed
  moreover have "marks_ok s" using ok by (simp add: bus_ok_def)
  ultimately show ?thesis
    by - (rule marks_dispatch [where g = g and s = s and b = b and ph = "DCount e hs"], simp_all add: g mark_inflight_objects)
qed

lemma marks_await:
  assumes "marks_ok s" and "ho_inflight (bu_objects (us_bus s) i) = 0"
  shows "marks_ok (s\<lparr>us_ops := ops, us_gone := insert i (us_gone s)\<rparr>)"
proof -
  have "in_pass (s\<lparr>us_ops := ops, us_gone := insert i (us_gone s)\<rparr>) j = in_pass s j" for j
    by (simp add: in_pass_def split: option.split)
  with assms show ?thesis by (simp add: marks_ok_def)
qed

lemma marks_step: "ustep s t \<Longrightarrow> bus_ok s \<Longrightarrow> marks_ok t"
proof (induction rule: ustep.induct)
  case (u_took s g e)
  then show ?case by - (rule marks_begin [OF u_took.prems, where g = g and ph = "DIdentity e" and b = "us_bus s"], auto)
next
  case (u_take_over s g e depth)
  then show ?case by - (rule marks_begin [OF u_take_over.prems, where g = g and ph = DFlush and b = "observe_deferred_depth depth (us_bus s)"], auto simp: quiet_marks)
next
  case (u_no_identity s g e)
  have "bu_gid (us_bus s) = Some g" using u_no_identity by (auto simp: bus_ok_def intro: dispatcher)
  with u_no_identity show ?case by - (rule marks_frame [of s], auto simp: bus_ok_def in_pass_def)
next
  case (u_count s g e hs)
  have "bu_gid (us_bus s) = Some g" using u_count by (auto simp: bus_ok_def intro: dispatcher)
  with u_count show ?case by - (rule marks_frame [of s], auto simp: bus_ok_def in_pass_def quiet_marks count_published_def)
next
  case (u_end s g e)
  have "bu_gid (us_bus s) = Some g" using u_end by (auto simp: bus_ok_def intro: dispatcher)
  with u_end show ?case by - (rule marks_frame [of s], auto simp: bus_ok_def in_pass_def quiet_marks end_pass_def)
next
  case (u_next s g p e b)
  have "bu_gid (us_bus s) = Some g" using u_next by (auto simp: bus_ok_def intro: dispatcher)
  moreover have "bu_gid b = bu_gid (us_bus s)" using u_next(2) by (auto simp: flush_round_def split: list.splits)
  ultimately show ?case using u_next by - (rule marks_frame [of s], auto simp: bus_ok_def in_pass_def quiet_marks(10))
next
  case (u_release s g b)
  have "bu_gid (us_bus s) = Some g" using u_release by (auto simp: bus_ok_def intro: dispatcher)
  moreover have "bu_gid b = None" using u_release(2) by (auto simp: flush_round_def split: list.splits)
  ultimately show ?case using u_release by - (rule marks_frame [of s], auto simp: bus_ok_def in_pass_def quiet_marks(10))
next
  case (u_clear g s c retired b)
  have "distinct (keys (bu_handlers (us_bus s)))" using u_clear.prems by (simp add: bus_ok_def registry_ok_def lists_ok_def)
  from run_clear_cleared [OF this u_clear(2)] u_clear.prems show ?case
    by - (rule marks_quiet [of s], auto simp: bus_ok_def lists_cleared_def same_marks_def same_queue_def)
next
  case (u_await s g i "is")
  then show ?case by (simp add: marks_await bus_ok_def)
next
  case (u_subscribe g s options r b u)
  then show ?case using quiet_queue(9) [OF u_subscribe(2)]
    by - (rule marks_quiet [of s], auto simp: bus_ok_def quiet_marks(11) same_queue_def)
next
  case (u_register s g u r)
  then show ?case using quiet_queue(6) [of "us_bus s" u r]
    by - (rule marks_quiet [of s], auto simp: bus_ok_def quiet_marks same_queue_def)
next
  case (u_unsubscribe g s u i)
  then show ?case using quiet_queue(7) [of "us_bus s" u i]
    by - (rule marks_quiet [of s], auto simp: bus_ok_def quiet_marks same_queue_def)
next
  case (u_observe s g e depth)
  then show ?case using quiet_queue(1) [of "us_bus s" depth]
    by - (rule marks_quiet [of s], auto simp: bus_ok_def quiet_marks same_queue_def)
next
  case (u_reset_stats s)
  then show ?case using quiet_queue(5) [of "us_bus s"]
    by - (rule marks_quiet [of s], auto simp: bus_ok_def quiet_marks same_queue_def)
next
  case (u_publish g s got b e)
  then show ?case by - (rule marks_quiet [of s], auto simp: bus_ok_def quiet_marks(8,12))
next
  case (u_enqueue s g e took depth b)
  then show ?case by - (rule marks_quiet [of s], auto simp: bus_ok_def quiet_marks(9,13))
next
  case (u_awaited s g)
  then show ?case by - (rule marks_quiet [of s], auto simp: bus_ok_def)
next
  case (u_publish_panics s g e depth)
  then show ?case by - (rule marks_quiet [of s], auto simp: bus_ok_def)
next
  case (u_wedge s g e depth)
  then show ?case by - (rule marks_quiet [of s], auto simp: bus_ok_def)
next
  case (u_unsubscribe_again g s i)
  then show ?case by (simp add: bus_ok_def)
qed (simp_all add: marks_visit marks_return marks_snapshot)

lemma bus_ok_step: "ustep s t \<Longrightarrow> bus_ok s \<Longrightarrow> bus_ok t"
  by (simp add: bus_ok_def [of t] marks_step) (auto simp: bus_ok_def intro: queue_step registry_step)

interpretation bus_whole: invariant_system bus_start ustep bus_ok
  by unfold_locales (auto intro: bus_ok_start bus_ok_step)

section \<open>Handlers are visited in priority order\<close>

lemma sort_search_spec:
  assumes "\<And>a b. i \<le> a \<Longrightarrow> a \<le> b \<Longrightarrow> b < j \<Longrightarrow> f a \<Longrightarrow> f b" and "i \<le> j"
  shows "sort_search f i j \<le> j \<and> (\<forall>m. i \<le> m \<longrightarrow> m < sort_search f i j \<longrightarrow> \<not> f m) \<and> (\<forall>m. sort_search f i j \<le> m \<longrightarrow> m < j \<longrightarrow> f m)"
  using assms
proof (induction f i j rule: sort_search.induct)
  case (1 f i j)
  let ?h = "(i + j) div 2"
  show ?case
  proof (cases "i < j")
    case True
    then have h: "i \<le> ?h" "?h < j" by auto
    show ?thesis
    proof (cases "f ?h")
      case True
      have "sort_search f i ?h \<le> ?h \<and> (\<forall>m. i \<le> m \<longrightarrow> m < sort_search f i ?h \<longrightarrow> \<not> f m) \<and> (\<forall>m. sort_search f i ?h \<le> m \<longrightarrow> m < ?h \<longrightarrow> f m)"
        using 1(1) [OF \<open>i < j\<close> refl True] 1(3) h by (meson less_le_trans less_imp_le)
      moreover have "f m" if "?h \<le> m" "m < j" for m using 1(3) [OF h(1) that True] .
      ultimately show ?thesis using \<open>i < j\<close> True h
        by (simp add: sort_search.simps [of f i j] Let_def) (meson le_trans less_imp_le not_le)
    next
      case False
      have "sort_search f (?h + 1) j \<le> j \<and> (\<forall>m. ?h + 1 \<le> m \<longrightarrow> m < sort_search f (?h + 1) j \<longrightarrow> \<not> f m)
          \<and> (\<forall>m. sort_search f (?h + 1) j \<le> m \<longrightarrow> m < j \<longrightarrow> f m)"
      proof (rule 1(2) [OF \<open>i < j\<close> refl False])
        fix a b assume "?h + 1 \<le> a" "a \<le> b" "b < j" "f a"
        then show "f b" using 1(3) [of a b] h(1) by linarith
      qed (use h in simp)
      moreover have "\<not> f m" if "i \<le> m" "m \<le> ?h" for m using 1(3) [OF that h(2)] False by blast
      ultimately show ?thesis using \<open>i < j\<close> False h
        by (simp add: sort_search.simps [of f i j] Let_def) (meson Suc_leI not_le)
    qed
  next
    case False
    with 1(4) show ?thesis by (auto simp: sort_search.simps [of f])
  qed
qed

definition in_order :: "registered list \<Rightarrow> bool" where
  "in_order = sorted_wrt (\<lambda>a b. rg_priority b \<le> rg_priority a)"

lemma insert_sorted_stable:
  assumes "in_order l"
  shows "insert_sorted l r = filter (\<lambda>h. rg_priority r \<le> rg_priority h) l @ r # filter (\<lambda>h. rg_priority h < rg_priority r) l"
proof -
  let ?f = "\<lambda>i. rg_priority (l ! i) < rg_priority r"
  define k where "k = sort_search ?f 0 (length l)"
  have mono: "rg_priority (l ! b) \<le> rg_priority (l ! a)" if "a \<le> b" "b < length l" for a b
    using assms that by (cases "a = b") (auto simp: in_order_def sorted_wrt_iff_nth_less)
  have "k \<le> length l \<and> (\<forall>m. 0 \<le> m \<longrightarrow> m < k \<longrightarrow> \<not> ?f m) \<and> (\<forall>m. k \<le> m \<longrightarrow> m < length l \<longrightarrow> ?f m)"
    unfolding k_def
  proof (rule sort_search_spec)
    fix a b assume "a \<le> b" "b < length l" "?f a"
    then show "?f b" using mono [of a b] by simp
  qed simp
  then have k: "k \<le> length l" "\<And>m. m < k \<Longrightarrow> rg_priority r \<le> rg_priority (l ! m)" "\<And>m. k \<le> m \<Longrightarrow> m < length l \<Longrightarrow> ?f m"
    by (auto simp: not_less)
  have tk: "\<forall>h \<in> set (take k l). rg_priority r \<le> rg_priority h" using k(1,2) by (auto simp: in_set_conv_nth)
  have dk: "\<forall>h \<in> set (drop k l). rg_priority h < rg_priority r" using k(1,3) by (auto simp: in_set_conv_nth)
  have "filter (\<lambda>h. rg_priority r \<le> rg_priority h) (take k l) = take k l" "filter (\<lambda>h. rg_priority h < rg_priority r) (drop k l) = drop k l"
    by (rule filter_True; use tk dk in fast)+
  moreover have "filter (\<lambda>h. rg_priority r \<le> rg_priority h) (drop k l) = []" "filter (\<lambda>h. rg_priority h < rg_priority r) (take k l) = []"
    unfolding filter_empty_conv using tk dk by (meson not_le)+
  moreover have "filter P l = filter P (take k l) @ filter P (drop k l)" for P by (metis append_take_drop_id filter_append)
  ultimately show ?thesis by (simp add: insert_sorted_def Let_def k_def [symmetric])
qed

lemma in_order_simps [simp]: "in_order []" "in_order l \<Longrightarrow> in_order (filter P l)"
  by (simp_all add: in_order_def sorted_wrt_filter)

lemma in_order_tail: "in_order (h # l) \<Longrightarrow> in_order l"
  by (simp add: in_order_def)

lemma in_order_insert: "in_order l \<Longrightarrow> in_order (insert_sorted l r)"
proof -
  assume l: "in_order l"
  have "sorted_wrt (\<lambda>a b. rg_priority b \<le> rg_priority a) (filter P l)" for P using l by (simp add: in_order_def sorted_wrt_filter)
  then show ?thesis unfolding in_order_def insert_sorted_stable [OF l] by (auto simp: sorted_wrt_append)
qed

fun pass_handlers :: "dispatch_phase option \<Rightarrow> registered list" where
  "pass_handlers (Some (DCount e hs)) = hs"
| "pass_handlers (Some (DPass e hs)) = hs"
| "pass_handlers (Some (DCalling e h hs)) = h # hs"
| "pass_handlers x = []"

lemma pass_ids_handlers: "pass_ids x = map rg_id (pass_handlers x)"
  by (induction x rule: pass_ids.induct) simp_all

definition order_ok :: "usys \<Rightarrow> bool" where
  "order_ok s \<longleftrightarrow> bus_ok s \<and> (\<forall>t. in_order (handlers_of t (us_bus s)))
     \<and> (\<forall>g. in_order (pass_handlers (us_dispatching s g)) \<and> distinct (map rg_id (pass_handlers (us_dispatching s g))))"

lemma order_start: "bus_start s \<Longrightarrow> order_ok s"
  by (simp add: order_ok_def bus_ok_start) (simp add: bus_start_def new_bus_def handlers_of_def)

lemma order_lists:
  assumes "ustep s t" and "bus_ok s" and "\<forall>u. in_order (handlers_of u (us_bus s))"
  shows "in_order (handlers_of u (us_bus t))"
  using assms
proof (induction rule: ustep.induct)
  case (u_register s g v r)
  then show ?case by (simp add: register_handler_def in_order_insert)
next
  case (u_unsubscribe g s v i)
  have "distinct (map rg_id (handlers_of v (us_bus s)))" using u_unsubscribe by (simp add: bus_ok_def registry_ok_def lists_ok_def)
  with u_unsubscribe show ?case by (simp add: unsubscribe_section_def remove_entry_filter)
next
  case (u_clear g s c retired b)
  have "distinct (keys (bu_handlers (us_bus s)))" using u_clear by (simp add: bus_ok_def registry_ok_def lists_ok_def)
  from run_clear_cleared [OF this u_clear(2)] obtain Q where "handlers_of u b = filter Q (handlers_of u (us_bus s))"
    unfolding lists_cleared_def by blast
  with u_clear show ?case by simp
next
  case (u_subscribe g s options r b v)
  then have "handlers_of u b = handlers_of u (us_bus s)" by (auto simp: new_subscription_def Let_def)
  with u_subscribe show ?case by simp
next
  case (u_take_over s g e depth)
  have "handlers_of u (store_gid g (observe_deferred_depth depth (us_bus s))) = handlers_of u (us_bus s)"
    by (simp add: store_gid_def observe_deferred_depth_def Let_def)
  with u_take_over show ?case by simp
next
  case (u_publish g s got b e)
  then show ?case using quiet_registry(9) [OF u_publish(2)] by (simp add: same_registry_def)
next
  case (u_took s g e)
  then show ?case using quiet_registry(2) [of "us_bus s" g] by (simp add: same_registry_def)
next
  case (u_enqueue s g e took depth b)
  then show ?case using quiet_registry(10) [OF u_enqueue(2)] by (simp add: same_registry_def)
next
  case (u_observe s g e depth)
  then show ?case using quiet_registry(1) [of "us_bus s" depth] by (simp add: same_registry_def)
next
  case (u_snapshot s g e v key hs b)
  then show ?case using quiet_registry(8) [OF u_snapshot(3)] by (simp add: same_registry_def)
next
  case (u_count s g e hs)
  then show ?case using quiet_registry(3) [of "us_bus s" "ev_type e"] by (simp add: same_registry_def)
next
  case (u_visit s g e h hs call b)
  then show ?case using quiet_registry(7) [OF u_visit(2)] by (simp add: same_registry_def)
next
  case (u_return s g e h hs us p)
  then show ?case using quiet_registry(5) [of "us_bus s" h us p] by (simp add: same_registry_def)
next
  case (u_end s g e)
  then show ?case using quiet_registry(4) [of "us_bus s"] by (simp add: same_registry_def)
next
  case (u_next s g p e b)
  then show ?case using quiet_registry(11) [OF u_next(2)] by (simp add: same_registry_def)
next
  case (u_release s g b)
  then show ?case using quiet_registry(11) [OF u_release(2)] by (simp add: same_registry_def)
next
  case (u_reset_stats s)
  then show ?case using quiet_registry(6) [of "us_bus s"] by (simp add: same_registry_def)
qed simp_all

lemma order_passes:
  assumes "ustep s t" and "order_ok s"
  shows "in_order (pass_handlers (us_dispatching t g)) \<and> distinct (map rg_id (pass_handlers (us_dispatching t g)))"
proof -
  have old: "in_order (pass_handlers (us_dispatching s h)) \<and> distinct (map rg_id (pass_handlers (us_dispatching s h)))"
    "in_order (handlers_of u (us_bus s))" "distinct (map rg_id (handlers_of u (us_bus s)))" for h u
    using assms(2) by (auto simp: order_ok_def bus_ok_def registry_ok_def lists_ok_def)
  show ?thesis using assms(1)
  proof cases
    case (u_snapshot h e u key hs b)
    then have "hs = handlers_of u (us_bus s)" by (simp add: snapshot_handlers_def)
    with u_snapshot old(1) [of g] old(2,3) [of u] show ?thesis by simp
  next
    case (u_count h e hs)
    with old(1) [of h] old(1) [of g] show ?thesis by simp
  next
    case (u_visit h e k hs call b)
    with old(1) [of h] old(1) [of g] show ?thesis by (auto dest: in_order_tail)
  next
    case (u_return h e k hs us panicked)
    with old(1) [of h] old(1) [of g] show ?thesis by (auto dest: in_order_tail)
  qed (use old(1) [of g] in \<open>auto split: if_splits\<close>)
qed

lemma order_step: "ustep s t \<Longrightarrow> order_ok s \<Longrightarrow> order_ok t"
  using order_lists order_passes bus_ok_step unfolding order_ok_def by meson

interpretation bus_order: invariant_system bus_start ustep order_ok
  by unfold_locales (auto intro: order_start order_step)

section \<open>The queue is drained\<close>

text \<open>What a dispatching goroutine leaves alone on its way to the head of the flush loop.\<close>

definition flushing :: "nat \<Rightarrow> usys \<Rightarrow> usys \<Rightarrow> bool" where
  "flushing g s t \<longleftrightarrow> ustep\<^sup>*\<^sup>* s t \<and> us_dispatching t g = Some DFlush \<and> us_ops t = us_ops s \<and> us_sent t = us_sent s
     \<and> bu_deferred (us_bus t) = bu_deferred (us_bus s)"

lemma flushing_step:
  assumes "ustep s m" and "us_ops m = us_ops s" "us_sent m = us_sent s" "bu_deferred (us_bus m) = bu_deferred (us_bus s)" and "\<exists>t. flushing g m t"
  shows "\<exists>t. flushing g s t"
  using assms by (auto simp: flushing_def intro: converse_rtranclp_into_rtranclp)

lemma pass_ends: "us_dispatching s g = Some (DPass e hs) \<Longrightarrow> us_ops s g = None \<Longrightarrow> \<exists>t. flushing g s t"
proof (induction hs arbitrary: s)
  case Nil
  have "bu_deferred (end_pass (us_bus s)) = bu_deferred (us_bus s)" by (simp add: end_pass_def)
  with u_end [OF Nil(1)] show ?case by (auto simp: flushing_def intro!: exI r_into_rtranclp)
next
  case (Cons h hs)
  obtain call b where v: "visit_handler h (ev_key e) (us_bus s) = (call, b)" by fastforce
  have q: "bu_deferred b = bu_deferred (us_bus s)" using quiet_queue(10) [OF v] by (simp add: same_queue_def)
  note step = u_visit [OF Cons(2) v]
  show ?case
  proof (cases call)
    case False
    with step q Cons(1,3) show ?thesis by (intro flushing_step [OF step]) simp_all
  next
    case True
    let ?m = "s\<lparr>us_bus := b, us_dispatching := (us_dispatching s)(g \<mapsto> DCalling e h hs)\<rparr>"
    let ?n = "?m\<lparr>us_bus := handler_returned h 0 False b, us_dispatching := (us_dispatching ?m)(g \<mapsto> DPass e hs)\<rparr>"
    have ret: "ustep ?m ?n" using u_return [of ?m g e h hs 0 False] Cons(3) by simp
    have "bu_deferred (handler_returned h 0 False b) = bu_deferred b" using quiet_queue(4) [of b h 0 False] by (simp add: same_queue_def)
    moreover have "\<exists>t. flushing g ?n t" by (rule Cons(1)) (simp_all add: Cons(3))
    ultimately have "\<exists>t. flushing g ?m t" by (intro flushing_step [OF ret]) simp_all
    with step True q show ?thesis by (intro flushing_step [OF step]) simp_all
  qed
qed

lemma dispatch_flushes: "us_dispatching s g = Some ph \<Longrightarrow> us_ops s g = None \<Longrightarrow> \<exists>t. flushing g s t"
proof (cases ph)
  case (DPass e hs)
  assume "us_dispatching s g = Some ph" "us_ops s g = None"
  with DPass show ?thesis by (simp add: pass_ends)
next
  case (DCalling e h hs)
  assume s: "us_dispatching s g = Some ph" "us_ops s g = None"
  from u_return [OF s(1) [unfolded DCalling] s(2), of 0 False]
  show ?thesis
  proof (rule flushing_step)
    show "bu_deferred (us_bus (s\<lparr>us_bus := handler_returned h 0 False (us_bus s), us_dispatching := (us_dispatching s)(g \<mapsto> DPass e hs)\<rparr>)) = bu_deferred (us_bus s)"
      using quiet_queue(4) [of "us_bus s" h 0 False] by (simp add: same_queue_def)
  qed (simp_all add: pass_ends s(2))
next
  case (DCount e hs)
  assume s: "us_dispatching s g = Some ph" "us_ops s g = None"
  show ?thesis by (rule flushing_step [OF u_count [OF s(1) [unfolded DCount]]]) (simp_all add: pass_ends s(2) count_published_def)
next
  case DFlush
  assume "us_dispatching s g = Some ph" "us_ops s g = None"
  with DFlush show ?thesis by (auto simp: flushing_def intro: exI [of _ s])
next
  case (DIdentity e)
  assume s: "us_dispatching s g = Some ph" "us_ops s g = None"
  show ?thesis
  proof (cases "event_identity e")
    case None
    from u_no_identity [OF s(1) [unfolded DIdentity] None] show ?thesis by (auto simp: flushing_def intro!: exI r_into_rtranclp)
  next
    case (Some id)
    obtain u key where id: "event_identity e = Some (u, key)" using Some by (cases id) auto
    obtain hs b where snap: "snapshot_handlers u (us_bus s) = (hs, b)" by fastforce
    let ?m = "s\<lparr>us_bus := b, us_dispatching := (us_dispatching s)(g \<mapsto> DCount e hs)\<rparr>"
    have "ustep ?m (?m\<lparr>us_bus := count_published (ev_type e) b, us_dispatching := (us_dispatching ?m)(g \<mapsto> DPass e hs)\<rparr>)"
      using u_count [of ?m g e hs] by simp
    then have "\<exists>t. flushing g ?m t" by (rule flushing_step) (simp_all add: pass_ends s(2) count_published_def)
    moreover have "bu_deferred b = bu_deferred (us_bus s)" using quiet_queue(11) [OF snap] by (simp add: same_queue_def)
    ultimately show ?thesis by (intro flushing_step [OF u_snapshot [OF s(1) [unfolded DIdentity] id snap]]) simp_all
  qed
qed

lemma flush_drains:
  assumes "us_dispatching s g = Some DFlush" and "us_ops s g = None"
  shows "\<exists>t. ustep\<^sup>*\<^sup>* s t \<and> bu_dispatch (us_bus t) = None \<and> bu_deferred (us_bus t) = [] \<and> us_sent t = us_sent s @ bu_deferred (us_bus s)"
  using assms
proof (induction "bu_deferred (us_bus s)" arbitrary: s)
  case Nil
  then have "flush_round (us_bus s) = (None, (us_bus s)\<lparr>bu_gid := None, bu_dispatch := None\<rparr>)" by (simp add: flush_round_def split: list.split)
  from u_release [OF Nil(2) this] Nil(1) [symmetric] show ?case by (auto intro!: exI r_into_rtranclp)
next
  case (Cons x q)
  obtain p e where x: "x = (p, e)" by (cases x)
  have f: "flush_round (us_bus s) = (Some (p, e), (us_bus s)\<lparr>bu_deferred := q\<rparr>)" using Cons(2) [symmetric] x by (simp add: flush_round_def)
  let ?m = "s\<lparr>us_bus := (us_bus s)\<lparr>bu_deferred := q\<rparr>, us_sent := us_sent s @ [(p, e)], us_dispatching := (us_dispatching s)(g \<mapsto> DIdentity e)\<rparr>"
  have step: "ustep s ?m" by (rule u_next [OF Cons(3) f])
  obtain n where n: "flushing g ?m n" using dispatch_flushes [of ?m g "DIdentity e"] Cons(4) by auto
  then obtain t where t: "ustep\<^sup>*\<^sup>* n t" "bu_dispatch (us_bus t) = None" "bu_deferred (us_bus t) = []" "us_sent t = us_sent n @ bu_deferred (us_bus n)"
    using Cons(1) [of n] Cons(4) by (auto simp: flushing_def)
  have "ustep\<^sup>*\<^sup>* s t" using step n t(1) unfolding flushing_def by (meson converse_rtranclp_into_rtranclp rtranclp_trans)
  moreover have "us_sent t = us_sent s @ bu_deferred (us_bus s)" using t(4) n Cons(2) [symmetric] x by (simp add: flushing_def)
  ultimately show ?case using t(2,3) by blast
qed

section \<open>Two short runs\<close>

definition bus_demo_event :: event where
  "bus_demo_event = \<lparr>ev_type = ''value'', ev_key = '''', ev_type_panics = False, ev_key_panics = False, ev_payload = 1\<rparr>"

definition bus_demo_entry :: registered where
  "bus_demo_entry = \<lparr>rg_id = 1, rg_priority = 0, rg_key = '''', rg_name = '''', rg_external = False\<rparr>"

text \<open>Goroutine 0 publishes and dispatches; goroutine 1 publishes meanwhile and leaves its event in the queue.\<close>

lemma bus_demo_queue:
  obtains s where "reach bus_start ustep s" "us_issued s = [(0, bus_demo_event), (1, bus_demo_event)]" "us_sent s = [(0, bus_demo_event)]"
    "bu_deferred (us_bus s) = [(1, bus_demo_event)]" "us_dispatching s 0 = Some (DIdentity bus_demo_event)" "us_ops s 0 = None"
    "us_ops s 1 = Some (GObserve bus_demo_event False 1)"
proof -
  let ?e = bus_demo_event
  let ?a = "\<lparr>us_bus = new_bus, us_dispatching = Map.empty, us_ops = Map.empty, us_closures = {}, us_issued = [], us_sent = [],
     us_retired = {}, us_gone = {}\<rparr>"
  let ?b = "?a\<lparr>us_bus := new_bus\<lparr>bu_dispatch := Some 0\<rparr>, us_ops := [0 \<mapsto> GTook ?e], us_issued := [(0, ?e)]\<rparr>"
  let ?c = "?b\<lparr>us_bus := store_gid 0 (us_bus ?b), us_ops := (us_ops ?b)(0 := None), us_sent := [(0, ?e)], us_dispatching := [0 \<mapsto> DIdentity ?e]\<rparr>"
  let ?d = "?c\<lparr>us_ops := (us_ops ?c)(1 \<mapsto> GEnqueue ?e), us_issued := [(0, ?e), (1, ?e)]\<rparr>"
  let ?f = "?d\<lparr>us_bus := (us_bus ?d)\<lparr>bu_deferred := [(1, ?e)]\<rparr>, us_ops := (us_ops ?d)(1 \<mapsto> GObserve bus_demo_event False 1)\<rparr>"
  have a: "reach bus_start ustep ?a" by (rule reach.reach_start) (simp add: bus_start_def)
  have "ustep ?a ?b" using u_publish [of 0 ?a True "new_bus\<lparr>bu_dispatch := Some 0\<rparr>" ?e] by (simp add: may_act_def try_lock_def new_bus_def)
  with a have b: "reach bus_start ustep ?b" by (rule reach.reach_step)
  have "ustep ?b ?c" using u_took [of ?b 0 ?e] by simp
  with b have c: "reach bus_start ustep ?c" by (rule reach.reach_step)
  have "ustep ?c ?d" using u_publish [of 1 ?c False "us_bus ?c" ?e] by (simp add: may_act_def try_lock_def store_gid_def)
  with c have d: "reach bus_start ustep ?d" by (rule reach.reach_step)
  have "ustep ?d ?f" using u_enqueue [of ?d 1 ?e False 1 "us_bus ?f"] by (simp add: enqueue_def try_lock_def store_gid_def new_bus_def)
  with d have "reach bus_start ustep ?f" by (rule reach.reach_step)
  then show ?thesis by (rule that) simp_all
qed

text \<open>Goroutine 0 subscribes, unsubscribes and passes the barrier.\<close>

lemma bus_demo_barrier:
  obtains s where "reach bus_start ustep s" "us_gone s = {1}" "us_retired s = {1}"
proof -
  let ?a = "\<lparr>us_bus = new_bus, us_dispatching = Map.empty, us_ops = Map.empty, us_closures = {}, us_issued = [], us_sent = [],
     us_retired = {}, us_gone = {}\<rparr>"
  let ?r = bus_demo_entry
  let ?b = "?a\<lparr>us_bus := new_bus\<lparr>bu_next_id := 1\<rparr>, us_ops := [0 \<mapsto> GRegister ''value'' ?r]\<rparr>"
  let ?c = "?b\<lparr>us_bus := register_handler ''value'' ?r (us_bus ?b), us_ops := (us_ops ?b)(0 := None), us_closures := {(''value'', 1)}\<rparr>"
  let ?d = "?c\<lparr>us_bus := unsubscribe_section ''value'' 1 (us_bus ?c), us_closures := {}, us_retired := {1}, us_ops := [0 \<mapsto> GAwait [1]]\<rparr>"
  let ?f = "?d\<lparr>us_ops := (us_ops ?d)(0 \<mapsto> GAwait []), us_gone := {1}\<rparr>"
  have a: "reach bus_start ustep ?a" by (rule reach.reach_start) (simp add: bus_start_def)
  have "ustep ?a ?b" using u_subscribe [of 0 ?a default_handler_options ?r "new_bus\<lparr>bu_next_id := 1\<rparr>" "''value''"]
    by (simp add: may_act_def new_subscription_def default_handler_options_def bus_demo_entry_def new_bus_def)
  with a have b: "reach bus_start ustep ?b" by (rule reach.reach_step)
  have "ustep ?b ?c" using u_register [of ?b 0 "''value''" ?r] by (simp add: bus_demo_entry_def)
  with b have c: "reach bus_start ustep ?c" by (rule reach.reach_step)
  have "ustep ?c ?d" using u_unsubscribe [of 0 ?c "''value''" 1] by (simp add: may_act_def register_handler_def new_bus_def)
  with c have d: "reach bus_start ustep ?d" by (rule reach.reach_step)
  have "ho_inflight (bu_objects (us_bus ?d) 1) = 0"
    by (simp add: quiet_marks register_handler_def new_bus_def fresh_object_def)
  then have "ustep ?d ?f" using u_await [of ?d 0 1 "[]"] by simp
  with d have "reach bus_start ustep ?f" by (rule reach.reach_step)
  then show ?thesis by (rule that) simp_all
qed

section \<open>A panic that wedges the bus\<close>

text \<open>
  \<open>Publish\<close> asks the event for its type after it may have taken the lock over, outside the recovery of
  \<open>eventIdentity\<close>. If that panics, the lock is never given back: no event is dispatched any more.
\<close>

lemma wedged_step:
  assumes "queue_ok s" and "us_ops s g = Some GWedged" and "ustep s t"
  shows "us_sent t = us_sent s \<and> us_ops t g = Some GWedged"
proof -
  have own: "bu_dispatch (us_bus s) = Some g" using assms(1,2) by (auto simp: queue_ok_def)
  have idle: "us_dispatching s h = None" for h
  proof (rule ccontr)
    assume h: "us_dispatching s h \<noteq> None"
    then have "h = g" using assms(1) own unfolding queue_ok_def by (metis option.inject)
    with h assms(1,2) show False by (auto simp: queue_ok_def)
  qed
  have no_took: "us_ops s h \<noteq> Some (GTook e)" for h e
  proof
    assume h: "us_ops s h = Some (GTook e)"
    then have "h = g" using assms(1) own unfolding queue_ok_def by (metis holds_lock.simps(1) option.inject)
    with h assms(2) show False by simp
  qed
  from assms(3) show ?thesis by cases (use idle no_took assms(2) in \<open>auto simp: may_act_def\<close>)
qed

lemma wedged_for_ever:
  assumes "ustep\<^sup>*\<^sup>* s t" and "queue_ok s" and "us_ops s g = Some GWedged"
  shows "us_sent t = us_sent s \<and> us_ops t g = Some GWedged"
  using assms
proof (induction rule: rtranclp_induct)
  case (step t u)
  have "queue_ok t" by (rule bus_queue.run_inv [OF step(1,4)])
  with step wedged_step [of t g u] show ?case by simp
qed simp

lemma panicking_type_wedges_the_bus:
  "\<exists>s. reach bus_start ustep s \<and> bu_deferred (us_bus s) \<noteq> [] \<and> (\<forall>t. ustep\<^sup>*\<^sup>* s t \<longrightarrow> us_sent t = us_sent s)"
proof -
  let ?e = "bus_demo_event\<lparr>ev_type_panics := True\<rparr>" and ?f = "bus_demo_event\<lparr>ev_key_panics := True\<rparr>"
  let ?a = "\<lparr>us_bus = new_bus, us_dispatching = Map.empty, us_ops = Map.empty, us_closures = {}, us_issued = [], us_sent = [],
     us_retired = {}, us_gone = {}\<rparr>"
  let ?b = "?a\<lparr>us_bus := new_bus\<lparr>bu_dispatch := Some 0\<rparr>, us_ops := [0 \<mapsto> GTook ?f], us_issued := [(0, ?f)]\<rparr>"
  let ?c = "?b\<lparr>us_ops := (us_ops ?b)(1 \<mapsto> GEnqueue ?e), us_issued := [(0, ?f), (1, ?e)]\<rparr>"
  let ?d = "?c\<lparr>us_bus := store_gid 0 (us_bus ?c), us_ops := (us_ops ?c)(0 := None), us_sent := [(0, ?f)], us_dispatching := [0 \<mapsto> DIdentity ?f]\<rparr>"
  let ?g = "?d\<lparr>us_dispatching := [0 \<mapsto> DFlush]\<rparr>"
  let ?h = "?g\<lparr>us_bus := (us_bus ?g)\<lparr>bu_gid := None, bu_dispatch := None\<rparr>, us_dispatching := (us_dispatching ?g)(0 := None)\<rparr>"
  let ?i = "?h\<lparr>us_bus := (us_bus ?h)\<lparr>bu_deferred := [(1, ?e)], bu_dispatch := Some 1\<rparr>, us_ops := (us_ops ?h)(1 \<mapsto> GObserve ?e True 1)\<rparr>"
  let ?j = "?i\<lparr>us_ops := (us_ops ?i)(1 \<mapsto> GWedged)\<rparr>"
  have a: "reach bus_start ustep ?a" by (rule reach.reach_start) (simp add: bus_start_def)
  have "ustep ?a ?b" using u_publish [of 0 ?a True "new_bus\<lparr>bu_dispatch := Some 0\<rparr>" ?f] by (simp add: may_act_def try_lock_def new_bus_def)
  with a have b: "reach bus_start ustep ?b" by (rule reach.reach_step)
  have "ustep ?b ?c" using u_publish [of 1 ?b False "us_bus ?b" ?e] by (simp add: may_act_def try_lock_def)
  with b have c: "reach bus_start ustep ?c" by (rule reach.reach_step)
  have "ustep ?c ?d" using u_took [of ?c 0 ?f] by simp
  with c have d: "reach bus_start ustep ?d" by (rule reach.reach_step)
  have "ustep ?d ?g" using u_no_identity [of ?d 0 ?f] by (simp add: event_identity_def)
  with d have g: "reach bus_start ustep ?g" by (rule reach.reach_step)
  have "ustep ?g ?h" using u_release [of ?g 0 "us_bus ?h"] by (simp add: flush_round_def store_gid_def new_bus_def)
  with g have h: "reach bus_start ustep ?h" by (rule reach.reach_step)
  have "ustep ?h ?i" using u_enqueue [of ?h 1 ?e True 1 "us_bus ?i"] by (simp add: enqueue_def try_lock_def store_gid_def new_bus_def)
  with h have i: "reach bus_start ustep ?i" by (rule reach.reach_step)
  have "ustep ?i ?j" using u_wedge [of ?i 1 ?e 1] by simp
  with i have j: "reach bus_start ustep ?j" by (rule reach.reach_step)
  have "us_sent t = us_sent ?j" if "ustep\<^sup>*\<^sup>* ?j t" for t
    using wedged_for_ever [OF that bus_queue.reach_inv [OF j], of 1] by simp
  with j show ?thesis by (intro exI [of _ ?j]) simp
qed

section \<open>Guarantees\<close>

text \<open>
  C25. The bus loses, duplicates and reorders nothing. In every interleaving of publishers, handlers that
  publish themselves, subscriptions and clears at most one goroutine dispatches; the events of a goroutine are
  dispatched exactly in the order it published them, each once, with the rest of them queued or in its hands;
  and while nobody holds the dispatch lock nothing is queued.
\<close>

theorem bus_delivers_in_order:
  assumes "reach bus_start ustep s"
  shows "(us_dispatching s g \<noteq> None \<and> us_dispatching s h \<noteq> None \<longrightarrow> g = h)
    \<and> by_goroutine g (us_issued s) = by_goroutine g (us_sent s) @ by_goroutine g (bu_deferred (us_bus s)) @ pending g (us_ops s g)
    \<and> (bu_dispatch (us_bus s) = None \<longrightarrow> bu_deferred (us_bus s) = [])"
proof -
  have ok: "queue_ok s" by (rule bus_queue.reach_inv [OF assms])
  have "g = h" if "us_dispatching s g \<noteq> None" "us_dispatching s h \<noteq> None"
  proof -
    have "bu_gid (us_bus s) = Some g" "bu_gid (us_bus s) = Some h" using ok that unfolding queue_ok_def by blast+
    then show ?thesis by simp
  qed
  with ok show ?thesis by (auto simp: queue_ok_def)
qed

theorem bus_delivers_in_order_witness:
  "\<exists>s. reach bus_start ustep s \<and> by_goroutine 1 (us_sent s) = [] \<and> by_goroutine 1 (us_issued s) = by_goroutine 1 (bu_deferred (us_bus s))"
proof -
  obtain s where s: "reach bus_start ustep s" "us_sent s = [(0, bus_demo_event)]" "us_ops s 1 = Some (GObserve bus_demo_event False 1)"
    by (rule bus_demo_queue)
  show ?thesis using bus_delivers_in_order [OF s(1), of 1] s by (intro exI [of _ s]) simp
qed

text \<open>
  C27. What is queued is dispatched. A dispatching goroutine whose handler, if it is inside one, returns can by
  steps of its own dispatch every queued event, in order, and give the lock back with an empty queue.
\<close>

theorem bus_drains_its_queue:
  assumes "us_dispatching s g = Some ph" and "us_ops s g = None"
  shows "\<exists>t. ustep\<^sup>*\<^sup>* s t \<and> bu_dispatch (us_bus t) = None \<and> bu_deferred (us_bus t) = [] \<and> us_sent t = us_sent s @ bu_deferred (us_bus s)"
proof -
  obtain m where m: "flushing g s m" using dispatch_flushes [OF assms] ..
  then obtain t where "ustep\<^sup>*\<^sup>* m t" "bu_dispatch (us_bus t) = None" "bu_deferred (us_bus t) = []" "us_sent t = us_sent m @ bu_deferred (us_bus m)"
    using flush_drains [of m g] assms(2) by (auto simp: flushing_def)
  with m show ?thesis by (auto simp: flushing_def intro: rtranclp_trans)
qed

theorem bus_drains_its_queue_witness:
  "\<exists>s t. reach bus_start ustep s \<and> ustep\<^sup>*\<^sup>* s t \<and> bu_dispatch (us_bus t) = None \<and> us_sent t = [(0, bus_demo_event), (1, bus_demo_event)]"
proof -
  obtain s where s: "reach bus_start ustep s" "us_sent s = [(0, bus_demo_event)]" "bu_deferred (us_bus s) = [(1, bus_demo_event)]"
    "us_dispatching s 0 = Some (DIdentity bus_demo_event)" "us_ops s 0 = None"
    by (rule bus_demo_queue)
  show ?thesis using bus_drains_its_queue [OF s(4,5)] s by auto
qed

text \<open>
  C26. Unsubscribing is a barrier. Once the first run of the closure, or a clear, made from outside the
  dispatch has got through its wait, the handler is in no list, in no pass under way, and no goroutine is
  inside it, then and ever after. Already from the locked section of that run on, and also of a run of the
  closure from inside the dispatch, no step begins a call of it: a call of it after the step was under way
  before. (A run from inside the dispatch does not wait, and after it a further call of the closure returns at
  once: neither tells that the handler has ended.)
\<close>

theorem unsubscribe_is_a_barrier:
  assumes "reach bus_start ustep s"
  shows "(i \<in> us_gone s \<longrightarrow> \<not> listed (us_bus s) i u \<and> i \<notin> rg_id ` set (pass_handlers (us_dispatching s g)))
    \<and> (i \<in> us_retired s \<and> ustep s t \<and> us_dispatching t g = Some (DCalling e h hs) \<and> rg_id h = i \<longrightarrow>
         us_dispatching s g = Some (DCalling e h hs))"
proof (intro conjI impI)
  have ok: "bus_ok s" by (rule bus_whole.reach_inv [OF assms])
  assume gone: "i \<in> us_gone s"
  with ok show "\<not> listed (us_bus s) i u" unfolding bus_ok_def registry_ok_def by blast
  show "i \<notin> rg_id ` set (pass_handlers (us_dispatching s g))"
  proof (cases "us_dispatching s g")
    case (Some ph)
    then have "bu_gid (us_bus s) = Some g" using ok by (auto simp: bus_ok_def intro: dispatcher)
    then have "count_list (pass_ids (us_dispatching s g)) i = 0" using ok gone by (auto simp: bus_ok_def marks_ok_def in_pass_def)
    then show ?thesis by (simp add: count_list_0_iff pass_ids_handlers)
  qed simp
next
  assume a: "i \<in> us_retired s \<and> ustep s t \<and> us_dispatching t g = Some (DCalling e h hs) \<and> rg_id h = i"
  have "registry_ok s" using bus_whole.reach_inv [OF assms] by (simp add: bus_ok_def)
  with a have dead: "ho_dead (bu_objects (us_bus s) (rg_id h))" by (auto simp: registry_ok_def)
  from a have "ustep s t" by simp
  then show "us_dispatching s g = Some (DCalling e h hs)"
    using a dead by cases (auto simp: visit_handler_def Let_def split: if_splits)
qed

theorem unsubscribe_is_a_barrier_witness:
  "\<exists>s. reach bus_start ustep s \<and> 1 \<in> us_gone s \<and> \<not> listed (us_bus s) 1 ''value''"
proof -
  obtain s where s: "reach bus_start ustep s" "us_gone s = {1}" by (rule bus_demo_barrier)
  show ?thesis using unsubscribe_is_a_barrier [OF s(1), of 1 "''value''"] s by (intro exI [of _ s]) simp
qed

text \<open>
  C28. Handlers are served by priority. In every reachable state each list of handlers and each pass under way is
  ordered by falling priority and has no handler twice; and the binary search puts a new handler behind all of
  its own priority and before all of a lower one.
\<close>

theorem handlers_in_priority_order:
  assumes "reach bus_start ustep s"
  shows "in_order (handlers_of u (us_bus s)) \<and> distinct (map rg_id (handlers_of u (us_bus s)))
    \<and> in_order (pass_handlers (us_dispatching s g)) \<and> distinct (map rg_id (pass_handlers (us_dispatching s g)))
    \<and> handlers_of u (register_handler u r (us_bus s)) =
        filter (\<lambda>h. rg_priority r \<le> rg_priority h) (handlers_of u (us_bus s)) @ r
        # filter (\<lambda>h. rg_priority h < rg_priority r) (handlers_of u (us_bus s))"
proof -
  have ok: "order_ok s" by (rule bus_order.reach_inv [OF assms])
  then have "in_order (handlers_of u (us_bus s))" "distinct (map rg_id (handlers_of u (us_bus s)))"
    by (simp_all add: order_ok_def bus_ok_def registry_ok_def lists_ok_def)
  with ok show ?thesis by (auto simp: order_ok_def register_handler_def insert_sorted_stable)
qed

theorem handlers_in_priority_order_witness:
  "\<exists>s. reach bus_start ustep s \<and> in_order (pass_handlers (us_dispatching s 0)) \<and> us_dispatching s 0 = Some (DIdentity bus_demo_event)"
proof -
  obtain s where s: "reach bus_start ustep s" "us_dispatching s 0 = Some (DIdentity bus_demo_event)" by (rule bus_demo_queue)
  then show ?thesis using handlers_in_priority_order [OF s(1), of "''value''" 0] by blast
qed

end
