(* ===== verification/Interface_Clients.thy ===== *)
theory Interface_Clients
  imports Central_Machine
begin

text \<open>
  The lifecycle of an interface client and the registry of a central's clients: \<open>internal/client/state_machine.go\<close>,
  the callback freshness of \<open>internal/client/interface_client.go\<close>, and
  \<open>internal/central/coordinators/client.go\<close>.

  \<^item> A section under the lock is one definition; what is told outside it (listeners, the bus) is a list of
    notices in the order of the calls. \<open>TransitionPath\<close> locks for each step of its own: what other goroutines
    do to the machine between two steps is an argument of the walk.
  \<^item> The answers of the network probe, of the client factory and of the context are arguments.
\<close>

section \<open>The state machine of a client\<close>

datatype client_state = ClientCreated | ClientInitializing | ClientInitialized | ClientConnecting | ClientConnected
  | ClientDisconnected | ClientReconnecting | ClientStopping | ClientStopped | ClientFailed

fun valid_transitions :: "client_state \<Rightarrow> client_state list" where
  "valid_transitions ClientCreated = [ClientInitializing, ClientStopping]"
| "valid_transitions ClientInitializing = [ClientInitialized, ClientFailed, ClientStopping]"
| "valid_transitions ClientInitialized = [ClientConnecting, ClientDisconnected, ClientStopping]"
| "valid_transitions ClientConnecting = [ClientConnected, ClientFailed, ClientStopping]"
| "valid_transitions ClientConnected = [ClientDisconnected, ClientReconnecting, ClientStopping]"
| "valid_transitions ClientDisconnected = [ClientReconnecting, ClientConnecting, ClientStopping, ClientDisconnected]"
| "valid_transitions ClientReconnecting = [ClientConnecting, ClientConnected, ClientDisconnected, ClientFailed, ClientStopping]"
| "valid_transitions ClientStopping = [ClientStopped]"
| "valid_transitions ClientStopped = []"
| "valid_transitions ClientFailed = [ClientInitializing, ClientConnecting, ClientReconnecting, ClientDisconnected, ClientStopping]"

record client_machine =
  sm_state :: client_state
  sm_failure_reason :: failure_reason
  sm_failure_message :: string
  sm_listeners :: "nat list"
  sm_publisher :: bool

datatype client_notice =
    ListenerCalled nat client_state client_state
  | ClientStateChanged client_state client_state string failure_reason

definition new_client_machine :: client_machine where
  "new_client_machine = \<lparr>sm_state = ClientCreated, sm_failure_reason = ReasonNone, sm_failure_message = '''',
     sm_listeners = [], sm_publisher = False\<rparr>"

definition is_available :: "client_machine \<Rightarrow> bool" where
  "is_available m \<longleftrightarrow> sm_state m = ClientConnected \<or> sm_state m = ClientReconnecting"

definition is_connected :: "client_machine \<Rightarrow> bool" where
  "is_connected m \<longleftrightarrow> sm_state m = ClientConnected"

definition is_failed :: "client_machine \<Rightarrow> bool" where
  "is_failed m \<longleftrightarrow> sm_state m = ClientFailed"

definition is_stopped :: "client_machine \<Rightarrow> bool" where
  "is_stopped m \<longleftrightarrow> sm_state m = ClientStopped"

definition can_reconnect :: "client_machine \<Rightarrow> bool" where
  "can_reconnect m \<longleftrightarrow> sm_state m = ClientDisconnected \<or> sm_state m = ClientFailed"

definition can_transit :: "client_state \<Rightarrow> client_state \<Rightarrow> bool" where
  "can_transit from to \<longleftrightarrow> to \<in> set (valid_transitions from)"

definition can_transition_client :: "client_state \<Rightarrow> client_machine \<Rightarrow> bool" where
  "can_transition_client target m = can_transit (sm_state m) target"

definition listener_calls :: "client_machine \<Rightarrow> client_state \<Rightarrow> client_state \<Rightarrow> client_notice list" where
  "listener_calls m from to = map (\<lambda>l. ListenerCalled l from to) (sm_listeners m)"

definition publication :: "bool \<Rightarrow> client_state \<Rightarrow> client_state \<Rightarrow> string \<Rightarrow> failure_reason \<Rightarrow> client_notice list" where
  "publication wired from to reason why = (if wired then [ClientStateChanged from to reason why] else [])"

text \<open>\<open>Inl\<close> is the invalid transition with its two states.\<close>

definition transition_client :: "client_state \<Rightarrow> string \<Rightarrow> bool \<Rightarrow> failure_reason \<Rightarrow> bool \<Rightarrow> client_machine
    \<Rightarrow> (client_state \<times> client_state + unit) \<times> client_notice list \<times> client_machine" where
  "transition_client target reason force why publish m =
     (let from = sm_state m in
      if from = target then (Inr (), [], m)
      else if \<not> force \<and> \<not> can_transit from target then (Inl (from, target), [], m)
      else let m1 = m\<lparr>sm_state := target\<rparr>;
               m2 = (if target = ClientFailed
                     then m1\<lparr>sm_failure_message := reason, sm_failure_reason := (if why \<noteq> ReasonNone then why else ReasonUnknown)\<rparr>
                     else m1)
        in (Inr (), listener_calls m from target @ publication (publish \<and> sm_publisher m) from target reason why, m2))"

definition transition_client_to :: "client_state \<Rightarrow> string \<Rightarrow> bool \<Rightarrow> failure_reason \<Rightarrow> client_machine
    \<Rightarrow> (client_state \<times> client_state + unit) \<times> client_notice list \<times> client_machine" where
  "transition_client_to target reason force why m = transition_client target reason force why True m"

text \<open>
  The steps of \<open>TransitionPath\<close>, each with what others did to the machine before it: the targets the table
  rejected with their error, the notices of the walk, the machine.
\<close>

fun path_steps :: "string \<Rightarrow> failure_reason \<Rightarrow> (client_state \<times> (client_machine \<Rightarrow> client_machine)) list \<Rightarrow> client_machine
    \<Rightarrow> (client_state \<times> client_state \<times> client_state) list \<times> client_notice list \<times> client_machine" where
  "path_steps reason why [] m = ([], [], m)"
| "path_steps reason why ((target, others) # steps) m =
     (case transition_client target reason False why False (others m) of
        (res, notices, m') \<Rightarrow> (case path_steps reason why steps m' of
          (skipped, later, m'') \<Rightarrow> ((case res of Inl (f, t) \<Rightarrow> (target, f, t) # skipped | Inr u \<Rightarrow> skipped), notices @ later, m'')))"

definition transition_path :: "string \<Rightarrow> failure_reason \<Rightarrow> (client_state \<times> (client_machine \<Rightarrow> client_machine)) list
    \<Rightarrow> (client_machine \<Rightarrow> client_machine) \<Rightarrow> client_machine
    \<Rightarrow> client_state \<times> (client_state \<times> client_state \<times> client_state) list \<times> client_notice list \<times> client_machine" where
  "transition_path reason why steps others m =
     (case path_steps reason why steps m of
        (skipped, notices, m') \<Rightarrow>
          (let m'' = others m'
           in (sm_state m'', skipped,
               notices @ publication (sm_state m'' \<noteq> sm_state m \<and> sm_publisher m'') (sm_state m) (sm_state m'') reason why, m'')))"

definition reset_client :: "client_machine \<Rightarrow> client_notice list \<times> client_machine" where
  "reset_client m =
     (let from = sm_state m; m' = m\<lparr>sm_state := ClientCreated, sm_failure_reason := ReasonNone, sm_failure_message := ''''\<rparr>
      in (if from \<noteq> ClientCreated
          then listener_calls m from ClientCreated @ publication (sm_publisher m) from ClientCreated ''reset'' ReasonNone else [], m'))"

definition add_client_listener :: "nat option \<Rightarrow> client_machine \<Rightarrow> client_machine" where
  "add_client_listener fn m = (case fn of None \<Rightarrow> m | Some l \<Rightarrow> m\<lparr>sm_listeners := sm_listeners m @ [l]\<rparr>)"

definition set_state_changed_publisher :: "bool \<Rightarrow> client_machine \<Rightarrow> client_machine" where
  "set_state_changed_publisher p m = m\<lparr>sm_publisher := p\<rparr>"

section \<open>Clients and their registry\<close>

record interface_client =
  ic_machine :: client_machine
  ic_ping_pong :: bool
  ic_last_callback :: "time_ns option"

definition callback_freshness :: duration where
  "callback_freshness = secs 180"

definition notify_callback :: "time_ns \<Rightarrow> interface_client \<Rightarrow> interface_client" where
  "notify_callback now c = c\<lparr>ic_last_callback := Some now\<rparr>"

definition is_callback_alive :: "time_ns \<Rightarrow> interface_client \<Rightarrow> bool" where
  "is_callback_alive now c =
     (if \<not> ic_ping_pong c then True
      else if sm_state (ic_machine c) = ClientFailed \<or> sm_state (ic_machine c) = ClientReconnecting then False
      else (case ic_last_callback c of None \<Rightarrow> True | Some at \<Rightarrow> now - at < callback_freshness))"

text \<open>The hooks are what they answer: \<open>None\<close> a nil hook, \<open>Some None\<close> success. The client is never nil.\<close>

record client_entry =
  en_id :: string
  en_interface :: string
  en_host :: string
  en_client :: interface_client
  en_start :: "string option option"
  en_stop :: "string option option"

definition entry_connected :: "client_entry \<Rightarrow> bool" where
  "entry_connected e \<longleftrightarrow> sm_state (ic_machine (en_client e)) = ClientConnected"

record client_coordinator =
  cc_items :: "(string \<times> client_entry) list"
  cc_failure_reason :: string
  cc_failure_interface :: string

definition new_client_coordinator :: client_coordinator where
  "new_client_coordinator = \<lparr>cc_items = [], cc_failure_reason = '''', cc_failure_interface = ''''\<rparr>"

definition register_client :: "client_entry \<Rightarrow> client_coordinator \<Rightarrow> bool \<times> client_coordinator" where
  "register_client e c =
     (case lookup (cc_items c) (en_id e) of Some old \<Rightarrow> (False, c)
      | None \<Rightarrow> (True, c\<lparr>cc_items := AList.update (en_id e) e (cc_items c)\<rparr>))"

definition get_client :: "string \<Rightarrow> client_coordinator \<Rightarrow> client_entry option" where
  "get_client i c = lookup (cc_items c) i"

definition remove_client :: "string \<Rightarrow> client_coordinator \<Rightarrow> bool \<times> client_coordinator" where
  "remove_client i c =
     (case lookup (cc_items c) i of None \<Rightarrow> (False, c) | Some e \<Rightarrow> (True, c\<lparr>cc_items := AList.delete i (cc_items c)\<rparr>))"

definition list_clients :: "client_coordinator \<Rightarrow> client_entry list" where
  "list_clients c = sort_key en_id (map snd (cc_items c))"

definition has_client :: "string \<Rightarrow> client_coordinator \<Rightarrow> bool" where
  "has_client i c \<longleftrightarrow> lookup (cc_items c) i \<noteq> None"

definition has_clients :: "client_coordinator \<Rightarrow> bool" where
  "has_clients c \<longleftrightarrow> cc_items c \<noteq> []"

definition client_interface_ids :: "client_coordinator \<Rightarrow> string list" where
  "client_interface_ids c = sort (keys (cc_items c))"

definition client_interfaces :: "client_coordinator \<Rightarrow> string list" where
  "client_interfaces c = sort (remdups (map (en_interface \<circ> snd) (cc_items c)))"

definition all_clients_active :: "client_coordinator \<Rightarrow> bool" where
  "all_clients_active c \<longleftrightarrow> list_clients c \<noteq> [] \<and> list_all entry_connected (list_clients c)"

definition clients_available :: "client_coordinator \<Rightarrow> bool" where
  "clients_available c = all_clients_active c"

definition any_client_active :: "client_coordinator \<Rightarrow> bool" where
  "any_client_active c \<longleftrightarrow> list_ex entry_connected (list_clients c)"

definition clients_alive :: "time_ns \<Rightarrow> client_coordinator \<Rightarrow> bool" where
  "clients_alive now c \<longleftrightarrow> list_all (\<lambda>e. is_callback_alive now (en_client e)) (list_clients c)"

text \<open>The hooks run, in order, until the context is done after one of them; the errors are joined.\<close>

fun for_each_lifecycle :: "(client_entry \<Rightarrow> string option) \<Rightarrow> (client_entry \<Rightarrow> bool) \<Rightarrow> client_entry list \<Rightarrow> client_entry list \<times> string list" where
  "for_each_lifecycle fn ctx_done [] = ([], [])"
| "for_each_lifecycle fn ctx_done (e # es) =
     (let errs = (case fn e of None \<Rightarrow> [] | Some err \<Rightarrow> [err]) in
      if ctx_done e then ([e], errs)
      else (case for_each_lifecycle fn ctx_done es of (visited, later) \<Rightarrow> (e # visited, errs @ later)))"

definition run_hook :: "string option option \<Rightarrow> string option" where
  "run_hook hook = (case hook of None \<Rightarrow> None | Some answer \<Rightarrow> answer)"

definition start_clients :: "(client_entry \<Rightarrow> bool) \<Rightarrow> client_coordinator \<Rightarrow> client_entry list \<times> string list" where
  "start_clients ctx_done c = for_each_lifecycle (run_hook \<circ> en_start) ctx_done (list_clients c)"

definition stop_clients :: "(client_entry \<Rightarrow> bool) \<Rightarrow> client_coordinator \<Rightarrow> client_entry list \<times> string list" where
  "stop_clients ctx_done c = for_each_lifecycle (run_hook \<circ> en_stop) ctx_done (list_clients c)"

definition record_last_failure :: "string \<Rightarrow> string \<Rightarrow> client_coordinator \<Rightarrow> client_coordinator" where
  "record_last_failure reason i c = c\<lparr>cc_failure_reason := reason, cc_failure_interface := i\<rparr>"

section \<open>Creating a client\<close>

datatype factory_answer = FactoryEntry client_entry | FactoryAuthFailure | FactoryError string

datatype create_error = TCPProbeFailed | RegisterFailed | FactoryFailed string | AuthFailedAfter nat | CancelledInRetry | AttemptsExhausted

definition create_client_auth_max_attempts :: nat where
  "create_client_auth_max_attempts = 5"

definition create_client_backoff_initial :: duration where
  "create_client_backoff_initial = secs 2"

definition create_client_backoff_max :: duration where
  "create_client_backoff_max = secs 60"

definition next_backoff :: "duration \<Rightarrow> duration" where
  "next_backoff backoff = (if create_client_backoff_max < backoff * 2 then create_client_backoff_max else backoff * 2)"

text \<open>\<open>WaitForTCPReady\<close>: \<open>reachable\<close> is the answer of the dialer.\<close>

definition wait_for_tcp_ready :: "int \<Rightarrow> bool \<Rightarrow> bool" where
  "wait_for_tcp_ready port reachable \<longleftrightarrow> port \<le> 0 \<or> reachable"

text \<open>
  The attempts that are left, the number of the next one and its backoff; \<open>factory\<close> and \<open>cancelled\<close> are the
  answers by attempt. Besides the result come the waits slept through and the number of factory calls.
\<close>

fun create_attempts :: "(nat \<Rightarrow> factory_answer) \<Rightarrow> (nat \<Rightarrow> bool) \<Rightarrow> nat \<Rightarrow> nat \<Rightarrow> duration \<Rightarrow> client_coordinator
    \<Rightarrow> (create_error + client_entry) \<times> duration list \<times> nat \<times> client_coordinator" where
  "create_attempts factory cancelled 0 attempt backoff c = (Inl AttemptsExhausted, [], 0, c)"
| "create_attempts factory cancelled (Suc n) attempt backoff c =
     (case factory attempt of
        FactoryEntry e \<Rightarrow> (case register_client e c of
            (ok, c') \<Rightarrow> (if ok then Inr e else Inl RegisterFailed, [], 1, c'))
      | FactoryError err \<Rightarrow> (Inl (FactoryFailed err), [], 1, c)
      | FactoryAuthFailure \<Rightarrow>
          if attempt = create_client_auth_max_attempts then (Inl (AuthFailedAfter attempt), [], 1, c)
          else if cancelled attempt then (Inl CancelledInRetry, [], 1, c)
          else (case create_attempts factory cancelled n (attempt + 1) (next_backoff backoff) c of
                (res, waits, calls, c') \<Rightarrow> (res, backoff # waits, calls + 1, c')))"

definition create_client :: "int \<Rightarrow> bool \<Rightarrow> (nat \<Rightarrow> factory_answer) \<Rightarrow> (nat \<Rightarrow> bool) \<Rightarrow> client_coordinator
    \<Rightarrow> (create_error + client_entry) \<times> duration list \<times> nat \<times> client_coordinator" where
  "create_client port reachable factory cancelled c =
     (if 0 < port \<and> \<not> reachable then (Inl TCPProbeFailed, [], 0, c)
      else create_attempts factory cancelled create_client_auth_max_attempts 1 create_client_backoff_initial c)"

section \<open>A walk is announced once\<close>

fun announced :: "client_notice \<Rightarrow> bool" where
  "announced (ClientStateChanged from to reason why) = True"
| "announced (ListenerCalled l from to) = False"

fun along_the_table :: "client_notice \<Rightarrow> bool" where
  "along_the_table (ListenerCalled l from to) = can_transit from to"
| "along_the_table (ClientStateChanged from to reason why) = True"

text \<open>A step the table rejects: another state than the one held, and no edge to it.\<close>

definition rejected :: "client_state \<times> client_state \<times> client_state \<Rightarrow> bool" where
  "rejected x = (case x of (target, from, to) \<Rightarrow> to = target \<and> from \<noteq> target \<and> \<not> can_transit from target)"

text \<open>One unforced, unpublished step: it stays or follows an edge, and tells only the listeners.\<close>

lemma silent_step:
  assumes "transition_client target reason False why False m = (res, notices, m')"
  shows "filter announced notices = [] \<and> list_all along_the_table notices
    \<and> (case res of Inl (f, t) \<Rightarrow> f = sm_state m \<and> t = target \<and> rejected (target, f, t) \<and> m' = m \<and> notices = []
       | Inr u \<Rightarrow> sm_state m' = target \<and> sm_publisher m' = sm_publisher m \<and> sm_listeners m' = sm_listeners m
           \<and> notices = (if sm_state m = target then [] else listener_calls m (sm_state m) target)
           \<and> (sm_state m = target \<or> can_transit (sm_state m) target))"
  using assms
  by (auto simp: transition_client_def Let_def listener_calls_def publication_def list_all_iff filter_empty_conv rejected_def split: if_splits)

lemma path_steps_effect:
  assumes "path_steps reason why steps m = (skipped, notices, m')"
  shows "filter announced notices = [] \<and> list_all along_the_table notices \<and> list_all rejected skipped
    \<and> set (map fst skipped) \<subseteq> set (map fst steps)"
  using assms
proof (induction steps arbitrary: m skipped notices)
  case (Cons step steps)
  obtain target others where step: "step = (target, others)" by fastforce
  obtain res n mm where t: "transition_client target reason False why False (others m) = (res, n, mm)" by (metis prod_cases3)
  obtain sk later where p: "path_steps reason why steps mm = (sk, later, m')" and s: "notices = n @ later"
    "skipped = (case res of Inl (f, t) \<Rightarrow> (target, f, t) # sk | Inr u \<Rightarrow> sk)"
    using Cons(2) t by (auto simp: step split: prod.splits)
  from Cons.IH [OF p] silent_step [OF t] show ?case by (auto simp: s step split: sum.splits)
qed simp

text \<open>
  The walk over the table alone: the state it ends in, the steps the table rejects, the edges it follows.
\<close>

fun walk_end :: "client_state \<Rightarrow> client_state list \<Rightarrow> client_state" where
  "walk_end s [] = s"
| "walk_end s (t # ts) = (if s = t \<or> can_transit s t then walk_end t ts else walk_end s ts)"

fun walk_rejects :: "client_state \<Rightarrow> client_state list \<Rightarrow> (client_state \<times> client_state \<times> client_state) list" where
  "walk_rejects s [] = []"
| "walk_rejects s (t # ts) = (if s = t \<or> can_transit s t then walk_rejects t ts else (t, s, t) # walk_rejects s ts)"

fun walk_edges :: "client_state \<Rightarrow> client_state list \<Rightarrow> (client_state \<times> client_state) list" where
  "walk_edges s [] = []"
| "walk_edges s (t # ts) =
     (if s = t then walk_edges t ts else if can_transit s t then (s, t) # walk_edges t ts else walk_edges s ts)"

definition undisturbed_steps :: "client_state list \<Rightarrow> (client_state \<times> (client_machine \<Rightarrow> client_machine)) list" where
  "undisturbed_steps targets = map (\<lambda>t. (t, \<lambda>m. m)) targets"

lemma path_steps_alone:
  assumes "path_steps reason why (undisturbed_steps targets) m = (skipped, notices, m')"
  shows "sm_state m' = walk_end (sm_state m) targets \<and> skipped = walk_rejects (sm_state m) targets
    \<and> notices = concat (map (\<lambda>(f, t). map (\<lambda>l. ListenerCalled l f t) (sm_listeners m)) (walk_edges (sm_state m) targets))
    \<and> sm_publisher m' = sm_publisher m"
  using assms unfolding undisturbed_steps_def
proof (induction targets arbitrary: m skipped notices)
  case (Cons target targets)
  obtain res n mm where t: "transition_client target reason False why False m = (res, n, mm)" by (metis prod_cases3)
  obtain sk later where p: "path_steps reason why (map (\<lambda>t. (t, \<lambda>m. m)) targets) mm = (sk, later, m')" and s: "notices = n @ later"
    "skipped = (case res of Inl (f, t) \<Rightarrow> (target, f, t) # sk | Inr u \<Rightarrow> sk)"
    using Cons(2) t by (auto split: prod.splits)
  from Cons.IH [OF p] silent_step [OF t] show ?case
    by (cases res) (auto simp: s rejected_def listener_calls_def)
qed simp

text \<open>
  C31. A walk through several states is announced once. Whatever others do to the machine between its steps,
  \<open>TransitionPath\<close> publishes exactly one event, from the first to the last state, if the two differ and a
  publisher is wired at the end; it calls listeners for edges of the table only, and skips a target only
  when the machine is in another state without an edge to it. Undisturbed, it ends in the state, skips the
  steps and tells the listeners the edges that the table gives for the targets, and the bring-up path takes a
  created client to CONNECTED and skips nothing.
\<close>

theorem client_path_is_announced_once:
  "(case transition_path reason why steps others m of (end_state, skipped, notices, m') \<Rightarrow>
      end_state = sm_state m' \<and> list_all rejected skipped \<and> list_all along_the_table notices
      \<and> filter announced notices = (if sm_publisher m' \<and> sm_state m' \<noteq> sm_state m
           then [ClientStateChanged (sm_state m) (sm_state m') reason why] else []))
   \<and> (case transition_path reason why (undisturbed_steps targets) id m of (end_state, skipped, notices, m') \<Rightarrow>
      end_state = walk_end (sm_state m) targets \<and> skipped = walk_rejects (sm_state m) targets
      \<and> filter (Not \<circ> announced) notices =
          concat (map (\<lambda>(f, t). map (\<lambda>l. ListenerCalled l f t) (sm_listeners m)) (walk_edges (sm_state m) targets)))
   \<and> walk_end ClientCreated [ClientInitializing, ClientInitialized, ClientConnecting, ClientConnected] = ClientConnected
   \<and> walk_rejects ClientCreated [ClientInitializing, ClientInitialized, ClientConnecting, ClientConnected] = []"
proof -
  obtain skipped notices m' where p: "path_steps reason why steps m = (skipped, notices, m')" by (metis prod_cases3)
  obtain sk no mm where q: "path_steps reason why (undisturbed_steps targets) m = (sk, no, mm)" by (metis prod_cases3)
  note alone = path_steps_alone [OF q]
  have "filter (Not \<circ> announced) no = no" using path_steps_effect [OF q] by (auto simp: filter_empty_conv intro: filter_True)
  then show ?thesis
    using path_steps_effect [OF p] alone
    by (auto simp: transition_path_def p q publication_def can_transit_def Let_def)
qed

section \<open>Creating a client\<close>

lemma backoff_step: "n \<le> 3 \<Longrightarrow> next_backoff (secs (2 * 2 ^ n)) = secs (2 * 2 ^ Suc n)"
proof -
  assume "n \<le> 3"
  then have "n = 0 \<or> n = 1 \<or> n = 2 \<or> n = 3" by auto
  then show ?thesis by (auto simp: next_backoff_def create_client_backoff_max_def secs_def go_second_def)
qed

definition final_answer :: "(nat \<Rightarrow> factory_answer) \<Rightarrow> (nat \<Rightarrow> bool) \<Rightarrow> nat \<Rightarrow> bool" where
  "final_answer factory cancelled k \<longleftrightarrow> factory k \<noteq> FactoryAuthFailure \<or> k = create_client_auth_max_attempts \<or> cancelled k"

definition attempt_outcome :: "(nat \<Rightarrow> factory_answer) \<Rightarrow> nat \<Rightarrow> client_coordinator \<Rightarrow> (create_error + client_entry) \<times> client_coordinator" where
  "attempt_outcome factory k c =
     (case factory k of
        FactoryEntry e \<Rightarrow> if has_client (en_id e) c then (Inl RegisterFailed, c) else (Inr e, c\<lparr>cc_items := AList.update (en_id e) e (cc_items c)\<rparr>)
      | FactoryError err \<Rightarrow> (Inl (FactoryFailed err), c)
      | FactoryAuthFailure \<Rightarrow> (Inl (if k = create_client_auth_max_attempts then AuthFailedAfter k else CancelledInRetry), c))"

lemma create_attempts_outcome:
  assumes "final_answer factory cancelled k" and "\<And>j. a < j \<Longrightarrow> j < k \<Longrightarrow> \<not> final_answer factory cancelled j"
    and "a < k" "k \<le> create_client_auth_max_attempts" "n + a = create_client_auth_max_attempts"
  shows "create_attempts factory cancelled n (Suc a) (secs (2 * 2 ^ a)) c =
     (fst (attempt_outcome factory k c), map (\<lambda>j. secs (2 * 2 ^ j)) [a..<k - 1], k - a, snd (attempt_outcome factory k c))"
  using assms
proof (induction n arbitrary: a)
  case (Suc n)
  show ?case
  proof (cases "Suc a = k")
    case True
    with Suc(2) show ?thesis
      by (auto simp: attempt_outcome_def final_answer_def register_client_def has_client_def split: factory_answer.split option.split)
  next
    case False
    then have less: "Suc a < k" using Suc.prems by simp
    then have auth: "factory (Suc a) = FactoryAuthFailure" "Suc a \<noteq> create_client_auth_max_attempts" "\<not> cancelled (Suc a)"
      using Suc(3) [of "Suc a"] by (auto simp: final_answer_def)
    have "a \<le> 3" using less Suc.prems by (simp add: create_client_auth_max_attempts_def)
    note step = backoff_step [OF this]
    have ih: "create_attempts factory cancelled n (Suc (Suc a)) (secs (2 * 2 ^ Suc a)) c =
        (fst (attempt_outcome factory k c), map (\<lambda>j. secs (2 * 2 ^ j)) [Suc a..<k - 1], k - Suc a, snd (attempt_outcome factory k c))"
      using Suc.prems less by (intro Suc.IH) auto
    have up: "[a..<k - 1] = a # [Suc a..<k - 1]" using less by (simp add: upt_conv_Cons)
    show ?thesis using less by (simp add: auth step ih up [unfolded One_nat_def] Suc_diff_Suc del: power_Suc)
  qed
qed simp

text \<open>
  C32. Creating a client retries authentication failures only. If the probe does not fail and attempt \<open>k\<close> is the
  first that is final (an answer other than an authentication failure, the fifth attempt, or a cancelled
  wait), then the factory was called \<open>k\<close> times with waits of 2, 4, 8, 16 seconds between, and the outcome is that
  of the last answer: a registered client, never in place of another, or the error. A failed probe calls
  nothing and changes nothing.
\<close>

theorem create_client_contract:
  assumes "final_answer factory cancelled k" and "\<forall>j \<in> {1..<k}. \<not> final_answer factory cancelled j"
    and "1 \<le> k" "k \<le> create_client_auth_max_attempts"
  shows "create_client port reachable factory cancelled c =
     (if wait_for_tcp_ready port reachable
      then (fst (attempt_outcome factory k c), map (\<lambda>j. secs (2 * 2 ^ j)) [0..<k - 1], k, snd (attempt_outcome factory k c))
      else (Inl TCPProbeFailed, [], 0, c))"
  using create_attempts_outcome [of factory cancelled k 0 create_client_auth_max_attempts c] assms
  by (auto simp: create_client_def wait_for_tcp_ready_def create_client_backoff_initial_def)

definition demo_client :: client_entry where
  "demo_client = \<lparr>en_id = ''HmIP-RF'', en_interface = ''HmIP-RF'', en_host = ''ccu'',
     en_client = \<lparr>ic_machine = new_client_machine, ic_ping_pong = True, ic_last_callback = None\<rparr>, en_start = None, en_stop = None\<rparr>"

theorem create_client_contract_witness:
  "create_client 2010 True (\<lambda>n. if n < 3 then FactoryAuthFailure else FactoryEntry demo_client) (\<lambda>n. False) new_client_coordinator
     = (Inr demo_client, [secs 2, secs 4], 3, \<lparr>cc_items = [(''HmIP-RF'', demo_client)], cc_failure_reason = '''', cc_failure_interface = ''''\<rparr>)"
  by (subst create_client_contract [of _ _ 3])
    (auto simp: final_answer_def create_client_auth_max_attempts_def wait_for_tcp_ready_def attempt_outcome_def has_client_def
      new_client_coordinator_def demo_client_def upt_rec)

end
