(* ===== verification/Central_Evaluation.thy ===== *)
theory Central_Evaluation
  imports Interface_Clients Recovery_Guarantees
begin

text \<open>
  The judgement on a whole central: \<open>EvaluateCentralState\<close> and \<open>Start\<close> of \<open>internal/central/central.go\<close>. It composes the
  clients (\<open>Interface_Clients\<close>), the recovery coordinator (\<open>Connection_Recovery\<close>) and the state machine of the
  central (\<open>Central_Machine\<close>).

  The evaluation takes no lock: it reads the registry four times, the machine and the coordinator, one after
  the other, reads the connection of each client once more where it lists the degraded ones, asks the machine
  for a transition and reads it again to report. \<open>observe_at\<close> makes an observation of six readings, each of the
  state at its moment; \<open>evaluate_with\<close> applies an observation to whatever the machine holds by then, with what
  others do before the last reading as an argument; \<open>evaluate_central_state\<close> is an evaluation nobody
  interferes with.
\<close>

record observation =
  ob_entries :: "client_entry list"
  ob_all_connected :: bool
  ob_any_connected :: bool
  ob_callbacks_alive :: bool
  ob_current :: central_state
  ob_in_recovery :: bool

record system_status =
  ss_central :: string
  ss_healthy :: bool
  ss_state :: central_state
  ss_degraded :: "string list"
  ss_reasons :: "(string \<times> failure_reason) list"

definition connectivity_state :: "observation \<Rightarrow> central_state" where
  "connectivity_state ob =
     (if ob_entries ob = [] then ob_current ob
      else if ob_all_connected ob \<and> ob_callbacks_alive ob then CentralRunning
      else if ob_all_connected ob \<and> \<not> ob_callbacks_alive ob then CentralDegraded
      else if ob_any_connected ob then CentralDegraded
      else CentralFailed)"

definition guarded_state :: "observation \<Rightarrow> central_state" where
  "guarded_state ob =
     (if connectivity_state ob = CentralRunning \<and> ob_in_recovery ob then CentralDegraded else connectivity_state ob)"

text \<open>
  \<open>seen\<close> are the listed entries as their connection is read in the loop that collects the degraded ones, \<open>known\<close>
  the reasons the machine had then.
\<close>

definition degraded_ids :: "client_entry list \<Rightarrow> observation \<Rightarrow> string list" where
  "degraded_ids seen ob = (if guarded_state ob = CentralDegraded then map en_id (filter (\<lambda>e. \<not> entry_connected e) seen) else [])"

definition degraded_reasons ::
  "(string \<times> failure_reason) list \<Rightarrow> client_entry list \<Rightarrow> observation \<Rightarrow> (string \<times> failure_reason) list" where
  "degraded_reasons known seen ob =
     fold (\<lambda>i m. AList.update i (case lookup known i of Some r \<Rightarrow> r | None \<Rightarrow> ReasonNetwork) m) (degraded_ids seen ob) []"

definition evaluate_with :: "time_ns \<Rightarrow> bool \<Rightarrow> string \<Rightarrow> bool \<Rightarrow> observation \<Rightarrow> client_entry list \<Rightarrow> (string \<times> failure_reason) list
    \<Rightarrow> (central \<Rightarrow> central) \<Rightarrow> central \<Rightarrow> system_status list \<times> central_event list \<times> central" where
  "evaluate_with now from_start name bus ob seen known others m =
     (let target = guarded_state ob in
      if \<not> from_start \<and> ob_current ob = target then ([], [], m)
      else let ids = degraded_ids seen ob;
               reasons = degraded_reasons known seen ob;
               opts = (if reasons \<noteq> [] then [with_degraded_interfaces (Some reasons)] else []);
               (events, m') = (if target \<noteq> ob_current ob
                 then (case transition_to now target ReasonNone opts m of (res, events, m') \<Rightarrow> (events, m')) else ([], m));
               healthy = (ob_all_connected ob \<or> ob_any_connected ob) \<and> \<not> ob_in_recovery ob
        in (if bus then [\<lparr>ss_central = name, ss_healthy = healthy, ss_state = cm_cur (others m'), ss_degraded = ids, ss_reasons = reasons\<rparr>] else [],
            events, m'))"

record unit_state =
  un_name :: string
  un_clients :: "client_coordinator option"
  un_health :: bool
  un_recovery :: "recovery option"
  un_bus :: bool
  un_machine :: central

definition recovery_active :: "recovery option \<Rightarrow> bool" where
  "recovery_active r = (case r of None \<Rightarrow> False | Some c \<Rightarrow> in_recovery c)"

definition recovering :: "unit_state \<Rightarrow> bool" where
  "recovering u = recovery_active (un_recovery u)"

definition observe_at :: "time_ns \<Rightarrow> client_coordinator \<Rightarrow> client_coordinator \<Rightarrow> client_coordinator \<Rightarrow> client_coordinator
    \<Rightarrow> central \<Rightarrow> recovery option \<Rightarrow> observation" where
  "observe_at now listed available active alive m r =
     \<lparr>ob_entries = list_clients listed, ob_all_connected = clients_available available, ob_any_connected = any_client_active active,
      ob_callbacks_alive = clients_alive now alive, ob_current = cm_cur m, ob_in_recovery = recovery_active r\<rparr>"

definition observe :: "time_ns \<Rightarrow> client_coordinator \<Rightarrow> unit_state \<Rightarrow> observation" where
  "observe now c u = observe_at now c c c c (un_machine u) (un_recovery u)"

definition evaluate_central_state :: "time_ns \<Rightarrow> bool \<Rightarrow> unit_state \<Rightarrow> system_status list \<times> central_event list \<times> unit_state" where
  "evaluate_central_state now from_start u =
     (case un_clients u of None \<Rightarrow> ([], [], u)
      | Some c \<Rightarrow> if \<not> un_health u then ([], [], u)
        else (case evaluate_with now from_start (un_name u) (un_bus u) (observe now c u) (list_clients c)
                (degraded_interfaces (un_machine u)) id (un_machine u) of
                (status, events, m) \<Rightarrow> (status, events, u\<lparr>un_machine := m\<rparr>)))"

text \<open>
  \<open>Start\<close>: \<open>scheduler\<close> is the answer of the scheduler, an error with its classified reason. The evaluation does
  nothing without a health tracker. \<open>Inl None\<close> is a rejected transition.
\<close>

definition start_unit :: "time_ns \<Rightarrow> failure_reason option \<Rightarrow> unit_state
    \<Rightarrow> (failure_reason option + unit) \<times> system_status list \<times> central_event list \<times> unit_state" where
  "start_unit now scheduler u =
     (case transition_to now CentralInitializing ReasonNone [] (un_machine u) of
        (Inl err, evs, m) \<Rightarrow> (Inl None, [], evs, u\<lparr>un_machine := m\<rparr>)
      | (Inr ok, evs, m) \<Rightarrow>
        (case scheduler of
           Some reason \<Rightarrow>
             let why = (if reason = ReasonUnknown \<or> reason = ReasonNone then ReasonInternal else reason)
             in (case transition_to now CentralFailed why [] m of (res, evs', m') \<Rightarrow> (Inl (Some reason), [], evs @ evs', u\<lparr>un_machine := m'\<rparr>))
         | None \<Rightarrow>
           (case transition_to now CentralRunning ReasonNone [] m of
              (Inl err, evs', m') \<Rightarrow> (Inl None, [], evs @ evs', u\<lparr>un_machine := m'\<rparr>)
            | (Inr ok', evs', m') \<Rightarrow>
              (case evaluate_central_state now True (u\<lparr>un_machine := m'\<rparr>) of
                 (status, evs'', u') \<Rightarrow> (Inr (), status, evs @ evs' @ evs'', u')))))"

section \<open>What an evaluation decides\<close>

text \<open>The judgement in one line, over the clients of the registry.\<close>

definition clients_of :: "client_coordinator \<Rightarrow> client_entry set" where
  "clients_of c = snd ` set (cc_items c)"

definition verdict :: "time_ns \<Rightarrow> client_coordinator \<Rightarrow> unit_state \<Rightarrow> central_state" where
  "verdict now c u =
     (if \<forall>e \<in> clients_of c. entry_connected e \<and> is_callback_alive now (en_client e) then
        if recovering u then CentralDegraded else CentralRunning
      else if \<exists>e \<in> clients_of c. entry_connected e then CentralDegraded else CentralFailed)"

definition evaluable :: "central_state \<Rightarrow> bool" where
  "evaluable s \<longleftrightarrow> s \<noteq> CentralStarting \<and> s \<noteq> CentralStopped"

lemma client_facts:
  assumes "cc_items c \<noteq> []"
  shows "list_clients c \<noteq> []" "clients_of c \<noteq> {}"
    "clients_available c \<longleftrightarrow> (\<forall>e \<in> clients_of c. entry_connected e)"
    "clients_alive now c \<longleftrightarrow> (\<forall>e \<in> clients_of c. is_callback_alive now (en_client e))"
    "any_client_active c \<longleftrightarrow> (\<exists>e \<in> clients_of c. entry_connected e)"
proof -
  have s: "set (list_clients c) = clients_of c" by (simp add: list_clients_def clients_of_def)
  show some: "clients_of c \<noteq> {}" using assms by (simp add: clients_of_def)
  then show ne: "list_clients c \<noteq> []" using s by auto
  show "clients_available c \<longleftrightarrow> (\<forall>e \<in> clients_of c. entry_connected e)"
    by (simp add: clients_available_def all_clients_active_def list_all_iff s ne)
  show "clients_alive now c \<longleftrightarrow> (\<forall>e \<in> clients_of c. is_callback_alive now (en_client e))" by (simp add: clients_alive_def list_all_iff s)
  show "any_client_active c \<longleftrightarrow> (\<exists>e \<in> clients_of c. entry_connected e)" by (simp add: any_client_active_def list_ex_iff s)
qed

lemma guarded_is_verdict:
  assumes "cc_items c \<noteq> []"
  shows "guarded_state (observe now c u) = verdict now c u"
proof -
  note facts = client_facts [OF assms]
  have "\<exists>e \<in> clients_of c. entry_connected e" if "\<forall>e \<in> clients_of c. entry_connected e" using that facts(2) by blast
  then show ?thesis
    by (auto simp: guarded_state_def connectivity_state_def observe_def observe_at_def facts(1,3,4,5) verdict_def recovering_def)
qed

lemma verdict_values: "verdict now c u = CentralRunning \<or> verdict now c u = CentralDegraded \<or> verdict now c u = CentralFailed"
  by (simp add: verdict_def)

lemma verdict_edge: "evaluable (cm_cur m) \<Longrightarrow> verdict now c u \<noteq> cm_cur m \<Longrightarrow> can_transition_locked (verdict now c u) m"
  using verdict_values [of now c u] by (cases "cm_cur m") (auto simp: evaluable_def can_transition_locked_def)

lemma transition_cur: "can_transition_locked target m \<Longrightarrow> transition_to now target why opts m = (res, evs, m') \<Longrightarrow> cm_cur m' = target"
  by (auto simp: transition_to_def Let_def push_history_def split: if_splits option.splits)

text \<open>An evaluation of a wired central with clients, outside the states it cannot leave.\<close>

definition judged :: "client_coordinator \<Rightarrow> unit_state \<Rightarrow> bool" where
  "judged c u \<longleftrightarrow> un_clients u = Some c \<and> cc_items c \<noteq> [] \<and> un_health u \<and> evaluable (cm_cur (un_machine u))"

definition status_report :: "time_ns \<Rightarrow> client_coordinator \<Rightarrow> unit_state \<Rightarrow> system_status" where
  "status_report now c u = \<lparr>ss_central = un_name u, ss_healthy = ((\<exists>e \<in> clients_of c. entry_connected e) \<and> \<not> recovering u),
     ss_state = verdict now c u,
     ss_degraded = (if verdict now c u = CentralDegraded then map en_id (filter (\<lambda>e. \<not> entry_connected e) (list_clients c)) else []),
     ss_reasons = degraded_reasons (degraded_interfaces (un_machine u)) (list_clients c) (observe now c u)\<rparr>"

lemma evaluation_outcome:
  assumes "judged c u" and "evaluate_central_state now from_start u = (status, events, u')"
  shows "cm_cur (un_machine u') = verdict now c u \<and> (\<exists>m. u' = u\<lparr>un_machine := m\<rparr>)
    \<and> (\<not> from_start \<and> cm_cur (un_machine u) = verdict now c u \<longrightarrow> status = [] \<and> events = [] \<and> u' = u)
    \<and> (from_start \<or> cm_cur (un_machine u) \<noteq> verdict now c u \<longrightarrow> status = (if un_bus u then [status_report now c u] else []))"
proof -
  let ?ob = "observe now c u" and ?m = "un_machine u" and ?v = "verdict now c u"
  have g: "guarded_state ?ob = ?v" and ev: "evaluable (cm_cur ?m)" using assms(1) by (simp_all add: judged_def guarded_is_verdict)
  have cur: "ob_current ?ob = cm_cur ?m" by (simp add: observe_def observe_at_def)
  obtain st evs m where e: "evaluate_with now from_start (un_name u) (un_bus u) ?ob (list_clients c) (degraded_interfaces ?m) id ?m = (st, evs, m)"
    by (metis prod_cases3)
  have out: "status = st" "events = evs" "u' = u\<lparr>un_machine := m\<rparr>" using assms e by (auto simp: evaluate_central_state_def judged_def)
  have ids: "degraded_ids (list_clients c) ?ob = (if ?v = CentralDegraded then map en_id (filter (\<lambda>e. \<not> entry_connected e) (list_clients c)) else [])"
    by (simp add: degraded_ids_def g)
  have healthy: "(ob_all_connected ?ob \<or> ob_any_connected ?ob) = (\<exists>e \<in> clients_of c. entry_connected e)" "ob_in_recovery ?ob = recovering u"
  proof -
    have "cc_items c \<noteq> []" using assms(1) by (simp add: judged_def)
    note facts = client_facts [OF this]
    show "(ob_all_connected ?ob \<or> ob_any_connected ?ob) = (\<exists>e \<in> clients_of c. entry_connected e)" "ob_in_recovery ?ob = recovering u"
      using facts(2) by (auto simp: observe_def observe_at_def facts(3,5) recovering_def)
  qed
  show ?thesis
  proof (cases "?v = cm_cur ?m")
    case True
    with e out show ?thesis by (auto simp: evaluate_with_def g cur ids healthy status_report_def Let_def split: if_splits)
  next
    case False
    then have edge: "can_transition_locked ?v ?m" using verdict_edge [OF ev] by simp
    let ?r = "degraded_reasons (degraded_interfaces ?m) (list_clients c) ?ob"
    obtain res evs' m' where t: "transition_to now ?v ReasonNone (if ?r \<noteq> [] then [with_degraded_interfaces (Some ?r)] else []) ?m = (res, evs', m')"
      by (metis prod_cases3)
    have "cm_cur m' = ?v" by (rule transition_cur [OF edge t])
    with e out False t show ?thesis by (auto simp: evaluate_with_def g cur ids healthy status_report_def Let_def split: if_splits)
  qed
qed

lemma verdict_machine: "verdict now c (u\<lparr>un_machine := m\<rparr>) = verdict now c u"
  by (simp add: verdict_def recovering_def)

text \<open>
  C29. The state of a central follows the connectivity of its clients. An evaluation nobody interferes with, of a
  central with clients that is neither starting nor stopped, while no recovery is in progress, ends in RUNNING
  exactly when every client is connected with a live callback, else in DEGRADED if one is connected, else in
  FAILED. It reports the state the machine then holds, with the interfaces that are not connected, on a change
  or at the start, and evaluating again at once changes and reports nothing.
\<close>

theorem central_state_follows_connectivity:
  assumes "judged c u" and "\<not> recovering u" and "evaluate_central_state now from_start u = (status, events, u')"
  shows "cm_cur (un_machine u') =
      (if \<forall>e \<in> clients_of c. entry_connected e \<and> is_callback_alive now (en_client e) then CentralRunning
       else if \<exists>e \<in> clients_of c. entry_connected e then CentralDegraded else CentralFailed)
    \<and> status = (if un_bus u \<and> (from_start \<or> cm_cur (un_machine u) \<noteq> cm_cur (un_machine u')) then [status_report now c u] else [])
    \<and> evaluate_central_state now False u' = ([], [], u')"
proof -
  note first = evaluation_outcome [OF assms(1,3)]
  have eval: "evaluable (verdict now c u)" using verdict_values [of now c u] by (auto simp: evaluable_def)
  obtain m where u': "u' = u\<lparr>un_machine := m\<rparr>" using first by blast
  have again: "judged c u'" using assms(1) first eval by (auto simp: judged_def u')
  obtain st evs u'' where e: "evaluate_central_state now False u' = (st, evs, u'')" by (metis prod_cases3)
  have "verdict now c u' = cm_cur (un_machine u')" using first by (simp add: u' verdict_machine)
  with evaluation_outcome [OF again e] have "st = [] \<and> evs = [] \<and> u'' = u'" by simp
  with e have "evaluate_central_state now False u' = ([], [], u')" by simp
  moreover have "status = (if un_bus u \<and> (from_start \<or> cm_cur (un_machine u) \<noteq> verdict now c u) then [status_report now c u] else [])"
    using first by (cases "from_start \<or> cm_cur (un_machine u) \<noteq> verdict now c u") simp_all
  ultimately show ?thesis using first assms(2) by (simp add: verdict_def)
qed

lemma transition_changes: "transition_to now target why opts m = (res, evs, m') \<Longrightarrow> m' \<noteq> m \<Longrightarrow> cm_cur m' = target"
  by (auto simp: transition_to_def Let_def push_history_def split: if_splits option.splits)

lemma evaluation_moves:
  assumes "evaluate_with now from_start name bus ob seen known others m = (status, events, m')" and "m' \<noteq> m"
  shows "cm_cur m' = guarded_state ob \<and> guarded_state ob \<noteq> ob_current ob"
  using assms by (auto simp: evaluate_with_def Let_def split: if_splits prod.splits dest: transition_changes)

text \<open>
  C30. RUNNING is never asked for over a recovery that was seen. Whatever others do between the readings and before
  the transition: if an evaluation moves the machine to RUNNING, then in the state of the coordinator that
  it read, any reachable one, no recovery run held the slot of its interface; every client of the registry was
  connected when that was read, and every callback alive when that was read.
\<close>

theorem running_excludes_recovery:
  assumes "reach recovery_start vstep s"
    and "evaluate_with t from_start name bus (observe_at now listed available active alive m0 (Some (rs_coord s))) seen known others m
      = (status, events, m')"
    and "m' \<noteq> m" and "cm_cur m' = CentralRunning"
  shows "(rs_runs s n = Some r \<longrightarrow> \<not> holds_slot (ru_phase r))
    \<and> (get_client i available = Some e \<longrightarrow> entry_connected e)
    \<and> (get_client i alive = Some e \<longrightarrow> is_callback_alive now (en_client e))"
proof -
  let ?ob = "observe_at now listed available active alive m0 (Some (rs_coord s))"
  have g: "guarded_state ?ob = CentralRunning" "ob_current ?ob \<noteq> CentralRunning" using evaluation_moves [OF assms(2,3)] assms(4) by auto
  then have "\<not> in_recovery (rs_coord s)" and all: "clients_available available" "clients_alive now alive"
    by (auto simp: guarded_state_def connectivity_state_def observe_at_def recovery_active_def split: if_splits)
  then have none: "rc_active (rs_coord s) j = None" for j by (auto simp: in_recovery_def)
  have "\<not> holds_slot (ru_phase r)" if "rs_runs s n = Some r"
  proof
    assume "holds_slot (ru_phase r)"
    with that have "holder (rs_runs s) (ru_interface r) n" by (simp add: holder_def)
    moreover have "recovery_slots s" by (rule slots.reach_inv [OF assms(1)])
    ultimately have "rc_active (rs_coord s) (ru_interface r) = Some n" by (simp add: recovery_slots_def slot_inv_def)
    with none show False by simp
  qed
  moreover have "e \<in> set (list_clients d)" if "get_client i d = Some e" for d
    using that map_of_SomeD [of "cc_items d" i e] by (force simp: get_client_def list_clients_def)
  ultimately show ?thesis
    using all by (auto simp: clients_available_def all_clients_active_def clients_alive_def list_all_iff)
qed

text \<open>Two clients, one connected; and the same central with both connected and an idle coordinator.\<close>

definition connected_client :: "string \<Rightarrow> client_entry" where
  "connected_client i = demo_client\<lparr>en_id := i, en_client := \<lparr>ic_machine = new_client_machine\<lparr>sm_state := ClientConnected\<rparr>, ic_ping_pong = True, ic_last_callback = None\<rparr>\<rparr>"

definition demo_unit :: "client_entry list \<Rightarrow> recovery \<Rightarrow> unit_state" where
  "demo_unit es r = \<lparr>un_name = ''ccu'', un_clients = Some (new_client_coordinator\<lparr>cc_items := map (\<lambda>e. (en_id e, e)) es\<rparr>), un_health = True,
     un_recovery = Some r, un_bus = True, un_machine = (new_central ''ccu'' False)\<lparr>cm_cur := CentralInitializing\<rparr>\<rparr>"

theorem central_state_follows_connectivity_witness:
  "cm_cur (un_machine (snd (snd (evaluate_central_state 0 False (demo_unit [demo_client, connected_client ''BidCos''] (new_recovery ''ccu'')))))) = CentralDegraded"
proof -
  let ?es = "[demo_client, connected_client ''BidCos'']"
  let ?u = "demo_unit ?es (new_recovery ''ccu'')" and ?c = "new_client_coordinator\<lparr>cc_items := map (\<lambda>e. (en_id e, e)) ?es\<rparr>"
  obtain status events u' where e: "evaluate_central_state 0 False ?u = (status, events, u')" by (metis prod_cases3)
  have j: "judged ?c ?u" by (simp add: judged_def demo_unit_def evaluable_def)
  have none: "\<not> recovering ?u"
    by (simp add: recovering_def recovery_active_def demo_unit_def in_recovery_def new_recovery_def new_recovery_with_limit_def)
  have down: "\<not> entry_connected demo_client" and up: "entry_connected (connected_client ''BidCos'')"
    by (simp_all add: entry_connected_def demo_client_def connected_client_def new_client_machine_def)
  have "clients_of ?c = {demo_client, connected_client ''BidCos''}" by (auto simp: clients_of_def)
  with central_state_follows_connectivity [OF j none e, THEN conjunct1] down up
  have "cm_cur (un_machine u') = CentralDegraded" by simp
  then show ?thesis using e by simp
qed

theorem running_excludes_recovery_witness:
  "\<exists>s. reach recovery_start vstep s \<and> cm_cur (un_machine (snd (snd (evaluate_central_state 0 False (demo_unit [connected_client ''HmIP''] (rs_coord s)))))) = CentralRunning
     \<and> entry_connected (connected_client ''HmIP'')"
proof -
  let ?s = "\<lparr>rs_coord = new_recovery_with_limit ''ccu'' 8, rs_runs = Map.empty, rs_next = 0, rs_done = {}, rs_handlers = Map.empty,
     rs_subscribing = 0, rs_ledger = []\<rparr>"
  let ?es = "[connected_client ''HmIP'']"
  let ?u = "demo_unit ?es (rs_coord ?s)" and ?c = "new_client_coordinator\<lparr>cc_items := map (\<lambda>e. (en_id e, e)) ?es\<rparr>"
  let ?m = "un_machine ?u"
  have s: "reach recovery_start vstep ?s" by (rule reach.reach_start) (auto simp: recovery_start_def)
  obtain status events m' where e: "evaluate_with 0 False ''ccu'' True (observe_at 0 ?c ?c ?c ?c ?m (Some (rs_coord ?s)))
      (list_clients ?c) (degraded_interfaces ?m) id ?m = (status, events, m')" by (rule prod_cases3)
  then have ev: "evaluate_central_state 0 False ?u = (status, events, ?u\<lparr>un_machine := m'\<rparr>)"
    by (simp add: evaluate_central_state_def observe_def demo_unit_def)
  have j: "judged ?c ?u" by (simp add: judged_def demo_unit_def evaluable_def)
  have "verdict 0 ?c ?u = CentralRunning"
    by (simp add: verdict_def clients_of_def entry_connected_def demo_client_def connected_client_def new_client_machine_def is_callback_alive_def
        recovering_def recovery_active_def demo_unit_def in_recovery_def new_recovery_with_limit_def)
  then have run: "cm_cur m' = CentralRunning" using evaluation_outcome [OF j ev] by simp
  moreover have "cm_cur ?m = CentralInitializing" by (simp add: demo_unit_def)
  ultimately have "m' \<noteq> ?m" by auto
  note safe = running_excludes_recovery [OF s e this run, of 0 undefined "''HmIP''" "connected_client ''HmIP''"]
  have "get_client ''HmIP'' ?c = Some (connected_client ''HmIP'')" by (simp add: get_client_def connected_client_def)
  with safe run ev s show ?thesis by (intro exI [of _ ?s]) simp
qed

end
