(* ===== verification/Spec2Isabelle.thy ===== *)
theory Spec2Isabelle
  imports Alarm_Recovery Alarm_Code_Laws Alarm_Rules Alarm_Output_Guarantees Circuit_Breaker Central_Machine
    Command_Throttle Command_Retry Request_Coalescer Command_Tracker Ping_Pong Recovery_Guarantees Event_Bus_Guarantees
    Central_Evaluation
begin

text \<open>
  Verification library of openccu-loom, a daemon between Homematic centrals and the rest of a smart
  home. The library models the parts that decide: the local alarm system with its stores, its code plane
  and its output drivers, the reliability parts of the south-bound clients, the lifecycle state machine
  of a central, the recovery of its connections and its event bus. Paths below are relative to \<open>src/\<close>.

  \<^bold>\<open>The program.\<close> The alarm engine (\<open>internal/alarm/engine\<close>) keeps one arm-state machine per zone
  behind one mutex: disarmed, arming, armed, pending, triggered. Sensor events, coded verbs, timer
  callbacks, connectivity changes and reloads enter it; output cycles, journal entries, events and
  rows of the SQLite stores (\<open>internal/store/sqlite/alarm_*.go\<close>) leave it through ports that may
  fail. Codes are verified by the facade of \<open>internal/alarm/codes\<close>. After a restart the engine
  rebuilds every zone from the persisted rows. The output manager (\<open>internal/alarm/outputs\<close>) turns the
  cycles into writes to sirens, switches and sounders, with a budget of acoustic time per incident,
  watchdogs that stop every activation, and shared channels. Calls to a central pass the reliability
  parts (\<open>internal/client/reliability\<close>): throttle, coalescer, circuit breaker and retrier; what was sent
  is kept by the command trackers, and the liveness of the callback channel by the ping-pong tracker.
  Every central has a lifecycle machine (\<open>internal/central/statemachine/central.go\<close>), and a coordinator
  (\<open>internal/central/coordinators/connection_recovery.go\<close>) that walks a pipeline of stages when an interface
  is lost or its breaker opens. The parts of a central talk over its event bus
  (\<open>internal/central/events/bus.go\<close>).

  \<^bold>\<open>The model, theory by theory.\<close>
  \<^item> \<open>Prelude\<close>: clock arithmetic, association lists for Go maps, programs of the state monad with
    their weakest preconditions, transition systems with the interface \<open>invariant_system\<close>.
  \<^item> \<open>Alarm_Types\<close>: enumerations (\<open>pkg/hmenum/alarm.go\<close>), configuration documents
    (\<open>engine/config.go\<close>), source references (\<open>pkg/hmevent/security.go\<close>), rows.
  \<^item> \<open>Alarm_Stores\<close>: the incident, zone-state and source tables with one function per SQL statement;
    the interface \<open>incident_store\<close> and its interpretation \<open>sqlite\<close>.
  \<^item> \<open>Alarm_World\<close>: the zone record (\<open>engine/zone.go\<close>), the world behind the ports with its trace of
    calls, the primitive port calls, timers (\<open>engine/ports.go\<close>, \<open>engine/timers.go\<close>).
  \<^item> \<open>Alarm_Engine\<close>: every handler of one zone (\<open>engine.go\<close>, \<open>readiness.go\<close>, \<open>sensorgate.go\<close>,
    \<open>sources.go\<close>, \<open>walktest.go\<close>, \<open>motionreset.go\<close>). \<open>Alarm_Restore\<close>: the restore table and the
    per-zone half of a reload (\<open>restore.go\<close>, \<open>reload.go\<close>). \<open>Alarm_System\<close>: loading, starting,
    stopping, reloading, the public entry points, and the relation \<open>estep\<close> that interleaves the
    critical sections with callbacks, crashes and a changing environment.
  \<^item> \<open>Alarm_Pins\<close>, \<open>Alarm_Codes\<close>: PIN hashes with their PHC encoding (\<open>pin.go\<close>), rows, candidates, rate
    limiter, verification memo, \<open>Validate\<close> and \<open>MatchDuress\<close> (\<open>facade.go\<close>, \<open>ratelimit.go\<close>,
    \<open>verify_memo.go\<close>).
  \<^item> \<open>Alarm_Outputs\<close>: the output drivers (\<open>internal/alarm/outputs/*.go\<close>): configuration, eligibility, the
    acoustic budget and its ledger, the fire programs, stops with read-back, arbitration of shared
    channels, reconciliation, chirps, test fires, reload. The relation of \<open>Alarm_Output_Laws\<close> runs them in any
    order, each as a whole, with their scheduled callbacks and those that outran their cancellation.
  \<^item> \<open>Circuit_Breaker\<close>: the locked sections of the breaker, their composition, and the relations
    \<open>bstep\<close> and \<open>breset\<close> that interleave any number of calls. \<open>Central_Machine\<close>: the transition graph,
    validated and forced transitions, the history ring buffer; \<open>Ring_Buffer\<close>: the interface \<open>ring_buffer\<close>
    that it and the ping-pong journal interpret.
  \<^item> \<open>Command_Throttle\<close> (\<open>throttle.go\<close>): the semaphore with its priority queue, burst window and gap; the
    relation \<open>tstep\<close> interleaves the passes of any number of callers. \<open>Command_Retry\<close> (\<open>retry.go\<close>): delays,
    supersede slots, and chains of attempts under \<open>rstep\<close>. \<open>Request_Coalescer\<close> (\<open>coalesce.go\<close>): shared
    calls, their participants, runs and deadlines under \<open>costep\<close>. \<open>Command_Tracker\<close> (\<open>command_tracker.go\<close>,
    \<open>in_flight_tracker.go\<close>): values sent, with expiry and eviction. \<open>Ping_Pong\<close> (\<open>pingpong.go\<close>): the two
    tables, their eviction loop, sweep and journal.
  \<^item> \<open>Connection_Recovery\<close> (\<open>connection_recovery.go\<close>, \<open>recovery_stages.go\<close>, \<open>adapter/reconnector.go\<close>): the
    record of the coordinator, its sections under the lock, what a bus handler does, the pipeline, and runs
    as phases; the relation \<open>vstep\<close> interleaves runs, handlers, heartbeats, setters and the stop. It uses the
    states of \<open>Central_Machine\<close> and of \<open>Circuit_Breaker\<close>, whose events trigger it.
  \<^item> \<open>Event_Bus\<close> (\<open>bus.go\<close>, \<open>group.go\<close>): handlers, the registry, the dispatch lock with its queue of deferred
    events, passes, unsubscribing (repeated calls included), clearing, statistics; the relation \<open>ustep\<close> interleaves any number of
    goroutines, which may call the bus from inside a handler.
  \<^item> \<open>Interface_Clients\<close> (\<open>internal/client/state_machine.go\<close>, \<open>coordinators/client.go\<close>, the callback freshness of
    \<open>interface_client.go\<close>): the state machine of a client, its walk along a path with whatever others do between
    the steps, the registry of clients and their creation.
    \<open>Central_Evaluation\<close> (\<open>Start\<close>, \<open>EvaluateCentralState\<close> of \<open>internal/central/central.go\<close>): the judgement on a
    central, over the clients, the recovery coordinator and the machine of the central, each reading of them
    possibly of another moment.

  \<^bold>\<open>What is shown.\<close>
  \<^item> \<open>Alarm_Logic\<close>, \<open>Alarm_Safety\<close>, \<open>Alarm_Restart\<close>, \<open>Alarm_Reach\<close> carry the invariants of zone, world and
    engine through every handler with the program logic \<open>zwp\<close>, and interpret \<open>invariant_system\<close> on the
    engine. \<open>Alarm_Guarantees\<close> states the consequences for every reachable state: no output for a
    silenced incident, counters covered by the store, the zone invariant, a running countdown in every
    transient state.
  \<^item> \<open>Alarm_Effects\<close>, \<open>Alarm_Behaviour\<close>, \<open>Alarm_Arming\<close>, \<open>Alarm_Rules\<close>: a second logic \<open>evp\<close> for what one handler
    does from any zone whatever the ports answer: disarm, silence, accounting before a re-trigger, bounded
    triggering, readiness and the decision to arm, cross-zone confirmation, cancelled callbacks.
  \<^item> \<open>Alarm_Recovery\<close>: restarts. Silence survives, an untrusted clock fires nothing, re-fires are
    accounted for and degraded, persisted rows give back what was persisted.
  \<^item> \<open>Alarm_Code_Laws\<close>: the memo is transparent, successive guesses are throttled, the facade interprets the
    interface \<open>code_authority\<close> the engine's verbs rely on, the duress probe is covert.
  \<^item> \<open>Alarm_Output_Laws\<close>, \<open>Alarm_Budget\<close>, \<open>Alarm_Output_Guarantees\<close>: tones are booked before they sound and
    stay within the budget of the incident, every active output has a stop ahead, stopping a zone leaves
    the channels other zones demand alone, health reports tell the outstanding failures.
  \<^item> \<open>Circuit_Breaker\<close>: one probe at a time, load is shed while open, the breaker recovers.
    \<open>Command_Throttle\<close>: permits are conserved, no waiter is lost, waiters are woken in order.
    \<open>Command_Retry\<close>: one live chain per data point and no channel closed twice, the result of a chain tells
    its last answer, every chain ends, the backoff follows its schedule. \<open>Request_Coalescer\<close>: callers of
    one shared call agree, one execution per key. \<open>Command_Tracker\<close>: it tells the last value sent, and its
    size is bounded. \<open>Ping_Pong\<close>: tables are bounded, no ping is matched twice, a sweep reports exactly
    what expired, the eviction loop drops the oldest entries.
  \<^item> \<open>Recovery_Laws\<close>, \<open>Recovery_Guarantees\<close>: one run per interface and no waiter forgotten, attempts rationed
    by the cap, results that tell what the stages answered, runs that end, exhausted interfaces revived by
    the heartbeat, the capped doubling of the reported delay.
  \<^item> \<open>Event_Bus_Laws\<close>, \<open>Event_Bus_Guarantees\<close>: invariants of the queue, the registry and the in-flight marks;
    events are dispatched once and in the order of their goroutine, the queue is drained, unsubscribing is a
    barrier, handlers are served by priority. A lemma shows how a panicking event wedges it.
  \<^item> \<open>Interface_Clients\<close>: a walk through states is announced once, only authentication failures are retried.
    \<open>Central_Evaluation\<close>: the state of a central follows its clients, and RUNNING is never asked for over a
    recovery that was seen in a reachable state of the coordinator.
  \<^item> \<open>Alarm_Demo\<close>: a small installation and its evaluation by rewriting, for the theorems with
    hypotheses.

  \<^bold>\<open>Modelling decisions.\<close> Time is an \<open>int\<close> of nanoseconds and constant inside one critical section.
  A Go map is an association list; its order stands for the iteration order, so that a statement over
  every list covers every order. JSON columns are empty, undecodable or a document. A port call that
  may fail takes its outcome from a list of faults in the world, over which every theorem quantifies.
  Counters stay \<open>int\<close>: the source bounds them far below the width of its integers. So do durations: those
  a configuration gives in seconds or milliseconds are multiplied without wrap-around, where the source's
  64-bit nanoseconds would wrap beyond 292 years. Lengths and key parameters of the PIN encoding are words.
  A check of a code is one step, and to the engine it is an answer: attempts that overlap, and what the
  facade records of an attempt while a verb runs, are outside the engine's state. No definition needs fuel: loops of the source run over
  rows, zones or sensors and are structural recursions; the re-arming of timers is a sequence of
  steps of \<open>estep\<close>, and \<open>triggering_is_bounded\<close> bounds it; the attempts of a retry chain are steps of
  \<open>rstep\<close>, bounded by \<open>retry_chains_end\<close>, the stages of a recovery steps of \<open>vstep\<close>, bounded by
  \<open>recovery_runs_end\<close>. Code that runs outside a lock is interleaved section by
  section, and a sleep may end at any time, which covers timers that fire late. Parameters for code
  outside the repository and for floating-point arithmetic: the stages of a recovery pipeline (relations
  between what happened meanwhile and the answer), the key derivation of the PINs, the two hash
  functions of the memo, the product of a delay and a factor, the jittered delay, the iteration order of
  a map that is sorted or evicted from.

  \<^bold>\<open>Not modelled.\<close> The wiring of the alarm service, REST, WebSocket, MQTT and Matter surfaces, the device
  model, the other coordinators of a central and the RPC transports; of the reliability parts the constant tables of
  the method classifier and the adapters for incidents and metrics. They are input and output around the
  modelled decisions, table-driven data, or next in line.
\<close>

end
